(* ===== verification/Amio_Prelude.thy ===== *)
theory Amio_Prelude
  imports Main "HOL-Library.Word" "HOL-Library.Multiset"
begin

text \<open>
  Shared material of the AMIO development: the fixed-width integer readings the C++ code relies
  on, the list operations behind \<^verbatim>\<open>std::vector\<close> and \<^verbatim>\<open>std::lower_bound\<close>, and the decimal
  printer behind \<^verbatim>\<open>std::to_string\<close> and \<^verbatim>\<open>%d\<close>.  Nothing here is specific to one component.
\<close>

named_theorems amio_defs \<open>definitions of operations that component proofs unfold\<close>
named_theorems amio_inv \<open>preservation of component invariants\<close>


section \<open>Fixed-width integers\<close>

text \<open>\<^verbatim>\<open>std::size_t\<close> is a natural number below \<open>2 ^ 64\<close>; products and sums reduce modulo \<open>2 ^ 64\<close>.\<close>

definition size_t :: "nat \<Rightarrow> nat" where
  "size_t n = n mod 2 ^ 64"

text \<open>
  \<^verbatim>\<open>std::int64_t\<close> is an integer in \<open>[-2^63, 2^63)\<close>.  Signed overflow is undefined in C++; the
  two's complement value every supported compiler computes without optimisation is \<open>i64\<close>.
\<close>

definition i64 :: "int \<Rightarrow> int" where
  "i64 x = (x + 2 ^ 63) mod 2 ^ 64 - 2 ^ 63"

definition in_i64 :: "int \<Rightarrow> bool" where
  "in_i64 x \<longleftrightarrow> - (2 ^ 63) \<le> x \<and> x < 2 ^ 63"

text \<open>\<^verbatim>\<open>static_cast<std::size_t>\<close> of a signed value.\<close>

definition to_size_t :: "int \<Rightarrow> nat" where
  "to_size_t x = nat (x mod 2 ^ 64)"

lemma size_t_id [simp]: "n < 2 ^ 64 \<Longrightarrow> size_t n = n"
  by (simp add: size_t_def)

lemma size_t_bound [simp]: "size_t n < 2 ^ 64"
  by (simp add: size_t_def)

lemma size_t_mult_left: "size_t (size_t a * b) = size_t (a * b)"
  by (simp add: size_t_def mod_mult_left_eq)

lemma i64_id [simp]: "in_i64 x \<Longrightarrow> i64 x = x"
  by (simp add: i64_def in_i64_def)

lemma in_i64_i64 [simp]: "in_i64 (i64 x)"
proof -
  have "0 \<le> (x + 2 ^ 63) mod 2 ^ 64" and "(x + 2 ^ 63) mod 2 ^ 64 < (2 ^ 64 :: int)"
    by simp_all
  then show ?thesis by (simp add: in_i64_def i64_def)
qed

lemma to_size_t_nonneg: "0 \<le> x \<Longrightarrow> in_i64 x \<Longrightarrow> to_size_t x = nat x"
  by (simp add: to_size_t_def in_i64_def)


section \<open>Vector operations\<close>

text \<open>First index whose element satisfies \<open>P\<close>, or the length when there is none.\<close>

fun find_idx :: "('a \<Rightarrow> bool) \<Rightarrow> 'a list \<Rightarrow> nat" where
  "find_idx P [] = 0"
| "find_idx P (x # xs) = (if P x then 0 else Suc (find_idx P xs))"

lemma find_idx_le: "find_idx P xs \<le> length xs"
  by (induction xs) auto

lemma find_idx_lt_iff: "find_idx P xs < length xs \<longleftrightarrow> (\<exists>x\<in>set xs. P x)"
  by (induction xs) auto

lemma find_idx_sat: "find_idx P xs < length xs \<Longrightarrow> P (xs ! find_idx P xs)"
  by (induction xs) auto

lemma find_idx_before: "j < find_idx P xs \<Longrightarrow> \<not> P (xs ! j)"
  by (induction xs arbitrary: j) (auto simp: nth_Cons split: nat.splits if_splits)

lemma nth_list_update_at: "j < length xs \<Longrightarrow> xs[i := x] ! j = (if i = j then x else xs ! j)"
  by (cases "i < length xs") (auto simp: nth_list_update)

text \<open>\<^verbatim>\<open>v.erase(v.begin() + i)\<close>.\<close>

definition erase_at :: "nat \<Rightarrow> 'a list \<Rightarrow> 'a list" where
  "erase_at i xs = take i xs @ drop (Suc i) xs"

lemma erase_at_decomp: "i < length xs \<Longrightarrow> xs = take i xs @ xs ! i # drop (Suc i) xs"
  by (rule id_take_nth_drop)

lemma length_erase_at [simp]: "i < length xs \<Longrightarrow> length (erase_at i xs) = length xs - 1"
  by (simp add: erase_at_def)

lemma mset_erase_at: "i < length xs \<Longrightarrow> mset xs = add_mset (xs ! i) (mset (erase_at i xs))"
proof -
  assume "i < length xs"
  then have "mset xs = mset (take i xs @ xs ! i # drop (Suc i) xs)"
    using erase_at_decomp by metis
  then show ?thesis by (simp add: erase_at_def)
qed

lemma distinct_erase_at:
  assumes "distinct xs" and "i < length xs"
  shows "distinct (erase_at i xs)" and "set (erase_at i xs) = set xs - {xs ! i}"
proof -
  have "distinct (take i xs @ xs ! i # drop (Suc i) xs)"
    using assms erase_at_decomp by metis
  then show "distinct (erase_at i xs)" by (simp add: erase_at_def)
  have "set xs = set (take i xs @ xs ! i # drop (Suc i) xs)"
    using assms(2) erase_at_decomp by metis
  moreover have "xs ! i \<notin> set (erase_at i xs)"
    using \<open>distinct (take i xs @ xs ! i # drop (Suc i) xs)\<close> by (simp add: erase_at_def)
  ultimately show "set (erase_at i xs) = set xs - {xs ! i}"
    by (auto simp: erase_at_def)
qed

lemma set_erase_at_subset: "set (erase_at i xs) \<subseteq> set xs"
  using set_take_subset [of i xs] set_drop_subset [of "Suc i" xs] by (auto simp: erase_at_def)

lemma sorted_wrt_erase_at: "sorted_wrt R xs \<Longrightarrow> sorted_wrt R (erase_at i xs)"
proof -
  assume s: "sorted_wrt R xs"
  show ?thesis
  proof (cases "i < length xs")
    case True
    then have "xs = take i xs @ xs ! i # drop (Suc i) xs" by (rule erase_at_decomp)
    with s have "sorted_wrt R (take i xs @ xs ! i # drop (Suc i) xs)" by simp
    then show ?thesis by (auto simp: erase_at_def sorted_wrt_append)
  next
    case False
    with s show ?thesis by (simp add: erase_at_def)
  qed
qed

text \<open>
  \<^verbatim>\<open>v.insert(std::lower_bound(v.begin(), v.end(), x, key-less), x)\<close>: on a range sorted by the key,
  \<^verbatim>\<open>lower_bound\<close> is the first element whose key is not below the key of \<open>x\<close>.
\<close>

definition insert_lower_bound :: "('a \<Rightarrow> nat) \<Rightarrow> 'a \<Rightarrow> 'a list \<Rightarrow> 'a list" where
  "insert_lower_bound key x xs =
     takeWhile (\<lambda>y. key y < key x) xs @ x # dropWhile (\<lambda>y. key y < key x) xs"

lemma mset_insert_lower_bound [simp]:
  "mset (insert_lower_bound key x xs) = add_mset x (mset xs)"
proof -
  have "mset (takeWhile P xs) + mset (dropWhile P xs) = mset xs" for P :: "'a \<Rightarrow> bool"
    by (simp flip: mset_append)
  then show ?thesis by (simp add: insert_lower_bound_def)
qed

lemma set_insert_lower_bound [simp]: "set (insert_lower_bound key x xs) = insert x (set xs)"
  by (metis mset_insert_lower_bound set_mset_add_mset_insert set_mset_mset)

lemma distinct_insert_lower_bound [simp]:
  "distinct (insert_lower_bound key x xs) \<longleftrightarrow> x \<notin> set xs \<and> distinct xs"
  by (metis distinct.simps(2) mset.simps(2) mset_eq_imp_distinct_iff mset_insert_lower_bound)

lemma length_insert_lower_bound [simp]: "length (insert_lower_bound key x xs) = Suc (length xs)"
  by (metis mset_insert_lower_bound size_add_mset size_mset)

lemma sorted_insert_lower_bound:
  "sorted_wrt (\<lambda>a b. key a \<le> key b) xs \<Longrightarrow>
   sorted_wrt (\<lambda>a b. key a \<le> key b) (insert_lower_bound key x xs)"
proof (induction xs)
  case Nil
  then show ?case by (simp add: insert_lower_bound_def)
next
  case (Cons y ys)
  then have IH: "sorted_wrt (\<lambda>a b. key a \<le> key b) (insert_lower_bound key x ys)" by simp
  show ?case
  proof (cases "key y < key x")
    case True
    then have "insert_lower_bound key x (y # ys) = y # insert_lower_bound key x ys"
      by (simp add: insert_lower_bound_def)
    with IH Cons.prems True show ?thesis by auto
  next
    case False
    with Cons.prems show ?thesis by (auto simp: insert_lower_bound_def)
  qed
qed

lemma sorted_wrt_cong_on:
  "(\<And>x y. x \<in> set xs \<Longrightarrow> y \<in> set xs \<Longrightarrow> R x y \<longleftrightarrow> Q x y) \<Longrightarrow> sorted_wrt R xs \<longleftrightarrow> sorted_wrt Q xs"
  by (induction xs) auto


section \<open>Decimal printing\<close>

definition digit :: "nat \<Rightarrow> char" where
  "digit d = char_of (48 + d)"

fun show_nat :: "nat \<Rightarrow> string" where
  "show_nat n = (if n < 10 then [digit n] else show_nat (n div 10) @ [digit (n mod 10)])"

declare show_nat.simps [simp del]

text \<open>\<^verbatim>\<open>std::to_string\<close> of a signed integer.\<close>

definition show_int :: "int \<Rightarrow> string" where
  "show_int i = (if i < 0 then CHR ''-'' # show_nat (nat (- i)) else show_nat (nat i))"

definition read_nat :: "string \<Rightarrow> nat" where
  "read_nat s = foldl (\<lambda>a c. a * 10 + (of_char c - 48)) 0 s"

lemma of_char_digit: "d < 10 \<Longrightarrow> of_char (digit d) = 48 + d"
  by (simp add: digit_def)

lemma read_show_nat: "read_nat (show_nat n) = n"
proof (induction n rule: show_nat.induct)
  case (1 n)
  show ?case
  proof (cases "n < 10")
    case True
    then show ?thesis by (simp add: read_nat_def show_nat.simps [of n] of_char_digit)
  next
    case False
    with 1 have "read_nat (show_nat (n div 10)) = n div 10" by simp
    with False show ?thesis
      by (simp add: read_nat_def show_nat.simps [of n] of_char_digit)
  qed
qed

lemma show_nat_inj [simp]: "show_nat m = show_nat n \<longleftrightarrow> m = n"
  using read_show_nat by metis

lemma show_nat_nonempty [simp]: "show_nat n \<noteq> []"
  by (subst show_nat.simps) simp

definition is_digit :: "char \<Rightarrow> bool" where
  "is_digit c \<longleftrightarrow> 48 \<le> (of_char c :: nat) \<and> (of_char c :: nat) < 58"

lemma is_digit_digit: "d < 10 \<Longrightarrow> is_digit (digit d)"
  by (simp add: is_digit_def of_char_digit)

lemma show_nat_digits: "c \<in> set (show_nat n) \<Longrightarrow> is_digit c"
proof (induction n arbitrary: c rule: show_nat.induct)
  case (1 n)
  then show ?case
    by (auto simp: show_nat.simps [of n] is_digit_digit split: if_splits)
qed

lemma minus_no_digit [simp]: "\<not> is_digit (CHR ''-'')"
  by (simp add: is_digit_def)

lemma show_int_chars: "c \<in> set (show_int i) \<Longrightarrow> is_digit c \<or> c = CHR ''-''"
  using show_nat_digits by (auto simp: show_int_def split: if_splits)

lemma minus_notin_show_nat: "CHR ''-'' \<notin> set (show_nat n)"
  using show_nat_digits [of "CHR ''-''" n] by auto

lemma show_int_inj [simp]: "show_int i = show_int j \<longleftrightarrow> i = j"
proof
  assume eq: "show_int i = show_int j"
  have neg: "i < 0 \<longleftrightarrow> CHR ''-'' \<in> set (show_int i)" for i
    using minus_notin_show_nat by (auto simp: show_int_def)
  from eq neg have "i < 0 \<longleftrightarrow> j < 0" by metis
  with eq show "i = j" by (auto simp: show_int_def split: if_splits)
qed simp

lemma show_int_nonempty [simp]: "show_int i \<noteq> []"
  by (simp add: show_int_def)

end
