(* ===== verification/Amio_Types.thy ===== *)
theory Amio_Types
  imports Amio_Prelude
begin

text \<open>
  The public ABI types of \<^verbatim>\<open>include/amio/\<close>: the frozen error enumeration with
  \<^verbatim>\<open>amio_strerror\<close>, the element-type tags, the shape and bounding-box descriptors, and the
  descriptor arithmetic of the C boundary: \<^verbatim>\<open>element_size\<close>, \<^verbatim>\<open>validate_shape\<close>,
  \<^verbatim>\<open>compute_element_count\<close> and \<^verbatim>\<open>validate_bbox\<close>.
\<close>


section \<open>Error codes\<close>

datatype amio_err =
    AMIO_OK | AMIO_ERR_NULL_HANDLE | AMIO_ERR_INVALID_HANDLE | AMIO_ERR_MANIFEST_NOT_FOUND
  | AMIO_ERR_MANIFEST_INVALID | AMIO_ERR_ALREADY_INITIALIZED | AMIO_ERR_FINALIZE_TIMEOUT
  | AMIO_ERR_STAGING_BACKPRESSURE | AMIO_ERR_INVALID_BINDING | AMIO_ERR_COMM_SPLIT_FAILED
  | AMIO_ERR_THREADING_UNSUPPORTED | AMIO_ERR_UNKNOWN_BACKEND | AMIO_ERR_LOSSY_CODEC_FORBIDDEN
  | AMIO_ERR_VIEWS_OUTSTANDING | AMIO_ERR_QUEUE_FULL | AMIO_ERR_TIMEOUT
  | AMIO_ERR_BACKEND_FAILURE | AMIO_ERR_INVALID_INPUT

fun err_code :: "amio_err \<Rightarrow> int" where
  "err_code AMIO_OK = 0"
| "err_code AMIO_ERR_NULL_HANDLE = 1"
| "err_code AMIO_ERR_INVALID_HANDLE = 2"
| "err_code AMIO_ERR_MANIFEST_NOT_FOUND = 3"
| "err_code AMIO_ERR_MANIFEST_INVALID = 4"
| "err_code AMIO_ERR_ALREADY_INITIALIZED = 5"
| "err_code AMIO_ERR_FINALIZE_TIMEOUT = 6"
| "err_code AMIO_ERR_STAGING_BACKPRESSURE = 7"
| "err_code AMIO_ERR_INVALID_BINDING = 8"
| "err_code AMIO_ERR_COMM_SPLIT_FAILED = 9"
| "err_code AMIO_ERR_THREADING_UNSUPPORTED = 10"
| "err_code AMIO_ERR_UNKNOWN_BACKEND = 11"
| "err_code AMIO_ERR_LOSSY_CODEC_FORBIDDEN = 12"
| "err_code AMIO_ERR_VIEWS_OUTSTANDING = 13"
| "err_code AMIO_ERR_QUEUE_FULL = 14"
| "err_code AMIO_ERR_TIMEOUT = 15"
| "err_code AMIO_ERR_BACKEND_FAILURE = 16"
| "err_code AMIO_ERR_INVALID_INPUT = 17"

lemma err_code_range: "0 \<le> err_code e \<and> err_code e < 18"
  by (cases e) simp_all

lemma err_code_inj [simp]: "err_code a = err_code b \<longleftrightarrow> a = b"
  by (cases a; cases b) simp_all

text \<open>The static description table of \<^verbatim>\<open>amio_strerror.cpp\<close>, in slot order.\<close>

definition kAmioErrorTable :: "string list" where
  "kAmioErrorTable =
    [''AMIO_OK: success'',
     ''AMIO_ERR_NULL_HANDLE: null opaque handle'',
     ''AMIO_ERR_INVALID_HANDLE: handle never initialized, finalized, released, or stale (generation mismatch)'',
     ''AMIO_ERR_MANIFEST_NOT_FOUND: manifest path missing or unreadable'',
     ''AMIO_ERR_MANIFEST_INVALID: manifest failed schema validation'',
     ''AMIO_ERR_ALREADY_INITIALIZED: amio_init invoked twice on the same handle'',
     ''AMIO_ERR_FINALIZE_TIMEOUT: finalize drain phase exceeded its 30-second bound'',
     ''AMIO_ERR_STAGING_BACKPRESSURE: no staging buffer became available within the configured staging timeout'',
     ''AMIO_ERR_INVALID_BINDING: requested CPU core or NUMA domain is not present or not permitted'',
     ''AMIO_ERR_COMM_SPLIT_FAILED: MPI communicator split failed or I/O rank set is not a subset of world'',
     ''AMIO_ERR_THREADING_UNSUPPORTED: host did not initialize MPI with at least MPI_THREAD_MULTIPLE'',
     ''AMIO_ERR_UNKNOWN_BACKEND: configuration backend key does not match any registered driver'',
     ''AMIO_ERR_LOSSY_CODEC_FORBIDDEN: requested codec is not on the lossless allow-list'',
     ''AMIO_ERR_VIEWS_OUTSTANDING: dataset close called while one or more Memory_Views are still outstanding'',
     ''AMIO_ERR_QUEUE_FULL: worker queue depth would exceed capacity and backpressure is not configured'',
     ''AMIO_ERR_TIMEOUT: synchronous wait, flush, or read exceeded its configured timeout'',
     ''AMIO_ERR_BACKEND_FAILURE: backend driver reported a serialization or deserialization failure'',
     ''AMIO_ERR_INVALID_INPUT: null host pointer, unsupported dtype, or invalid shape descriptor'']"

definition kUnknownBufferBytes :: nat where
  "kUnknownBufferBytes = 64"

text \<open>\<^verbatim>\<open>snprintf\<close> into a buffer of \<open>n\<close> bytes keeps at most \<open>n - 1\<close> characters before the NUL.\<close>

definition snprintf_body :: "nat \<Rightarrow> string \<Rightarrow> string" where
  "snprintf_body n s = take (n - 1) s"

definition amio_strerror :: "int \<Rightarrow> string" where
  "amio_strerror err =
     (if 0 \<le> err \<and> nat err < length kAmioErrorTable then kAmioErrorTable ! nat err
      else snprintf_body kUnknownBufferBytes (''AMIO_ERR_UNKNOWN('' @ show_int err @ '')''))"


section \<open>Element types\<close>

datatype amio_dtype =
    AMIO_DTYPE_F32 | AMIO_DTYPE_F64 | AMIO_DTYPE_I8 | AMIO_DTYPE_I16 | AMIO_DTYPE_I32
  | AMIO_DTYPE_I64 | AMIO_DTYPE_U8 | AMIO_DTYPE_U16 | AMIO_DTYPE_U32 | AMIO_DTYPE_U64
  | AMIO_DTYPE_OTHER int \<comment> \<open>an integer outside the enumeration, which the C ABI lets a host pass\<close>

fun element_size :: "amio_dtype \<Rightarrow> nat" where
  "element_size AMIO_DTYPE_F32 = 4"
| "element_size AMIO_DTYPE_F64 = 8"
| "element_size AMIO_DTYPE_I8 = 1"
| "element_size AMIO_DTYPE_I16 = 2"
| "element_size AMIO_DTYPE_I32 = 4"
| "element_size AMIO_DTYPE_I64 = 8"
| "element_size AMIO_DTYPE_U8 = 1"
| "element_size AMIO_DTYPE_U16 = 2"
| "element_size AMIO_DTYPE_U32 = 4"
| "element_size AMIO_DTYPE_U64 = 8"
| "element_size (AMIO_DTYPE_OTHER _) = 0"

lemma element_size_le: "element_size d \<le> 8"
  by (cases d) simp_all


section \<open>Shapes and bounding boxes\<close>

definition AMIO_MAX_RANK :: nat where
  "AMIO_MAX_RANK = 7"

text \<open>The two descriptors; their arrays are the C arrays of \<^verbatim>\<open>AMIO_MAX_RANK\<close> entries.\<close>

record amio_shape =
  sh_rank :: int
  sh_extents :: "int list"
  sh_strides :: "int list"

record amio_bbox =
  bb_rank :: int
  bb_offsets :: "int list"
  bb_extents :: "int list"
  bb_strides :: "int list"

definition zeros :: "int list" where
  "zeros = replicate AMIO_MAX_RANK 0"

definition empty_shape :: amio_shape where
  "empty_shape = \<lparr>sh_rank = 0, sh_extents = zeros, sh_strides = zeros\<rparr>"

definition dims :: "amio_shape \<Rightarrow> int list" where
  "dims s = take (nat (sh_rank s)) (sh_extents s)"

definition wf_shape :: "amio_shape \<Rightarrow> bool" where
  "wf_shape s \<longleftrightarrow> length (sh_extents s) = AMIO_MAX_RANK \<and> length (sh_strides s) = AMIO_MAX_RANK
     \<and> list_all in_i64 (sh_extents s) \<and> list_all in_i64 (sh_strides s)"

definition wf_bbox :: "amio_bbox \<Rightarrow> bool" where
  "wf_bbox b \<longleftrightarrow> length (bb_offsets b) = AMIO_MAX_RANK \<and> length (bb_extents b) = AMIO_MAX_RANK
     \<and> length (bb_strides b) = AMIO_MAX_RANK \<and> list_all in_i64 (bb_offsets b)
     \<and> list_all in_i64 (bb_extents b) \<and> list_all in_i64 (bb_strides b)"

text \<open>\<^verbatim>\<open>validate_shape\<close>: rank in \<open>[1, 7]\<close>, every in-range extent strictly positive.\<close>

definition validate_shape :: "amio_shape \<Rightarrow> bool" where
  "validate_shape s \<longleftrightarrow>
     \<not> (sh_rank s < 1 \<or> sh_rank s > int AMIO_MAX_RANK) \<and> list_all (\<lambda>e. \<not> e \<le> 0) (dims s)"

text \<open>\<^verbatim>\<open>compute_element_count\<close>: the \<^verbatim>\<open>size_t\<close> product, reduced at every step.\<close>

definition compute_element_count :: "amio_shape \<Rightarrow> nat" where
  "compute_element_count s = foldl (\<lambda>count e. size_t (count * to_size_t e)) 1 (dims s)"

text \<open>The mathematical element count of a shape.\<close>

definition elements :: "int list \<Rightarrow> nat" where
  "elements ds = prod_list (map nat ds)"

lemma foldl_count:
  "list_all (\<lambda>e. 0 < e \<and> in_i64 e) ds \<Longrightarrow>
   foldl (\<lambda>count e. size_t (count * to_size_t e)) (size_t c) ds = size_t (c * elements ds)"
proof (induction ds arbitrary: c)
  case Nil
  then show ?case by (simp add: elements_def)
next
  case (Cons e ds)
  have step: "size_t (size_t c * to_size_t e) = size_t (c * nat e)"
    using Cons.prems by (simp add: size_t_mult_left to_size_t_nonneg)
  have IH: "foldl (\<lambda>count e. size_t (count * to_size_t e)) (size_t (c * nat e)) ds
      = size_t (c * nat e * elements ds)"
    using Cons.prems by (intro Cons.IH) simp
  show ?case
    by (simp only: foldl_Cons step IH) (simp add: elements_def mult.assoc)
qed

lemma validate_shape_dims:
  assumes "validate_shape s" and "wf_shape s"
  shows "list_all (\<lambda>e. 0 < e \<and> in_i64 e) (dims s)"
proof -
  have "set (dims s) \<subseteq> set (sh_extents s)"
    unfolding dims_def by (rule set_take_subset)
  with assms show ?thesis by (auto simp: validate_shape_def wf_shape_def list_all_iff)
qed

lemma compute_element_count_eq:
  assumes "validate_shape s" and "wf_shape s"
  shows "compute_element_count s = size_t (elements (dims s))"
  using foldl_count [OF validate_shape_dims [OF assms], of 1]
  by (simp add: compute_element_count_def)

lemma elements_pos: "list_all (\<lambda>e. 0 < e) ds \<Longrightarrow> 0 < elements ds"
  by (induction ds) (auto simp: elements_def)


subsection \<open>Bounding-box validation\<close>

text \<open>
  One dimension of the loop of \<^verbatim>\<open>validate_bbox\<close>; \<open>last\<close> is computed in 64-bit arithmetic.
  \<open>None\<close> means the dimension passes.
\<close>

definition bbox_last :: "int \<Rightarrow> int \<Rightarrow> int \<Rightarrow> int" where
  "bbox_last off ext stride = i64 (off + i64 (i64 (ext - 1) * stride))"

definition bbox_dim_error :: "amio_bbox \<Rightarrow> amio_shape \<Rightarrow> nat \<Rightarrow> amio_err option" where
  "bbox_dim_error b s d =
     (if bb_strides b ! d < 1 then Some AMIO_ERR_INVALID_INPUT
      else if bb_offsets b ! d < 0 then Some AMIO_ERR_INVALID_INPUT
      else if bb_extents b ! d < 1
              \<or> bbox_last (bb_offsets b ! d) (bb_extents b ! d) (bb_strides b ! d) \<ge> sh_extents s ! d
      then Some AMIO_ERR_INVALID_INPUT
      else None)"

fun first_error :: "(nat \<Rightarrow> amio_err option) \<Rightarrow> nat list \<Rightarrow> amio_err" where
  "first_error f [] = AMIO_OK"
| "first_error f (d # ds) = (case f d of Some e \<Rightarrow> e | None \<Rightarrow> first_error f ds)"

definition validate_bbox :: "amio_bbox option \<Rightarrow> amio_shape \<Rightarrow> amio_err" where
  "validate_bbox bo s =
     (case bo of
        None \<Rightarrow> AMIO_OK
      | Some b \<Rightarrow>
          if bb_rank b \<noteq> sh_rank s then AMIO_ERR_INVALID_INPUT
          else first_error (bbox_dim_error b s) [0..<nat (bb_rank b)])"

text \<open>The indices dimension \<open>d\<close> of a box selects.\<close>

definition bbox_index :: "amio_bbox \<Rightarrow> nat \<Rightarrow> nat \<Rightarrow> int" where
  "bbox_index b d k = bb_offsets b ! d + int k * bb_strides b ! d"

text \<open>The last index of a dimension, as a mathematical integer, stays below \<open>2 ^ 63\<close>.\<close>

definition bbox_no_overflow :: "amio_bbox \<Rightarrow> bool" where
  "bbox_no_overflow b \<longleftrightarrow>
     (\<forall>d < nat (bb_rank b). bb_offsets b ! d + (bb_extents b ! d - 1) * bb_strides b ! d < 2 ^ 63)"

lemma first_error_OK:
  assumes "\<And>d. f d \<noteq> Some AMIO_OK"
  shows "first_error f ds = AMIO_OK \<longleftrightarrow> (\<forall>d\<in>set ds. f d = None)"
  using assms by (induction ds) (auto split: option.splits)

lemma bbox_dim_error_not_OK: "bbox_dim_error b s d \<noteq> Some AMIO_OK"
  by (simp add: bbox_dim_error_def)

lemma bbox_last_exact:
  assumes "0 \<le> off" and "1 \<le> ext" and "1 \<le> stride" and "off + (ext - 1) * stride < 2 ^ 63"
  shows "bbox_last off ext stride = off + (ext - 1) * stride"
proof -
  have p: "0 \<le> (ext - 1) * stride" using assms by simp
  have "ext - 1 \<le> (ext - 1) * stride" using assms mult_left_mono [of 1 stride "ext - 1"] by simp
  with assms p have "in_i64 (ext - 1)" and "in_i64 ((ext - 1) * stride)"
    and "in_i64 (off + (ext - 1) * stride)"
    by (simp_all add: in_i64_def)
  then show ?thesis by (simp add: bbox_last_def)
qed

lemma validate_bbox_range:
  "validate_bbox bo s \<in> {AMIO_OK, AMIO_ERR_INVALID_INPUT}"
proof -
  have "first_error (bbox_dim_error b s) ds \<in> {AMIO_OK, AMIO_ERR_INVALID_INPUT}" for b ds
    by (induction ds) (auto simp: bbox_dim_error_def split: option.splits if_splits)
  then show ?thesis by (simp add: validate_bbox_def split: option.split)
qed


section \<open>Properties\<close>

lemma length_show_nat: "n < 10 ^ k \<Longrightarrow> 0 < k \<Longrightarrow> length (show_nat n) \<le> k"
proof (induction k arbitrary: n)
  case (Suc k)
  show ?case
  proof (cases "n < 10")
    case True
    then show ?thesis by (simp add: show_nat.simps [of n])
  next
    case False
    then have k: "0 < k" using Suc.prems by (cases k) auto
    have "length (show_nat (n div 10)) \<le> k"
      using Suc.prems by (intro Suc.IH k) (simp add: less_mult_imp_div_less mult.commute)
    with False show ?thesis by (simp add: show_nat.simps [of n])
  qed
qed simp

lemma unknown_code_fits:
  assumes "- (2 ^ 31) \<le> err" and "err < 2 ^ 31"
  shows "snprintf_body kUnknownBufferBytes (''AMIO_ERR_UNKNOWN('' @ show_int err @ '')'')
    = ''AMIO_ERR_UNKNOWN('' @ show_int err @ '')''"
proof -
  have "\<bar>err\<bar> < 10 ^ 10" using assms by (simp add: abs_if)
  then have "nat \<bar>err\<bar> < 10 ^ 10" by (simp add: nat_less_iff)
  from length_show_nat [OF this] have "length (show_int err) \<le> 11"
    by (auto simp: show_int_def abs_if)
  then show ?thesis by (simp add: snprintf_body_def kUnknownBufferBytes_def)
qed

lemma table_prefix_free:
  "distinct kAmioErrorTable \<and> (\<forall>s\<in>set kAmioErrorTable. take 17 s \<noteq> ''AMIO_ERR_UNKNOWN('')"
  by code_simp

text \<open>
  Every status code has its own description: \<^verbatim>\<open>amio_strerror\<close> is injective on all 32-bit values,
  defined and undefined ones, so no two codes are described alike and the number of an unknown
  code is never cut off by the thread-local buffer.
\<close>

theorem amio_strerror_injective:
  "inj_on amio_strerror {- (2 ^ 31) ..< 2 ^ 31}"
proof (rule inj_onI)
  let ?unk = "\<lambda>e. ''AMIO_ERR_UNKNOWN('' @ show_int e @ '')''"
  let ?known = "\<lambda>e. 0 \<le> e \<and> nat e < length kAmioErrorTable"
  have known: "amio_strerror e = kAmioErrorTable ! nat e" if "?known e" for e
    using that by (simp add: amio_strerror_def)
  have unknown: "amio_strerror e = ?unk e" if "\<not> ?known e" "e \<in> {- (2 ^ 31) ..< 2 ^ 31}" for e
    using that unknown_code_fits [of e] by (auto simp: amio_strerror_def)
  have sep: "kAmioErrorTable ! nat e \<noteq> ?unk e'" if "?known e" for e e'
  proof
    assume eq: "kAmioErrorTable ! nat e = ?unk e'"
    have "kAmioErrorTable ! nat e \<in> set kAmioErrorTable" using that by simp
    with table_prefix_free have "take 17 (kAmioErrorTable ! nat e) \<noteq> ''AMIO_ERR_UNKNOWN(''" by blast
    with eq show False by simp
  qed
  fix a b
  assume ab: "a \<in> {- (2 ^ 31) ..< (2 ^ 31 :: int)}" "b \<in> {- (2 ^ 31) ..< 2 ^ 31}"
    "amio_strerror a = amio_strerror b"
  show "a = b"
  proof (cases "?known a"; cases "?known b")
    assume "?known a" "?known b"
    with ab(3) table_prefix_free show ?thesis by (auto simp: known nth_eq_iff_index_eq)
  next
    assume "?known a" "\<not> ?known b"
    with ab sep show ?thesis by (auto simp: known unknown)
  next
    assume "\<not> ?known a" "?known b"
    with ab sep show ?thesis by (metis known unknown)
  next
    assume "\<not> ?known a" "\<not> ?known b"
    with ab have "?unk a = ?unk b" using unknown [of a] unknown [of b] by metis
    then show ?thesis by simp
  qed
qed

lemma bbox_dim_error_None:
  assumes "bb_offsets b ! d + (bb_extents b ! d - 1) * bb_strides b ! d < 2 ^ 63"
  shows "bbox_dim_error b s d = None \<longleftrightarrow>
    1 \<le> bb_strides b ! d \<and> 0 \<le> bb_offsets b ! d \<and> 1 \<le> bb_extents b ! d
    \<and> bb_offsets b ! d + (bb_extents b ! d - 1) * bb_strides b ! d < sh_extents s ! d"
  using bbox_last_exact [of "bb_offsets b ! d" "bb_extents b ! d" "bb_strides b ! d"] assms
  by (auto simp: bbox_dim_error_def)

text \<open>The last index bounds all the others.\<close>

lemma bbox_index_bounds:
  assumes "1 \<le> bb_strides b ! d" and "0 \<le> bb_offsets b ! d" and "k < nat (bb_extents b ! d)"
  shows "0 \<le> bbox_index b d k"
    and "bbox_index b d k \<le> bb_offsets b ! d + (bb_extents b ! d - 1) * bb_strides b ! d"
proof -
  show "0 \<le> bbox_index b d k" using assms by (simp add: bbox_index_def)
  have "int k * bb_strides b ! d \<le> (bb_extents b ! d - 1) * bb_strides b ! d"
    using assms by (intro mult_right_mono) linarith+
  then show "bbox_index b d k \<le> bb_offsets b ! d + (bb_extents b ! d - 1) * bb_strides b ! d"
    by (simp add: bbox_index_def)
qed

text \<open>
  C17.  Bounding-box validation is exact as long as no selected index reaches 2^63: a box is accepted
  if and only if its rank is the variable's, its strides and extents are positive, its offsets are
  non-negative and every element it selects lies inside the variable.
\<close>

theorem validate_bbox_exact:
  assumes "bbox_no_overflow b"
  shows "validate_bbox (Some b) s = AMIO_OK \<longleftrightarrow>
    bb_rank b = sh_rank s
    \<and> (\<forall>d < nat (bb_rank b). 1 \<le> bb_strides b ! d \<and> 0 \<le> bb_offsets b ! d \<and> 1 \<le> bb_extents b ! d
        \<and> (\<forall>k < nat (bb_extents b ! d). 0 \<le> bbox_index b d k \<and> bbox_index b d k < sh_extents s ! d))"
    (is "_ \<longleftrightarrow> _ \<and> (\<forall>d < _. ?sel d)")
proof -
  have "bbox_dim_error b s d = None \<longleftrightarrow> ?sel d" if d: "d < nat (bb_rank b)" for d
  proof -
    let ?last = "bb_offsets b ! d + (bb_extents b ! d - 1) * bb_strides b ! d"
    have nov: "?last < 2 ^ 63" using assms d by (simp add: bbox_no_overflow_def)
    have "?last < sh_extents s ! d"
      if "1 \<le> bb_extents b ! d" and all: "\<forall>k < nat (bb_extents b ! d). bbox_index b d k < sh_extents s ! d"
    proof -
      have "bbox_index b d (nat (bb_extents b ! d - 1)) < sh_extents s ! d"
        using all that(1) by (simp add: nat_less_eq_zless)
      then show ?thesis using that(1) by (simp add: bbox_index_def)
    qed
    moreover have "bbox_index b d k < sh_extents s ! d"
      if "1 \<le> bb_strides b ! d" "0 \<le> bb_offsets b ! d" "k < nat (bb_extents b ! d)" "?last < sh_extents s ! d" for k
      using bbox_index_bounds(2) [OF that(1-3)] that(4) by linarith
    ultimately show ?thesis
      unfolding bbox_dim_error_None [OF nov] using bbox_index_bounds(1) by blast
  qed
  then show ?thesis
    by (auto simp: validate_bbox_def first_error_OK [OF bbox_dim_error_not_OK])
qed

theorem validate_bbox_exact_witness:
  "validate_bbox (Some \<lparr>bb_rank = 1, bb_offsets = 1 # zeros, bb_extents = 2 # zeros, bb_strides = 3 # zeros\<rparr>)
     \<lparr>sh_rank = 1, sh_extents = 5 # zeros, sh_strides = zeros\<rparr> = AMIO_OK"
  (is "validate_bbox (Some ?b) ?s = _")
proof -
  have "bbox_no_overflow ?b" by (simp add: bbox_no_overflow_def)
  from validate_bbox_exact [OF this, of ?s] show ?thesis by (auto simp: bbox_index_def)
qed

text \<open>
  Outside that range the 64-bit arithmetic of \<^verbatim>\<open>validate_bbox\<close> wraps around and the check is
  unsound: there is a well-formed box that is accepted for a variable of ten elements although it
  selects indices far beyond it.
\<close>

theorem validate_bbox_overflow:
  "\<exists>b s. wf_bbox b \<and> wf_shape s \<and> sh_extents s ! 0 = 10 \<and> validate_bbox (Some b) s = AMIO_OK
    \<and> bbox_index b 0 (nat (bb_extents b ! 0 - 1)) = 2 ^ 64"
proof (intro exI conjI)
  let ?b = "\<lparr>bb_rank = 1, bb_offsets = [0,0,0,0,0,0,0], bb_extents = [2 ^ 62 + 1,0,0,0,0,0,0],
    bb_strides = [4,0,0,0,0,0,0]\<rparr>"
  let ?s = "\<lparr>sh_rank = 1, sh_extents = [10,0,0,0,0,0,0], sh_strides = [0,0,0,0,0,0,0]\<rparr>"
  show "wf_bbox ?b" and "wf_shape ?s" by (simp_all add: wf_bbox_def wf_shape_def AMIO_MAX_RANK_def in_i64_def)
  show "sh_extents ?s ! 0 = 10" by simp
  show "validate_bbox (Some ?b) ?s = AMIO_OK"
    by (simp add: validate_bbox_def bbox_dim_error_def bbox_last_def i64_def)
  show "bbox_index ?b 0 (nat (bb_extents ?b ! 0 - 1)) = 2 ^ 64" by (simp add: bbox_index_def)
qed

text \<open>
  The element count of an accepted shape is the product of its extents whenever that product is
  below 2^64; it is then at least one, so a payload is never empty by accident.
\<close>

theorem element_count_exact:
  assumes "validate_shape s" and "wf_shape s" and "elements (dims s) < 2 ^ 64"
  shows "compute_element_count s = elements (dims s) \<and> 1 \<le> compute_element_count s
    \<and> length (dims s) = nat (sh_rank s) \<and> 1 \<le> sh_rank s \<and> sh_rank s \<le> 7"
proof -
  have c: "compute_element_count s = elements (dims s)"
    using compute_element_count_eq [OF assms(1,2)] assms(3) by simp
  moreover have "0 < elements (dims s)"
    using validate_shape_dims [OF assms(1,2)] by (intro elements_pos) (simp add: list_all_iff)
  moreover have "1 \<le> sh_rank s" "sh_rank s \<le> 7" "length (dims s) = nat (sh_rank s)"
    using assms(1,2) by (auto simp: validate_shape_def wf_shape_def dims_def AMIO_MAX_RANK_def)
  ultimately show ?thesis by simp
qed

theorem element_count_exact_witness:
  "compute_element_count \<lparr>sh_rank = 2, sh_extents = [3,4,0,0,0,0,0], sh_strides = [0,0,0,0,0,0,0]\<rparr> = 12"
  using element_count_exact [of "\<lparr>sh_rank = 2, sh_extents = [3,4,0,0,0,0,0], sh_strides = [0,0,0,0,0,0,0]\<rparr>"]
  by (simp add: validate_shape_def wf_shape_def dims_def elements_def AMIO_MAX_RANK_def in_i64_def
      take_Cons')

end
