(* ===== verification/Handle_Table.thy ===== *)
theory Handle_Table
  imports Amio_Types
begin

text \<open>
  The opaque-handle table of \<^verbatim>\<open>src/c_boundary/handle_table.{hpp,cpp}\<close>: generation-stamped slots,
  64-bit tokens (slot index in the high half, generation in the low half), and a free list used as
  a stack.  The interface the C boundary relies on is the locale \<open>handle_store\<close>: a finite map from
  live tokens to a kind and a payload pointer.
\<close>

unbundle bit_operations_syntax


section \<open>Tokens\<close>

type_synonym token = "64 word"

definition kMinGeneration :: "32 word" where
  "kMinGeneration = 1"

definition pack :: "32 word \<Rightarrow> 32 word \<Rightarrow> token" where
  "pack slot generation = push_bit 32 (ucast slot) OR ucast generation"

definition unpack_slot :: "token \<Rightarrow> 32 word" where
  "unpack_slot t = ucast (drop_bit 32 t)"

definition unpack_generation :: "token \<Rightarrow> 32 word" where
  "unpack_generation t = ucast (t AND 0xFFFFFFFF)"

lemma mask32: "(0xFFFFFFFF :: 64 word) = mask 32"
  by (simp add: mask_eq_exp_minus_1)

lemma unpack_pack [simp]:
  "unpack_slot (pack s g) = s" "unpack_generation (pack s g) = g"
proof -
  show "unpack_slot (pack s g) = s"
    by (rule bit_word_eqI)
      (auto simp: unpack_slot_def pack_def bit_simps dest: bit_imp_le_length)
  show "unpack_generation (pack s g) = g"
    by (rule bit_word_eqI)
      (auto simp: unpack_generation_def pack_def mask32 bit_simps dest: bit_imp_le_length)
qed

lemma pack_unpack [simp]: "pack (unpack_slot t) (unpack_generation t) = t"
  by (rule bit_word_eqI) (auto simp: unpack_slot_def unpack_generation_def pack_def mask32 bit_simps
      dest: bit_imp_le_length)

lemma pack_eq_iff: "pack s g = pack s' g' \<longleftrightarrow> s = s' \<and> g = g'"
  by (metis unpack_pack)

lemma pack_nonzero: "g \<noteq> 0 \<Longrightarrow> pack s g \<noteq> 0"
  using unpack_pack(2) [of s g] by (auto simp: unpack_generation_def)


section \<open>The table\<close>

datatype handle_kind = Core | Dataset | Io | View

record 'p slot =
  generation :: "32 word"
  live :: bool
  kind :: handle_kind
  payload :: "'p option" \<comment> \<open>\<open>None\<close> is the null pointer\<close>

record 'p handle_table =
  slots :: "'p slot list"
  free_list :: "nat list" \<comment> \<open>\<^verbatim>\<open>back()\<close> is the last element\<close>

definition ht_empty :: "'p handle_table" where
  "ht_empty = \<lparr>slots = [], free_list = []\<rparr>"

text \<open>The tail of \<^verbatim>\<open>insert\<close>: bind the payload to the chosen slot and mint its token.\<close>

definition bind_slot :: "nat \<Rightarrow> handle_kind \<Rightarrow> 'p option \<Rightarrow> 'p handle_table \<Rightarrow> token \<times> 'p handle_table" where
  "bind_slot i k p t =
     (let s = slots t ! i
      in (pack (of_nat i) (generation s),
          t\<lparr>slots := (slots t)[i := s\<lparr>live := True, kind := k, payload := p\<rparr>]\<rparr>))"

definition fresh_slot :: "'p slot" where
  "fresh_slot = \<lparr>generation = kMinGeneration, live = False, kind = Core, payload = None\<rparr>"

definition ht_insert :: "handle_kind \<Rightarrow> 'p option \<Rightarrow> 'p handle_table \<Rightarrow> token \<times> 'p handle_table" where
  "ht_insert k p t =
     (if free_list t \<noteq> [] then
        bind_slot (last (free_list t)) k p (t\<lparr>free_list := butlast (free_list t)\<rparr>)
      else if length (slots t) \<ge> 2 ^ 32 - 1 then (0, t)
      else bind_slot (length (slots t)) k p (t\<lparr>slots := slots t @ [fresh_slot]\<rparr>))"

text \<open>
  \<^verbatim>\<open>lookup\<close>; \<open>out_given\<close> says whether the caller passed an out pointer.  The second component is
  what the call stores there.
\<close>

definition ht_lookup :: "token \<Rightarrow> handle_kind \<Rightarrow> bool \<Rightarrow> 'p handle_table \<Rightarrow> amio_err \<times> 'p option" where
  "ht_lookup tok expected out_given t =
     (if \<not> out_given then (AMIO_ERR_INVALID_INPUT, None)
      else if tok = 0 then (AMIO_ERR_NULL_HANDLE, None)
      else let i = unat (unpack_slot tok); g = unpack_generation tok
        in if i \<ge> length (slots t) then (AMIO_ERR_INVALID_HANDLE, None)
           else let s = slots t ! i
             in if \<not> live s \<or> generation s \<noteq> g then (AMIO_ERR_INVALID_HANDLE, None)
                else if kind s \<noteq> expected then (AMIO_ERR_INVALID_HANDLE, None)
                else (AMIO_OK, payload s))"

text \<open>\<^verbatim>\<open>generation += 1\<close>, skipping 0 on wrap-around.\<close>

definition next_generation :: "32 word \<Rightarrow> 32 word" where
  "next_generation g = (if g + 1 = 0 then kMinGeneration else g + 1)"

definition ht_release :: "token \<Rightarrow> handle_kind \<Rightarrow> 'p handle_table \<Rightarrow> amio_err \<times> 'p handle_table" where
  "ht_release tok expected t =
     (if tok = 0 then (AMIO_ERR_NULL_HANDLE, t)
      else let i = unat (unpack_slot tok); g = unpack_generation tok
        in if i \<ge> length (slots t) then (AMIO_ERR_INVALID_HANDLE, t)
           else let s = slots t ! i
             in if \<not> live s \<or> generation s \<noteq> g \<or> kind s \<noteq> expected then (AMIO_ERR_INVALID_HANDLE, t)
                else (AMIO_OK,
                  t\<lparr>slots := (slots t)[i := s\<lparr>live := False, payload := None,
                                             generation := next_generation (generation s)\<rparr>],
                    free_list := free_list t @ [i]\<rparr>))"

definition size_for_test :: "'p handle_table \<Rightarrow> nat" where
  "size_for_test t = length (slots t) - length (free_list t)"


section \<open>Invariant and abstraction\<close>

definition ht_inv :: "'p handle_table \<Rightarrow> bool" where
  "ht_inv t \<longleftrightarrow>
     length (slots t) \<le> 2 ^ 32 - 1 \<and> distinct (free_list t) \<and> set (free_list t) \<subseteq> {..<length (slots t)}
     \<and> (\<forall>i < length (slots t). (live (slots t ! i) \<longleftrightarrow> i \<notin> set (free_list t))
          \<and> generation (slots t ! i) \<noteq> 0)"

text \<open>The contents of the table: live tokens with their kind and payload.\<close>

definition ht_abs :: "'p handle_table \<Rightarrow> token \<Rightarrow> (handle_kind \<times> 'p option) option" where
  "ht_abs t tok =
     (let i = unat (unpack_slot tok)
      in if i < length (slots t) \<and> live (slots t ! i) \<and> generation (slots t ! i) = unpack_generation tok
         then Some (kind (slots t ! i), payload (slots t ! i)) else None)"

lemma ht_inv_empty: "ht_inv ht_empty"
  by (simp add: ht_inv_def ht_empty_def)

lemma of_nat_unat_id: "of_nat (unat w) = (w :: 'a::len word)"
  by simp

lemma unat_of_nat_slot [simp]: "i < 2 ^ 32 \<Longrightarrow> unat (of_nat i :: 32 word) = i"
  by (simp add: unat_of_nat)

lemma next_generation_nonzero [simp]: "next_generation g \<noteq> 0"
  by (simp add: next_generation_def kMinGeneration_def)

text \<open>A token is determined by its slot index and generation.\<close>

lemma token_eq_iff:
  "tok = pack (of_nat i) g \<longleftrightarrow> unat (unpack_slot tok) = i \<and> unpack_generation tok = g"
  if "i < 2 ^ 32"
proof
  assume "unat (unpack_slot tok) = i \<and> unpack_generation tok = g"
  then have "of_nat i = unpack_slot tok" and "g = unpack_generation tok"
    using of_nat_unat_id [of "unpack_slot tok"] by simp_all
  then show "tok = pack (of_nat i) g" by simp
qed (use that in simp)

lemma ht_abs_zero: "ht_inv t \<Longrightarrow> ht_abs t 0 = None"
  by (auto simp: ht_abs_def ht_inv_def Let_def unpack_generation_def)

text \<open>Binding slot \<open>i\<close>, which is not live, adds exactly its token to the contents.\<close>

lemma bind_slot_spec:
  assumes "i < length (slots t)" and "\<not> live (slots t ! i)" and "generation (slots t ! i) \<noteq> 0"
    and "length (slots t) \<le> 2 ^ 32 - 1" and "bind_slot i k p t = (tok, t')"
  shows "tok \<noteq> 0" and "ht_abs t tok = None" and "ht_abs t' = (ht_abs t)(tok \<mapsto> (k, p))"
proof -
  have i: "i < 2 ^ 32" using assms(1,4) by simp
  have tok: "tok = pack (of_nat i) (generation (slots t ! i))"
    and t': "t' = t\<lparr>slots := (slots t)[i := (slots t ! i)\<lparr>live := True, kind := k, payload := p\<rparr>]\<rparr>"
    using assms(5) by (auto simp: bind_slot_def Let_def)
  show "tok \<noteq> 0" using tok assms(3) by (simp add: pack_nonzero)
  show "ht_abs t tok = None" using tok i assms(2) by (simp add: ht_abs_def)
  show "ht_abs t' = (ht_abs t)(tok \<mapsto> (k, p))"
  proof
    fix u
    show "ht_abs t' u = ((ht_abs t)(tok \<mapsto> (k, p))) u"
      using tok t' token_eq_iff [OF i, of u "generation (slots t ! i)"] assms(1,2)
      by (auto simp: ht_abs_def Let_def nth_list_update)
  qed
qed

lemma ht_abs_slots: "slots t = slots t' \<Longrightarrow> ht_abs t = ht_abs t'"
  by (simp add: ht_abs_def fun_eq_iff Let_def)

lemma ht_abs_append_dead: "\<not> live s \<Longrightarrow> ht_abs (t\<lparr>slots := slots t @ [s]\<rparr>) = ht_abs t"
  by (auto simp: ht_abs_def fun_eq_iff Let_def nth_append)

lemma ht_insert_spec:
  assumes "ht_inv t" and "ht_insert k p t = (tok, t')" and "tok \<noteq> 0"
  shows "ht_abs t tok = None \<and> ht_abs t' = (ht_abs t)(tok \<mapsto> (k, p))"
proof (cases "free_list t = []")
  case False
  let ?i = "last (free_list t)" and ?u = "t\<lparr>free_list := butlast (free_list t)\<rparr>"
  have "?i \<in> set (free_list t)" using False by simp
  then have "?i < length (slots ?u) \<and> \<not> live (slots ?u ! ?i) \<and> generation (slots ?u ! ?i) \<noteq> 0"
    using assms(1) by (auto simp: ht_inv_def)
  moreover have "bind_slot ?i k p ?u = (tok, t')"
    using assms(2) False by (simp add: ht_insert_def)
  moreover have "length (slots ?u) \<le> 2 ^ 32 - 1" using assms(1) by (simp add: ht_inv_def)
  moreover have "ht_abs ?u = ht_abs t" by (rule ht_abs_slots) simp
  ultimately show ?thesis using bind_slot_spec by metis
next
  case True
  let ?u = "t\<lparr>slots := slots t @ [fresh_slot]\<rparr>"
  have small: "length (slots t) < 2 ^ 32 - 1"
    using assms True by (auto simp: ht_insert_def split: if_splits)
  then have "bind_slot (length (slots t)) k p ?u = (tok, t')"
    using assms(2) True by (simp add: ht_insert_def)
  moreover have "length (slots t) < length (slots ?u)"
    "\<not> live (slots ?u ! length (slots t))" "generation (slots ?u ! length (slots t)) \<noteq> 0"
    "length (slots ?u) \<le> 2 ^ 32 - 1"
    using small by (simp_all add: fresh_slot_def kMinGeneration_def)
  moreover have "ht_abs ?u = ht_abs t" by (rule ht_abs_append_dead) (simp add: fresh_slot_def)
  ultimately show ?thesis using bind_slot_spec by metis
qed

lemma ht_insert_inv:
  assumes "ht_inv t" and "ht_insert k p t = (tok, t')"
  shows "ht_inv t'"
proof (cases "free_list t = []")
  case False
  then obtain fs i where fl: "free_list t = fs @ [i]" by (metis append_butlast_last_id)
  with assms show ?thesis
    by (auto simp: ht_insert_def bind_slot_def ht_inv_def Let_def nth_list_update split: if_splits)
next
  case True
  then show ?thesis
    using assms
    by (auto simp: ht_insert_def bind_slot_def ht_inv_def Let_def nth_list_update nth_append
        fresh_slot_def kMinGeneration_def split: if_splits)
qed

lemma ht_insert_full:
  assumes "ht_inv t" and "ht_insert k p t = (tok, t')"
  shows "tok = 0 \<longleftrightarrow> free_list t = [] \<and> length (slots t) = 2 ^ 32 - 1"
    and "tok = 0 \<Longrightarrow> t' = t"
proof -
  have gen: "last (free_list t) < length (slots t) \<and> generation (slots t ! last (free_list t)) \<noteq> 0"
    if "free_list t \<noteq> []"
    using assms(1) last_in_set [OF that] by (auto simp: ht_inv_def)
  show "tok = 0 \<longleftrightarrow> free_list t = [] \<and> length (slots t) = 2 ^ 32 - 1"
    using assms gen
    by (auto simp: ht_insert_def bind_slot_def Let_def pack_nonzero nth_append fresh_slot_def
        kMinGeneration_def ht_inv_def split: if_splits)
  then show "tok = 0 \<Longrightarrow> t' = t"
    using assms by (auto simp: ht_insert_def)
qed

lemma ht_release_spec:
  assumes "ht_inv t" and "ht_release tok k t = (e, t')"
  shows "e = AMIO_OK \<longleftrightarrow> (\<exists>p. ht_abs t tok = Some (k, p))"
    and "e = AMIO_OK \<Longrightarrow> ht_abs t' = (ht_abs t)(tok := None)"
    and "e \<noteq> AMIO_OK \<Longrightarrow> t' = t"
    and "ht_inv t'"
proof -
  show "e = AMIO_OK \<longleftrightarrow> (\<exists>p. ht_abs t tok = Some (k, p))"
    using assms ht_abs_zero [OF assms(1)]
    by (auto simp: ht_release_def ht_abs_def Let_def split: if_splits)
  show "e \<noteq> AMIO_OK \<Longrightarrow> t' = t"
    using assms(2) by (auto simp: ht_release_def Let_def split: if_splits)
  show "ht_inv t'"
    using assms by (auto simp: ht_release_def ht_inv_def Let_def nth_list_update split: if_splits)
  assume "e = AMIO_OK"
  let ?i = "unat (unpack_slot tok)"
  have live: "?i < length (slots t)" "live (slots t ! ?i)"
    "generation (slots t ! ?i) = unpack_generation tok"
    and t': "t' = t\<lparr>slots := (slots t)[?i := (slots t ! ?i)\<lparr>live := False, payload := None,
        generation := next_generation (generation (slots t ! ?i))\<rparr>], free_list := free_list t @ [?i]\<rparr>"
    using assms(2) \<open>e = AMIO_OK\<close> by (auto simp: ht_release_def Let_def split: if_splits)
  show "ht_abs t' = (ht_abs t)(tok := None)"
  proof
    fix u
    have "u = tok \<longleftrightarrow> unat (unpack_slot u) = ?i \<and> unpack_generation u = unpack_generation tok"
      using token_eq_iff [of ?i u "unpack_generation tok"] unsigned_less [of "unpack_slot tok"] by simp
    then show "ht_abs t' u = ((ht_abs t)(tok := None)) u"
      using live t' by (auto simp: ht_abs_def Let_def nth_list_update)
  qed
qed

lemma ht_lookup_abs:
  assumes "ht_inv t"
  shows "ht_lookup tok k True t =
    (if tok = 0 then (AMIO_ERR_NULL_HANDLE, None)
     else case ht_abs t tok of
       None \<Rightarrow> (AMIO_ERR_INVALID_HANDLE, None)
     | Some (k', p) \<Rightarrow> if k' = k then (AMIO_OK, p) else (AMIO_ERR_INVALID_HANDLE, None))"
  by (auto simp: ht_lookup_def ht_abs_def Let_def)


section \<open>The interface of the C boundary\<close>

text \<open>
  What a client of the table relies on.  \<open>content\<close> is the finite map of live handles, \<open>null\<close> the
  reserved token.
\<close>

locale handle_store =
  fixes inv :: "'t \<Rightarrow> bool"
    and content :: "'t \<Rightarrow> 'k \<Rightarrow> ('kind \<times> 'v) option"
    and null :: 'k
    and ins :: "'kind \<Rightarrow> 'v \<Rightarrow> 't \<Rightarrow> 'k \<times> 't"
    and rel :: "'k \<Rightarrow> 'kind \<Rightarrow> 't \<Rightarrow> amio_err \<times> 't"
    and get :: "'k \<Rightarrow> 'kind \<Rightarrow> 't \<Rightarrow> amio_err \<times> 'v"
    and nothing :: 'v
  assumes null_not_live: "inv t \<Longrightarrow> content t null = None"
    and ins_inv: "inv t \<Longrightarrow> ins k v t = (h, t') \<Longrightarrow> inv t'"
    and ins_fresh: "inv t \<Longrightarrow> ins k v t = (h, t') \<Longrightarrow> h \<noteq> null \<Longrightarrow>
      content t h = None \<and> content t' = (content t)(h \<mapsto> (k, v))"
    and ins_full: "inv t \<Longrightarrow> ins k v t = (null, t') \<Longrightarrow> t' = t"
    and rel_inv: "inv t \<Longrightarrow> rel h k t = (e, t') \<Longrightarrow> inv t'"
    and rel_ok: "inv t \<Longrightarrow> rel h k t = (e, t') \<Longrightarrow> e = AMIO_OK \<longleftrightarrow> (\<exists>v. content t h = Some (k, v))"
    and rel_content: "inv t \<Longrightarrow> rel h k t = (AMIO_OK, t') \<Longrightarrow> content t' = (content t)(h := None)"
    and rel_fail: "inv t \<Longrightarrow> rel h k t = (e, t') \<Longrightarrow> e \<noteq> AMIO_OK \<Longrightarrow> t' = t"
    and get_spec: "inv t \<Longrightarrow> get h k t =
      (if h = null then (AMIO_ERR_NULL_HANDLE, nothing)
       else case content t h of
         None \<Rightarrow> (AMIO_ERR_INVALID_HANDLE, nothing)
       | Some (k', v) \<Rightarrow> if k' = k then (AMIO_OK, v) else (AMIO_ERR_INVALID_HANDLE, nothing))"
begin

lemma get_after_ins:
  assumes "inv t" and "ins k v t = (h, t')" and "h \<noteq> null"
  shows "get h k t' = (AMIO_OK, v)"
    and "k' \<noteq> k \<Longrightarrow> get h k' t' = (AMIO_ERR_INVALID_HANDLE, nothing)"
  using assms ins_fresh [OF assms] ins_inv [OF assms(1,2)] by (simp_all add: get_spec)

lemma get_other_after_ins:
  assumes "inv t" and "ins k v t = (h, t')" and "h' \<noteq> h"
  shows "get h' k' t' = get h' k' t"
proof (cases "h = null")
  case True
  with assms ins_full show ?thesis by blast
next
  case False
  with assms have "content t' h' = content t h'" using ins_fresh by fastforce
  with assms ins_inv [OF assms(1,2)] show ?thesis by (simp add: get_spec)
qed

lemma get_after_rel:
  assumes "inv t" and "rel h k t = (AMIO_OK, t')"
  shows "get h k' t' = (AMIO_ERR_INVALID_HANDLE, nothing)"
proof -
  have "h \<noteq> null" using assms rel_ok null_not_live by fastforce
  then show ?thesis
    using assms rel_content [OF assms] rel_inv [OF assms] by (simp add: get_spec)
qed

lemma get_other_after_rel:
  assumes "inv t" and "rel h k t = (e, t')" and "h' \<noteq> h"
  shows "get h' k' t' = get h' k' t"
proof (cases "e = AMIO_OK")
  case True
  then have "content t' h' = content t h'" using assms rel_content by fastforce
  with assms rel_inv [OF assms(1,2)] show ?thesis by (simp add: get_spec)
next
  case False
  with assms rel_fail show ?thesis by blast
qed

lemma double_release:
  assumes "inv t" and "rel h k t = (AMIO_OK, t')" and "rel h k' t' = (e, t'')"
  shows "e \<noteq> AMIO_OK \<and> t'' = t'"
proof -
  have "inv t'" by (rule rel_inv [OF assms(1,2)])
  moreover have "content t' h = None" using rel_content [OF assms(1,2)] by simp
  ultimately have "inv t' \<and> content t' h = None" ..
  with assms(3) show ?thesis using rel_ok [of t' h k' e t''] rel_fail [of t' h k' e t''] by auto
qed

end

interpretation tbl: handle_store
  ht_inv ht_abs 0 ht_insert ht_release "\<lambda>h k t. ht_lookup h k True t" None
proof (unfold_locales, goal_cases)
  case (1 t) then show ?case by (rule ht_abs_zero)
next
  case (2 t k v h t') then show ?case by (rule ht_insert_inv)
next
  case (3 t k v h t') then show ?case by (rule ht_insert_spec)
next
  case (4 t k v t') then show ?case using ht_insert_full(2) by blast
next
  case (5 t h k e t') then show ?case by (rule ht_release_spec(4))
next
  case (6 t h k e t') then show ?case by (rule ht_release_spec(1))
next
  case (7 t h k t') then show ?case by (blast intro: ht_release_spec(2))
next
  case (8 t h k e t') then show ?case by (blast intro: ht_release_spec(3))
next
  case (9 t h k) then show ?case by (simp add: ht_lookup_abs)
qed


section \<open>Use after free\<close>

text \<open>Histories of the table: the calls the rest of the library makes on it.\<close>

datatype 'p ht_op = Insert handle_kind "'p option" | Release token handle_kind

fun ht_step :: "'p ht_op \<Rightarrow> 'p handle_table \<Rightarrow> 'p handle_table" where
  "ht_step (Insert k p) t = snd (ht_insert k p t)"
| "ht_step (Release tok k) t = snd (ht_release tok k t)"

fun ht_run :: "'p ht_op list \<Rightarrow> 'p handle_table \<Rightarrow> 'p handle_table" where
  "ht_run [] t = t"
| "ht_run (op # ops) t = ht_run ops (ht_step op t)"

lemma ht_step_inv: "ht_inv t \<Longrightarrow> ht_inv (ht_step op t)"
  by (cases op) (auto intro: ht_insert_inv ht_release_spec(4) simp: prod_eq_iff)

lemma ht_run_inv: "ht_inv t \<Longrightarrow> ht_inv (ht_run ops t)"
  by (induction ops arbitrary: t) (auto intro: ht_step_inv)

text \<open>The generation counter cycles through the \<open>2 ^ 32 - 1\<close> non-zero values.\<close>

lemma unat_next_generation:
  assumes "g \<noteq> 0"
  shows "unat (next_generation g) = unat g mod (2 ^ 32 - 1) + 1"
proof (cases "g = - 1")
  case True
  then have "unat g = 2 ^ 32 - 1" by (simp add: unsigned_minus_1_eq_mask mask_eq_exp_minus_1)
  with True show ?thesis by (simp add: next_generation_def kMinGeneration_def)
next
  case False
  then have "g + 1 \<noteq> 0" by (metis add_eq_0_iff2)
  then have "unat (g + 1) = unat g + 1" by (metis Suc_eq_plus1 unatSuc add.commute)
  moreover have "unat g < 2 ^ 32 - 1"
  proof -
    have "unat (g + 1) < 2 ^ 32" using unsigned_less [of "g + 1"] by simp
    with \<open>unat (g + 1) = unat g + 1\<close> show ?thesis by simp
  qed
  ultimately show ?thesis using \<open>g + 1 \<noteq> 0\<close> by (simp add: next_generation_def)
qed

lemma funpow_next_generation_nonzero: "g \<noteq> 0 \<Longrightarrow> (next_generation ^^ n) g \<noteq> 0"
  by (induction n) auto

lemma unat_funpow_next_generation:
  assumes "g \<noteq> 0"
  shows "unat ((next_generation ^^ n) g) = (unat g - 1 + n) mod (2 ^ 32 - 1) + 1"
proof (induction n)
  case 0
  have "0 < unat g" using assms by (simp add: unat_gt_0)
  moreover have "unat g < 2 ^ 32" using unsigned_less [of g] by simp
  ultimately show ?case by simp
next
  case (Suc n)
  have "unat ((next_generation ^^ Suc n) g) = unat ((next_generation ^^ n) g) mod (2 ^ 32 - 1) + 1"
    using unat_next_generation [OF funpow_next_generation_nonzero [OF assms]] by simp
  also have "\<dots> = ((unat g - 1 + n) mod (2 ^ 32 - 1) + 1) mod (2 ^ 32 - 1) + 1"
    using Suc.IH by simp
  also have "\<dots> = (unat g - 1 + Suc n) mod (2 ^ 32 - 1) + 1"
    by (simp only: mod_add_left_eq) simp
  finally show ?case .
qed

lemma generation_cycle:
  assumes "g \<noteq> 0" and "(next_generation ^^ n) g = g" and "n < 2 ^ 32 - 1"
  shows "n = 0"
proof -
  have pos: "0 < unat g" using assms(1) by (simp add: unat_gt_0)
  have lt: "unat g < 2 ^ 32" using unsigned_less [of g] by simp
  have "(unat g - 1 + n) mod (2 ^ 32 - 1) = unat g - 1"
    using unat_funpow_next_generation [OF assms(1), of n] assms(2) pos by simp
  also have "\<dots> = (unat g - 1) mod (2 ^ 32 - 1)" using pos lt by simp
  finally have "(2 ^ 32 - 1) dvd (unat g - 1 + n - (unat g - 1))"
    by (metis le_add1 mod_eq_dvd_iff_nat)
  then have "(2 ^ 32 - 1) dvd n" by simp
  with assms(3) show ?thesis using nat_dvd_not_less by blast
qed

text \<open>A step keeps a slot's generation or, when it releases that slot, advances it once.\<close>

lemma ht_insert_generation:
  "i < length (slots t) \<Longrightarrow> i < length (slots (snd (ht_insert k p t))) \<and>
   generation (slots (snd (ht_insert k p t)) ! i) = generation (slots t ! i)"
  by (simp add: ht_insert_def bind_slot_def Let_def nth_list_update_at nth_append)

lemma ht_release_generation_step:
  "i < length (slots t) \<Longrightarrow> i < length (slots (snd (ht_release tok k t))) \<and>
   (generation (slots (snd (ht_release tok k t)) ! i) = generation (slots t ! i) \<or>
    generation (slots (snd (ht_release tok k t)) ! i) = next_generation (generation (slots t ! i)))"
  by (simp add: ht_release_def Let_def nth_list_update)

lemma ht_step_generation:
  assumes "i < length (slots t)"
  shows "i < length (slots (ht_step op t))"
    and "generation (slots (ht_step op t) ! i) = generation (slots t ! i)
      \<or> generation (slots (ht_step op t) ! i) = next_generation (generation (slots t ! i))"
  using ht_insert_generation [OF assms] ht_release_generation_step [OF assms]
  by (cases op; simp)+

lemma ht_run_generation:
  "i < length (slots t) \<Longrightarrow>
   \<exists>r \<le> length ops. i < length (slots (ht_run ops t)) \<and>
     generation (slots (ht_run ops t) ! i) = (next_generation ^^ r) (generation (slots t ! i))"
proof (induction ops arbitrary: t)
  case Nil
  then show ?case by auto
next
  case (Cons op ops)
  obtain r where r: "r \<le> length ops" "i < length (slots (ht_run ops (ht_step op t)))"
    "generation (slots (ht_run ops (ht_step op t)) ! i)
      = (next_generation ^^ r) (generation (slots (ht_step op t) ! i))"
    using Cons.IH ht_step_generation(1) [OF Cons.prems] by blast
  from ht_step_generation(2) [OF Cons.prems, of op] show ?case
  proof
    assume "generation (slots (ht_step op t) ! i) = generation (slots t ! i)"
    with r show ?thesis by (intro exI [of _ r]) simp
  next
    assume "generation (slots (ht_step op t) ! i) = next_generation (generation (slots t ! i))"
    with r show ?thesis by (intro exI [of _ "Suc r"]) (simp add: funpow_swap1)
  qed
qed

lemma ht_release_generation:
  assumes "ht_release tok k t = (AMIO_OK, t')" and "ht_inv t"
  shows "unat (unpack_slot tok) < length (slots t')"
    and "unpack_generation tok \<noteq> 0"
    and "generation (slots t' ! unat (unpack_slot tok)) = next_generation (unpack_generation tok)"
  using assms by (auto simp: ht_release_def ht_inv_def Let_def split: if_splits)

lemma stale_token_dead:
  assumes "ht_inv t" and "ht_release tok k t = (AMIO_OK, t')" and "length ops < 2 ^ 32 - 2"
  shows "ht_abs (ht_run ops t') tok = None"
proof -
  let ?i = "unat (unpack_slot tok)" and ?g = "unpack_generation tok"
  obtain r where r: "r \<le> length ops"
    "generation (slots (ht_run ops t') ! ?i) = (next_generation ^^ r) (next_generation ?g)"
    using ht_run_generation ht_release_generation(1,3) [OF assms(2,1)] by metis
  have "(next_generation ^^ Suc r) ?g \<noteq> ?g"
    using generation_cycle [of ?g "Suc r"] ht_release_generation(2) [OF assms(2,1)] r(1) assms(3)
    by (auto simp del: funpow.simps)
  then show ?thesis using r(2) by (simp add: ht_abs_def Let_def funpow_swap1)
qed


section \<open>Properties\<close>

text \<open>
  C20.  Whatever calls came before, a token the table hands out finds exactly its own payload, under
  its own kind only, and every other token answers as before.
\<close>

theorem handle_roundtrip:
  assumes "ht_insert k p (ht_run ops ht_empty) = (tok, t')" and "tok \<noteq> 0"
  shows "ht_lookup h k' True t' =
    (if h \<noteq> tok then ht_lookup h k' True (ht_run ops ht_empty)
     else if k' = k then (AMIO_OK, p)
     else (AMIO_ERR_INVALID_HANDLE, None))"
proof (cases "h = tok")
  have inv: "ht_inv (ht_run ops ht_empty)" by (rule ht_run_inv [OF ht_inv_empty])
  {
    case True
    have "ht_abs t' tok = Some (k, p)" using ht_insert_spec [OF inv assms] by simp
    moreover have "ht_inv t'" by (rule ht_insert_inv [OF inv assms(1)])
    ultimately show ?thesis using True assms(2) by (simp add: ht_lookup_abs)
  next
    case False
    with tbl.get_other_after_ins [OF inv assms(1)] show ?thesis by simp
  }
qed

theorem handle_roundtrip_witness:
  "ht_lookup 1 Core True (snd (ht_insert Core (Some 7) (ht_run [] (ht_empty :: nat handle_table))))
     = (AMIO_OK, Some 7)"
proof -
  have i: "ht_insert Core (Some 7) (ht_run [] (ht_empty :: nat handle_table))
      = (1, snd (ht_insert Core (Some 7) (ht_run [] ht_empty)))"
    by (simp add: ht_insert_def bind_slot_def ht_empty_def fresh_slot_def kMinGeneration_def pack_def Let_def)
  show ?thesis using handle_roundtrip [OF i, of 1 Core] by simp
qed

text \<open>
  C6.  Use after free is detected: once a handle is released, its token is refused by lookup and by
  release, whatever is inserted and released afterwards (slots are reused), for at least the next
  2^32 - 3 calls; a refused release changes nothing.
\<close>

theorem stale_token_rejected:
  assumes "ht_release tok k (ht_run before ht_empty) = (AMIO_OK, t')" and "length ops < 2 ^ 32 - 2"
  shows "ht_lookup tok k' True (ht_run ops t') = (AMIO_ERR_INVALID_HANDLE, None)
    \<and> ht_release tok k' (ht_run ops t') = (AMIO_ERR_INVALID_HANDLE, ht_run ops t')"
proof -
  have inv: "ht_inv (ht_run before ht_empty)" by (rule ht_run_inv [OF ht_inv_empty])
  have inv': "ht_inv (ht_run ops t')"
    by (rule ht_run_inv [OF ht_release_spec(4) [OF inv assms(1)]])
  have tok: "tok \<noteq> 0" using assms(1) by (auto simp: ht_release_def)
  have dead: "ht_abs (ht_run ops t') tok = None" by (rule stale_token_dead [OF inv assms])
  then have "ht_release tok k' (ht_run ops t') = (AMIO_ERR_INVALID_HANDLE, ht_run ops t')"
    using tok by (auto simp: ht_release_def ht_abs_def Let_def split: if_splits)
  with dead inv' tok show ?thesis by (simp add: ht_lookup_abs)
qed

theorem stale_token_rejected_witness:
  "\<exists>t'. ht_release 1 Core (ht_run [Insert Core (Some (7 :: nat))] ht_empty) = (AMIO_OK, t')
     \<and> ht_lookup 1 Core True (ht_run [Insert Core (Some 9)] t') = (AMIO_ERR_INVALID_HANDLE, None)"
proof -
  have "fst (ht_release 1 Core (ht_run [Insert Core (Some (7 :: nat))] ht_empty)) = AMIO_OK"
    by (simp add: ht_release_def ht_insert_def bind_slot_def ht_empty_def fresh_slot_def
        kMinGeneration_def pack_def unpack_slot_def unpack_generation_def Let_def)
  then obtain t' where t': "ht_release 1 Core (ht_run [Insert Core (Some (7 :: nat))] ht_empty) = (AMIO_OK, t')"
    by (metis prod.collapse)
  from stale_token_rejected [OF t', of "[Insert Core (Some 9)]" Core] t' show ?thesis by auto
qed

text \<open>
  The table never loses or duplicates a slot: after any calls each slot is either live or on the
  free list, once, so the number of live handles is the number of tokens that resolve; and an
  insertion fails (token 0, table unchanged) only with all 2^32 - 1 slots live.
\<close>

theorem handle_table_accounting:
  fixes ops :: "'p ht_op list"
  assumes "t = ht_run ops ht_empty"
  shows "card {tok. ht_abs t tok \<noteq> None} = size_for_test t
    \<and> (\<forall>k p. fst (ht_insert k p t) = 0 \<longrightarrow> snd (ht_insert k p t) = t \<and> size_for_test t = 2 ^ 32 - 1)"
proof -
  have inv: "ht_inv t" unfolding assms by (rule ht_run_inv [OF ht_inv_empty])
  let ?live = "{..<length (slots t)} - set (free_list t)"
  let ?tok = "\<lambda>i. pack (of_nat i) (generation (slots t ! i))"
  have lt: "i < 2 ^ 32" if "i \<in> ?live" for i using inv that by (auto simp: ht_inv_def)
  have "{tok. ht_abs t tok \<noteq> None} = ?tok ` ?live"
  proof (intro set_eqI iffI)
    fix tok
    assume "tok \<in> {tok. ht_abs t tok \<noteq> None}"
    then have "unat (unpack_slot tok) \<in> ?live"
      "generation (slots t ! unat (unpack_slot tok)) = unpack_generation tok"
      using inv by (auto simp: ht_abs_def ht_inv_def Let_def split: if_splits)
    then show "tok \<in> ?tok ` ?live" by (intro image_eqI) (simp_all add: of_nat_unat_id)
  next
    fix tok
    assume "tok \<in> ?tok ` ?live"
    then show "tok \<in> {tok. ht_abs t tok \<noteq> None}"
      using inv lt by (auto simp: ht_abs_def ht_inv_def Let_def)
  qed
  moreover have "inj_on ?tok ?live"
  proof (rule inj_onI)
    fix i j
    assume ij: "i \<in> ?live" "j \<in> ?live" "?tok i = ?tok j"
    then have "(of_nat i :: 32 word) = of_nat j" by (simp add: pack_eq_iff)
    then have "unat (of_nat i :: 32 word) = unat (of_nat j :: 32 word)" by (rule arg_cong)
    then show "i = j"
      by (simp only: unat_of_nat_slot [OF lt [OF ij(1)]] unat_of_nat_slot [OF lt [OF ij(2)]])
  qed
  ultimately have "card {tok. ht_abs t tok \<noteq> None} = card ?live" by (simp only: card_image)
  also have "\<dots> = size_for_test t"
  proof -
    have "set (free_list t) \<subseteq> {..<length (slots t)}" and "distinct (free_list t)"
      using inv unfolding ht_inv_def by blast+
    then show ?thesis by (simp add: card_Diff_subset distinct_card size_for_test_def)
  qed
  finally have "card {tok. ht_abs t tok \<noteq> None} = size_for_test t" .
  moreover have "snd (ht_insert k p t) = t \<and> size_for_test t = 2 ^ 32 - 1"
    if "fst (ht_insert k p t) = 0" for k p
  proof -
    have i: "ht_insert k p t = (0, snd (ht_insert k p t))" using that by (simp add: prod_eq_iff)
    from ht_insert_full(1) [OF inv i] have "free_list t = []" "length (slots t) = 2 ^ 32 - 1" by blast+
    then have "size_for_test t = 2 ^ 32 - 1" by (simp only: size_for_test_def list.size diff_zero)
    with ht_insert_full(2) [OF inv i] show ?thesis by blast
  qed
  ultimately show ?thesis by blast
qed

theorem handle_table_accounting_witness:
  "card {tok. ht_abs (ht_run [Insert Io (Some (3 :: nat))] ht_empty) tok \<noteq> None} = 1"
proof -
  have "size_for_test (ht_run [Insert Io (Some (3 :: nat))] ht_empty) = 1"
    by (simp add: size_for_test_def ht_insert_def bind_slot_def ht_empty_def Let_def)
  with handle_table_accounting [OF refl, of "[Insert Io (Some (3 :: nat))]"] show ?thesis by metis
qed

end
