(* ===== verification/Staging_Pool.thy ===== *)
theory Staging_Pool
  imports Amio_Types
begin

text \<open>
  The buffer pool of \<^verbatim>\<open>src/staging/staging_pool.{hpp,cpp}\<close>.  A \<^verbatim>\<open>StagingBuffer*\<close> is its index in
  \<^verbatim>\<open>buffers_\<close> (the vector is reserved to its ceiling and never reallocates).  Every public method
  is one critical section of \<^verbatim>\<open>mu_\<close>; the only wait, in \<^verbatim>\<open>acquire\<close>, is modelled by the list of its
  wake-ups, each carrying what other threads did to the pool meanwhile and whether the deadline
  had passed.  Allocation failure (\<^verbatim>\<open>std::bad_alloc\<close>) is the parameter \<open>alloc\<close>.
\<close>


section \<open>State\<close>

type_synonym byte = "8 word"

record staging_buffer =
  sb_data :: "byte list option" \<comment> \<open>\<open>None\<close>: the null pointer, storage not committed yet\<close>
  sb_capacity :: nat
  sb_used :: nat
  sb_ref_count :: int \<comment> \<open>an \<^verbatim>\<open>int\<close> of the code; its wrap-around after \<open>2 ^ 31\<close> holders of one buffer is not modelled\<close>
  sb_seq :: "64 word"

datatype grow_mode = Bounded | Grow

record staging_pool =
  sp_buffers :: "staging_buffer list"
  sp_free_list :: "nat list"
  sp_buffer_count :: nat
  sp_max_buffer_count :: nat
  sp_buffer_capacity :: nat
  sp_timeout_ms :: int
  sp_grow_mode :: grow_mode
  sp_grow_warned :: bool

definition kMaxBufferCount :: nat where
  "kMaxBufferCount = 4096"

definition kMaxBufferCapacity :: nat where
  "kMaxBufferCapacity = 1073741824"

text \<open>A slot whose storage has not been committed.\<close>

definition lazy_slot :: staging_buffer where
  "lazy_slot = \<lparr>sb_data = None, sb_capacity = 0, sb_used = 0, sb_ref_count = 0, sb_seq = 0\<rparr>"

text \<open>The constructor's debug assertions.\<close>

definition pool_args_ok :: "nat \<Rightarrow> nat \<Rightarrow> int \<Rightarrow> nat \<Rightarrow> bool" where
  "pool_args_ok buffer_count buffer_capacity timeout_ms max_buffer_count \<longleftrightarrow>
     1 \<le> buffer_count \<and> buffer_count \<le> kMaxBufferCount
     \<and> 1 \<le> buffer_capacity \<and> buffer_capacity \<le> kMaxBufferCapacity
     \<and> 1 \<le> timeout_ms \<and> timeout_ms \<le> 60000
     \<and> buffer_count \<le> max_buffer_count \<and> max_buffer_count \<le> kMaxBufferCount"

definition StagingPool :: "nat \<Rightarrow> nat \<Rightarrow> int \<Rightarrow> nat \<Rightarrow> grow_mode \<Rightarrow> staging_pool" where
  "StagingPool buffer_count buffer_capacity timeout_ms max_buffer_count mode =
     \<lparr>sp_buffers = replicate buffer_count lazy_slot,
      sp_free_list = [0..<buffer_count],
      sp_buffer_count = buffer_count,
      sp_max_buffer_count = (if mode = Bounded then buffer_count else max_buffer_count),
      sp_buffer_capacity = buffer_capacity,
      sp_timeout_ms = timeout_ms,
      sp_grow_mode = mode,
      sp_grow_warned = False\<rparr>"

definition StagingPool_default :: "nat \<Rightarrow> nat \<Rightarrow> int \<Rightarrow> staging_pool" where
  "StagingPool_default buffer_count buffer_capacity timeout_ms =
     StagingPool buffer_count buffer_capacity timeout_ms kMaxBufferCount Grow"

abbreviation buf :: "staging_pool \<Rightarrow> nat \<Rightarrow> staging_buffer" where
  "buf p i \<equiv> sp_buffers p ! i"

abbreviation cap :: "staging_pool \<Rightarrow> nat \<Rightarrow> nat" where
  "cap p i \<equiv> sb_capacity (sp_buffers p ! i)"

definition set_buf :: "nat \<Rightarrow> staging_buffer \<Rightarrow> staging_pool \<Rightarrow> staging_pool" where
  "set_buf i b p = p\<lparr>sp_buffers := (sp_buffers p)[i := b]\<rparr>"


section \<open>Operations\<close>

definition find_best_fit :: "staging_pool \<Rightarrow> nat \<Rightarrow> nat" where
  "find_best_fit p required =
     (let fl = sp_free_list p;
          a = find_idx (\<lambda>i. sb_data (buf p i) \<noteq> None \<and> sb_capacity (buf p i) \<ge> required) fl;
          b = find_idx (\<lambda>i. sb_data (buf p i) = None) fl
      in if a < length fl then a
         else if b < length fl then b
         else if fl \<noteq> [] then length fl - 1
         else length fl)"

text \<open>\<open>None\<close>: the allocation threw, nothing was changed.\<close>

definition ensure_storage :: "(nat \<Rightarrow> bool) \<Rightarrow> nat \<Rightarrow> nat \<Rightarrow> staging_pool \<Rightarrow> staging_pool option" where
  "ensure_storage alloc i required p =
     (let b = buf p i;
          target = (if required > sp_buffer_capacity p then required else sp_buffer_capacity p)
      in if sb_data b \<noteq> None \<and> sb_capacity b \<ge> target then Some p
         else if \<not> alloc target then None
         else Some (set_buf i (b\<lparr>sb_data := Some (replicate target 0), sb_capacity := target\<rparr>) p))"

definition remove_from_free_list :: "nat \<Rightarrow> staging_pool \<Rightarrow> nat \<times> staging_pool" where
  "remove_from_free_list fi p =
     (let i = sp_free_list p ! fi;
          p' = p\<lparr>sp_free_list := erase_at fi (sp_free_list p)\<rparr>;
          b = buf p' i
      in (i, set_buf i (b\<lparr>sb_ref_count := 1, sb_seq := sb_seq b + 1\<rparr>) p'))"

datatype acquire_result =
    Acquired nat      \<comment> \<open>pointer to the buffer\<close>
  | BadAlloc          \<comment> \<open>\<^verbatim>\<open>std::bad_alloc\<close> escaped\<close>
  | NoBuffer          \<comment> \<open>null pointer: timed out\<close>
  | StillWaiting      \<comment> \<open>blocked on the condition variable\<close>

text \<open>The success path: commit the chosen free buffer, take it off the free list.\<close>

definition take_free :: "(nat \<Rightarrow> bool) \<Rightarrow> nat \<Rightarrow> staging_pool \<Rightarrow> (acquire_result \<times> staging_pool) option" where
  "take_free alloc required p =
     (let fi = find_best_fit p required
      in if fi < length (sp_free_list p) then
           Some (case ensure_storage alloc (sp_free_list p ! fi) required p of
                   None \<Rightarrow> (BadAlloc, p)
                 | Some p' \<Rightarrow> (let (i, p'') = remove_from_free_list fi p' in (Acquired i, p'')))
         else None)"

definition grow_slot :: "staging_pool \<Rightarrow> staging_pool" where
  "grow_slot p =
     p\<lparr>sp_buffers := sp_buffers p @ [lazy_slot],
       sp_free_list := sp_free_list p @ [length (sp_buffers p)],
       sp_grow_warned := sp_grow_warned p \<or> length (sp_buffers p) + 1 > sp_buffer_count p\<rparr>"

definition can_grow :: "staging_pool \<Rightarrow> bool" where
  "can_grow p \<longleftrightarrow> sp_grow_mode p = Grow \<and> length (sp_buffers p) < sp_max_buffer_count p"

text \<open>
  The body of \<^verbatim>\<open>acquire\<close>'s loop up to the wait: try the free list; on an empty list append a slot
  when allowed and go round once more.  \<open>None\<close>: the thread has to wait.
\<close>

definition acquire_pass :: "(nat \<Rightarrow> bool) \<Rightarrow> nat \<Rightarrow> staging_pool \<Rightarrow> (acquire_result \<times> staging_pool) option" where
  "acquire_pass alloc required p =
     (case take_free alloc required p of
        Some r \<Rightarrow> Some r
      | None \<Rightarrow> if can_grow p then take_free alloc required (grow_slot p) else None)"

text \<open>\<open>None\<close>: a debug assertion fails (the buffer is not in use).\<close>

definition release :: "nat \<Rightarrow> staging_pool \<Rightarrow> staging_pool option" where
  "release i p =
     (if \<not> (i < length (sp_buffers p) \<and> sb_ref_count (buf p i) > 0) then None
      else let b = (buf p i)\<lparr>sb_ref_count := sb_ref_count (buf p i) - 1\<rparr>
        in if sb_ref_count b = 0 then
             let p' = set_buf i (b\<lparr>sb_used := 0\<rparr>) p
             in Some (p'\<lparr>sp_free_list := insert_lower_bound (cap p') i (sp_free_list p')\<rparr>)
           else Some (set_buf i b p))"

definition add_ref :: "nat \<Rightarrow> staging_pool \<Rightarrow> staging_pool option" where
  "add_ref i p =
     (if \<not> (i < length (sp_buffers p) \<and> sb_ref_count (buf p i) > 0) then None
      else Some (set_buf i ((buf p i)\<lparr>sb_ref_count := sb_ref_count (buf p i) + 1\<rparr>) p))"

text \<open>
  The holder of a buffer fills it in place: \<open>bs\<close> is copied to the front of the storage and
  \<^verbatim>\<open>used_bytes\<close> is set.
\<close>

definition overwrite :: "byte list \<Rightarrow> byte list \<Rightarrow> byte list" where
  "overwrite bs old = take (length old) bs @ drop (length bs) old"

definition fill_buffer :: "nat \<Rightarrow> byte list \<Rightarrow> nat \<Rightarrow> staging_pool \<Rightarrow> staging_pool" where
  "fill_buffer i bs used p =
     set_buf i ((buf p i)\<lparr>sb_data := map_option (overwrite bs) (sb_data (buf p i)), sb_used := used\<rparr>) p"

definition total_buffer_count :: "staging_pool \<Rightarrow> nat" where
  "total_buffer_count p = length (sp_buffers p)"

definition free_buffer_count :: "staging_pool \<Rightarrow> nat" where
  "free_buffer_count p = length (sp_free_list p)"

definition committed_bytes :: "staging_pool \<Rightarrow> nat" where
  "committed_bytes p = foldl (\<lambda>total b. size_t (total + sb_capacity b)) 0 (sp_buffers p)"

definition allocated_buffer_count :: "staging_pool \<Rightarrow> nat" where
  "allocated_buffer_count p = length (filter (\<lambda>b. sb_data b \<noteq> None) (sp_buffers p))"


subsection \<open>Other threads, and the blocking acquire\<close>

datatype pool_op =
    OpAcquire nat | OpRelease nat | OpAddRef nat | OpFill nat "byte list" nat

text \<open>
  One critical section of another thread.  A call whose precondition does not hold is not made;
  an \<open>OpAcquire\<close> that would wait leaves the pool alone.
\<close>

fun pool_step :: "(nat \<Rightarrow> bool) \<Rightarrow> pool_op \<Rightarrow> staging_pool \<Rightarrow> staging_pool" where
  "pool_step alloc (OpAcquire n) p = (case acquire_pass alloc n p of Some (_, p') \<Rightarrow> p' | None \<Rightarrow> p)"
| "pool_step alloc (OpRelease i) p = (case release i p of Some p' \<Rightarrow> p' | None \<Rightarrow> p)"
| "pool_step alloc (OpAddRef i) p = (case add_ref i p of Some p' \<Rightarrow> p' | None \<Rightarrow> p)"
| "pool_step alloc (OpFill i bs used) p =
     (if i < length (sp_buffers p) \<and> sb_ref_count (buf p i) > 0 then fill_buffer i bs used p else p)"

fun pool_run :: "(nat \<Rightarrow> bool) \<Rightarrow> pool_op list \<Rightarrow> staging_pool \<Rightarrow> staging_pool" where
  "pool_run alloc [] p = p"
| "pool_run alloc (op # ops) p = pool_run alloc ops (pool_step alloc op p)"

text \<open>A return of \<^verbatim>\<open>cv_.wait_until\<close>: what the others did meanwhile, and the \<^verbatim>\<open>cv_status\<close>.\<close>

record wake =
  wk_others :: "pool_op list"
  wk_timeout :: bool

fun acquire :: "(nat \<Rightarrow> bool) \<Rightarrow> nat \<Rightarrow> wake list \<Rightarrow> staging_pool \<Rightarrow> acquire_result \<times> staging_pool" where
  "acquire alloc required ws p =
     (case acquire_pass alloc required p of
        Some r \<Rightarrow> r
      | None \<Rightarrow>
          (case ws of
             [] \<Rightarrow> (StillWaiting, p)
           | w # ws' \<Rightarrow>
               let p1 = pool_run alloc (wk_others w) p
               in if wk_timeout w then
                    (case take_free alloc required p1 of Some r \<Rightarrow> r | None \<Rightarrow> (NoBuffer, p1))
                  else acquire alloc required ws' p1))"

declare acquire.simps [simp del]


section \<open>Invariant\<close>

definition buf_ok :: "nat \<Rightarrow> staging_buffer \<Rightarrow> bool" where
  "buf_ok nominal b \<longleftrightarrow>
     0 \<le> sb_ref_count b \<and> (sb_ref_count b = 0 \<longrightarrow> sb_used b = 0)
     \<and> (case sb_data b of
          None \<Rightarrow> sb_capacity b = 0 \<and> sb_ref_count b = 0
        | Some bs \<Rightarrow> length bs = sb_capacity b \<and> nominal \<le> sb_capacity b)"

text \<open>The configuration part: never changed by an operation, but for the slot count's growth.\<close>

definition conf_ok :: "staging_pool \<Rightarrow> bool" where
  "conf_ok p \<longleftrightarrow>
     1 \<le> sp_buffer_capacity p \<and> sp_buffer_count p \<le> length (sp_buffers p)
     \<and> length (sp_buffers p) \<le> sp_max_buffer_count p
     \<and> (sp_grow_mode p = Bounded \<longrightarrow> sp_max_buffer_count p = sp_buffer_count p)"

definition pool_inv :: "staging_pool \<Rightarrow> bool" where
  "pool_inv p \<longleftrightarrow>
     conf_ok p
     \<and> distinct (sp_free_list p) \<and> set (sp_free_list p) \<subseteq> {..<length (sp_buffers p)}
     \<and> (\<forall>i < length (sp_buffers p).
          buf_ok (sp_buffer_capacity p) (buf p i)
          \<and> (i \<in> set (sp_free_list p) \<longleftrightarrow> sb_ref_count (buf p i) = 0))
     \<and> sorted_wrt (\<lambda>a b. cap p a \<le> cap p b) (sp_free_list p)"

lemma pool_inv_init:
  assumes "1 \<le> buffer_capacity" and "buffer_count \<le> max_buffer_count"
  shows "pool_inv (StagingPool buffer_count buffer_capacity timeout max_buffer_count mode)"
proof -
  have "sorted_wrt (\<lambda>a b. cap (StagingPool buffer_count buffer_capacity timeout max_buffer_count mode) a
      \<le> cap (StagingPool buffer_count buffer_capacity timeout max_buffer_count mode) b) [0..<buffer_count]"
    by (simp add: sorted_wrt_iff_nth_less StagingPool_def lazy_slot_def)
  with assms show ?thesis
    by (auto simp: pool_inv_def conf_ok_def StagingPool_def lazy_slot_def buf_ok_def)
qed

lemma set_buf_simps [simp]:
  "sp_buffers (set_buf i b p) = (sp_buffers p)[i := b]"
  "sp_free_list (set_buf i b p) = sp_free_list p"
  "sp_buffer_count (set_buf i b p) = sp_buffer_count p"
  "sp_max_buffer_count (set_buf i b p) = sp_max_buffer_count p"
  "sp_buffer_capacity (set_buf i b p) = sp_buffer_capacity p"
  "sp_timeout_ms (set_buf i b p) = sp_timeout_ms p"
  "sp_grow_mode (set_buf i b p) = sp_grow_mode p"
  "sp_grow_warned (set_buf i b p) = sp_grow_warned p"
  by (simp_all add: set_buf_def)

lemma length_overwrite [simp]: "length (overwrite bs old) = length old"
  by (simp add: overwrite_def)

lemma take_overwrite: "length bs \<le> length old \<Longrightarrow> take (length bs) (overwrite bs old) = bs"
  by (simp add: overwrite_def)

lemma sorted_caps_set_buf:
  assumes "i \<notin> set xs"
  shows "sorted_wrt (\<lambda>a c. cap (set_buf i b p) a \<le> cap (set_buf i b p) c) xs
    = sorted_wrt (\<lambda>a c. cap p a \<le> cap p c) xs"
proof (rule sorted_wrt_cong_on)
  fix x y
  assume "x \<in> set xs" and "y \<in> set xs"
  with assms have "i \<noteq> x" and "i \<noteq> y" by auto
  then show "cap (set_buf i b p) x \<le> cap (set_buf i b p) y \<longleftrightarrow> cap p x \<le> cap p y" by simp
qed

text \<open>Replacing a buffer that is, and stays, in use.\<close>

lemma pool_inv_set_used:
  assumes "pool_inv p" and "i < length (sp_buffers p)" and "sb_ref_count (buf p i) > 0"
    and "buf_ok (sp_buffer_capacity p) b" and "sb_ref_count b > 0"
  shows "pool_inv (set_buf i b p)"
proof -
  have i: "i \<notin> set (sp_free_list p)" using assms(1-3) by (auto simp: pool_inv_def)
  with assms sorted_caps_set_buf [OF i, of b p] show ?thesis
    by (auto simp: pool_inv_def conf_ok_def nth_list_update_at split: if_splits)
qed

text \<open>Moving a buffer from the free list into use.\<close>

lemma pool_inv_take:
  assumes "pool_inv p" and "fi < length (sp_free_list p)" and "i = sp_free_list p ! fi"
    and "buf_ok (sp_buffer_capacity p) b" and "sb_ref_count b > 0"
  shows "pool_inv ((set_buf i b p)\<lparr>sp_free_list := erase_at fi (sp_free_list p)\<rparr>)"
proof -
  let ?fl = "erase_at fi (sp_free_list p)"
  have d: "distinct (sp_free_list p)" using assms(1) by (simp add: pool_inv_def)
  note fl = distinct_erase_at [OF d assms(2)]
  have "sorted_wrt (\<lambda>a b. cap p a \<le> cap p b) ?fl"
    using assms(1) by (simp add: pool_inv_def sorted_wrt_erase_at)
  then have "sorted_wrt (\<lambda>a c. cap (set_buf i b p) a \<le> cap (set_buf i b p) c) ?fl"
    using fl(2) assms(3) sorted_caps_set_buf [of i ?fl b p] by simp
  then show ?thesis
    using assms fl by (auto simp: pool_inv_def conf_ok_def nth_list_update_at split: if_splits)
qed


section \<open>What a successful acquisition gives\<close>

lemma find_best_fit_lt: "find_best_fit p n < length (sp_free_list p) \<longleftrightarrow> sp_free_list p \<noteq> []"
  using find_idx_le by (auto simp: find_best_fit_def Let_def)

lemma take_free_None: "take_free alloc n p = None \<longleftrightarrow> sp_free_list p = []"
  by (simp add: take_free_def find_best_fit_lt Let_def)

definition acquired_from :: "staging_pool \<Rightarrow> nat \<Rightarrow> nat \<Rightarrow> staging_pool \<Rightarrow> bool" where
  "acquired_from p n i p' \<longleftrightarrow>
     i \<in> set (sp_free_list p) \<and> set (sp_free_list p') = set (sp_free_list p) - {i}
     \<and> length (sp_buffers p') = length (sp_buffers p)
     \<and> (\<forall>j < length (sp_buffers p). j \<noteq> i \<longrightarrow> buf p' j = buf p j)
     \<and> sb_ref_count (buf p' i) = 1 \<and> sb_seq (buf p' i) = sb_seq (buf p i) + 1
     \<and> sb_data (buf p' i) \<noteq> None \<and> n \<le> sb_capacity (buf p' i)
     \<and> sb_capacity (buf p i) \<le> sb_capacity (buf p' i)"

lemma ensure_storage_cases:
  assumes "ensure_storage alloc i n p = Some p'" and "buf_ok (sp_buffer_capacity p) (buf p i)"
    and "i < length (sp_buffers p)"
  shows "\<exists>b. p' = set_buf i b p \<and> sb_data b \<noteq> None \<and> n \<le> sb_capacity b
    \<and> sb_capacity (buf p i) \<le> sb_capacity b \<and> length (the (sb_data b)) = sb_capacity b
    \<and> sp_buffer_capacity p \<le> sb_capacity b
    \<and> sb_used b = sb_used (buf p i) \<and> sb_ref_count b = sb_ref_count (buf p i) \<and> sb_seq b = sb_seq (buf p i)"
proof (cases "sb_data (buf p i) \<noteq> None \<and> sb_capacity (buf p i) \<ge> max n (sp_buffer_capacity p)")
  case True
  then have "p' = set_buf i (buf p i) p"
    using assms(1) by (auto simp: ensure_storage_def Let_def set_buf_def max_def split: if_splits)
  with True assms(2) show ?thesis by (intro exI [of _ "buf p i"]) (auto simp: buf_ok_def)
next
  case False
  let ?t = "max n (sp_buffer_capacity p)"
  have "p' = set_buf i ((buf p i)\<lparr>sb_data := Some (replicate ?t 0), sb_capacity := ?t\<rparr>) p"
    using assms(1) False by (auto simp: ensure_storage_def Let_def max_def split: if_splits)
  moreover have "sb_capacity (buf p i) \<le> ?t"
    using False assms(2) by (auto simp: buf_ok_def split: option.splits)
  ultimately show ?thesis by (intro exI conjI) (rule refl | simp)+
qed

lemma take_free_spec:
  assumes "pool_inv p" and "take_free alloc n p = Some (Acquired i, p')"
  shows "pool_inv p'" and "acquired_from p n i p'"
proof -
  let ?fi = "find_best_fit p n"
  let ?i = "sp_free_list p ! ?fi"
  have fi: "?fi < length (sp_free_list p)"
    using assms(2) by (auto simp: take_free_def Let_def split: if_splits)
  then have mem: "?i \<in> set (sp_free_list p)" by simp
  then have lt: "?i < length (sp_buffers p)" and ok: "buf_ok (sp_buffer_capacity p) (buf p ?i)"
    and ref: "sb_ref_count (buf p ?i) = 0"
    using assms(1) by (auto simp: pool_inv_def)
  obtain p1 where p1: "ensure_storage alloc ?i n p = Some p1"
    and rm: "remove_from_free_list ?fi p1 = (i, p')"
    using assms(2) fi by (auto simp: take_free_def Let_def split: option.splits prod.splits)
  obtain b where b: "p1 = set_buf ?i b p" "sb_data b \<noteq> None" "n \<le> sb_capacity b"
    "sb_capacity (buf p ?i) \<le> sb_capacity b" "length (the (sb_data b)) = sb_capacity b"
    "sp_buffer_capacity p \<le> sb_capacity b" "sb_ref_count b = sb_ref_count (buf p ?i)"
    "sb_seq b = sb_seq (buf p ?i)"
    using ensure_storage_cases [OF p1 ok lt] by blast
  let ?b = "b\<lparr>sb_ref_count := 1, sb_seq := sb_seq b + 1\<rparr>"
  have i: "i = ?i"
    and p': "p' = (set_buf ?i ?b p)\<lparr>sp_free_list := erase_at ?fi (sp_free_list p)\<rparr>"
    using rm b(1) lt by (auto simp: remove_from_free_list_def Let_def set_buf_def)
  have okb: "buf_ok (sp_buffer_capacity p) ?b"
    using b by (auto simp: buf_ok_def split: option.splits)
  show "pool_inv p'"
    unfolding p' using assms(1) fi okb by (intro pool_inv_take) simp_all
  have "set (sp_free_list p') = set (sp_free_list p) - {?i}"
    using distinct_erase_at(2) [OF _ fi] assms(1) p' by (simp add: pool_inv_def)
  then show "acquired_from p n i p'"
    using b(2-4,8) mem lt i p' by (auto simp: acquired_from_def)
qed

lemma take_free_BadAlloc: "take_free alloc n p = Some (BadAlloc, p') \<Longrightarrow> p' = p"
  by (auto simp: take_free_def Let_def split: if_splits option.splits prod.splits)

lemma take_free_results: "take_free alloc n p = Some (r, p') \<Longrightarrow> r = BadAlloc \<or> (\<exists>i. r = Acquired i)"
  by (auto simp: take_free_def Let_def split: if_splits option.splits prod.splits)

lemma take_free_inv: "pool_inv p \<Longrightarrow> take_free alloc n p = Some (r, p') \<Longrightarrow> pool_inv p'"
  using take_free_results take_free_BadAlloc take_free_spec(1) by metis


section \<open>Every operation keeps the invariant\<close>

lemma grow_slot_inv:
  assumes "pool_inv p" and "sp_free_list p = []" and "can_grow p"
  shows "pool_inv (grow_slot p)"
  using assms
  by (auto simp: pool_inv_def conf_ok_def grow_slot_def can_grow_def lazy_slot_def buf_ok_def
      nth_append less_Suc_eq)

lemma acquire_pass_inv:
  assumes "pool_inv p" and "acquire_pass alloc n p = Some (r, p')"
  shows "pool_inv p'"
proof (cases "take_free alloc n p")
  case (Some rp)
  with assms show ?thesis by (auto simp: acquire_pass_def intro: take_free_inv)
next
  case None
  then have "can_grow p" and "take_free alloc n (grow_slot p) = Some (r, p')"
    using assms(2) by (auto simp: acquire_pass_def split: if_splits)
  moreover have "pool_inv (grow_slot p)"
    using grow_slot_inv [OF assms(1)] None \<open>can_grow p\<close> by (simp add: take_free_None)
  ultimately show ?thesis by (blast intro: take_free_inv)
qed

text \<open>An acquisition that would have to wait: the free list is empty and no slot may be added.\<close>

lemma acquire_pass_None:
  "acquire_pass alloc n p = None \<longleftrightarrow> sp_free_list p = [] \<and> \<not> can_grow p"
proof (cases "take_free alloc n p")
  case None
  have "take_free alloc n (grow_slot p) \<noteq> None" by (simp add: take_free_None grow_slot_def)
  with None show ?thesis by (simp add: acquire_pass_def flip: take_free_None [of alloc n])
next
  case (Some rp)
  then have "sp_free_list p \<noteq> []" using take_free_None [of alloc n p] by simp
  with Some show ?thesis by (simp add: acquire_pass_def)
qed

lemma acquire_pass_results:
  assumes "acquire_pass alloc n p = Some (r, p')"
  shows "r = BadAlloc \<or> (\<exists>i. r = Acquired i)"
proof -
  obtain q where "take_free alloc n q = Some (r, p')"
    using assms by (auto simp: acquire_pass_def split: option.splits if_splits)
  then show ?thesis by (rule take_free_results)
qed

lemma acquire_pass_Acquired:
  assumes "pool_inv p" and "acquire_pass alloc n p = Some (Acquired i, p')"
  shows "\<exists>q. pool_inv q \<and> acquired_from q n i p' \<and> (q = p \<or> sp_free_list p = [] \<and> can_grow p \<and> q = grow_slot p)"
proof (cases "take_free alloc n p")
  case (Some rp)
  with assms show ?thesis by (auto simp: acquire_pass_def intro: take_free_spec(2))
next
  case None
  then have "can_grow p" and t: "take_free alloc n (grow_slot p) = Some (Acquired i, p')"
    using assms(2) by (auto simp: acquire_pass_def split: if_splits)
  moreover have "pool_inv (grow_slot p)"
    using grow_slot_inv [OF assms(1)] None \<open>can_grow p\<close> by (simp add: take_free_None)
  ultimately show ?thesis using None take_free_spec(2) by (auto simp: take_free_None)
qed

lemma release_inv:
  assumes "pool_inv p" and "release i p = Some p'"
  shows "pool_inv p'"
proof (cases "sb_ref_count (buf p i) = 1")
  case False
  then have i: "i < length (sp_buffers p)" "sb_ref_count (buf p i) > 1"
    and p': "p' = set_buf i ((buf p i)\<lparr>sb_ref_count := sb_ref_count (buf p i) - 1\<rparr>) p"
    using assms(2) by (auto simp: release_def Let_def split: if_splits)
  have "buf_ok (sp_buffer_capacity p) ((buf p i)\<lparr>sb_ref_count := sb_ref_count (buf p i) - 1\<rparr>)"
    using assms(1) i by (auto simp: pool_inv_def buf_ok_def split: option.splits)
  with assms(1) i show ?thesis unfolding p' by (intro pool_inv_set_used) simp_all
next
  case True
  let ?b = "(buf p i)\<lparr>sb_ref_count := 0, sb_used := 0\<rparr>"
  have i: "i < length (sp_buffers p)"
    and p': "p' = (set_buf i ?b p)\<lparr>sp_free_list :=
        insert_lower_bound (cap (set_buf i ?b p)) i (sp_free_list p)\<rparr>"
    using assms(2) True by (auto simp: release_def Let_def split: if_splits)
  have notin: "i \<notin> set (sp_free_list p)" using assms(1) True i by (auto simp: pool_inv_def)
  have "sorted_wrt (\<lambda>a c. cap p a \<le> cap p c) (sp_free_list p)"
    using assms(1) by (simp add: pool_inv_def)
  then have "sorted_wrt (\<lambda>a c. cap (set_buf i ?b p) a \<le> cap (set_buf i ?b p) c) (sp_free_list p)"
    using sorted_caps_set_buf [OF notin] by metis
  from sorted_insert_lower_bound [OF this]
  have "sorted_wrt (\<lambda>a c. cap p' a \<le> cap p' c) (sp_free_list p')"
    by (simp add: p')
  moreover have "buf_ok (sp_buffer_capacity p) ?b"
    using assms(1) i True by (auto simp: pool_inv_def buf_ok_def split: option.splits)
  ultimately show ?thesis
    using assms(1) i notin
    by (auto simp: p' pool_inv_def conf_ok_def nth_list_update_at split: if_splits)
qed

lemma add_ref_inv:
  assumes "pool_inv p" and "add_ref i p = Some p'"
  shows "pool_inv p'"
proof -
  have i: "i < length (sp_buffers p)" "sb_ref_count (buf p i) > 0"
    and p': "p' = set_buf i ((buf p i)\<lparr>sb_ref_count := sb_ref_count (buf p i) + 1\<rparr>) p"
    using assms(2) by (auto simp: add_ref_def split: if_splits)
  have "buf_ok (sp_buffer_capacity p) ((buf p i)\<lparr>sb_ref_count := sb_ref_count (buf p i) + 1\<rparr>)"
    using assms(1) i by (auto simp: pool_inv_def buf_ok_def split: option.splits)
  with assms(1) i show ?thesis unfolding p' by (intro pool_inv_set_used) simp_all
qed

lemma fill_buffer_inv:
  assumes "pool_inv p" and "i < length (sp_buffers p)" and "sb_ref_count (buf p i) > 0"
  shows "pool_inv (fill_buffer i bs used p)"
  unfolding fill_buffer_def using assms
  by (intro pool_inv_set_used) (auto simp: pool_inv_def buf_ok_def split: option.splits)

lemma pool_step_inv: "pool_inv p \<Longrightarrow> pool_inv (pool_step alloc op p)"
  by (cases op) (auto split: option.splits intro: acquire_pass_inv release_inv add_ref_inv fill_buffer_inv)

lemma pool_run_inv: "pool_inv p \<Longrightarrow> pool_inv (pool_run alloc ops p)"
  by (induction ops arbitrary: p) (auto intro: pool_step_inv)


subsection \<open>The blocking acquire, by its wake-ups\<close>

lemma acquire_at_once: "acquire_pass alloc n p = Some r \<Longrightarrow> acquire alloc n ws p = r"
  by (simp add: acquire.simps)

lemma acquire_blocked: "acquire_pass alloc n p = None \<Longrightarrow> acquire alloc n [] p = (StillWaiting, p)"
  by (simp add: acquire.simps)

lemma acquire_woken:
  "acquire_pass alloc n p = None \<Longrightarrow> \<not> wk_timeout w
    \<Longrightarrow> acquire alloc n (w # ws) p = acquire alloc n ws (pool_run alloc (wk_others w) p)"
  by (subst acquire.simps) (simp add: Let_def)

lemma acquire_timed_out:
  "acquire_pass alloc n p = None \<Longrightarrow> wk_timeout w
    \<Longrightarrow> acquire alloc n (w # ws) p =
      (case take_free alloc n (pool_run alloc (wk_others w) p) of
         Some r \<Rightarrow> r | None \<Rightarrow> (NoBuffer, pool_run alloc (wk_others w) p))"
  by (subst acquire.simps) (simp add: Let_def)

text \<open>Every way an acquisition ends, with the pool it took its decision in.\<close>

lemma acquire_cases:
  assumes "pool_inv p" and "acquire alloc n ws p = (r, p')"
  shows "\<exists>q. pool_inv q \<and>
    (acquire_pass alloc n q = Some (r, p') \<or> take_free alloc n q = Some (r, p')
     \<or> r = NoBuffer \<and> p' = q \<and> sp_free_list q = [] \<and> (\<exists>w\<in>set ws. wk_timeout w)
     \<or> r = StillWaiting \<and> p' = q \<and> sp_free_list q = [] \<and> \<not> can_grow q \<and> (\<forall>w\<in>set ws. \<not> wk_timeout w))"
  using assms
proof (induction ws arbitrary: p)
  case Nil
  then show ?case
    by (cases "acquire_pass alloc n p") (auto simp: acquire_at_once acquire_blocked acquire_pass_None)
next
  case (Cons w ws)
  let ?q = "pool_run alloc (wk_others w) p"
  have q: "pool_inv ?q" by (rule pool_run_inv [OF Cons.prems(1)])
  consider (now) rp where "acquire_pass alloc n p = Some rp"
    | (timeout) "acquire_pass alloc n p = None" "wk_timeout w"
    | (retry) "acquire_pass alloc n p = None" "\<not> wk_timeout w"
    by fastforce
  then show ?case
  proof cases
    case now
    with Cons.prems show ?thesis by (auto simp: acquire_at_once)
  next
    case timeout
    then have "(case take_free alloc n ?q of Some r \<Rightarrow> r | None \<Rightarrow> (NoBuffer, ?q)) = (r, p')"
      using Cons.prems(2) by (simp add: acquire_timed_out)
    with q timeout(2) show ?thesis
      by (cases "take_free alloc n ?q") (auto simp: take_free_None)
  next
    case retry
    with Cons.prems(2) have "acquire alloc n ws ?q = (r, p')" by (simp add: acquire_woken)
    from Cons.IH [OF q this] retry(2) show ?thesis by auto
  qed
qed

lemma acquire_inv: "pool_inv p \<Longrightarrow> acquire alloc n ws p = (r, p') \<Longrightarrow> pool_inv p'"
  using acquire_cases [of p alloc n ws r p'] acquire_pass_inv take_free_inv by blast

lemma acquire_Acquired:
  assumes "pool_inv p" and "acquire alloc n ws p = (Acquired i, p')"
  shows "\<exists>q. pool_inv q \<and> acquired_from q n i p'"
  using acquire_cases [OF assms] acquire_pass_Acquired take_free_spec(2) by blast

lemmas pool_ops_inv [amio_inv] =
  take_free_inv acquire_pass_inv release_inv add_ref_inv fill_buffer_inv pool_step_inv pool_run_inv acquire_inv


section \<open>Saturation and best fit\<close>

text \<open>Slots are only ever added and the configuration is fixed.\<close>

definition same_conf :: "staging_pool \<Rightarrow> staging_pool \<Rightarrow> bool" where
  "same_conf p q \<longleftrightarrow>
     sp_grow_mode q = sp_grow_mode p \<and> sp_max_buffer_count q = sp_max_buffer_count p
     \<and> sp_buffer_count q = sp_buffer_count p \<and> sp_buffer_capacity q = sp_buffer_capacity p
     \<and> length (sp_buffers p) \<le> length (sp_buffers q)"

lemma same_conf_trans: "same_conf p q \<Longrightarrow> same_conf q r \<Longrightarrow> same_conf p r"
  by (simp add: same_conf_def)

lemma take_free_conf: "take_free alloc n p = Some (r, p') \<Longrightarrow> same_conf p p'"
  by (auto simp: take_free_def ensure_storage_def remove_from_free_list_def same_conf_def Let_def
      split: if_splits option.splits)

lemma acquire_pass_conf:
  assumes "acquire_pass alloc n p = Some (r, p')"
  shows "same_conf p p'"
proof (cases "take_free alloc n p")
  case (Some rp)
  with assms show ?thesis by (auto simp: acquire_pass_def intro: take_free_conf)
next
  case None
  with assms have "same_conf (grow_slot p) p'"
    by (auto simp: acquire_pass_def split: if_splits intro: take_free_conf)
  then show ?thesis by (simp add: same_conf_def grow_slot_def)
qed

lemma pool_step_conf: "same_conf p (pool_step alloc op p)"
proof (cases op)
  case (OpAcquire n)
  then show ?thesis
    by (cases "acquire_pass alloc n p") (auto simp: same_conf_def dest: acquire_pass_conf)
qed (auto simp: same_conf_def release_def add_ref_def fill_buffer_def Let_def split: option.splits if_splits)

lemma pool_run_conf: "same_conf p (pool_run alloc ops p)"
proof (induction ops arbitrary: p)
  case (Cons op ops)
  from same_conf_trans [OF pool_step_conf Cons.IH] show ?case by simp
qed (simp add: same_conf_def)

lemma cannot_grow_stays: "\<not> can_grow p \<Longrightarrow> same_conf p q \<Longrightarrow> \<not> can_grow q"
  by (auto simp: can_grow_def same_conf_def)

lemma acquire_NoBuffer:
  "acquire alloc n ws p = (NoBuffer, p') \<Longrightarrow> sp_free_list p' = [] \<and> \<not> can_grow p' \<and> same_conf p p'"
proof (induction ws arbitrary: p)
  case Nil
  then show ?case
    by (cases "acquire_pass alloc n p")
      (auto simp: acquire_at_once acquire_blocked dest: acquire_pass_results)
next
  case (Cons w ws)
  let ?q = "pool_run alloc (wk_others w) p"
  show ?case
  proof (cases "acquire_pass alloc n p")
    case (Some rp)
    with Cons.prems show ?thesis by (auto simp: acquire_at_once dest: acquire_pass_results)
  next
    case None
    have grow: "\<not> can_grow ?q"
      using None cannot_grow_stays [OF _ pool_run_conf] by (simp add: acquire_pass_None)
    show ?thesis
    proof (cases "wk_timeout w")
      case True
      then have "take_free alloc n ?q = None \<and> p' = ?q"
        using None Cons.prems
        by (cases "take_free alloc n ?q") (auto simp: acquire_timed_out dest: take_free_results)
      with grow pool_run_conf show ?thesis by (auto simp: take_free_None)
    next
      case False
      then show ?thesis
        using None Cons by (auto simp: acquire_woken intro: same_conf_trans [OF pool_run_conf])
    qed
  qed
qed

text \<open>In a pool that satisfies the invariant the first committed fit is the smallest one.\<close>

lemma find_best_fit_min:
  assumes "pool_inv p" and "j \<in> set (sp_free_list p)" and "sb_data (buf p j) \<noteq> None" and "n \<le> cap p j"
  defines "i \<equiv> sp_free_list p ! find_best_fit p n"
  shows "i \<in> set (sp_free_list p)" and "sb_data (buf p i) \<noteq> None" and "n \<le> cap p i" and "cap p i \<le> cap p j"
proof -
  let ?P = "\<lambda>i. sb_data (buf p i) \<noteq> None \<and> sb_capacity (buf p i) \<ge> n"
  let ?a = "find_idx ?P (sp_free_list p)"
  have a: "?a < length (sp_free_list p)" using assms(2-4) by (auto simp: find_idx_lt_iff)
  then have i: "i = sp_free_list p ! ?a" by (simp add: i_def find_best_fit_def Let_def)
  have P: "?P i" unfolding i by (rule find_idx_sat [OF a])
  then show "sb_data (buf p i) \<noteq> None" and "n \<le> cap p i" by simp_all
  show "i \<in> set (sp_free_list p)" using a i by simp
  obtain k where k: "k < length (sp_free_list p)" "sp_free_list p ! k = j"
    using assms(2) by (auto simp: in_set_conv_nth)
  have "\<not> k < ?a"
  proof
    assume "k < ?a"
    then have "\<not> ?P (sp_free_list p ! k)" by (rule find_idx_before)
    with k assms(3,4) show False by simp
  qed
  moreover have "sorted_wrt (\<lambda>a b. cap p a \<le> cap p b) (sp_free_list p)"
    using assms(1) by (simp add: pool_inv_def)
  ultimately show "cap p i \<le> cap p j"
    using k i by (cases "?a = k") (auto simp: sorted_wrt_iff_nth_less)
qed

lemma take_free_no_alloc:
  assumes "pool_inv p" and "j \<in> set (sp_free_list p)" and "sb_data (buf p j) \<noteq> None" and "n \<le> cap p j"
  defines "i \<equiv> sp_free_list p ! find_best_fit p n"
  shows "take_free alloc n p = Some (Acquired i, snd (remove_from_free_list (find_best_fit p n) p))"
proof -
  note fit = find_best_fit_min [OF assms(1-4), folded i_def]
  have "i < length (sp_buffers p)" using fit(1) assms(1) by (auto simp: pool_inv_def)
  then have "sp_buffer_capacity p \<le> cap p i"
    using assms(1) fit(2) by (auto simp: pool_inv_def buf_ok_def split: option.splits)
  then have "ensure_storage alloc i n p = Some p"
    using fit by (auto simp: ensure_storage_def Let_def)
  moreover have "find_best_fit p n < length (sp_free_list p)"
    using assms(2) by (auto simp: find_best_fit_lt)
  ultimately show ?thesis
    by (simp add: take_free_def i_def remove_from_free_list_def Let_def)
qed


section \<open>The interface of the pool's clients\<close>

text \<open>
  What the write path, the prefetcher and the memory views rely on: a buffer with a holder is left
  alone by every operation that is not addressed to it.
\<close>

locale buffer_pool =
  fixes inv :: "'p \<Rightarrow> bool"
    and refs :: "'p \<Rightarrow> 'b \<Rightarrow> int"
    and content :: "'p \<Rightarrow> 'b \<Rightarrow> 'd"
    and step :: "'op \<Rightarrow> 'p \<Rightarrow> 'p"
    and touches :: "'op \<Rightarrow> 'b \<Rightarrow> bool"
  assumes step_inv: "inv p \<Longrightarrow> inv (step op p)"
    and held_refs: "inv p \<Longrightarrow> refs p i > 0 \<Longrightarrow> \<not> touches op i \<Longrightarrow> refs (step op p) i = refs p i"
    and held_content: "inv p \<Longrightarrow> refs p i > 0 \<Longrightarrow> \<not> touches op i \<Longrightarrow> content (step op p) i = content p i"
begin

lemma run_inv: "inv p \<Longrightarrow> inv (fold step ops p)"
  by (induction ops arbitrary: p) (auto intro: step_inv)

lemma held_run:
  assumes "inv p" and "refs p i > 0" and "\<forall>op\<in>set ops. \<not> touches op i"
  shows "refs (fold step ops p) i = refs p i \<and> content (fold step ops p) i = content p i"
  using assms
proof (induction ops arbitrary: p)
  case (Cons op ops)
  have "refs (step op p) i = refs p i" and "content (step op p) i = content p i"
    using Cons.prems held_refs held_content by auto
  with Cons.IH [OF step_inv [OF Cons.prems(1)], of op] Cons.prems show ?case by simp
qed simp

end

definition pool_refs :: "staging_pool \<Rightarrow> nat \<Rightarrow> int" where
  "pool_refs p i = (if i < length (sp_buffers p) then sb_ref_count (buf p i) else 0)"

definition pool_content :: "staging_pool \<Rightarrow> nat \<Rightarrow> byte list" where
  "pool_content p i =
     (case sb_data (buf p i) of None \<Rightarrow> [] | Some bs \<Rightarrow> take (sb_used (buf p i)) bs)"

fun op_touches :: "pool_op \<Rightarrow> nat \<Rightarrow> bool" where
  "op_touches (OpAcquire _) i \<longleftrightarrow> False"
| "op_touches (OpRelease j) i \<longleftrightarrow> j = i"
| "op_touches (OpAddRef j) i \<longleftrightarrow> j = i"
| "op_touches (OpFill j _ _) i \<longleftrightarrow> j = i"

lemma acquire_pass_held:
  assumes "pool_inv p" and "pool_refs p i > 0" and "acquire_pass alloc n p = Some (r, p')"
  shows "i < length (sp_buffers p') \<and> buf p' i = buf p i"
proof -
  have i: "i < length (sp_buffers p)" "sb_ref_count (buf p i) > 0"
    using assms(2) by (auto simp: pool_refs_def split: if_splits)
  then have nf: "i \<notin> set (sp_free_list p)" using assms(1) by (auto simp: pool_inv_def)
  consider "r = BadAlloc" | j where "r = Acquired j" using acquire_pass_results [OF assms(3)] by blast
  then show ?thesis
  proof cases
    case 1
    then have "p' = p \<or> p' = grow_slot p"
      using assms(3) by (auto simp: acquire_pass_def split: option.splits if_splits dest: take_free_BadAlloc)
    with i show ?thesis by (auto simp: grow_slot_def nth_append)
  next
    case 2
    then obtain q where q: "acquired_from q n j p'" "q = p \<or> q = grow_slot p"
      using acquire_pass_Acquired assms(1,3) by blast
    have "i < length (sp_buffers q)" "i \<notin> set (sp_free_list q)" "buf q i = buf p i"
      using q(2) i nf by (auto simp: grow_slot_def nth_append)
    with q(1) show ?thesis by (auto simp: acquired_from_def)
  qed
qed

lemma acquire_pass_not_held:
  assumes "pool_inv p" and "pool_refs p i > 0"
  shows "acquire_pass alloc n p \<noteq> Some (Acquired i, p')"
proof
  assume a: "acquire_pass alloc n p = Some (Acquired i, p')"
  obtain q where q: "acquired_from q n i p'" "q = p \<or> sp_free_list p = [] \<and> q = grow_slot p"
    using acquire_pass_Acquired [OF assms(1) a] by blast
  have i: "i < length (sp_buffers p)" "sb_ref_count (buf p i) > 0"
    using assms(2) by (auto simp: pool_refs_def split: if_splits)
  then have "i \<notin> set (sp_free_list p)" using assms(1) by (auto simp: pool_inv_def)
  with i q show False by (auto simp: acquired_from_def grow_slot_def)
qed

lemma pool_step_held:
  assumes "pool_inv p" and "pool_refs p i > 0" and "\<not> op_touches op i"
  shows "i < length (sp_buffers (pool_step alloc op p)) \<and> buf (pool_step alloc op p) i = buf p i"
proof (cases op)
  case (OpAcquire n)
  have i: "i < length (sp_buffers p)" using assms(2) by (simp add: pool_refs_def split: if_splits)
  show ?thesis
  proof (cases "acquire_pass alloc n p")
    case None
    with OpAcquire i show ?thesis by simp
  next
    case (Some rp)
    obtain r p' where "rp = (r, p')" by (cases rp)
    with Some OpAcquire acquire_pass_held [OF assms(1,2), of alloc n r p'] show ?thesis by simp
  qed
qed (use assms in \<open>auto simp: pool_refs_def release_def add_ref_def fill_buffer_def Let_def
      split: option.splits if_splits\<close>)

interpretation staging: buffer_pool pool_inv pool_refs pool_content "pool_step alloc" op_touches for alloc
proof (unfold_locales, goal_cases)
  case (1 p op) then show ?case by (rule pool_step_inv)
next
  case (2 p i op)
  with pool_step_held [OF 2, of alloc] show ?case by (auto simp: pool_refs_def split: if_splits)
next
  case (3 p i op)
  with pool_step_held [OF 3, of alloc] show ?case by (simp add: pool_content_def split: option.split)
qed

lemma pool_run_fold: "pool_run alloc ops p = fold (pool_step alloc) ops p"
  by (induction ops arbitrary: p) simp_all

lemma pool_content_fill:
  assumes "pool_inv p" and "i < length (sp_buffers p)" and "sb_data (buf p i) \<noteq> None"
    and "length bs \<le> cap p i"
  shows "pool_content (fill_buffer i bs (length bs) p) i = bs"
  using assms
  by (auto simp: pool_inv_def buf_ok_def pool_content_def fill_buffer_def take_overwrite split: option.splits)


section \<open>Properties\<close>

text \<open>
  C7.  Whatever calls threads make on a freshly constructed pool, in any interleaving: every slot is
  on the free list exactly when nobody holds it, a held slot has storage of its stated capacity,
  the free list stays sorted by capacity without duplicates, and the number of slots stays between
  the configured count and the ceiling.
\<close>

theorem staging_pool_invariant:
  assumes "pool_args_ok buffer_count buffer_capacity timeout_ms max_buffer_count"
    and "p = pool_run alloc ops (StagingPool buffer_count buffer_capacity timeout_ms max_buffer_count mode)"
  shows "pool_inv p \<and> buffer_count \<le> total_buffer_count p
    \<and> total_buffer_count p \<le> (if mode = Bounded then buffer_count else max_buffer_count)"
proof -
  let ?p0 = "StagingPool buffer_count buffer_capacity timeout_ms max_buffer_count mode"
  have "pool_inv ?p0" using assms(1) by (intro pool_inv_init) (simp_all add: pool_args_ok_def)
  then have "pool_inv p" unfolding assms(2) by (rule pool_run_inv)
  moreover have "same_conf ?p0 p" unfolding assms(2) by (rule pool_run_conf)
  ultimately show ?thesis
    by (simp add: pool_inv_def conf_ok_def same_conf_def total_buffer_count_def StagingPool_def)
qed

theorem staging_pool_invariant_witness:
  "pool_inv (pool_run (\<lambda>_. True) [OpAcquire 8, OpAcquire 16, OpRelease 0] (StagingPool 1 4 100 2 Grow))"
  using staging_pool_invariant [of 1 4 100 2 _ "\<lambda>_. True" "[OpAcquire 8, OpAcquire 16, OpRelease 0]" Grow]
  by (simp add: pool_args_ok_def kMaxBufferCount_def kMaxBufferCapacity_def)

text \<open>
  A buffer handed out by \<^verbatim>\<open>acquire\<close>, after any waiting, was free: its new holder is its only
  one, its storage is committed with at least the requested size and exactly the stated capacity,
  its sequence number advanced, and no other buffer changed.
\<close>

theorem acquire_exclusive:
  assumes "pool_inv p" and "acquire alloc n ws p = (Acquired i, p')"
  shows "pool_inv p' \<and> i \<notin> set (sp_free_list p') \<and> pool_refs p' i = 1
    \<and> (\<exists>bs. sb_data (buf p' i) = Some bs \<and> length bs = cap p' i \<and> n \<le> cap p' i)
    \<and> (\<exists>q. pool_inv q \<and> acquired_from q n i p')"
proof -
  obtain q where q: "pool_inv q" "acquired_from q n i p'" using acquire_Acquired [OF assms] by blast
  have inv: "pool_inv p'" by (rule acquire_inv [OF assms])
  have i: "i < length (sp_buffers p')" using q by (auto simp: acquired_from_def pool_inv_def)
  then have "buf_ok (sp_buffer_capacity p') (buf p' i)" using inv by (simp add: pool_inv_def)
  then have "\<exists>bs. sb_data (buf p' i) = Some bs \<and> length bs = cap p' i"
    using q(2) by (auto simp: acquired_from_def buf_ok_def)
  then show ?thesis
    using q inv i by (auto simp: acquired_from_def pool_refs_def)
qed

theorem acquire_exclusive_witness:
  "\<exists>p'. acquire (\<lambda>_. True) 8 [] (StagingPool 2 4 100 2 Bounded) = (Acquired 0, p') \<and> pool_refs p' 0 = 1"
proof -
  have inv: "pool_inv (StagingPool 2 4 100 2 Bounded)" by (rule pool_inv_init) simp_all
  have "fst (acquire (\<lambda>_. True) 8 [] (StagingPool 2 4 100 2 Bounded)) = Acquired 0"
    by code_simp
  then obtain p' where p': "acquire (\<lambda>_. True) 8 [] (StagingPool 2 4 100 2 Bounded) = (Acquired 0, p')"
    by (metis prod.collapse)
  from acquire_exclusive [OF inv p'] p' show ?thesis by blast
qed

text \<open>
  C18.  Best fit without allocation: when a committed free buffer is large enough, \<^verbatim>\<open>acquire\<close> returns
  at once with a smallest such buffer and its existing storage, even if no memory can be allocated.
\<close>

theorem acquire_best_fit:
  assumes "pool_inv p" and "j \<in> set (sp_free_list p)" and "sb_data (buf p j) \<noteq> None" and "n \<le> cap p j"
  shows "\<exists>i p'. acquire (\<lambda>_. False) n ws p = (Acquired i, p') \<and> i \<in> set (sp_free_list p)
    \<and> n \<le> cap p i \<and> (\<forall>k \<in> set (sp_free_list p). sb_data (buf p k) \<noteq> None \<and> n \<le> cap p k \<longrightarrow> cap p i \<le> cap p k)
    \<and> sb_data (buf p' i) = sb_data (buf p i) \<and> cap p' i = cap p i"
proof -
  let ?i = "sp_free_list p ! find_best_fit p n"
  let ?p' = "snd (remove_from_free_list (find_best_fit p n) p)"
  have "acquire_pass (\<lambda>_. False) n p = Some (Acquired ?i, ?p')"
    using take_free_no_alloc [OF assms] by (simp add: acquire_pass_def)
  then have "acquire (\<lambda>_. False) n ws p = (Acquired ?i, ?p')" by (rule acquire_at_once)
  moreover have "\<forall>k \<in> set (sp_free_list p). sb_data (buf p k) \<noteq> None \<and> n \<le> cap p k \<longrightarrow> cap p ?i \<le> cap p k"
    using find_best_fit_min(4) [OF assms(1)] by blast
  moreover have "?i < length (sp_buffers p)"
    using find_best_fit_min(1) [OF assms] assms(1) by (auto simp: pool_inv_def)
  then have "sb_data (buf ?p' ?i) = sb_data (buf p ?i)" and "cap ?p' ?i = cap p ?i"
    by (simp_all add: remove_from_free_list_def Let_def)
  ultimately show ?thesis using find_best_fit_min(1,3) [OF assms] by blast
qed

theorem acquire_best_fit_witness:
  "\<exists>i p'. acquire (\<lambda>_. False) 5 []
     (pool_run (\<lambda>_. True) [OpAcquire 8, OpRelease 0] (StagingPool 2 4 100 2 Bounded)) = (Acquired i, p')"
proof -
  let ?p = "pool_run (\<lambda>_. True) [OpAcquire 8, OpRelease 0] (StagingPool 2 4 100 2 Bounded)"
  have inv: "pool_inv ?p" by (rule pool_run_inv, rule pool_inv_init) simp_all
  have "0 \<in> set (sp_free_list ?p)" and "sb_data (buf ?p 0) \<noteq> None" and "5 \<le> cap ?p 0"
    by code_simp+
  from acquire_best_fit [OF inv this, of "[]"] show ?thesis by blast
qed

text \<open>
  C19.  Back-pressure means saturation: \<^verbatim>\<open>acquire\<close> gives up with a null pointer only when every slot
  of the pool is held and the pool has as many slots as its ceiling allows; and in growing mode
  below the ceiling it never waits, whatever is held.
\<close>

theorem backpressure_is_saturation:
  assumes "pool_inv p" and "acquire alloc n ws p = (r, p')"
  shows "(r = NoBuffer \<longrightarrow> total_buffer_count p' = sp_max_buffer_count p
            \<and> (\<forall>i < total_buffer_count p'. pool_refs p' i > 0))
    \<and> (sp_grow_mode p = Grow \<and> total_buffer_count p < sp_max_buffer_count p
        \<longrightarrow> r = BadAlloc \<or> (\<exists>i. r = Acquired i))"
proof (intro conjI impI)
  assume "r = NoBuffer"
  then have nb: "sp_free_list p' = []" "\<not> can_grow p'" "same_conf p p'"
    using acquire_NoBuffer assms(2) by blast+
  have inv: "pool_inv p'" by (rule acquire_inv [OF assms])
  then show "total_buffer_count p' = sp_max_buffer_count p"
    using nb by (cases "sp_grow_mode p'")
      (auto simp: pool_inv_def conf_ok_def can_grow_def same_conf_def total_buffer_count_def)
  show "\<forall>i < total_buffer_count p'. pool_refs p' i > 0"
  proof (intro allI impI)
    fix i assume i: "i < total_buffer_count p'"
    then have "buf_ok (sp_buffer_capacity p') (buf p' i)" "sb_ref_count (buf p' i) \<noteq> 0"
      using inv nb(1) by (auto simp: pool_inv_def total_buffer_count_def)
    with i show "pool_refs p' i > 0" by (simp add: pool_refs_def total_buffer_count_def buf_ok_def)
  qed
next
  assume "sp_grow_mode p = Grow \<and> total_buffer_count p < sp_max_buffer_count p"
  then have "acquire_pass alloc n p \<noteq> None"
    by (simp add: acquire_pass_None can_grow_def total_buffer_count_def)
  then have "acquire_pass alloc n p = Some (r, p')"
    using assms(2) by (auto simp: acquire_at_once)
  then show "r = BadAlloc \<or> (\<exists>i. r = Acquired i)" by (rule acquire_pass_results)
qed

theorem backpressure_is_saturation_witness:
  "\<exists>p'. acquire (\<lambda>_. True) 8 [\<lparr>wk_others = [], wk_timeout = True\<rparr>]
      (pool_run (\<lambda>_. True) [OpAcquire 8] (StagingPool 1 4 100 1 Bounded)) = (NoBuffer, p')
    \<and> pool_refs p' 0 > 0"
proof -
  let ?p = "pool_run (\<lambda>_. True) [OpAcquire 8] (StagingPool 1 4 100 1 Bounded)"
  let ?w = "[\<lparr>wk_others = [], wk_timeout = True\<rparr>]"
  have inv: "pool_inv ?p" by (rule pool_run_inv, rule pool_inv_init) simp_all
  have "fst (acquire (\<lambda>_. True) 8 ?w ?p) = NoBuffer" and m: "sp_max_buffer_count ?p = 1"
    by code_simp+
  then obtain p' where p': "acquire (\<lambda>_. True) 8 ?w ?p = (NoBuffer, p')" by (metis prod.collapse)
  from backpressure_is_saturation [OF inv p'] m p' show ?thesis by auto
qed

text \<open>
  \<^verbatim>\<open>acquire\<close> does not block past its deadline: once a wait has ended with the timeout status, at
  whichever wake-up, the call has returned.
\<close>

theorem acquire_returns_by_deadline:
  assumes "pool_inv p" and "w \<in> set ws" and "wk_timeout w"
  shows "fst (acquire alloc n ws p) \<noteq> StillWaiting"
proof -
  obtain r p' where a: "acquire alloc n ws p = (r, p')" by (cases "acquire alloc n ws p")
  obtain q where "acquire_pass alloc n q = Some (r, p') \<or> take_free alloc n q = Some (r, p') \<or> r = NoBuffer
      \<or> (\<forall>w\<in>set ws. \<not> wk_timeout w)"
    using acquire_cases [OF assms(1) a] by blast
  with assms(2,3) a show ?thesis using acquire_pass_results take_free_results by fastforce
qed

theorem acquire_returns_by_deadline_witness:
  "fst (acquire (\<lambda>_. True) 8 [\<lparr>wk_others = [], wk_timeout = True\<rparr>]
      (pool_run (\<lambda>_. True) [OpAcquire 8] (StagingPool 1 4 100 1 Bounded))) \<noteq> StillWaiting"
proof (rule acquire_returns_by_deadline)
  show "pool_inv (pool_run (\<lambda>_. True) [OpAcquire 8] (StagingPool 1 4 100 1 Bounded))"
    by (rule pool_run_inv, rule pool_inv_init) simp_all
  show "\<lparr>wk_others = [], wk_timeout = True\<rparr> \<in> set [\<lparr>wk_others = [], wk_timeout = True\<rparr>]" by simp
qed simp

text \<open>
  C8.  A staged payload is never disturbed: once the holder has filled its buffer, the bytes stay as
  they are, and the buffer stays held, through any sequence of calls by other threads (acquiring,
  growing the pool, releasing, filling) that are not addressed to that very buffer.
\<close>

theorem staged_payload_intact:
  assumes "pool_inv p" and "acquire alloc n ws p = (Acquired i, p')" and "length bs \<le> n"
    and "\<forall>op\<in>set ops. \<not> op_touches op i"
  shows "pool_content (pool_run alloc ops (fill_buffer i bs (length bs) p')) i = bs
    \<and> pool_refs (pool_run alloc ops (fill_buffer i bs (length bs) p')) i = 1"
proof -
  let ?q = "fill_buffer i bs (length bs) p'"
  obtain q where q: "pool_inv q" "acquired_from q n i p'" using acquire_Acquired [OF assms(1,2)] by blast
  have inv: "pool_inv p'" by (rule acquire_inv [OF assms(1,2)])
  have i: "i < length (sp_buffers p')" "sb_ref_count (buf p' i) = 1" "sb_data (buf p' i) \<noteq> None"
    "length bs \<le> cap p' i"
    using q assms(3) by (auto simp: acquired_from_def pool_inv_def)
  have inv': "pool_inv ?q" using inv i by (intro fill_buffer_inv) simp_all
  have refs: "pool_refs ?q i = 1" using i by (simp add: pool_refs_def fill_buffer_def)
  have "pool_content ?q i = bs" by (rule pool_content_fill [OF inv i(1,3,4)])
  then show ?thesis
    using staging.held_run [OF inv' _ assms(4), of alloc] refs by (simp add: pool_run_fold)
qed

theorem staged_payload_intact_witness:
  "\<exists>p'. acquire (\<lambda>_. True) 3 [] (StagingPool 1 4 100 3 Grow) = (Acquired 0, p') \<and>
     pool_content (pool_run (\<lambda>_. True) [OpAcquire 2, OpFill 1 [9] 1, OpRelease 1]
       (fill_buffer 0 [1, 2, 3] (length [1, 2, 3 :: byte]) p')) 0 = [1, 2, 3]"
proof -
  have inv: "pool_inv (StagingPool 1 4 100 3 Grow)" by (rule pool_inv_init) simp_all
  have "fst (acquire (\<lambda>_. True) 3 [] (StagingPool 1 4 100 3 Grow)) = Acquired 0" by code_simp
  then obtain p' where p': "acquire (\<lambda>_. True) 3 [] (StagingPool 1 4 100 3 Grow) = (Acquired 0, p')"
    by (metis prod.collapse)
  from staged_payload_intact [OF inv p', of "[1, 2, 3]" "[OpAcquire 2, OpFill 1 [9] 1, OpRelease 1]"] p'
  show ?thesis by simp
qed

end
