(* ===== verification/Comm_Split.thy ===== *)
theory Comm_Split
  imports Amio_Types
begin

text \<open>
  The communicator split of \<^verbatim>\<open>src/workers/comm_split.{hpp,cpp}\<close> and the threading-level check of
  \<^verbatim>\<open>src/workers/mpi_threading.{hpp,cpp}\<close>.  HALO and MPI are not part of the repository:
  \<^verbatim>\<open>halo::Communicator::split\<close> is a parameter that returns a communicator of an arbitrary type or
  nothing (it threw), and whether the build has MPI is a parameter as well.
\<close>


section \<open>Configuration\<close>

record comm_config =
  cc_io_ranks :: "int list"
  cc_world_size :: int

definition comm_is_default :: "comm_config \<Rightarrow> bool" where
  "comm_is_default c \<longleftrightarrow> cc_io_ranks c = []"

text \<open>The loop over the requested ranks, with the set of ranks seen so far.\<close>

fun check_ranks :: "int \<Rightarrow> int list \<Rightarrow> int list \<Rightarrow> amio_err" where
  "check_ranks world seen [] = AMIO_OK"
| "check_ranks world seen (rank # ranks) =
     (if rank < 0 \<or> rank \<ge> world then AMIO_ERR_COMM_SPLIT_FAILED
      else if rank \<in> set seen then AMIO_ERR_COMM_SPLIT_FAILED
      else check_ranks world (rank # seen) ranks)"

definition validate_comm_config :: "comm_config \<Rightarrow> amio_err" where
  "validate_comm_config c =
     (if comm_is_default c then AMIO_OK
      else if cc_world_size c \<le> 0 then AMIO_ERR_COMM_SPLIT_FAILED
      else if int (length (cc_io_ranks c)) \<ge> cc_world_size c then AMIO_ERR_COMM_SPLIT_FAILED
      else check_ranks (cc_world_size c) [] (cc_io_ranks c))"

definition is_io_rank :: "comm_config \<Rightarrow> int \<Rightarrow> bool" where
  "is_io_rank c my_rank \<longleftrightarrow> comm_is_default c \<or> list_ex (\<lambda>r. r = my_rank) (cc_io_ranks c)"


section \<open>The split\<close>

record 'c io_communicator =
  ioc_valid :: bool
  ioc_is_io_rank :: bool
  ioc_comm :: "'c option" \<comment> \<open>the owned split communicator, if any\<close>

definition IOCommunicator :: "'c io_communicator" where
  "IOCommunicator = \<lparr>ioc_valid = False, ioc_is_io_rank = False, ioc_comm = None\<rparr>"

text \<open>\<^verbatim>\<open>rank()\<close> and \<^verbatim>\<open>size()\<close>; the communicator's own query may throw (\<open>None\<close>).\<close>

definition ioc_rank :: "('c \<Rightarrow> int option) \<Rightarrow> 'c io_communicator \<Rightarrow> int" where
  "ioc_rank rank_of ioc =
     (case ioc_comm ioc of None \<Rightarrow> 0 | Some c \<Rightarrow> (case rank_of c of Some r \<Rightarrow> r | None \<Rightarrow> 0))"

definition ioc_size :: "('c \<Rightarrow> int option) \<Rightarrow> 'c io_communicator \<Rightarrow> int" where
  "ioc_size size_of ioc =
     (case ioc_comm ioc of None \<Rightarrow> 1 | Some c \<Rightarrow> (case size_of c of Some r \<Rightarrow> r | None \<Rightarrow> 1))"

text \<open>
  \<open>split color key\<close> is \<^verbatim>\<open>world.split\<close> on the parent communicator as the code wraps it, that is on a duplicate
  (\<^verbatim>\<open>MPI_Comm_dup\<close>) when the parent is neither predefined nor null: wrapping, duplicating and splitting are calls of
  MPI and HALO, and an exception of any of them is the result \<open>None\<close>.  \<open>can_split\<close> is \<^verbatim>\<open>AMIO_CAN_SPLIT\<close>.
\<close>

definition split_communicator ::
  "bool \<Rightarrow> (int \<Rightarrow> int \<Rightarrow> 'c option) \<Rightarrow> comm_config \<Rightarrow> int \<Rightarrow> 'c io_communicator
     \<Rightarrow> amio_err \<times> 'c io_communicator" where
  "split_communicator can_split split c my_rank result =
     (if comm_is_default c then (AMIO_OK, result\<lparr>ioc_valid := True, ioc_is_io_rank := True\<rparr>)
      else if validate_comm_config c \<noteq> AMIO_OK then (validate_comm_config c, result)
      else if my_rank < 0 \<or> my_rank \<ge> cc_world_size c then (AMIO_ERR_COMM_SPLIT_FAILED, result)
      else
        let is_io = my_rank \<in> set (cc_io_ranks c);
            color = (if is_io then 0 else 1)
        in if \<not> can_split then (AMIO_ERR_COMM_SPLIT_FAILED, result)
           else case split color my_rank of
               None \<Rightarrow> (AMIO_ERR_COMM_SPLIT_FAILED, result)
             | Some comm \<Rightarrow>
                 (AMIO_OK, result\<lparr>ioc_valid := True, ioc_is_io_rank := is_io, ioc_comm := Some comm\<rparr>))"


section \<open>MPI threading level\<close>

record mpi_threading_config =
  requires_background_mpi_io :: bool
  mpi_thread_level_provided :: int

definition kMpiThreadMultiple :: int where
  "kMpiThreadMultiple = 3"

definition validate_mpi_threading :: "mpi_threading_config \<Rightarrow> amio_err" where
  "validate_mpi_threading c =
     (if \<not> requires_background_mpi_io c then AMIO_OK
      else if mpi_thread_level_provided c < kMpiThreadMultiple then AMIO_ERR_THREADING_UNSUPPORTED
      else AMIO_OK)"

text \<open>\<open>level\<close> is what \<^verbatim>\<open>halo::Environment\<close> reports in a build with MPI.\<close>

definition query_mpi_thread_level :: "int option \<Rightarrow> int" where
  "query_mpi_thread_level level = (case level of Some l \<Rightarrow> l | None \<Rightarrow> - 1)"


section \<open>Properties\<close>

lemma check_ranks_OK:
  "check_ranks world seen ranks = AMIO_OK \<longleftrightarrow>
     set ranks \<subseteq> {0..<world} \<and> distinct ranks \<and> set ranks \<inter> set seen = {}"
  by (induction ranks arbitrary: seen) auto

text \<open>
  A requested I/O rank set is accepted exactly when its members are distinct ranks of the world and
  at least one rank of the world is left for computing; every rejection is the one documented
  error code.
\<close>

theorem comm_config_accepted:
  assumes "\<not> comm_is_default c"
  shows "(validate_comm_config c = AMIO_OK \<longleftrightarrow>
      distinct (cc_io_ranks c) \<and> set (cc_io_ranks c) \<subset> {0..<cc_world_size c})
    \<and> validate_comm_config c \<in> {AMIO_OK, AMIO_ERR_COMM_SPLIT_FAILED}"
proof -
  let ?r = "cc_io_ranks c" and ?w = "cc_world_size c"
  have "set ?r \<subset> {0..<?w} \<longleftrightarrow> int (length ?r) < ?w"
    if "distinct ?r" and sub: "set ?r \<subseteq> {0..<?w}"
  proof -
    have "card (set ?r) < card {0..<?w} \<longleftrightarrow> set ?r \<subset> {0..<?w}"
      using sub by (metis card_seteq finite_atLeastLessThan_int linorder_not_le psubsetI psubset_card_mono
          order_refl less_irrefl)
    moreover have "card (set ?r) = length ?r" using that(1) by (rule distinct_card)
    ultimately show ?thesis by auto
  qed
  moreover have "0 < ?w" if "int (length ?r) < ?w" using that by linarith
  ultimately have "validate_comm_config c = AMIO_OK \<longleftrightarrow> distinct ?r \<and> set ?r \<subset> {0..<?w}"
    using assms by (auto simp: validate_comm_config_def check_ranks_OK)
  moreover have "check_ranks w s r \<in> {AMIO_OK, AMIO_ERR_COMM_SPLIT_FAILED}" for w s r
    by (induction r arbitrary: s) auto
  then have "validate_comm_config c \<in> {AMIO_OK, AMIO_ERR_COMM_SPLIT_FAILED}"
    by (simp add: validate_comm_config_def)
  ultimately show ?thesis by blast
qed

theorem comm_config_accepted_witness:
  "validate_comm_config \<lparr>cc_io_ranks = [3, 1], cc_world_size = 4\<rparr> = AMIO_OK"
proof -
  have "\<not> comm_is_default \<lparr>cc_io_ranks = [3, 1], cc_world_size = 4\<rparr>" by (simp add: comm_is_default_def)
  moreover have "0 \<in> {0..<4 :: int}" and "0 \<notin> {3, 1 :: int}" by simp_all
  then have "{3, 1 :: int} \<subset> {0..<4}" by (auto simp only: psubset_eq) simp_all
  ultimately show ?thesis
    using comm_config_accepted [of "\<lparr>cc_io_ranks = [3, 1], cc_world_size = 4\<rparr>"] by simp
qed

text \<open>
  C22.  A split communicator has a role consistent with the configuration: a successful call marks a
  rank as an I/O rank exactly when \<^verbatim>\<open>is_io_rank\<close> says so and took colour 0 for the I/O ranks and
  colour 1 for the others; a failed call leaves the caller's result as it was and reports the
  split failure.
\<close>

theorem split_communicator_roles:
  assumes "split_communicator can_split split c my_rank r = (e, r')"
  shows "(e = AMIO_OK \<longrightarrow> ioc_valid r' \<and> (ioc_is_io_rank r' \<longleftrightarrow> is_io_rank c my_rank)
           \<and> (\<not> comm_is_default c \<longrightarrow> can_split \<and> ioc_comm r' = split (if is_io_rank c my_rank then 0 else 1) my_rank
                \<and> 0 \<le> my_rank \<and> my_rank < cc_world_size c))
    \<and> (e \<noteq> AMIO_OK \<longrightarrow> e = AMIO_ERR_COMM_SPLIT_FAILED \<and> r' = r)"
proof (cases "comm_is_default c")
  case True
  with assms show ?thesis by (auto simp: split_communicator_def is_io_rank_def)
next
  case False
  have e: "validate_comm_config c = AMIO_OK \<or> validate_comm_config c = AMIO_ERR_COMM_SPLIT_FAILED"
  proof -
    have "check_ranks w s r \<in> {AMIO_OK, AMIO_ERR_COMM_SPLIT_FAILED}" for w s r
      by (induction r arbitrary: s) auto
    then show ?thesis by (auto simp: validate_comm_config_def)
  qed
  have io: "is_io_rank c my_rank \<longleftrightarrow> my_rank \<in> set (cc_io_ranks c)"
    using False by (auto simp: is_io_rank_def list_ex_iff)
  show ?thesis
    using assms False e
    by (auto simp: split_communicator_def io Let_def split: if_splits option.splits)
qed

theorem split_communicator_roles_witness:
  "\<exists>r'. split_communicator True (\<lambda>color key. Some (color, key)) \<lparr>cc_io_ranks = [1], cc_world_size = 2\<rparr> 1
      IOCommunicator = (AMIO_OK, r') \<and> ioc_is_io_rank r'"
proof -
  let ?c = "\<lparr>cc_io_ranks = [1], cc_world_size = 2\<rparr>"
  let ?r = "\<lparr>ioc_valid = True, ioc_is_io_rank = True, ioc_comm = Some (0 :: int, 1 :: int)\<rparr>"
  have s: "split_communicator True (\<lambda>color key. Some (color, key)) ?c 1 IOCommunicator = (AMIO_OK, ?r)"
    by (simp add: split_communicator_def comm_is_default_def validate_comm_config_def IOCommunicator_def)
  have "is_io_rank ?c 1" by (simp add: is_io_rank_def)
  with split_communicator_roles [OF s] s show ?thesis by blast
qed

end
