(* ===== verification/Thread_Pinning.thy ===== *)
theory Thread_Pinning
  imports Amio_Types
begin

text \<open>
  CPU and NUMA binding of the worker threads, \<^verbatim>\<open>src/workers/thread_pinning.{hpp,cpp}\<close>, in a build
  with \<^verbatim>\<open>pthread\<close> affinity.  What the operating system answers is a parameter: the CPUs the process
  may use (\<open>None\<close>: \<^verbatim>\<open>sched_getaffinity\<close> failed), the first line of a \<^verbatim>\<open>sysfs\<close> file, and whether
  \<^verbatim>\<open>pthread_setaffinity_np\<close> accepts a set.  The state is the affinity of the calling thread.
\<close>


section \<open>Library functions of the parser\<close>

definition is_space :: "char \<Rightarrow> bool" where
  "is_space c \<longleftrightarrow> c \<in> set [CHR '' '', CHR 0x09, CHR 0x0A, CHR 0x0B, CHR 0x0C, CHR 0x0D]"

text \<open>\<^verbatim>\<open>std::stoi\<close>; \<open>None\<close>: it throws (no digits, or out of the range of \<^verbatim>\<open>int\<close>).\<close>

definition stoi :: "string \<Rightarrow> int option" where
  "stoi s =
     (let t = dropWhile is_space s;
          neg = (t \<noteq> [] \<and> hd t = CHR ''-'');
          u = (if t \<noteq> [] \<and> hd t \<in> {CHR ''-'', CHR ''+''} then tl t else t);
          ds = takeWhile is_digit u;
          v = (if neg then - int (read_nat ds) else int (read_nat ds))
      in if ds = [] then None
         else if - (2 ^ 31) \<le> v \<and> v < 2 ^ 31 then Some v else None)"

text \<open>The successive results of \<^verbatim>\<open>std::getline(ss, token, sep)\<close>.\<close>

function getline_tokens :: "char \<Rightarrow> string \<Rightarrow> string list" where
  "getline_tokens sep [] = []"
| "getline_tokens sep (c # s) =
     takeWhile (\<lambda>x. x \<noteq> sep) (c # s) # getline_tokens sep (drop 1 (dropWhile (\<lambda>x. x \<noteq> sep) (c # s)))"
  by pat_completeness auto
termination
proof (relation "measure (\<lambda>(sep, s). length s)")
  fix sep c and s :: string
  have "length (dropWhile (\<lambda>x. x \<noteq> sep) s) \<le> length s" by (rule length_dropWhile_le)
  then show "((sep, drop 1 (dropWhile (\<lambda>x. x \<noteq> sep) (c # s))), (sep, c # s)) \<in> measure (\<lambda>(sep, s). length s)"
    by auto
qed simp


section \<open>NUMA domains\<close>

text \<open>
  One comma-separated token of a \<^verbatim>\<open>cpulist\<close>: a CPU or an inclusive range.  The loop over a range counts in an
  \<^verbatim>\<open>int\<close> while it is at most the last one, so a range that ends at the largest \<^verbatim>\<open>int\<close> overflows and does not return;
  like an exception of \<^verbatim>\<open>stoi\<close> it has no result.
\<close>

definition int_range :: "int \<Rightarrow> int \<Rightarrow> int list option" where
  "int_range start stop = (if start \<le> stop \<and> stop = 2 ^ 31 - 1 then None else Some [start..stop])"

definition parse_cpu_token :: "string \<Rightarrow> int list option" where
  "parse_cpu_token tok =
     (if CHR ''-'' \<in> set tok then
        (case stoi (takeWhile (\<lambda>c. c \<noteq> CHR ''-'') tok) of
           None \<Rightarrow> None
         | Some start \<Rightarrow>
             (case stoi (drop 1 (dropWhile (\<lambda>c. c \<noteq> CHR ''-'') tok)) of
                None \<Rightarrow> None
              | Some stop \<Rightarrow> int_range start stop))
      else map_option (\<lambda>c. [c]) (stoi tok))"

fun parse_cpu_tokens :: "string list \<Rightarrow> int list option" where
  "parse_cpu_tokens [] = Some []"
| "parse_cpu_tokens (tok # toks) =
     (case parse_cpu_token tok of
        None \<Rightarrow> None
      | Some cpus \<Rightarrow> map_option (\<lambda>rest. cpus @ rest) (parse_cpu_tokens toks))"

definition cpulist_path :: "int \<Rightarrow> string" where
  "cpulist_path domain = ''/sys/devices/system/node/node'' @ show_int domain @ ''/cpulist''"

text \<open>\<open>first_line\<close> is \<open>None\<close> for a file that cannot be opened or has no line; the result is \<open>None\<close> when a number does not parse or a range does not end.\<close>

definition get_numa_domain_cpus :: "(string \<Rightarrow> string option) \<Rightarrow> int \<Rightarrow> int list option" where
  "get_numa_domain_cpus first_line domain =
     (if domain < 0 then Some []
      else case first_line (cpulist_path domain) of
          None \<Rightarrow> Some []
        | Some line \<Rightarrow> parse_cpu_tokens (getline_tokens (CHR '','') line))"


section \<open>Binding a thread\<close>

record thread_config =
  tc_cpu_cores :: "int list"
  tc_numa_domain :: int

definition tc_is_default :: "thread_config \<Rightarrow> bool" where
  "tc_is_default c \<longleftrightarrow> tc_cpu_cores c = [] \<and> tc_numa_domain c < 0"

record os_env =
  os_available :: "int list option"
  os_cpu_setsize :: int
  os_setaffinity_ok :: "int list \<Rightarrow> bool"
  os_first_line :: "string \<Rightarrow> string option"

definition validate_cpu_cores :: "os_env \<Rightarrow> int list \<Rightarrow> bool" where
  "validate_cpu_cores os cores =
     (if cores = [] then True
      else case os_available os of
          None \<Rightarrow> False
        | Some avail \<Rightarrow>
            list_all (\<lambda>core. \<not> (core < 0 \<or> core \<ge> os_cpu_setsize os) \<and> core \<in> set avail) cores)"

text \<open>The affinity of the calling thread is the second component, as a list of cores.\<close>

definition pin_to_cores :: "os_env \<Rightarrow> int list \<Rightarrow> int list \<Rightarrow> amio_err \<times> int list" where
  "pin_to_cores os cores affinity =
     (if \<not> validate_cpu_cores os cores then (AMIO_ERR_INVALID_BINDING, affinity)
      else if \<not> os_setaffinity_ok os cores then (AMIO_ERR_INVALID_BINDING, affinity)
      else (AMIO_OK, cores))"

text \<open>\<open>None\<close>: an exception of \<^verbatim>\<open>std::stoi\<close> escapes.\<close>

definition apply_thread_pinning :: "os_env \<Rightarrow> thread_config \<Rightarrow> int list \<Rightarrow> (amio_err \<times> int list) option" where
  "apply_thread_pinning os c affinity =
     (if tc_is_default c then Some (AMIO_OK, affinity)
      else if tc_cpu_cores c \<noteq> [] then Some (pin_to_cores os (tc_cpu_cores c) affinity)
      else if tc_numa_domain c \<ge> 0 then
        (case get_numa_domain_cpus (os_first_line os) (tc_numa_domain c) of
           None \<Rightarrow> None
         | Some cpus \<Rightarrow>
             if cpus = [] then Some (AMIO_ERR_INVALID_BINDING, affinity)
             else Some (pin_to_cores os cpus affinity))
      else Some (AMIO_OK, affinity))"

definition validate_thread_config :: "os_env \<Rightarrow> thread_config \<Rightarrow> amio_err option" where
  "validate_thread_config os c =
     (if tc_is_default c then Some AMIO_OK
      else if tc_cpu_cores c \<noteq> [] then
        Some (if \<not> validate_cpu_cores os (tc_cpu_cores c) then AMIO_ERR_INVALID_BINDING else AMIO_OK)
      else if tc_numa_domain c \<ge> 0 then
        (case get_numa_domain_cpus (os_first_line os) (tc_numa_domain c) of
           None \<Rightarrow> None
         | Some cpus \<Rightarrow> Some (if cpus = [] then AMIO_ERR_INVALID_BINDING else AMIO_OK))
      else Some AMIO_OK)"


section \<open>The \<^verbatim>\<open>cpulist\<close> syntax\<close>

text \<open>The kernel's notation: inclusive ranges, a single CPU without a dash, separated by commas.\<close>

fun show_cpu_range :: "nat \<times> nat \<Rightarrow> string" where
  "show_cpu_range (a, b) = (if a = b then show_nat a else show_nat a @ ''-'' @ show_nat b)"

fun show_cpulist :: "(nat \<times> nat) list \<Rightarrow> string" where
  "show_cpulist [] = []"
| "show_cpulist [r] = show_cpu_range r"
| "show_cpulist (r # rs) = show_cpu_range r @ '','' @ show_cpulist rs"

definition range_cpus :: "nat \<times> nat \<Rightarrow> int list" where
  "range_cpus r = [int (fst r)..int (snd r)]"

lemma not_is_digit: "\<not> is_digit (CHR ''-'')" "\<not> is_digit (CHR '','')"
  by (simp_all add: is_digit_def)

lemma digit_not_space: "is_digit c \<Longrightarrow> \<not> is_space c \<and> c \<noteq> CHR ''-'' \<and> c \<noteq> CHR ''+'' \<and> c \<noteq> CHR '',''"
  by (auto simp: is_digit_def is_space_def)

lemma stoi_show_nat:
  assumes "n < 2 ^ 31"
  shows "stoi (show_nat n) = Some (int n)"
proof -
  obtain c cs where s: "show_nat n = c # cs" by (cases "show_nat n") auto
  have all: "\<forall>x\<in>set (show_nat n). is_digit x" using show_nat_digits by blast
  then have c: "\<not> is_space c" "c \<noteq> CHR ''-''" "c \<noteq> CHR ''+''"
    using digit_not_space s by auto
  have "takeWhile is_digit (show_nat n) = show_nat n" using all by simp
  then have "int (read_nat (takeWhile is_digit (c # cs))) = int n" "takeWhile is_digit (c # cs) \<noteq> []"
    using s read_show_nat [of n] by simp_all
  with c assms show ?thesis unfolding s stoi_def Let_def by (simp del: takeWhile.simps)
qed

lemma show_nat_no_dash: "CHR ''-'' \<notin> set (show_nat n)" "CHR '','' \<notin> set (show_nat n)"
  using show_nat_digits not_is_digit by blast+

lemma takeWhile_neq: "x \<notin> set xs \<Longrightarrow> takeWhile (\<lambda>c. c \<noteq> x) (xs @ x # ys) = xs"
  and dropWhile_neq: "x \<notin> set xs \<Longrightarrow> dropWhile (\<lambda>c. c \<noteq> x) (xs @ x # ys) = x # ys"
  by (induction xs) auto

lemma parse_show_cpu_range:
  assumes "a < 2 ^ 31" and "b < 2 ^ 31 - 1"
  shows "parse_cpu_token (show_cpu_range (a, b)) = Some (range_cpus (a, b))"
proof (cases "a = b")
  case True
  with assms show_nat_no_dash show ?thesis
    by (simp add: parse_cpu_token_def stoi_show_nat range_cpus_def)
next
  case False
  have "takeWhile (\<lambda>c. c \<noteq> CHR ''-'') (show_nat a @ CHR ''-'' # show_nat b) = show_nat a"
    "dropWhile (\<lambda>c. c \<noteq> CHR ''-'') (show_nat a @ CHR ''-'' # show_nat b) = CHR ''-'' # show_nat b"
    using show_nat_no_dash by (simp_all add: takeWhile_neq dropWhile_neq)
  with False assms show ?thesis by (simp add: parse_cpu_token_def stoi_show_nat range_cpus_def int_range_def)
qed

lemma show_cpu_range_chars: "CHR '','' \<notin> set (show_cpu_range r)" "show_cpu_range r \<noteq> []"
  using show_nat_no_dash by (cases r; auto)+

lemma getline_tokens_cons:
  "sep \<notin> set t \<Longrightarrow> t \<noteq> [] \<Longrightarrow> getline_tokens sep (t @ sep # s) = t # getline_tokens sep s"
  using takeWhile_neq [of sep t s] dropWhile_neq [of sep t s] by (cases t) simp_all

lemma getline_tokens_last: "sep \<notin> set t \<Longrightarrow> t \<noteq> [] \<Longrightarrow> getline_tokens sep t = [t]"
proof -
  assume t: "sep \<notin> set t" "t \<noteq> []"
  then have "takeWhile (\<lambda>x. x \<noteq> sep) t = t" "dropWhile (\<lambda>x. x \<noteq> sep) t = []"
    by (auto simp: takeWhile_eq_all_conv dropWhile_eq_Nil_conv)
  with t(2) show ?thesis by (cases t) simp_all
qed

lemma getline_tokens_show: "getline_tokens (CHR '','') (show_cpulist rs) = map show_cpu_range rs"
proof (induction rs rule: show_cpulist.induct)
  case (2 r)
  then show ?case using show_cpu_range_chars by (simp add: getline_tokens_last)
next
  case (3 r r' rs)
  then show ?case using show_cpu_range_chars by (simp add: getline_tokens_cons)
qed simp


section \<open>Properties\<close>

text \<open>
  C24.  The NUMA topology parser reads back every list of CPU ranges in the kernel's notation: the CPUs
  of the domain are exactly those of its ranges, in order.  The numbers fit an \<^verbatim>\<open>int\<close>, and no range ends at the
  largest \<^verbatim>\<open>int\<close>, where the loop of the parser would overflow.
\<close>

theorem numa_cpulist_roundtrip:
  assumes "0 \<le> domain" and "first_line (cpulist_path domain) = Some (show_cpulist rs)"
    and "\<forall>r\<in>set rs. fst r < 2 ^ 31 \<and> snd r < 2 ^ 31 - 1"
  shows "get_numa_domain_cpus first_line domain = Some (concat (map range_cpus rs))"
proof -
  have "parse_cpu_tokens (map show_cpu_range rs) = Some (concat (map range_cpus rs))"
    using assms(3)
  proof (induction rs)
    case (Cons r rs)
    obtain a b where "r = (a, b)" by (cases r)
    with Cons parse_show_cpu_range [of a b] show ?case by simp
  qed simp
  with assms show ?thesis by (simp add: get_numa_domain_cpus_def getline_tokens_show)
qed

theorem numa_cpulist_roundtrip_witness:
  "get_numa_domain_cpus (\<lambda>path. Some (show_cpulist [(0, 2), (8, 8)])) 1 = Some [0, 1, 2, 8]"
proof -
  have "concat (map range_cpus [(0, 2), (8, 8)]) = [0, 1, 2, 8]" by code_simp
  with numa_cpulist_roundtrip [of 1 "\<lambda>path. Some (show_cpulist [(0, 2), (8, 8)])" "[(0, 2), (8, 8)]"]
  show ?thesis by simp
qed

text \<open>
  C23.  A worker's binding is all or nothing: a failed request reports the binding error and leaves the
  thread's affinity untouched; a successful one either changes nothing (no binding requested) or
  binds exactly the listed cores, or the domain's, all of which the process may use.
\<close>

theorem pinning_all_or_nothing:
  assumes "apply_thread_pinning os c aff = Some (e, aff')"
  shows "(e \<noteq> AMIO_OK \<longrightarrow> e = AMIO_ERR_INVALID_BINDING \<and> aff' = aff)
    \<and> (e = AMIO_OK \<and> tc_is_default c \<longrightarrow> aff' = aff)
    \<and> (e = AMIO_OK \<and> \<not> tc_is_default c \<longrightarrow>
        aff' \<noteq> [] \<and> (\<exists>avail. os_available os = Some avail \<and> set aff' \<subseteq> set avail)
        \<and> (if tc_cpu_cores c \<noteq> [] then aff' = tc_cpu_cores c
           else get_numa_domain_cpus (os_first_line os) (tc_numa_domain c) = Some aff'))"
  using assms
  by (auto simp: apply_thread_pinning_def pin_to_cores_def validate_cpu_cores_def tc_is_default_def
      list_all_iff split: if_splits option.splits)

theorem pinning_all_or_nothing_witness:
  "\<exists>e aff'. apply_thread_pinning
      \<lparr>os_available = Some [0, 1], os_cpu_setsize = 1024, os_setaffinity_ok = (\<lambda>_. True), os_first_line = (\<lambda>_. None)\<rparr>
      \<lparr>tc_cpu_cores = [7], tc_numa_domain = - 1\<rparr> [0, 1] = Some (e, aff') \<and> aff' = [0, 1]"
proof -
  have a: "apply_thread_pinning
      \<lparr>os_available = Some [0, 1], os_cpu_setsize = 1024, os_setaffinity_ok = (\<lambda>_. True), os_first_line = (\<lambda>_. None)\<rparr>
      \<lparr>tc_cpu_cores = [7], tc_numa_domain = - 1\<rparr> [0, 1] = Some (AMIO_ERR_INVALID_BINDING, [0, 1])"
    by (simp add: apply_thread_pinning_def tc_is_default_def pin_to_cores_def validate_cpu_cores_def)
  from pinning_all_or_nothing [OF a] a show ?thesis by simp
qed

text \<open>
  Pre-validation decides core lists exactly, when the operating system honours a valid set; for a
  NUMA domain it only checks that the domain has CPUs, so a validated domain binding can still
  fail to apply.
\<close>

theorem validation_versus_pinning:
  "(tc_cpu_cores c \<noteq> [] \<and> os_setaffinity_ok os (tc_cpu_cores c) \<longrightarrow>
      (validate_thread_config os c = Some AMIO_OK \<longleftrightarrow> (\<exists>a. apply_thread_pinning os c aff = Some (AMIO_OK, a))))
   \<and> (\<exists>os c. (\<forall>cores. os_setaffinity_ok os cores) \<and> validate_thread_config os c = Some AMIO_OK
        \<and> apply_thread_pinning os c aff = Some (AMIO_ERR_INVALID_BINDING, aff))"
proof (intro conjI impI)
  assume "tc_cpu_cores c \<noteq> [] \<and> os_setaffinity_ok os (tc_cpu_cores c)"
  then show "validate_thread_config os c = Some AMIO_OK \<longleftrightarrow> (\<exists>a. apply_thread_pinning os c aff = Some (AMIO_OK, a))"
    by (auto simp: validate_thread_config_def apply_thread_pinning_def pin_to_cores_def tc_is_default_def)
next
  let ?os = "\<lparr>os_available = Some [0], os_cpu_setsize = 1024, os_setaffinity_ok = (\<lambda>_. True),
    os_first_line = (\<lambda>_. Some (show_cpulist [(1, 1)]))\<rparr>"
  let ?c = "\<lparr>tc_cpu_cores = [], tc_numa_domain = 1\<rparr>"
  have cpus: "get_numa_domain_cpus (os_first_line ?os) 1 = Some [1]"
    by (simp add: get_numa_domain_cpus_def getline_tokens_show parse_show_cpu_range range_cpus_def
        del: show_cpulist.simps show_cpu_range.simps)
  show "\<exists>os c. (\<forall>cores. os_setaffinity_ok os cores) \<and> validate_thread_config os c = Some AMIO_OK
      \<and> apply_thread_pinning os c aff = Some (AMIO_ERR_INVALID_BINDING, aff)"
    using cpus
    by (intro exI [of _ ?os] exI [of _ ?c])
      (simp add: validate_thread_config_def apply_thread_pinning_def tc_is_default_def pin_to_cores_def
        validate_cpu_cores_def)
qed

theorem validation_versus_pinning_witness:
  "validate_thread_config
      \<lparr>os_available = Some [3], os_cpu_setsize = 1024, os_setaffinity_ok = (\<lambda>_. True), os_first_line = (\<lambda>_. None)\<rparr>
      \<lparr>tc_cpu_cores = [3], tc_numa_domain = - 1\<rparr> = Some AMIO_OK"
  (is "validate_thread_config ?os ?c = _")
proof -
  have "apply_thread_pinning ?os ?c [] = Some (AMIO_OK, [3])"
    by (simp add: apply_thread_pinning_def tc_is_default_def pin_to_cores_def validate_cpu_cores_def)
  with validation_versus_pinning [of ?c ?os "[]"] show ?thesis by auto
qed

end
