(* ===== verification/Exception_Bridge.thy ===== *)
theory Exception_Bridge
  imports Comm_Split "HOL-Library.AList"
begin

text \<open>
  The exception cordon of the worker threads, \<^verbatim>\<open>src/workers/exception_bridge.{hpp,cpp}\<close>: the
  translation of a C++ exception into an error code, the diagnostic record, and the registry of
  task outcomes per originating handle.  A task body is represented by what it raised, if anything.
\<close>


section \<open>Exceptions and their translation\<close>

text \<open>The error codes of the \<^verbatim>\<open>conf\<close> library the \<^verbatim>\<open>switch\<close> names; \<open>Other_Code\<close> takes its \<^verbatim>\<open>default\<close>.\<close>

datatype conf_code =
  File_Not_Found | Parse_Error | Key_Not_Found | Type_Mismatch | Invalid_Arg | Other_Code

text \<open>An exception, by the first handler that matches it; the string is \<^verbatim>\<open>what()\<close>.\<close>

datatype exn =
    Conf_Error conf_code string
  | Invalid_Argument string   \<comment> \<open>\<^verbatim>\<open>std::invalid_argument\<close>\<close>
  | Std_Exception string      \<comment> \<open>any other \<^verbatim>\<open>std::exception\<close>\<close>
  | Foreign                   \<comment> \<open>not a \<^verbatim>\<open>std::exception\<close>\<close>

fun translate_exception_to_error :: "exn \<Rightarrow> amio_err \<times> string" where
  "translate_exception_to_error (Conf_Error code msg) =
     (case code of
        File_Not_Found \<Rightarrow> AMIO_ERR_MANIFEST_NOT_FOUND
      | Parse_Error \<Rightarrow> AMIO_ERR_MANIFEST_INVALID
      | Key_Not_Found \<Rightarrow> AMIO_ERR_MANIFEST_INVALID
      | Type_Mismatch \<Rightarrow> AMIO_ERR_INVALID_INPUT
      | Invalid_Arg \<Rightarrow> AMIO_ERR_INVALID_INPUT
      | Other_Code \<Rightarrow> AMIO_ERR_BACKEND_FAILURE, msg)"
| "translate_exception_to_error (Invalid_Argument msg) = (AMIO_ERR_INVALID_INPUT, msg)"
| "translate_exception_to_error (Std_Exception msg) = (AMIO_ERR_BACKEND_FAILURE, msg)"
| "translate_exception_to_error Foreign = (AMIO_ERR_BACKEND_FAILURE, ''Unknown exception (non-std)'')"


section \<open>Diagnostics\<close>

definition is_unrecoverable :: "amio_err \<Rightarrow> bool" where
  "is_unrecoverable e \<longleftrightarrow>
     e \<in> {AMIO_ERR_COMM_SPLIT_FAILED, AMIO_ERR_THREADING_UNSUPPORTED, AMIO_ERR_FINALIZE_TIMEOUT}"

datatype severity = FATAL | ERROR

text \<open>What the surroundings contribute: the clock, the build, the communicator's queries, the logger.\<close>

record 'c trace_env =
  te_time :: string
  te_has_mpi :: bool
  te_rank_of :: "'c \<Rightarrow> int option"
  te_size_of :: "'c \<Rightarrow> int option"
  te_logger :: bool

datatype emission = To_Logger severity string | To_Stderr string

definition newline :: string where
  "newline = [CHR 0x0A]"

definition stacktrace_text :: "'c trace_env \<Rightarrow> 'c io_communicator \<Rightarrow> amio_err \<Rightarrow> string \<Rightarrow> string" where
  "stacktrace_text env ioc e msg =
     ''[AMIO FATAL] '' @ te_time env @ newline
     @ ''  Error code: '' @ show_int (err_code e) @ '' ('' @ amio_strerror (err_code e) @ '')'' @ newline
     @ ''  Message: '' @ msg @ newline
     @ ''  I/O Communicator: '' @ (if ioc_valid ioc then ''valid'' else ''invalid'')
     @ '', rank='' @ show_int (ioc_rank (te_rank_of env) ioc)
     @ '', size='' @ show_int (ioc_size (te_size_of env) ioc)
     @ '', is_io_rank='' @ (if ioc_is_io_rank ioc then ''true'' else ''false'') @ newline
     @ (if te_has_mpi env then ''  [MPI collective stack trace would be gathered here]'' @ newline else [])"

definition emit_parallel_stacktrace ::
  "'c trace_env \<Rightarrow> 'c io_communicator \<Rightarrow> amio_err \<Rightarrow> string \<Rightarrow> string \<times> emission" where
  "emit_parallel_stacktrace env ioc e msg =
     (let trace = stacktrace_text env ioc e msg
      in (trace, if te_logger env then To_Logger (if is_unrecoverable e then FATAL else ERROR) trace
                 else To_Stderr trace))"


section \<open>Outcomes\<close>

record task_outcome =
  to_error :: amio_err
  to_message :: string
  to_trace :: string

definition no_outcome :: task_outcome where
  "no_outcome = \<lparr>to_error = AMIO_OK, to_message = [], to_trace = []\<rparr>"

definition is_failure :: "task_outcome \<Rightarrow> bool" where
  "is_failure oc \<longleftrightarrow> to_error oc \<noteq> AMIO_OK"

text \<open>The hash map, as an association list with distinct keys.\<close>

type_synonym u64 = "64 word"
type_synonym registry = "(u64 \<times> task_outcome list) list"

definition or_record :: "u64 \<Rightarrow> task_outcome \<Rightarrow> registry \<Rightarrow> registry" where
  "or_record h oc r = AList.update h ((case map_of r h of None \<Rightarrow> [] | Some os \<Rightarrow> os) @ [oc]) r"

definition has_failure :: "u64 \<Rightarrow> registry \<Rightarrow> bool" where
  "has_failure h r = (case map_of r h of None \<Rightarrow> False | Some os \<Rightarrow> list_ex is_failure os)"

definition get_outcomes :: "u64 \<Rightarrow> registry \<Rightarrow> task_outcome list" where
  "get_outcomes h r = (case map_of r h of None \<Rightarrow> [] | Some os \<Rightarrow> os)"

definition get_first_failure :: "u64 \<Rightarrow> registry \<Rightarrow> task_outcome" where
  "get_first_failure h r =
     (case map_of r h of
        None \<Rightarrow> no_outcome
      | Some os \<Rightarrow> (case List.find is_failure os of None \<Rightarrow> no_outcome | Some oc \<Rightarrow> oc))"

definition or_clear :: "u64 \<Rightarrow> registry \<Rightarrow> registry" where
  "or_clear h r = AList.delete h r"

definition or_clear_all :: "registry \<Rightarrow> registry" where
  "or_clear_all r = []"

definition failure_count :: "registry \<Rightarrow> nat" where
  "failure_count r = length (filter (\<lambda>(h, os). list_ex is_failure os) r)"

text \<open>
  The cordon around a task body; \<open>raised\<close> is what the body threw.  The result is the outcome, the
  registry, and the diagnostics in the order they were emitted.
\<close>

definition execute_with_exception_cordon ::
  "'c trace_env \<Rightarrow> exn option \<Rightarrow> u64 \<Rightarrow> 'c io_communicator \<Rightarrow> registry
     \<Rightarrow> task_outcome \<times> registry \<times> emission list" where
  "execute_with_exception_cordon env raised h ioc r =
     (case raised of
        None \<Rightarrow> (no_outcome\<lparr>to_error := AMIO_OK\<rparr>, r, [])
      | Some x \<Rightarrow>
          (let (e, msg) = translate_exception_to_error x;
               (trace, em) = emit_parallel_stacktrace env ioc e msg;
               oc = \<lparr>to_error = e, to_message = msg, to_trace = trace\<rparr>
           in (oc, or_record h oc r, [em])))"


section \<open>Registry lemmas\<close>

lemma translate_never_OK: "fst (translate_exception_to_error x) \<noteq> AMIO_OK"
  by (cases x) (auto split: conf_code.split)

lemma get_outcomes_record:
  "get_outcomes h' (or_record h oc r) = (if h' = h then get_outcomes h r @ [oc] else get_outcomes h' r)"
  by (auto simp: get_outcomes_def or_record_def update_conv' split: option.splits)

lemma get_outcomes_clear: "get_outcomes h' (or_clear h r) = (if h' = h then [] else get_outcomes h' r)"
  by (auto simp: get_outcomes_def or_clear_def delete_conv')

lemma has_failure_outcomes: "has_failure h r \<longleftrightarrow> list_ex is_failure (get_outcomes h r)"
  by (simp add: has_failure_def get_outcomes_def split: option.split)

lemma get_first_failure_outcomes:
  "get_first_failure h r = (case List.find is_failure (get_outcomes h r) of None \<Rightarrow> no_outcome | Some oc \<Rightarrow> oc)"
  by (simp add: get_first_failure_def get_outcomes_def split: option.split)

lemma find_append:
  "List.find P (xs @ ys) = (case List.find P xs of None \<Rightarrow> List.find P ys | Some x \<Rightarrow> Some x)"
  by (induction xs) auto

lemma find_ex: "List.find P xs \<noteq> None \<longleftrightarrow> list_ex P xs"
  by (induction xs) auto

lemma distinct_keys_record: "distinct (map fst r) \<Longrightarrow> distinct (map fst (or_record h oc r))"
  by (simp add: or_record_def distinct_update)

text \<open>A history of cordoned tasks: which handle each ran for and what it raised.\<close>

fun cordon_run :: "'c trace_env \<Rightarrow> 'c io_communicator \<Rightarrow> (u64 \<times> exn option) list \<Rightarrow> registry \<Rightarrow> registry" where
  "cordon_run env ioc [] r = r"
| "cordon_run env ioc ((h, x) # ts) r =
     cordon_run env ioc ts (fst (snd (execute_with_exception_cordon env x h ioc r)))"

text \<open>The outcome a raised exception leads to.\<close>

definition outcome_of :: "'c trace_env \<Rightarrow> 'c io_communicator \<Rightarrow> exn \<Rightarrow> task_outcome" where
  "outcome_of env ioc x =
     \<lparr>to_error = fst (translate_exception_to_error x), to_message = snd (translate_exception_to_error x),
      to_trace = stacktrace_text env ioc (fst (translate_exception_to_error x)) (snd (translate_exception_to_error x))\<rparr>"

lemma cordon_registry:
  "fst (snd (execute_with_exception_cordon env x h ioc r)) =
     (case x of None \<Rightarrow> r | Some x \<Rightarrow> or_record h (outcome_of env ioc x) r)"
  by (simp add: execute_with_exception_cordon_def outcome_of_def emit_parallel_stacktrace_def Let_def
      split: option.split prod.split)

lemma outcome_of_failure: "is_failure (outcome_of env ioc x)"
  using translate_never_OK by (simp add: is_failure_def outcome_of_def)

text \<open>The exceptions raised on behalf of one handle, in order.\<close>

definition raised_for :: "u64 \<Rightarrow> (u64 \<times> exn option) list \<Rightarrow> exn list" where
  "raised_for h ts = List.map_filter snd (filter (\<lambda>t. fst t = h) ts)"

lemma raised_for_simps [simp]:
  "raised_for h [] = []"
  "raised_for h ((h', x) # ts) =
     (if h' = h then (case x of None \<Rightarrow> raised_for h ts | Some x \<Rightarrow> x # raised_for h ts) else raised_for h ts)"
  by (simp_all add: raised_for_def map_filter_simps split: option.split)

lemma get_outcomes_cordon_run:
  "get_outcomes h (cordon_run env ioc ts r) = get_outcomes h r @ map (outcome_of env ioc) (raised_for h ts)"
proof (induction ts arbitrary: r)
  case (Cons t ts)
  obtain h' x where "t = (h', x)" by (cases t)
  with Cons show ?case by (cases x) (simp_all add: cordon_registry get_outcomes_record)
qed simp

lemma distinct_keys_cordon_run:
  "distinct (map fst r) \<Longrightarrow> distinct (map fst (cordon_run env ioc ts r))"
proof (induction ts arbitrary: r)
  case (Cons t ts)
  obtain h' x where "t = (h', x)" by (cases t)
  with Cons show ?case by (cases x) (simp_all add: cordon_registry distinct_keys_record)
qed simp

lemma outcomes_in_registry:
  assumes "distinct (map fst r)"
  shows "failure_count r = card {h. has_failure h r}"
proof -
  let ?bad = "filter (\<lambda>(h, os). list_ex is_failure os) r"
  have d: "distinct (map fst ?bad)" using assms by (rule distinct_map_filter)
  have "has_failure h r \<longleftrightarrow> h \<in> fst ` set ?bad" for h
  proof -
    have "has_failure h r \<longleftrightarrow> (\<exists>os. map_of r h = Some os \<and> list_ex is_failure os)"
      by (simp add: has_failure_def split: option.split)
    also have "\<dots> \<longleftrightarrow> (\<exists>os. (h, os) \<in> set ?bad)" by (simp add: map_of_eq_Some_iff [OF assms])
    also have "\<dots> \<longleftrightarrow> h \<in> fst ` set ?bad" by (simp only: Domain_fst [symmetric] Domain_iff)
    finally show ?thesis .
  qed
  then have "{h. has_failure h r} = fst ` set ?bad" by blast
  then show ?thesis
    using distinct_card [OF d] by (simp add: failure_count_def)
qed


section \<open>Properties\<close>

text \<open>
  C21.  Nothing a task raises gets lost or crosses over: after any sequence of cordoned tasks the
  registry holds for each handle exactly the translated outcomes of the exceptions raised on its
  behalf, oldest first; the handle counts as failed exactly when it raised something, and the
  first failure reported for it is the first one it raised, for good.
\<close>

theorem cordon_records_exactly:
  "get_outcomes h (cordon_run env ioc ts []) = map (outcome_of env ioc) (raised_for h ts)
   \<and> (has_failure h (cordon_run env ioc ts []) \<longleftrightarrow> raised_for h ts \<noteq> [])
   \<and> get_first_failure h (cordon_run env ioc ts []) =
       (case raised_for h ts of [] \<Rightarrow> no_outcome | x # _ \<Rightarrow> outcome_of env ioc x)
   \<and> failure_count (cordon_run env ioc ts []) = card {h. raised_for h ts \<noteq> []}"
proof -
  have oc: "get_outcomes h (cordon_run env ioc ts []) = map (outcome_of env ioc) (raised_for h ts)" for h
    by (simp add: get_outcomes_cordon_run) (simp add: get_outcomes_def)
  have hf: "has_failure h (cordon_run env ioc ts []) \<longleftrightarrow> raised_for h ts \<noteq> []" for h
    using outcome_of_failure [of env ioc] by (cases "raised_for h ts") (simp_all add: has_failure_outcomes oc)
  have "failure_count (cordon_run env ioc ts []) = card {h. raised_for h ts \<noteq> []}"
    using outcomes_in_registry [OF distinct_keys_cordon_run [of "[]" env ioc ts]] by (simp add: hf)
  then show ?thesis
    using oc hf outcome_of_failure [of env ioc]
    by (simp add: get_first_failure_outcomes split: list.split)
qed

text \<open>
  Every exception becomes an error: the translation never yields success, a task that raised gets
  a failed outcome with a non-empty trace that was emitted before it was recorded, and a task that
  did not raise leaves the registry alone.
\<close>

theorem cordon_total:
  "fst (execute_with_exception_cordon env raised h ioc r) =
      (case raised of None \<Rightarrow> no_outcome | Some x \<Rightarrow> outcome_of env ioc x)
   \<and> (is_failure (fst (execute_with_exception_cordon env raised h ioc r)) \<longleftrightarrow> raised \<noteq> None)
   \<and> (raised = None \<longrightarrow> fst (snd (execute_with_exception_cordon env raised h ioc r)) = r)
   \<and> length (snd (snd (execute_with_exception_cordon env raised h ioc r))) = (if raised = None then 0 else 1)"
proof (cases raised)
  case None
  then show ?thesis by (simp add: execute_with_exception_cordon_def no_outcome_def is_failure_def)
next
  case (Some x)
  have "fst (execute_with_exception_cordon env (Some x) h ioc r) = outcome_of env ioc x"
    by (simp add: execute_with_exception_cordon_def outcome_of_def emit_parallel_stacktrace_def Let_def
        split: prod.split)
  with Some outcome_of_failure [of env ioc x] show ?thesis
    by (simp add: execute_with_exception_cordon_def Let_def split: prod.split)
qed

theorem cordon_total_witness:
  "fst (snd (execute_with_exception_cordon
      \<lparr>te_time = [], te_has_mpi = False, te_rank_of = (\<lambda>_ :: nat. None), te_size_of = (\<lambda>_. None), te_logger = False\<rparr>
      None 5 IOCommunicator [])) = []"
  using cordon_total [of "\<lparr>te_time = [], te_has_mpi = False, te_rank_of = (\<lambda>_ :: nat. None),
      te_size_of = (\<lambda>_. None), te_logger = False\<rparr>" None 5 IOCommunicator "[]"] by simp

end
