(* ===== verification/Backend_Factory.thy ===== *)
theory Backend_Factory
  imports Amio_Types "HOL-Library.AList" "HOL-Library.List_Lexorder" "HOL-Library.Char_ord"
begin

text \<open>
  The driver registry of \<^verbatim>\<open>src/factory/backend_factory.{hpp,cpp}\<close>: a map from a case-sensitive key
  to a builder.  A builder is represented by the driver it constructs, of an arbitrary type.
\<close>


section \<open>The registry\<close>

type_synonym 'd factory = "(string \<times> 'd) list"

definition factory_register :: "string \<Rightarrow> 'd \<Rightarrow> 'd factory \<Rightarrow> bool \<times> 'd factory" where
  "factory_register key builder f =
     (if key = [] then (False, f) else (True, AList.update key builder f))"

definition factory_build :: "string \<Rightarrow> 'd factory \<Rightarrow> amio_err \<times> 'd option" where
  "factory_build key f =
     (if key = [] then (AMIO_ERR_UNKNOWN_BACKEND, None)
      else case map_of f key of
          None \<Rightarrow> (AMIO_ERR_UNKNOWN_BACKEND, None)
        | Some d \<Rightarrow> (AMIO_OK, Some d))"

definition factory_has :: "string \<Rightarrow> 'd factory \<Rightarrow> bool" where
  "factory_has key f = (if key = [] then False else map_of f key \<noteq> None)"

definition registered_keys :: "'d factory \<Rightarrow> string list" where
  "registered_keys f = sort (map fst f)"

definition factory_clear :: "'d factory \<Rightarrow> 'd factory" where
  "factory_clear f = []"

text \<open>
  \<^verbatim>\<open>instance()\<close>: the first call runs the registration hooks that were linked in (a weak symbol may be
  null); later calls return the factory as it is.
\<close>

definition factory_instance ::
  "('d factory \<Rightarrow> 'd factory) option list \<Rightarrow> bool \<times> 'd factory \<Rightarrow> bool \<times> 'd factory" where
  "factory_instance hooks st =
     (let (forced, f) = st
      in if forced then (True, f)
         else (True, foldl (\<lambda>f h. case h of None \<Rightarrow> f | Some g \<Rightarrow> g f) f hooks))"


section \<open>The interface\<close>

text \<open>What opening a dataset relies on: a registry that answers with the latest registration.\<close>

locale driver_registry =
  fixes reg :: "'k \<Rightarrow> 'd \<Rightarrow> 'f \<Rightarrow> bool \<times> 'f"
    and bld :: "'k \<Rightarrow> 'f \<Rightarrow> amio_err \<times> 'd option"
    and valid_key :: "'k \<Rightarrow> bool"
  assumes reg_ok: "fst (reg k d f) \<longleftrightarrow> valid_key k"
    and reg_invalid: "\<not> valid_key k \<Longrightarrow> snd (reg k d f) = f"
    and bld_reg: "valid_key k \<Longrightarrow> bld k' (snd (reg k d f)) = (if k' = k then (AMIO_OK, Some d) else bld k' f)"
    and bld_invalid: "\<not> valid_key k \<Longrightarrow> bld k f = (AMIO_ERR_UNKNOWN_BACKEND, None)"
begin

lemma build_after_registrations:
  "bld k (fold (\<lambda>(k, d) f. snd (reg k d f)) rs f) =
     (if \<not> valid_key k then (AMIO_ERR_UNKNOWN_BACKEND, None)
      else case map_of (rev rs) k of
          Some d \<Rightarrow> (AMIO_OK, Some d)
        | None \<Rightarrow> bld k f)"
proof (induction rs arbitrary: f)
  case Nil
  then show ?case by (simp add: bld_invalid)
next
  case (Cons r rs)
  obtain k' d where r: "r = (k', d)" by (cases r)
  have "map_of (rev (r # rs)) k = (case map_of (rev rs) k of None \<Rightarrow> map_of [r] k | Some d \<Rightarrow> Some d)"
    by (simp add: map_add_def split: option.split)
  moreover have "bld k (snd (reg k' d f)) = (if valid_key k' \<and> k = k' then (AMIO_OK, Some d) else bld k f)"
    by (cases "valid_key k'") (simp_all add: bld_reg reg_invalid)
  ultimately show ?case using Cons.IH [of "snd (reg k' d f)"] r by (auto split: option.splits)
qed

end

interpretation registry: driver_registry factory_register factory_build "\<lambda>k. k \<noteq> []"
  by unfold_locales (auto simp: factory_register_def factory_build_def update_conv' split: option.splits)


section \<open>Properties\<close>

text \<open>
  Drivers are found by exact key and the last registration wins: after any sequence of
  registrations on an empty registry, building with a key yields the driver last registered under
  precisely that key, and the unknown-backend error otherwise (also for the empty key).
\<close>

theorem factory_last_writer_wins:
  "factory_build k (fold (\<lambda>(k, d) f. snd (factory_register k d f)) rs []) =
     (if k = [] then (AMIO_ERR_UNKNOWN_BACKEND, None)
      else case map_of (rev rs) k of
          Some d \<Rightarrow> (AMIO_OK, Some d)
        | None \<Rightarrow> (AMIO_ERR_UNKNOWN_BACKEND, None))"
  using registry.build_after_registrations [of k rs "[]"]
  by (simp add: factory_build_def split: option.split)

text \<open>
  The key list is sorted, duplicate-free and consists of exactly the keys that can be built.
\<close>

theorem registered_keys_exact:
  assumes "f = fold (\<lambda>(k, d) f. snd (factory_register k d f)) rs []"
  shows "sorted (registered_keys f) \<and> distinct (registered_keys f)
    \<and> set (registered_keys f) = {k. fst (factory_build k f) = AMIO_OK}
    \<and> (\<forall>k. factory_has k f \<longleftrightarrow> fst (factory_build k f) = AMIO_OK)"
proof -
  have "distinct (map fst (fold (\<lambda>(k, d) f. snd (factory_register k d f)) rs g)) \<and>
      [] \<notin> set (map fst (fold (\<lambda>(k, d) f. snd (factory_register k d f)) rs g))"
    if "distinct (map fst g)" and "[] \<notin> set (map fst g)" for g
    using that
  proof (induction rs arbitrary: g)
    case (Cons r rs)
    have "distinct (map fst (snd (factory_register (fst r) (snd r) g)))"
      "[] \<notin> set (map fst (snd (factory_register (fst r) (snd r) g)))"
      using Cons.prems by (auto simp: factory_register_def distinct_update dom_update)
    from Cons.IH [OF this] show ?case by (simp add: case_prod_unfold)
  qed simp
  from this [of "[]"] have f: "distinct (map fst f)" "[] \<notin> set (map fst f)" by (simp_all add: assms)
  have "fst (factory_build k f) = AMIO_OK \<longleftrightarrow> k \<in> set (map fst f)" for k
    using f(2) map_of_eq_None_iff [of f k] by (cases "k = []"; cases "map_of f k") (simp_all add: factory_build_def)
  moreover have "factory_has k f \<longleftrightarrow> k \<in> set (map fst f)" for k
    using f(2) map_of_eq_None_iff [of f k] by (auto simp: factory_has_def)
  ultimately show ?thesis using f(1) by (simp add: registered_keys_def)
qed

theorem registered_keys_exact_witness:
  "sorted (registered_keys (fold (\<lambda>(k, d) f. snd (factory_register k d f))
      [(''zarr'', 1 :: nat), (''grib2'', 2), (''zarr'', 3)] []))"
  using registered_keys_exact [OF refl, of "[(''zarr'', 1 :: nat), (''grib2'', 2), (''zarr'', 3)]"] by blast

end
