(* ===== verification/Worker_Pool.thy ===== *)
theory Worker_Pool
  imports Exception_Bridge Thread_Pinning
begin

text \<open>
  The background thread pool of \<^verbatim>\<open>src/workers/worker_pool.{hpp,cpp}\<close>: a FIFO write queue with a
  per-(dataset, variable) sequence number, a prefetch queue ordered by distance, admission control,
  drain and shutdown.  A \<^verbatim>\<open>std::function\<close> is a value of the parameter type \<open>'b\<close>; running it is the
  pair of steps that start it (under \<^verbatim>\<open>mu_\<close>) and finish it (after the callback returned or threw).
  Between the two the task is a local variable of a worker thread and is kept in \<open>wp_running\<close>.
  Submissions blocked on the watermark are kept in \<open>wp_blocked\<close>.  The 64-bit sequence counters are
  natural numbers: a wrap-around would take \<open>2 ^ 64\<close> submissions.
\<close>


section \<open>Data\<close>

record dv_key =
  dataset_id :: nat
  variable_id :: nat

record 'b write_task =
  wt_key :: dv_key
  wt_seq :: nat
  wt_handle :: u64
  wt_callback :: 'b

record 'b prefetch_task =
  pt_timestep :: int
  pt_distance :: int
  pt_dataset :: nat
  pt_handle :: u64
  pt_callback :: 'b

record backpressure_config =
  bp_enabled :: bool
  bp_low_watermark :: nat
  bp_high_watermark :: nat
  bp_queue_capacity :: nat

definition BackpressureConfig :: backpressure_config where
  "BackpressureConfig = \<lparr>bp_enabled = False, bp_low_watermark = 0, bp_high_watermark = 0, bp_queue_capacity = 1024\<rparr>"

record dv_order_state =
  next_seq :: nat
  exec_seq :: nat

datatype 'b running =
    RunWrite "'b write_task"
  | RunPrefetch "'b prefetch_task"
  | RunEnded \<comment> \<open>a write that has ended and is not yet subtracted from \<^verbatim>\<open>in_flight_\<close>\<close>

record ('b, 'c) worker_pool =
  wp_write_queue :: "'b write_task list"
  wp_prefetch_queue :: "'b prefetch_task list" \<comment> \<open>the heap's elements; \<^verbatim>\<open>top()\<close> is one of least distance\<close>
  wp_dv_states :: "dv_key \<Rightarrow> dv_order_state option"
  wp_shutdown :: bool
  wp_in_flight :: nat
  wp_writes_completed :: nat
  wp_prefetches_completed :: nat
  wp_thread_configs :: "thread_config list"
  wp_io_comm :: "'c io_communicator"
  wp_pinning_errors :: nat
  wp_backpressure :: backpressure_config
  wp_outcomes :: registry
  wp_running :: "'b running list"
  wp_blocked :: "(dv_key \<times> u64 \<times> 'b) list"

record 'c worker_pool_config =
  wc_thread_count :: nat
  wc_thread_configs :: "thread_config list"
  wc_io_comm :: "'c io_communicator"
  wc_backpressure :: backpressure_config

text \<open>The configured constructor; no thread has taken a task yet.\<close>

definition WorkerPool :: "'c worker_pool_config \<Rightarrow> ('b, 'c) worker_pool" where
  "WorkerPool c =
     \<lparr>wp_write_queue = [], wp_prefetch_queue = [], wp_dv_states = (\<lambda>_. None), wp_shutdown = False,
      wp_in_flight = 0, wp_writes_completed = 0, wp_prefetches_completed = 0,
      wp_thread_configs = wc_thread_configs c,
      wp_io_comm =
        (if \<not> ioc_valid (wc_io_comm c) then (wc_io_comm c)\<lparr>ioc_valid := True, ioc_is_io_rank := True\<rparr>
         else wc_io_comm c),
      wp_pinning_errors = 0, wp_backpressure = wc_backpressure c, wp_outcomes = [],
      wp_running = [], wp_blocked = []\<rparr>"

text \<open>The constructor that takes only the number of threads; \<open>io_comm\<close> is the default-constructed communicator record.\<close>

definition WorkerPool_threads :: "'c io_communicator \<Rightarrow> nat \<Rightarrow> ('b, 'c) worker_pool" where
  "WorkerPool_threads io_comm thread_count =
     \<lparr>wp_write_queue = [], wp_prefetch_queue = [], wp_dv_states = (\<lambda>_. None), wp_shutdown = False,
      wp_in_flight = 0, wp_writes_completed = 0, wp_prefetches_completed = 0, wp_thread_configs = [],
      wp_io_comm = io_comm\<lparr>ioc_valid := True, ioc_is_io_rank := True\<rparr>,
      wp_pinning_errors = 0, wp_backpressure = BackpressureConfig, wp_outcomes = [], wp_running = [], wp_blocked = []\<rparr>"

text \<open>
  What \<^verbatim>\<open>worker_loop_pinned\<close> does before it enters the loop; \<open>None\<close>: an exception escaped the thread.
\<close>

definition worker_loop_pinned ::
  "os_env \<Rightarrow> nat \<Rightarrow> int list \<Rightarrow> ('b, 'c) worker_pool \<Rightarrow> (int list \<times> ('b, 'c) worker_pool) option" where
  "worker_loop_pinned os i affinity st =
     (if i < length (wp_thread_configs st) then
        (case apply_thread_pinning os (wp_thread_configs st ! i) affinity of
           None \<Rightarrow> None
         | Some (rc, affinity') \<Rightarrow>
             Some (affinity', if rc \<noteq> AMIO_OK then st\<lparr>wp_pinning_errors := wp_pinning_errors st + 1\<rparr> else st))
      else Some (affinity, st))"


section \<open>Operations\<close>

definition fresh_dv :: dv_order_state where
  "fresh_dv = \<lparr>next_seq = 0, exec_seq = 0\<rparr>"

definition get_dv_state :: "dv_key \<Rightarrow> ('b, 'c) worker_pool \<Rightarrow> dv_order_state \<times> ('b, 'c) worker_pool" where
  "get_dv_state k st =
     (case wp_dv_states st k of
        Some d \<Rightarrow> (d, st)
      | None \<Rightarrow> (fresh_dv, st\<lparr>wp_dv_states := (wp_dv_states st)(k \<mapsto> fresh_dv)\<rparr>))"

text \<open>The tail of a submission: take a sequence number, push the task.\<close>

definition enqueue_write :: "dv_key \<Rightarrow> u64 \<Rightarrow> 'b \<Rightarrow> ('b, 'c) worker_pool \<Rightarrow> 'b write_task \<times> ('b, 'c) worker_pool" where
  "enqueue_write k h cb st =
     (let (d, st1) = get_dv_state k st;
          t = \<lparr>wt_key = k, wt_seq = next_seq d, wt_handle = h, wt_callback = cb\<rparr>
      in (t, st1\<lparr>wp_dv_states := (wp_dv_states st1)(k \<mapsto> d\<lparr>next_seq := next_seq d + 1\<rparr>),
                 wp_write_queue := wp_write_queue st1 @ [t]\<rparr>))"

datatype 'b submit_result =
    Submitted "'b write_task"
  | QueueFull            \<comment> \<open>\<^verbatim>\<open>AMIO_ERR_QUEUE_FULL\<close>\<close>
  | ShutDown             \<comment> \<open>no-op after shutdown\<close>
  | Blocked              \<comment> \<open>waiting for the queue to fall below the low watermark\<close>

text \<open>
  The three overloads of \<^verbatim>\<open>submit_write\<close> share this body up to the way they report the result.  The shutdown
  flag is read first, without \<^verbatim>\<open>mu_\<close>; the rest happens under \<^verbatim>\<open>mu_\<close>, when the flag may have changed, and looks at it
  again only with watermarks.
\<close>

definition submit_locked :: "dv_key \<Rightarrow> u64 \<Rightarrow> 'b \<Rightarrow> ('b, 'c) worker_pool \<Rightarrow> 'b submit_result \<times> ('b, 'c) worker_pool" where
  "submit_locked k h cb st =
     (if bp_enabled (wp_backpressure st) then
        (if length (wp_write_queue st) \<ge> bp_high_watermark (wp_backpressure st)
         then (Blocked, st\<lparr>wp_blocked := wp_blocked st @ [(k, h, cb)]\<rparr>)
         else if wp_shutdown st then (ShutDown, st)
         else let (t, st') = enqueue_write k h cb st in (Submitted t, st'))
      else if length (wp_write_queue st) \<ge> bp_queue_capacity (wp_backpressure st) then (QueueFull, st)
      else let (t, st') = enqueue_write k h cb st in (Submitted t, st'))"

definition submit_write_core :: "dv_key \<Rightarrow> u64 \<Rightarrow> 'b \<Rightarrow> ('b, 'c) worker_pool \<Rightarrow> 'b submit_result \<times> ('b, 'c) worker_pool" where
  "submit_write_core k h cb st = (if wp_shutdown st then (ShutDown, st) else submit_locked k h cb st)"

text \<open>
  The end of the wait of the \<open>i\<close>-th blocked submission: the predicate holds, or one second has passed.
  Nothing but the shutdown flag is looked at again.
\<close>

definition resume_write :: "nat \<Rightarrow> ('b, 'c) worker_pool \<Rightarrow> 'b submit_result \<times> ('b, 'c) worker_pool" where
  "resume_write i st =
     (let (k, h, cb) = wp_blocked st ! i;
          st1 = st\<lparr>wp_blocked := erase_at i (wp_blocked st)\<rparr>
      in if wp_shutdown st1 then (ShutDown, st1)
         else let (t, st') = enqueue_write k h cb st1 in (Submitted t, st'))"

definition wait_predicate :: "('b, 'c) worker_pool \<Rightarrow> bool" where
  "wait_predicate st \<longleftrightarrow>
     length (wp_write_queue st) < bp_low_watermark (wp_backpressure st) \<or> wp_shutdown st"

text \<open>What the overloads return: the sequence number, with 0 for a rejected submission too.\<close>

fun submit_return :: "'b submit_result \<Rightarrow> amio_err \<times> nat" where
  "submit_return (Submitted t) = (AMIO_OK, wt_seq t)"
| "submit_return QueueFull = (AMIO_ERR_QUEUE_FULL, 0)"
| "submit_return ShutDown = (AMIO_OK, 0)"
| "submit_return Blocked = (AMIO_OK, 0)"

definition push_prefetch ::
  "int \<Rightarrow> int \<Rightarrow> nat \<Rightarrow> u64 \<Rightarrow> 'b \<Rightarrow> ('b, 'c) worker_pool \<Rightarrow> ('b, 'c) worker_pool" where
  "push_prefetch timestep distance ds h cb st =
     st\<lparr>wp_prefetch_queue := wp_prefetch_queue st @
       [\<lparr>pt_timestep = timestep, pt_distance = distance, pt_dataset = ds, pt_handle = h, pt_callback = cb\<rparr>]\<rparr>"

definition submit_prefetch ::
  "int \<Rightarrow> int \<Rightarrow> nat \<Rightarrow> u64 \<Rightarrow> 'b \<Rightarrow> ('b, 'c) worker_pool \<Rightarrow> ('b, 'c) worker_pool" where
  "submit_prefetch timestep distance ds h cb st =
     (if wp_shutdown st then st else push_prefetch timestep distance ds h cb st)"

text \<open>\<open>i\<close> is a position the heap may hold its top at.\<close>

definition is_top :: "nat \<Rightarrow> 'b prefetch_task list \<Rightarrow> bool" where
  "is_top i q \<longleftrightarrow> i < length q \<and> list_all (\<lambda>t. pt_distance (q ! i) \<le> pt_distance t) q"

definition start_prefetch :: "nat \<Rightarrow> ('b, 'c) worker_pool \<Rightarrow> ('b, 'c) worker_pool" where
  "start_prefetch i st =
     st\<lparr>wp_prefetch_queue := erase_at i (wp_prefetch_queue st),
        wp_in_flight := wp_in_flight st + 1,
        wp_running := wp_running st @ [RunPrefetch (wp_prefetch_queue st ! i)]\<rparr>"

datatype 'b try_result = StartedWrite "'b write_task" | StartedPrefetch "'b prefetch_task" | NothingToDo

text \<open>
  \<^verbatim>\<open>try_execute_one\<close> up to the point where it releases \<^verbatim>\<open>mu_\<close>; \<open>i\<close> is the position of the heap's top.
\<close>

definition try_execute_one :: "nat \<Rightarrow> ('b, 'c) worker_pool \<Rightarrow> 'b try_result \<times> ('b, 'c) worker_pool" where
  "try_execute_one i st =
     (case wp_write_queue st of
        t # q \<Rightarrow>
          (let (d, st1) = get_dv_state (wt_key t) (st\<lparr>wp_write_queue := q\<rparr>)
           in if wt_seq t \<noteq> exec_seq d then
                (let st2 = st1\<lparr>wp_write_queue := wp_write_queue st1 @ [t]\<rparr>
                 in if wp_prefetch_queue st2 \<noteq> []
                    then (StartedPrefetch (wp_prefetch_queue st2 ! i), start_prefetch i st2)
                    else (NothingToDo, st2))
              else (StartedWrite t,
                    st1\<lparr>wp_in_flight := wp_in_flight st1 + 1, wp_running := wp_running st1 @ [RunWrite t]\<rparr>))
      | [] \<Rightarrow>
          if wp_prefetch_queue st \<noteq> []
          then (StartedPrefetch (wp_prefetch_queue st ! i), start_prefetch i st)
          else (NothingToDo, st))"

text \<open>The cordon of a finished callback; \<open>raised\<close> is what it threw.  Handle 0 records nothing.\<close>

definition record_outcome :: "'c trace_env \<Rightarrow> u64 \<Rightarrow> exn option \<Rightarrow> ('b, 'c) worker_pool \<Rightarrow> ('b, 'c) worker_pool" where
  "record_outcome env h raised st =
     (if h \<noteq> 0 then st\<lparr>wp_outcomes :=
        fst (snd (execute_with_exception_cordon env raised h (wp_io_comm st) (wp_outcomes st)))\<rparr>
      else st)"

text \<open>
  The end of a write is two critical sections: under the ordering mutex of its key the outcome is
  recorded and the execution counter advanced, after which the next write of the key may start; then
  the counters of the pool are updated.  \<open>finish_write\<close> is both, one after the other.
\<close>

definition end_write :: "'c trace_env \<Rightarrow> nat \<Rightarrow> 'b write_task \<Rightarrow> exn option \<Rightarrow> ('b, 'c) worker_pool \<Rightarrow> ('b, 'c) worker_pool" where
  "end_write env j t raised st =
     (let st1 = record_outcome env (wt_handle t) raised st;
          (d, st2) = get_dv_state (wt_key t) st1
      in st2\<lparr>wp_dv_states := (wp_dv_states st2)(wt_key t \<mapsto> d\<lparr>exec_seq := exec_seq d + 1\<rparr>),
             wp_running := (wp_running st2)[j := RunEnded]\<rparr>)"

definition leave_write :: "nat \<Rightarrow> ('b, 'c) worker_pool \<Rightarrow> ('b, 'c) worker_pool" where
  "leave_write j st =
     st\<lparr>wp_writes_completed := wp_writes_completed st + 1, wp_in_flight := wp_in_flight st - 1,
        wp_running := erase_at j (wp_running st)\<rparr>"

definition finish_write :: "'c trace_env \<Rightarrow> nat \<Rightarrow> 'b write_task \<Rightarrow> exn option \<Rightarrow> ('b, 'c) worker_pool \<Rightarrow> ('b, 'c) worker_pool" where
  "finish_write env j t raised st =
     (let st1 = record_outcome env (wt_handle t) raised st;
          (d, st2) = get_dv_state (wt_key t) st1
      in st2\<lparr>wp_dv_states := (wp_dv_states st2)(wt_key t \<mapsto> d\<lparr>exec_seq := exec_seq d + 1\<rparr>),
             wp_writes_completed := wp_writes_completed st2 + 1,
             wp_in_flight := wp_in_flight st2 - 1,
             wp_running := erase_at j (wp_running st2)\<rparr>)"

definition finish_prefetch :: "'c trace_env \<Rightarrow> nat \<Rightarrow> 'b prefetch_task \<Rightarrow> exn option \<Rightarrow> ('b, 'c) worker_pool \<Rightarrow> ('b, 'c) worker_pool" where
  "finish_prefetch env j t raised st =
     (let st1 = record_outcome env (pt_handle t) raised st
      in st1\<lparr>wp_prefetches_completed := wp_prefetches_completed st1 + 1,
             wp_in_flight := wp_in_flight st1 - 1,
             wp_running := erase_at j (wp_running st1)\<rparr>)"

definition shutdown :: "('b, 'c) worker_pool \<Rightarrow> ('b, 'c) worker_pool" where
  "shutdown st = st\<lparr>wp_shutdown := True\<rparr>"

definition drained :: "('b, 'c) worker_pool \<Rightarrow> bool" where
  "drained st \<longleftrightarrow> wp_write_queue st = [] \<and> wp_prefetch_queue st = [] \<and> wp_in_flight st = 0"

text \<open>The condition under which \<^verbatim>\<open>worker_loop\<close> returns.\<close>

definition worker_exits :: "('b, 'c) worker_pool \<Rightarrow> bool" where
  "worker_exits st \<longleftrightarrow> wp_shutdown st \<and> wp_write_queue st = [] \<and> wp_prefetch_queue st = []"

definition write_queue_depth :: "('b, 'c) worker_pool \<Rightarrow> nat" where
  "write_queue_depth st = length (wp_write_queue st)"

definition prefetch_queue_depth :: "('b, 'c) worker_pool \<Rightarrow> nat" where
  "prefetch_queue_depth st = length (wp_prefetch_queue st)"


section \<open>Steps\<close>

text \<open>What an observer of the write path sees of a step.\<close>

datatype 'b event = EvSubmit "'b write_task" | EvStart "'b write_task" | EvFinish "'b write_task" | EvOther

fun submit_event :: "'b submit_result \<Rightarrow> 'b event" where
  "submit_event (Submitted t) = EvSubmit t"
| "submit_event _ = EvOther"

fun try_event :: "'b try_result \<Rightarrow> 'b event" where
  "try_event (StartedWrite t) = EvStart t"
| "try_event _ = EvOther"

inductive wp_step :: "'c trace_env \<Rightarrow> ('b, 'c) worker_pool \<Rightarrow> 'b event \<Rightarrow> ('b, 'c) worker_pool \<Rightarrow> bool"
  for env :: "'c trace_env" where
  submit: "submit_write_core k h cb st = (r, st') \<Longrightarrow> wp_step env st (submit_event r) st'"
| submit_late: "submit_locked k h cb st = (r, st') \<Longrightarrow> wp_step env st (submit_event r) st'"
| resume: "i < length (wp_blocked st) \<Longrightarrow> resume_write i st = (r, st') \<Longrightarrow> wp_step env st (submit_event r) st'"
| prefetch: "wp_step env st EvOther (submit_prefetch timestep distance ds h cb st)"
| prefetch_late: "wp_step env st EvOther (push_prefetch timestep distance ds h cb st)"
| try_exec: "wp_prefetch_queue st = [] \<or> is_top i (wp_prefetch_queue st) \<Longrightarrow> try_execute_one i st = (r, st') \<Longrightarrow>
    wp_step env st (try_event r) st'"
| fin_write: "j < length (wp_running st) \<Longrightarrow> wp_running st ! j = RunWrite t \<Longrightarrow>
    wp_step env st (EvFinish t) (end_write env j t raised st)"
| leave: "j < length (wp_running st) \<Longrightarrow> wp_running st ! j = RunEnded \<Longrightarrow> wp_step env st EvOther (leave_write j st)"
| fin_prefetch: "j < length (wp_running st) \<Longrightarrow> wp_running st ! j = RunPrefetch p \<Longrightarrow>
    wp_step env st EvOther (finish_prefetch env j p raised st)"
| shut: "wp_step env st EvOther (shutdown st)"

inductive wp_run :: "'c trace_env \<Rightarrow> ('b, 'c) worker_pool \<Rightarrow> 'b event list \<Rightarrow> ('b, 'c) worker_pool \<Rightarrow> bool"
  for env :: "'c trace_env" where
  run_nil: "wp_run env st [] st"
| run_snoc: "wp_run env st evs st' \<Longrightarrow> wp_step env st' ev st'' \<Longrightarrow> wp_run env st (evs @ [ev]) st''"

text \<open>The tasks for one key, by kind of event, in the order of the events.\<close>

fun submitted_to :: "dv_key \<Rightarrow> 'b event list \<Rightarrow> 'b write_task list" where
  "submitted_to k [] = []"
| "submitted_to k (EvSubmit t # evs) = (if wt_key t = k then [t] else []) @ submitted_to k evs"
| "submitted_to k (_ # evs) = submitted_to k evs"

fun started_on :: "dv_key \<Rightarrow> 'b event list \<Rightarrow> 'b write_task list" where
  "started_on k [] = []"
| "started_on k (EvStart t # evs) = (if wt_key t = k then [t] else []) @ started_on k evs"
| "started_on k (_ # evs) = started_on k evs"

fun finished_on :: "dv_key \<Rightarrow> 'b event list \<Rightarrow> 'b write_task list" where
  "finished_on k [] = []"
| "finished_on k (EvFinish t # evs) = (if wt_key t = k then [t] else []) @ finished_on k evs"
| "finished_on k (_ # evs) = finished_on k evs"


section \<open>What the write path guarantees per key\<close>

definition dv :: "dv_key \<Rightarrow> ('b, 'c) worker_pool \<Rightarrow> dv_order_state" where
  "dv k st = (case wp_dv_states st k of Some d \<Rightarrow> d | None \<Rightarrow> fresh_dv)"

fun writes_of :: "'b running list \<Rightarrow> 'b write_task list" where
  "writes_of [] = []"
| "writes_of (RunWrite t # rs) = t # writes_of rs"
| "writes_of (RunPrefetch p # rs) = writes_of rs"
| "writes_of (RunEnded # rs) = writes_of rs"

definition queued :: "dv_key \<Rightarrow> ('b, 'c) worker_pool \<Rightarrow> 'b write_task multiset" where
  "queued k st = mset (filter (\<lambda>t. wt_key t = k) (wp_write_queue st))"

definition in_exec :: "dv_key \<Rightarrow> ('b, 'c) worker_pool \<Rightarrow> 'b write_task multiset" where
  "in_exec k st = mset (filter (\<lambda>t. wt_key t = k) (writes_of (wp_running st)))"

text \<open>
  The invariant of one key, against the events so far: the accepted tasks are numbered in order;
  those below the execution counter have finished, in that order; the others are queued, but for
  the next one, which may be executing.
\<close>

definition key_ok ::
  "'b event list \<Rightarrow> dv_key \<Rightarrow> 'b write_task multiset \<Rightarrow> 'b write_task multiset \<Rightarrow> dv_order_state \<Rightarrow> bool" where
  "key_ok evs k Q R d \<longleftrightarrow>
     (let subs = submitted_to k evs; e = exec_seq d
      in map wt_seq subs = [0..<next_seq d] \<and> e \<le> next_seq d
         \<and> Q + R = mset (drop e subs)
         \<and> (R = {#} \<or> e < next_seq d \<and> R = {#subs ! e#})
         \<and> finished_on k evs = take e subs
         \<and> started_on k evs = take (e + size R) subs)"

definition wp_ok :: "'b event list \<Rightarrow> ('b, 'c) worker_pool \<Rightarrow> bool" where
  "wp_ok evs st \<longleftrightarrow>
     (\<forall>k. key_ok evs k (queued k st) (in_exec k st) (dv k st)) \<and> wp_in_flight st = length (wp_running st)"

lemma submitted_to_append [simp]: "submitted_to k (evs @ evs') = submitted_to k evs @ submitted_to k evs'"
  by (induction k evs rule: submitted_to.induct) simp_all

lemma started_on_append [simp]: "started_on k (evs @ evs') = started_on k evs @ started_on k evs'"
  by (induction k evs rule: started_on.induct) simp_all

lemma finished_on_append [simp]: "finished_on k (evs @ evs') = finished_on k evs @ finished_on k evs'"
  by (induction k evs rule: finished_on.induct) simp_all

lemma key_okD:
  assumes "key_ok evs k Q R d" and "t \<in># Q + R"
  shows "wt_seq t < next_seq d" and "submitted_to k evs ! wt_seq t = t" and "exec_seq d \<le> wt_seq t"
proof -
  let ?subs = "submitted_to k evs"
  have seqs: "map wt_seq ?subs = [0..<next_seq d]" and "Q + R = mset (drop (exec_seq d) ?subs)"
    using assms(1) by (simp_all add: key_ok_def Let_def)
  then have "t \<in> set (drop (exec_seq d) ?subs)" using assms(2) by (metis set_mset_mset)
  then obtain i where i: "exec_seq d + i < length ?subs" "t = ?subs ! (exec_seq d + i)"
    by (auto simp: in_set_conv_nth less_diff_conv add.commute)
  have len: "length ?subs = next_seq d" using arg_cong [OF seqs, of length] by simp
  have "wt_seq t = exec_seq d + i"
    using i arg_cong [OF seqs, of "\<lambda>xs. xs ! (exec_seq d + i)"] len by simp
  with i len show "wt_seq t < next_seq d" "?subs ! wt_seq t = t" "exec_seq d \<le> wt_seq t" by simp_all
qed

lemma key_ok_length: "key_ok evs k Q R d \<Longrightarrow> length (submitted_to k evs) = next_seq d"
  unfolding key_ok_def Let_def by (metis length_map length_upt minus_nat.diff_0)

lemma key_ok_submit:
  assumes "key_ok evs k Q R d" and "wt_key t = k" and "wt_seq t = next_seq d"
  shows "key_ok (evs @ [EvSubmit t]) k (add_mset t Q) R (d\<lparr>next_seq := next_seq d + 1\<rparr>)"
proof -
  let ?subs = "submitted_to k evs"
  have len: "length ?subs = next_seq d" by (rule key_ok_length [OF assms(1)])
  have "size R \<le> 1" "R \<noteq> {#} \<Longrightarrow> exec_seq d < next_seq d"
    using assms(1) by (auto simp: key_ok_def Let_def)
  then have "exec_seq d + size R \<le> next_seq d"
    using assms(1) by (cases "R = {#}") (auto simp: key_ok_def Let_def)
  with assms len show ?thesis by (auto simp: key_ok_def Let_def nth_append)
qed

lemma key_ok_start:
  assumes "key_ok evs k Q R d" and "wt_key t = k" and "wt_seq t = exec_seq d" and "t \<in># Q"
  shows "key_ok (evs @ [EvStart t]) k (Q - {#t#}) (add_mset t R) d"
proof -
  let ?subs = "submitted_to k evs" and ?e = "exec_seq d"
  have t: "?subs ! ?e = t" "?e < next_seq d" using key_okD [OF assms(1), of t] assms(3,4) by simp_all
  have len: "length ?subs = next_seq d" by (rule key_ok_length [OF assms(1)])
  have R: "R = {#}"
  proof (rule ccontr)
    assume "R \<noteq> {#}"
    then have "R = {#t#}" using assms(1) t by (auto simp: key_ok_def Let_def)
    then have "count (Q + R) t \<ge> 2" using assms(4) by simp
    moreover have "distinct ?subs"
      using assms(1) distinct_map [of wt_seq ?subs] by (simp add: key_ok_def Let_def)
    then have "distinct (drop ?e ?subs)" by (rule distinct_drop)
    then have "count (mset (drop ?e ?subs)) t \<le> 1" by (simp add: distinct_count_atmost_1)
    moreover have "Q + R = mset (drop ?e ?subs)" using assms(1) by (simp add: key_ok_def Let_def)
    ultimately show False by (metis Suc_1 Suc_n_not_le_n One_nat_def order_trans)
  qed
  have "add_mset t (Q - {#t#}) = Q" using assms(4) by simp
  with assms(1,2) t len R show ?thesis
    by (auto simp: key_ok_def Let_def take_Suc_conv_app_nth)
qed

lemma key_ok_finish:
  assumes "key_ok evs k Q R d" and "wt_key t = k" and "t \<in># R"
  shows "key_ok (evs @ [EvFinish t]) k Q (R - {#t#}) (d\<lparr>exec_seq := exec_seq d + 1\<rparr>)"
proof -
  let ?subs = "submitted_to k evs" and ?e = "exec_seq d"
  have R: "R = {#t#}" "?e < next_seq d" "?subs ! ?e = t"
    using assms(1,3) by (auto simp: key_ok_def Let_def)
  have len: "length ?subs = next_seq d" by (rule key_ok_length [OF assms(1)])
  have "mset (drop ?e ?subs) = add_mset t (mset (drop (Suc ?e) ?subs))"
    using R len Cons_nth_drop_Suc [of ?e ?subs] by (metis mset.simps(2))
  then have "Q = mset (drop (Suc ?e) ?subs)"
    using assms(1) R(1) by (simp add: key_ok_def Let_def)
  with assms R len show ?thesis
    by (auto simp: key_ok_def Let_def take_Suc_conv_app_nth)
qed

lemma key_ok_frame:
  "key_ok evs k Q R d \<Longrightarrow> submitted_to k [ev] = [] \<Longrightarrow> started_on k [ev] = [] \<Longrightarrow> finished_on k [ev] = [] \<Longrightarrow>
   key_ok (evs @ [ev]) k Q R d"
  by (simp add: key_ok_def)


subsection \<open>What the operations do to a key\<close>

lemma get_dv_state_simps:
  "fst (get_dv_state k st) = dv k st" "dv k' (snd (get_dv_state k st)) = dv k' st"
  "wp_write_queue (snd (get_dv_state k st)) = wp_write_queue st"
  "wp_prefetch_queue (snd (get_dv_state k st)) = wp_prefetch_queue st"
  "wp_running (snd (get_dv_state k st)) = wp_running st"
  "wp_in_flight (snd (get_dv_state k st)) = wp_in_flight st"
  "wp_backpressure (snd (get_dv_state k st)) = wp_backpressure st"
  "wp_outcomes (snd (get_dv_state k st)) = wp_outcomes st"
  by (auto simp: get_dv_state_def dv_def split: option.splits)

lemma enqueue_write_spec:
  assumes "enqueue_write k h cb st = (t, st')"
  shows "t = \<lparr>wt_key = k, wt_seq = next_seq (dv k st), wt_handle = h, wt_callback = cb\<rparr>"
    and "wp_write_queue st' = wp_write_queue st @ [t]"
    and "dv k' st' = (if k' = k then (dv k st)\<lparr>next_seq := next_seq (dv k st) + 1\<rparr> else dv k' st)"
    and "wp_running st' = wp_running st" and "wp_in_flight st' = wp_in_flight st"
    and "wp_backpressure st' = wp_backpressure st"
  using assms
  by (auto simp: enqueue_write_def get_dv_state_def dv_def Let_def split: option.splits)

lemma enqueue_write_ok:
  assumes "wp_ok evs st" and "enqueue_write k h cb st = (t, st')"
  shows "wp_ok (evs @ [EvSubmit t]) st'"
proof -
  note sp = enqueue_write_spec [OF assms(2)]
  have k: "wt_key t = k" "wt_seq t = next_seq (dv k st)" by (simp_all add: sp(1))
  have "key_ok (evs @ [EvSubmit t]) k' (queued k' st') (in_exec k' st') (dv k' st')" for k'
  proof (cases "k' = k")
    case True
    have "key_ok evs k (queued k st) (in_exec k st) (dv k st)" using assms(1) by (simp add: wp_ok_def)
    from key_ok_submit [OF this k] True k show ?thesis
      by (simp add: sp(2-4) queued_def in_exec_def)
  next
    case False
    then show ?thesis
      using assms(1) k by (intro key_ok_frame) (simp_all add: sp(2-4) queued_def in_exec_def wp_ok_def)
  qed
  with assms(1) show ?thesis by (simp add: wp_ok_def sp)
qed

lemma wp_ok_frame:
  assumes "wp_ok evs st" and "\<And>k. queued k st' = queued k st" and "\<And>k. in_exec k st' = in_exec k st"
    and "\<And>k. dv k st' = dv k st" and "wp_in_flight st' = length (wp_running st')"
  shows "wp_ok (evs @ [EvOther]) st'"
  using assms by (simp add: wp_ok_def key_ok_frame)

lemma writes_of_append [simp]: "writes_of (xs @ ys) = writes_of xs @ writes_of ys"
  by (induction xs rule: writes_of.induct) simp_all

lemma writes_of_erase:
  assumes "j < length rs"
  shows "mset (writes_of rs) = mset (writes_of [rs ! j]) + mset (writes_of (erase_at j rs))"
proof -
  have "rs = take j rs @ rs ! j # drop (Suc j) rs" by (rule id_take_nth_drop [OF assms])
  then have "writes_of rs = writes_of (take j rs) @ writes_of [rs ! j] @ writes_of (drop (Suc j) rs)"
    by (metis append_Cons append_Nil writes_of_append)
  then show ?thesis by (simp add: erase_at_def)
qed

lemma try_execute_one_write:
  assumes "try_execute_one i st = (StartedWrite t, st')"
  shows "\<exists>q. wp_write_queue st = t # q \<and> wp_write_queue st' = q" and "wt_seq t = exec_seq (dv (wt_key t) st)"
    and "wp_running st' = wp_running st @ [RunWrite t]" and "wp_in_flight st' = wp_in_flight st + 1"
    and "dv k st' = dv k st" and "wp_backpressure st' = wp_backpressure st"
  using assms
  by (auto simp: try_execute_one_def start_prefetch_def get_dv_state_def dv_def Let_def
      split: list.splits if_splits option.splits)

lemma try_execute_one_other:
  assumes "try_execute_one i st = (r, st')" and "\<And>t. r \<noteq> StartedWrite t"
  shows "mset (wp_write_queue st') = mset (wp_write_queue st)"
    and "writes_of (wp_running st') = writes_of (wp_running st)"
    and "wp_in_flight st + length (wp_running st') = wp_in_flight st' + length (wp_running st)"
    and "dv k st' = dv k st" and "wp_backpressure st' = wp_backpressure st"
  using assms
  by (auto simp: try_execute_one_def start_prefetch_def get_dv_state_def dv_def Let_def
      split: list.splits if_splits option.splits)


lemma try_execute_one_ok:
  assumes "wp_ok evs st" and "try_execute_one i st = (r, st')"
  shows "wp_ok (evs @ [try_event r]) st'"
proof (cases "\<exists>t. r = StartedWrite t")
  case True
  then obtain t where r: "r = StartedWrite t" by blast
  note sp = try_execute_one_write [OF assms(2) [unfolded r]]
  obtain q where q: "wp_write_queue st = t # q" "wp_write_queue st' = q" using sp(1) by blast
  have "key_ok (evs @ [EvStart t]) k (queued k st') (in_exec k st') (dv k st')" for k
  proof (cases "wt_key t = k")
    case True
    have "key_ok evs k (queued k st) (in_exec k st) (dv k st)" using assms(1) by (simp add: wp_ok_def)
    from key_ok_start [OF this True] True sp(2) show ?thesis
      by (simp add: sp(3,5) q queued_def in_exec_def)
  next
    case False
    have "key_ok evs k (queued k st) (in_exec k st) (dv k st)" using assms(1) by (simp add: wp_ok_def)
    with False show ?thesis
      by (intro key_ok_frame) (simp_all add: sp(3,5) q queued_def in_exec_def)
  qed
  with assms(1) show ?thesis by (simp add: wp_ok_def r sp)
next
  case False
  then have no: "\<And>t. r \<noteq> StartedWrite t" by blast
  note sp = try_execute_one_other [OF assms(2) no]
  have "try_event r = EvOther" using False by (cases r) auto
  moreover have "wp_ok (evs @ [EvOther]) st'"
    using assms(1) sp by (intro wp_ok_frame) (simp_all add: queued_def in_exec_def wp_ok_def)
  ultimately show ?thesis by simp
qed

lemma record_outcome_simps [simp]:
  "wp_write_queue (record_outcome env h x st) = wp_write_queue st"
  "wp_prefetch_queue (record_outcome env h x st) = wp_prefetch_queue st"
  "wp_dv_states (record_outcome env h x st) = wp_dv_states st"
  "wp_running (record_outcome env h x st) = wp_running st"
  "wp_in_flight (record_outcome env h x st) = wp_in_flight st"
  "wp_backpressure (record_outcome env h x st) = wp_backpressure st"
  "dv k (record_outcome env h x st) = dv k st"
  by (simp_all add: record_outcome_def dv_def)

lemma finish_write_split:
  assumes "j < length (wp_running st)"
  shows "finish_write env j t x st = leave_write j (end_write env j t x st)"
proof -
  have "erase_at j (rs[j := r]) = erase_at j rs" for rs :: "'a running list" and r
    by (simp add: erase_at_def)
  then show ?thesis
    by (simp add: finish_write_def end_write_def leave_write_def Let_def split: prod.split)
qed

lemma end_write_simps:
  "wp_write_queue (end_write env j t x st) = wp_write_queue st"
  "wp_prefetch_queue (end_write env j t x st) = wp_prefetch_queue st"
  "wp_running (end_write env j t x st) = (wp_running st)[j := RunEnded]"
  "wp_in_flight (end_write env j t x st) = wp_in_flight st"
  "wp_backpressure (end_write env j t x st) = wp_backpressure st"
  "dv k (end_write env j t x st) =
     (if k = wt_key t then (dv k st)\<lparr>exec_seq := exec_seq (dv k st) + 1\<rparr> else dv k st)"
  by (auto simp: end_write_def get_dv_state_def dv_def Let_def split: option.splits)

lemma end_write_ok:
  assumes "wp_ok evs st" and "j < length (wp_running st)" and "wp_running st ! j = RunWrite t"
  shows "wp_ok (evs @ [EvFinish t]) (end_write env j t x st)"
proof -
  let ?st' = "end_write env j t x st" and ?rs = "(wp_running st)[j := RunEnded]"
  have "erase_at j ?rs = erase_at j (wp_running st)" by (simp add: erase_at_def)
  then have w: "mset (writes_of (wp_running st)) = add_mset t (mset (writes_of ?rs))"
    using writes_of_erase [OF assms(2)] writes_of_erase [of j ?rs] assms(2,3) by simp
  have R: "in_exec k st = (if wt_key t = k then add_mset t (in_exec k ?st') else in_exec k ?st')" for k
    using arg_cong [OF w, of "filter_mset (\<lambda>t. wt_key t = k)"]
    by (simp add: in_exec_def end_write_simps mset_filter)
  have Q: "queued k ?st' = queued k st" for k by (simp add: queued_def end_write_simps)
  have "key_ok (evs @ [EvFinish t]) k (queued k ?st') (in_exec k ?st') (dv k ?st')" for k
  proof (cases "wt_key t = k")
    case True
    have "key_ok evs k (queued k st) (in_exec k st) (dv k st)" using assms(1) by (simp add: wp_ok_def)
    from key_ok_finish [OF this True] True show ?thesis by (simp add: R Q end_write_simps)
  next
    case False
    have "key_ok evs k (queued k st) (in_exec k st) (dv k st)" using assms(1) by (simp add: wp_ok_def)
    with False show ?thesis by (intro key_ok_frame) (simp_all add: R Q end_write_simps)
  qed
  with assms(1) show ?thesis by (simp add: wp_ok_def end_write_simps)
qed

lemma leave_write_ok:
  assumes "wp_ok evs st" and "j < length (wp_running st)" and "wp_running st ! j = RunEnded"
  shows "wp_ok (evs @ [EvOther]) (leave_write j st)"
proof -
  have "mset (writes_of (wp_running st)) = mset (writes_of (erase_at j (wp_running st)))"
    using writes_of_erase [OF assms(2)] assms(3) by simp
  from arg_cong [OF this, of "filter_mset (\<lambda>t. wt_key t = k)" for k]
  have "in_exec k (leave_write j st) = in_exec k st" for k by (simp add: in_exec_def leave_write_def mset_filter)
  with assms(1,2) show ?thesis
    by (intro wp_ok_frame) (simp_all add: queued_def leave_write_def wp_ok_def dv_def)
qed

lemma finish_prefetch_ok:
  assumes "wp_ok evs st" and "j < length (wp_running st)" and "wp_running st ! j = RunPrefetch p"
  shows "wp_ok (evs @ [EvOther]) (finish_prefetch env j p x st)"
proof -
  have w: "mset (writes_of (wp_running st)) = mset (writes_of (erase_at j (wp_running st)))"
    using writes_of_erase [OF assms(2)] assms(3) by simp
  have "in_exec k (finish_prefetch env j p x st) = in_exec k st" for k
    using arg_cong [OF w, of "filter_mset (\<lambda>t. wt_key t = k)"]
    by (simp add: in_exec_def finish_prefetch_def mset_filter Let_def)
  moreover have "dv k (finish_prefetch env j p x st) = dv k st" for k
    by (simp add: finish_prefetch_def dv_def Let_def)
  ultimately show ?thesis
    using assms(1,2) by (intro wp_ok_frame) (simp_all add: queued_def finish_prefetch_def wp_ok_def Let_def)
qed

lemma wp_ok_unobserved:
  assumes "wp_ok evs st" and "wp_write_queue st' = wp_write_queue st" and "wp_running st' = wp_running st"
    and "wp_dv_states st' = wp_dv_states st" and "wp_in_flight st' = wp_in_flight st"
  shows "wp_ok (evs @ [EvOther]) st'"
  using assms by (intro wp_ok_frame) (simp_all add: queued_def in_exec_def dv_def wp_ok_def)

lemma wp_ok_drop_blocked: "wp_ok evs (st\<lparr>wp_blocked := b\<rparr>) \<longleftrightarrow> wp_ok evs st"
  by (simp add: wp_ok_def queued_def in_exec_def dv_def)

lemma submit_locked_ok:
  assumes "wp_ok evs st" and "submit_locked k h cb st = (r, st')"
  shows "wp_ok (evs @ [submit_event r]) st'"
  using assms(2)
  by (auto simp: submit_locked_def Let_def split: if_splits prod.splits
      intro: enqueue_write_ok [OF assms(1)] wp_ok_unobserved [OF assms(1)])

lemma submit_write_core_ok:
  assumes "wp_ok evs st" and "submit_write_core k h cb st = (r, st')"
  shows "wp_ok (evs @ [submit_event r]) st'"
  using assms(2)
  by (auto simp: submit_write_core_def split: if_splits
      intro: submit_locked_ok [OF assms(1)] wp_ok_unobserved [OF assms(1)])

lemma resume_write_ok:
  assumes "wp_ok evs st" and "resume_write i st = (r, st')"
  shows "wp_ok (evs @ [submit_event r]) st'"
proof -
  obtain k h cb where b: "wp_blocked st ! i = (k, h, cb)" by (cases "wp_blocked st ! i")
  let ?st1 = "st\<lparr>wp_blocked := erase_at i (wp_blocked st)\<rparr>"
  have ok: "wp_ok evs ?st1" using assms(1) by (simp add: wp_ok_drop_blocked)
  show ?thesis
    using assms(2) b
    by (auto simp: resume_write_def Let_def split: if_splits prod.splits
        intro: enqueue_write_ok [OF ok] wp_ok_unobserved [OF ok])
qed

lemma wp_step_ok: "wp_step env st ev st' \<Longrightarrow> wp_ok evs st \<Longrightarrow> wp_ok (evs @ [ev]) st'"
proof (induction rule: wp_step.induct)
  case (submit k h cb st r st')
  then show ?case by (blast intro: submit_write_core_ok)
next
  case (resume i st r st')
  then show ?case by (blast intro: resume_write_ok)
next
  case (prefetch st timestep distance ds h cb)
  then show ?case by (rule wp_ok_unobserved) (simp_all add: submit_prefetch_def push_prefetch_def)
next
  case (prefetch_late st timestep distance ds h cb)
  then show ?case by (rule wp_ok_unobserved) (simp_all add: push_prefetch_def)
next
  case (submit_late k h cb st r st')
  then show ?case by (blast intro: submit_locked_ok)
next
  case (leave j st)
  then show ?case by (blast intro: leave_write_ok)
next
  case (try_exec st i r st')
  then show ?case by (blast intro: try_execute_one_ok)
next
  case (fin_write j st t raised)
  then show ?case by (blast intro: end_write_ok)
next
  case (fin_prefetch j st p raised)
  then show ?case by (blast intro: finish_prefetch_ok)
next
  case (shut st)
  then show ?case by (rule wp_ok_unobserved) (simp_all add: shutdown_def)
qed

lemma wp_ok_init: "wp_ok [] (WorkerPool c)"
  by (simp add: wp_ok_def key_ok_def queued_def in_exec_def dv_def WorkerPool_def fresh_dv_def Let_def)

lemma wp_run_ok: "wp_run env st evs st' \<Longrightarrow> wp_ok [] st \<Longrightarrow> wp_ok evs st'"
  by (induction rule: wp_run.induct) (auto intro: wp_step_ok)

lemmas wp_reachable_ok = wp_run_ok [OF _ wp_ok_init]


section \<open>Rotation of the queue\<close>

definition ready :: "('b, 'c) worker_pool \<Rightarrow> 'b write_task \<Rightarrow> bool" where
  "ready st t \<longleftrightarrow> wt_seq t = exec_seq (dv (wt_key t) st)"

abbreviation poll :: "('b, 'c) worker_pool \<Rightarrow> ('b, 'c) worker_pool" where
  "poll st \<equiv> snd (try_execute_one 0 st)"

text \<open>Polls one after the other; at each, the prefetch queue has its top at a given position.\<close>

primrec polled :: "nat list \<Rightarrow> ('b, 'c) worker_pool \<Rightarrow> ('b, 'c) worker_pool" where
  "polled [] st = st"
| "polled (i # is) st = polled is (snd (try_execute_one i st))"

lemma poll_ready:
  assumes "wp_write_queue st = t # q" and "ready st t"
  shows "fst (try_execute_one i st) = StartedWrite t"
  using assms
  by (auto simp: try_execute_one_def ready_def get_dv_state_def dv_def Let_def split: option.splits)

lemma poll_not_ready:
  assumes "wp_write_queue st = t # q" and "\<not> ready st t"
  shows "wp_write_queue (snd (try_execute_one i st)) = q @ [t]" and "ready (snd (try_execute_one i st)) = ready st"
  using assms
  by (auto simp: try_execute_one_def ready_def get_dv_state_def start_prefetch_def dv_def Let_def fun_eq_iff split: option.splits)

lemma rotation_finds_ready:
  assumes "wp_write_queue st = xs @ t # ys" and "\<forall>x\<in>set xs. \<not> ready st x" and "ready st t" and "length xs \<le> length is"
  shows "fst (try_execute_one i (polled (take (length xs) is) st)) = StartedWrite t"
  using assms
proof (induction xs arbitrary: st ys "is")
  case Nil
  then show ?case by (simp add: poll_ready)
next
  case (Cons x xs)
  obtain k ks where k: "is = k # ks" using Cons.prems(4) by (cases "is") simp_all
  have x: "wp_write_queue st = x # (xs @ t # ys)" "\<not> ready st x" using Cons.prems by simp_all
  note p = poll_not_ready [OF x, of k]
  have "fst (try_execute_one i (polled (take (length xs) ks) (snd (try_execute_one k st)))) = StartedWrite t"
    by (rule Cons.IH [of _ "ys @ [x]"]) (use p Cons.prems k in simp_all)
  then show ?case by (simp add: k)
qed

lemma ready_exists:
  assumes "wp_ok evs st" and "t \<in> set (wp_write_queue st)" and "in_exec (wt_key t) st = {#}"
  shows "\<exists>u\<in>set (wp_write_queue st). wt_key u = wt_key t \<and> ready st u"
proof -
  let ?k = "wt_key t" and ?subs = "submitted_to (wt_key t) evs"
  have ok: "key_ok evs ?k (queued ?k st) (in_exec ?k st) (dv ?k st)" using assms(1) by (simp add: wp_ok_def)
  then have Q: "queued ?k st = mset (drop (exec_seq (dv ?k st)) ?subs)"
    using assms(3) by (simp add: key_ok_def Let_def)
  have "t \<in># queued ?k st" using assms(2) by (simp add: queued_def)
  then have lt: "exec_seq (dv ?k st) < length ?subs" using Q by (auto intro: ccontr)
  let ?u = "?subs ! exec_seq (dv ?k st)"
  have u: "?u \<in># queued ?k st" using Q lt by (auto simp: in_set_conv_nth intro: exI [of _ 0])
  have "map wt_seq ?subs = [0..<next_seq (dv ?k st)]" using ok by (simp add: key_ok_def Let_def)
  then have "wt_seq ?u = exec_seq (dv ?k st)"
    using lt key_ok_length [OF ok] by (metis add_0 nth_map nth_upt)
  with u show ?thesis by (auto simp: queued_def ready_def)
qed


section \<open>Admission\<close>

definition admission_ok :: "('b, 'c) worker_pool \<Rightarrow> bool" where
  "admission_ok st \<longleftrightarrow>
     \<not> bp_enabled (wp_backpressure st) \<longrightarrow>
       wp_blocked st = [] \<and> length (wp_write_queue st) \<le> bp_queue_capacity (wp_backpressure st)"

lemma try_execute_one_queue:
  "length (wp_write_queue (snd (try_execute_one i st))) \<le> length (wp_write_queue st)
   \<and> wp_blocked (snd (try_execute_one i st)) = wp_blocked st
   \<and> wp_backpressure (snd (try_execute_one i st)) = wp_backpressure st"
  by (auto simp: try_execute_one_def start_prefetch_def get_dv_state_def Let_def
      split: list.splits option.splits)

lemma enqueue_write_blocked: "enqueue_write k h cb st = (t, st') \<Longrightarrow> wp_blocked st' = wp_blocked st"
  by (auto simp: enqueue_write_def get_dv_state_def Let_def split: option.splits)

lemma submit_locked_admission:
  "submit_locked k h cb st = (r, st') \<Longrightarrow> admission_ok st \<Longrightarrow> admission_ok st' \<and> wp_backpressure st' = wp_backpressure st"
  by (auto simp: submit_locked_def admission_ok_def Let_def enqueue_write_spec enqueue_write_blocked
      split: if_splits prod.splits)

lemma wp_step_admission:
  "wp_step env st ev st' \<Longrightarrow> admission_ok st \<Longrightarrow> admission_ok st' \<and> wp_backpressure st' = wp_backpressure st"
proof (induction rule: wp_step.induct)
  case (submit k h cb st r st')
  then show ?case by (auto simp: submit_write_core_def split: if_splits dest: submit_locked_admission)
next
  case (submit_late k h cb st r st')
  then show ?case by (rule submit_locked_admission)
next
  case (resume i st r st')
  then show ?case
    by (auto simp: resume_write_def admission_ok_def Let_def enqueue_write_spec split: if_splits prod.splits)
next
  case (try_exec st i r st')
  then show ?case
    using try_execute_one_queue [of i st] by (auto simp: admission_ok_def)
next
  case (fin_write j st t raised)
  then show ?case
    by (auto simp: admission_ok_def end_write_def record_outcome_def get_dv_state_def Let_def
        split: option.splits)
next
  case (fin_prefetch j st p raised)
  then show ?case by (auto simp: admission_ok_def finish_prefetch_def record_outcome_def Let_def)
qed (auto simp: admission_ok_def submit_prefetch_def push_prefetch_def leave_write_def shutdown_def)

lemma wp_run_admission:
  "wp_run env st evs st' \<Longrightarrow> admission_ok st \<Longrightarrow> admission_ok st' \<and> wp_backpressure st' = wp_backpressure st"
  by (induction rule: wp_run.induct) (auto dest: wp_step_admission)


section \<open>Properties\<close>

text \<open>
  C4.  Writes to one (dataset, variable) pair execute in submission order and never overlap: in every
  run of the pool, with any number of workers and any interleaving, the writes started on a pair
  are a prefix of those accepted for it, the finished ones a prefix of the started ones, and at
  most one is executing.
\<close>

theorem writes_in_submission_order:
  assumes "wp_run env (WorkerPool c) evs st"
  shows "\<exists>m n. m \<le> n \<and> n \<le> m + 1 \<and> n \<le> length (submitted_to k evs)
    \<and> finished_on k evs = take m (submitted_to k evs) \<and> started_on k evs = take n (submitted_to k evs)
    \<and> map wt_seq (submitted_to k evs) = [0..<length (submitted_to k evs)]"
proof -
  have ok: "key_ok evs k (queued k st) (in_exec k st) (dv k st)"
    using wp_reachable_ok [OF assms] by (simp add: wp_ok_def)
  let ?e = "exec_seq (dv k st)"
  have "size (in_exec k st) \<le> 1 \<and> ?e + size (in_exec k st) \<le> length (submitted_to k evs)"
    using ok key_ok_length [OF ok] by (auto simp: key_ok_def Let_def)
  then show ?thesis
    using ok key_ok_length [OF ok]
    by (intro exI [of _ ?e] exI [of _ "?e + size (in_exec k st)"]) (simp add: key_ok_def Let_def)
qed

text \<open>Concrete runs, for the examples below.\<close>

definition demo_env :: "nat trace_env" where
  "demo_env = \<lparr>te_time = [], te_has_mpi = False, te_rank_of = (\<lambda>_. None), te_size_of = (\<lambda>_. None), te_logger = False\<rparr>"

definition demo_pool :: "backpressure_config \<Rightarrow> (nat, nat) worker_pool" where
  "demo_pool bp = WorkerPool \<lparr>wc_thread_count = 2, wc_thread_configs = [], wc_io_comm = IOCommunicator, wc_backpressure = bp\<rparr>"

definition demo_key :: dv_key where
  "demo_key = \<lparr>dataset_id = 3, variable_id = 5\<rparr>"

definition demo_task :: "nat \<Rightarrow> nat \<Rightarrow> nat write_task" where
  "demo_task n cb = \<lparr>wt_key = demo_key, wt_seq = n, wt_handle = 0, wt_callback = cb\<rparr>"

definition demo_submit :: "nat \<Rightarrow> (nat, nat) worker_pool \<Rightarrow> (nat, nat) worker_pool" where
  "demo_submit cb st = snd (submit_write_core demo_key 0 cb st)"

lemma run_submit:
  assumes "wp_run demo_env st evs st'" and "submit_event (fst (submit_write_core demo_key 0 cb st')) = ev"
  shows "wp_run demo_env st (evs @ [ev]) (demo_submit cb st')"
  using run_snoc [OF assms(1) wp_step.submit [OF prod.collapse [symmetric]]] assms(2)
  by (fastforce simp: demo_submit_def)

lemma run_try:
  assumes "wp_run demo_env st evs st'" and "wp_prefetch_queue st' = []"
    and "try_event (fst (try_execute_one 0 st')) = ev"
  shows "wp_run demo_env st (evs @ [ev]) (poll st')"
  using run_snoc [OF assms(1) wp_step.try_exec [OF _ prod.collapse [symmetric]]] assms(2,3) by fastforce

theorem writes_in_submission_order_witness:
  "\<exists>st. wp_run demo_env (demo_pool BackpressureConfig)
      [EvSubmit (demo_task 0 7), EvSubmit (demo_task 1 8), EvStart (demo_task 0 7)] st
    \<and> (\<exists>n. started_on demo_key [EvSubmit (demo_task 0 7), EvSubmit (demo_task 1 8), EvStart (demo_task 0 7)]
          = take n [demo_task 0 7, demo_task 1 8])"
proof -
  let ?s0 = "demo_pool BackpressureConfig"
  have "wp_run demo_env ?s0 ([] @ [EvSubmit (demo_task 0 7)]) (demo_submit 7 ?s0)"
    by (rule run_submit [OF run_nil]) code_simp
  then have "wp_run demo_env ?s0 (([] @ [EvSubmit (demo_task 0 7)]) @ [EvSubmit (demo_task 1 8)])
      (demo_submit 8 (demo_submit 7 ?s0))"
    by (rule run_submit) code_simp
  then have "wp_run demo_env ?s0
      ((([] @ [EvSubmit (demo_task 0 7)]) @ [EvSubmit (demo_task 1 8)]) @ [EvStart (demo_task 0 7)])
      (poll (demo_submit 8 (demo_submit 7 ?s0)))"
    by (rule run_try) code_simp+
  then have r: "wp_run demo_env ?s0 [EvSubmit (demo_task 0 7), EvSubmit (demo_task 1 8), EvStart (demo_task 0 7)]
      (poll (demo_submit 8 (demo_submit 7 ?s0)))"
    by simp
  have "submitted_to demo_key [EvSubmit (demo_task 0 7), EvSubmit (demo_task 1 8), EvStart (demo_task 0 7)]
      = [demo_task 0 7, demo_task 1 8]"
    by (simp add: demo_task_def)
  with writes_in_submission_order [OF r [unfolded demo_pool_def], of demo_key] r show ?thesis by metis
qed

text \<open>
  C9.  Drain is complete: once the pool is drained (the condition \<^verbatim>\<open>drain\<close> waits for), every write that
  was accepted for any pair has been executed to its end, exactly once and in order; the same holds
  when a worker leaves its loop and nothing is executing.
\<close>

theorem drained_means_all_executed:
  assumes "wp_run env (WorkerPool c) evs st" and "drained st \<or> worker_exits st \<and> wp_in_flight st = 0"
  shows "finished_on k evs = submitted_to k evs \<and> started_on k evs = submitted_to k evs
    \<and> exec_seq (dv k st) = next_seq (dv k st)"
proof -
  have ok: "key_ok evs k (queued k st) (in_exec k st) (dv k st)" "wp_in_flight st = length (wp_running st)"
    using wp_reachable_ok [OF assms(1)] by (simp_all add: wp_ok_def)
  have "wp_write_queue st = []" "wp_running st = []"
    using assms(2) ok(2) by (auto simp: drained_def worker_exits_def)
  then have "queued k st = {#}" "in_exec k st = {#}" by (simp_all add: queued_def in_exec_def)
  then have "drop (exec_seq (dv k st)) (submitted_to k evs) = []" "in_exec k st = {#}"
    using ok(1) by (auto simp: key_ok_def Let_def)
  then show ?thesis
    using ok(1) key_ok_length [OF ok(1)] by (simp add: key_ok_def Let_def)
qed

lemma run_finish:
  assumes "wp_run demo_env st evs st'" and "wp_running st' = [RunWrite t]"
  shows "wp_run demo_env st (evs @ [EvFinish t, EvOther]) (leave_write 0 (end_write demo_env 0 t None st'))"
proof -
  have "wp_run demo_env st (evs @ [EvFinish t]) (end_write demo_env 0 t None st')"
    by (rule run_snoc [OF assms(1) wp_step.fin_write]) (simp_all add: assms(2))
  from run_snoc [OF this wp_step.leave [of 0]] assms(2) show ?thesis by (simp add: end_write_simps)
qed

theorem drained_means_all_executed_witness:
  "\<exists>st. wp_run demo_env (demo_pool BackpressureConfig)
      [EvSubmit (demo_task 0 7), EvStart (demo_task 0 7), EvFinish (demo_task 0 7), EvOther] st \<and> drained st
    \<and> finished_on demo_key [EvSubmit (demo_task 0 7), EvStart (demo_task 0 7), EvFinish (demo_task 0 7), EvOther] = [demo_task 0 7]
    \<and> exec_seq (dv demo_key st) = 1"
proof -
  let ?evs = "[EvSubmit (demo_task 0 7), EvStart (demo_task 0 7), EvFinish (demo_task 0 7), EvOther]"
  let ?s0 = "demo_pool BackpressureConfig" and ?s2 = "poll (demo_submit 7 (demo_pool BackpressureConfig))"
  let ?st = "leave_write 0 (end_write demo_env 0 (demo_task 0 7) None ?s2)"
  have "wp_run demo_env ?s0 ([] @ [EvSubmit (demo_task 0 7)]) (demo_submit 7 ?s0)"
    by (rule run_submit [OF run_nil]) code_simp
  then have "wp_run demo_env ?s0 (([] @ [EvSubmit (demo_task 0 7)]) @ [EvStart (demo_task 0 7)]) ?s2"
    by (rule run_try) code_simp+
  moreover have "wp_running ?s2 = [RunWrite (demo_task 0 7)]" by code_simp
  ultimately have "wp_run demo_env ?s0 ((([] @ [EvSubmit (demo_task 0 7)]) @ [EvStart (demo_task 0 7)]) @ [EvFinish (demo_task 0 7), EvOther]) ?st"
    by (rule run_finish)
  then have r: "wp_run demo_env ?s0 ?evs ?st" by simp
  have d: "drained ?st" "next_seq (dv demo_key ?st) = 1" by code_simp+
  from drained_means_all_executed [OF r [unfolded demo_pool_def], of demo_key] d r show ?thesis
    by (auto simp: demo_pool_def demo_task_def)
qed

text \<open>
  C10.  No deadlock among the queued writes: in every reachable state with queued writes, none of them
  executing, polling the queue (which moves a write whose turn has not come to the back, and runs a
  prefetch instead when there is one) starts a write after fewer polls than there are queued writes,
  whatever prefetches are queued and whichever of them the polls take.
\<close>

theorem queued_writes_progress:
  assumes "wp_run env (WorkerPool c) evs st" and "wp_write_queue st \<noteq> []"
    and "writes_of (wp_running st) = []" and "length (wp_write_queue st) \<le> length is"
  shows "\<exists>n t. n < length (wp_write_queue st) \<and> t \<in> set (wp_write_queue st)
    \<and> (\<forall>i. fst (try_execute_one i (polled (take n is) st)) = StartedWrite t)"
proof -
  have ok: "wp_ok evs st" by (rule wp_reachable_ok [OF assms(1)])
  have idle: "in_exec k st = {#}" for k using assms(3) by (simp add: in_exec_def)
  obtain u where "u \<in> set (wp_write_queue st)" "ready st u"
    using ready_exists [OF ok _ idle] assms(2) by (metis list.set_intros(1) neq_Nil_conv)
  then obtain xs t ys where q: "wp_write_queue st = xs @ t # ys" "ready st t" "\<forall>x\<in>set xs. \<not> ready st x"
    using split_list_first_prop [of "wp_write_queue st" "ready st"] by blast
  have "length xs < length (wp_write_queue st)" "t \<in> set (wp_write_queue st)" using q(1) by simp_all
  moreover have "fst (try_execute_one i (polled (take (length xs) is) st)) = StartedWrite t" for i
    by (rule rotation_finds_ready [OF q(1,3,2)]) (use assms(4) q(1) in simp)
  ultimately show ?thesis by blast
qed

theorem queued_writes_progress_witness:
  "\<exists>n t. n < 1 \<and> fst (try_execute_one 0 (polled (take n [0])
      (push_prefetch 4 1 3 0 9 (demo_submit 7 (demo_pool BackpressureConfig))))) = StartedWrite t"
proof -
  let ?st = "push_prefetch 4 1 3 0 9 (demo_submit 7 (demo_pool BackpressureConfig))"
  have "wp_run demo_env (demo_pool BackpressureConfig) ([] @ [EvSubmit (demo_task 0 7)])
      (demo_submit 7 (demo_pool BackpressureConfig))"
    by (rule run_submit [OF run_nil]) code_simp
  from run_snoc [OF this wp_step.prefetch_late]
  have r: "wp_run demo_env (demo_pool BackpressureConfig) (([] @ [EvSubmit (demo_task 0 7)]) @ [EvOther]) ?st" .
  have q: "length (wp_write_queue ?st) = 1" and "writes_of (wp_running ?st) = []" by code_simp+
  moreover from q have "wp_write_queue ?st \<noteq> []" by auto
  ultimately show ?thesis using queued_writes_progress [OF r [unfolded demo_pool_def], of "[0]"] by (simp add: demo_pool_def) blast
qed

text \<open>
  C25.  Admission without watermarks is a hard bound: the write queue never exceeds its capacity, no
  submission ever blocks, and a submission is rejected exactly when the queue is full and the pool
  is running, leaving the pool unchanged.
\<close>

theorem queue_capacity_bound:
  assumes "wp_run env (WorkerPool c) evs st" and "\<not> bp_enabled (wc_backpressure c)"
  shows "write_queue_depth st \<le> bp_queue_capacity (wc_backpressure c)
    \<and> (fst (submit_write_core k h cb st) = QueueFull \<longleftrightarrow>
         \<not> wp_shutdown st \<and> write_queue_depth st = bp_queue_capacity (wc_backpressure c))
    \<and> (fst (submit_write_core k h cb st) = QueueFull \<longrightarrow> snd (submit_write_core k h cb st) = st)
    \<and> fst (submit_write_core k h cb st) \<noteq> Blocked"
proof -
  have "admission_ok (WorkerPool c)" by (simp add: admission_ok_def WorkerPool_def)
  from wp_run_admission [OF assms(1) this]
  have "admission_ok st" "wp_backpressure st = wc_backpressure c" by (simp_all add: WorkerPool_def)
  with assms(2) show ?thesis
    by (auto simp: admission_ok_def submit_write_core_def submit_locked_def write_queue_depth_def Let_def split: prod.splits)
qed

theorem queue_capacity_bound_witness:
  "write_queue_depth (demo_submit 7 (demo_pool BackpressureConfig)) \<le> 1024"
proof -
  have r: "wp_run demo_env (demo_pool BackpressureConfig) ([] @ [EvSubmit (demo_task 0 7)])
      (demo_submit 7 (demo_pool BackpressureConfig))"
    by (rule run_submit [OF run_nil]) code_simp
  from queue_capacity_bound [OF r [unfolded demo_pool_def]] show ?thesis
    by (simp add: demo_pool_def BackpressureConfig_def)
qed

text \<open>
  With watermarks there is no such bound: a submission that has waited its second is enqueued
  although the queue is still at the high watermark, so the depth exceeds both the high watermark
  and the configured capacity.
\<close>

theorem watermark_is_exceeded:
  "\<exists>bp st evs. bp_enabled bp \<and> bp_high_watermark bp \<le> bp_queue_capacity bp
    \<and> wp_run demo_env (demo_pool bp) evs st \<and> write_queue_depth st > bp_queue_capacity bp \<and> \<not> wait_predicate st"
proof -
  define bp where "bp = \<lparr>bp_enabled = True, bp_low_watermark = 0, bp_high_watermark = 1, bp_queue_capacity = 1\<rparr>"
  let ?s2 = "demo_submit 8 (demo_submit 7 (demo_pool bp))"
  have "wp_run demo_env (demo_pool bp) ([] @ [EvSubmit (demo_task 0 7)]) (demo_submit 7 (demo_pool bp))"
    unfolding bp_def by (rule run_submit [OF run_nil]) code_simp
  then have "wp_run demo_env (demo_pool bp) (([] @ [EvSubmit (demo_task 0 7)]) @ [EvOther]) ?s2"
    by (rule run_submit) (unfold bp_def, code_simp)
  moreover have "0 < length (wp_blocked ?s2)" unfolding bp_def by code_simp
  ultimately have r: "wp_run demo_env (demo_pool bp)
      ((([] @ [EvSubmit (demo_task 0 7)]) @ [EvOther]) @ [submit_event (fst (resume_write 0 ?s2))])
      (snd (resume_write 0 ?s2))"
    by (rule run_snoc [OF _ wp_step.resume [OF _ prod.collapse [symmetric]]])
  have d: "write_queue_depth (snd (resume_write 0 ?s2)) = 2" and w: "\<not> wait_predicate (snd (resume_write 0 ?s2))"
    unfolding bp_def by code_simp+
  have "bp_enabled bp" "bp_high_watermark bp \<le> bp_queue_capacity bp" "bp_queue_capacity bp < 2"
    by (simp_all add: bp_def)
  with r d w show ?thesis by metis
qed

end
