(* ===== verification/Config_Loader.thy ===== *)
theory Config_Loader
  imports Exception_Bridge Staging_Pool
begin

text \<open>
  The manifest loader of \<^verbatim>\<open>src/config/config_loader.{hpp,cpp}\<close>: the typed configuration, its schema
  validation, the population from a parsed document and the YAML writer.  The \<^verbatim>\<open>conf\<close> library is not
  part of the repository: a parsed document is the record of its accessors, each of which returns a
  value or the \<^verbatim>\<open>conf::Conf_Error\<close> it throws, and the two document readers are parameters.
\<close>


section \<open>Configuration\<close>

record staging_pool_config =
  spc_buffer_count :: nat
  spc_buffer_capacity_bytes :: nat
  spc_max_buffer_count :: nat

record worker_pool_cfg =
  wpc_threads :: nat
  wpc_cpu_cores :: "int list"
  wpc_numa_domain :: "int option"

record prefetch_config =
  pfc_depth :: nat
  pfc_read_timeout_s :: nat

record backpressure_cfg =
  bpc_low_watermark :: nat
  bpc_high_watermark :: nat
  bpc_queue_capacity :: nat

record codec_config =
  cdc_lossless_allow_list :: "string list"
  cdc_active_codec :: string

record config =
  cf_staging_pool :: staging_pool_config
  cf_worker_pool :: worker_pool_cfg
  cf_prefetch :: prefetch_config
  cf_staging_timeout_ms :: nat
  cf_backpressure :: backpressure_cfg
  cf_backend :: string
  cf_codec :: codec_config
  cf_io_ranks :: "int list"

definition Config :: config where
  "Config =
     \<lparr>cf_staging_pool = \<lparr>spc_buffer_count = 16, spc_buffer_capacity_bytes = 1048576, spc_max_buffer_count = 4096\<rparr>,
      cf_worker_pool = \<lparr>wpc_threads = 1, wpc_cpu_cores = [], wpc_numa_domain = None\<rparr>,
      cf_prefetch = \<lparr>pfc_depth = 4, pfc_read_timeout_s = 60\<rparr>,
      cf_staging_timeout_ms = 5000,
      cf_backpressure = \<lparr>bpc_low_watermark = 0, bpc_high_watermark = 0, bpc_queue_capacity = 1024\<rparr>,
      cf_backend = [],
      cf_codec = \<lparr>cdc_lossless_allow_list = [], cdc_active_codec = []\<rparr>,
      cf_io_ranks = []\<rparr>"

record validation_error =
  ve_field_path :: string
  ve_message :: string
  ve_line :: int

definition valid_codecs :: "string list" where
  "valid_codecs = [''blosc'', ''zstandard'', ''libaec'', ''lossless_jpeg2000'']"

definition is_valid_codec :: "string \<Rightarrow> bool" where
  "is_valid_codec name \<longleftrightarrow> name \<in> set valid_codecs"


section \<open>Validation\<close>

definition bounded_by :: "nat \<Rightarrow> nat \<Rightarrow> nat \<Rightarrow> bool" where
  "bounded_by lo hi n \<longleftrightarrow> \<not> (n < lo \<or> n > hi)"

text \<open>The rules in the order the code checks them: whether the rule fails, the error, the field, the message.\<close>

definition validation_rules :: "config \<Rightarrow> (bool \<times> amio_err \<times> string \<times> string) list" where
  "validation_rules c =
    (let sp = cf_staging_pool c; wp = cf_worker_pool c; pf = cf_prefetch c; bp = cf_backpressure c; cd = cf_codec c;
         bad_codec = List.find (\<lambda>x. \<not> is_valid_codec x) (cdc_lossless_allow_list cd)
     in
     [(\<not> bounded_by 1 4096 (spc_buffer_count sp), AMIO_ERR_MANIFEST_INVALID, ''staging_pool.buffer_count'',
        ''buffer_count must be in [1, 4096], got '' @ show_nat (spc_buffer_count sp)),
      (\<not> bounded_by 1 1073741824 (spc_buffer_capacity_bytes sp), AMIO_ERR_MANIFEST_INVALID, ''staging_pool.buffer_capacity_bytes'',
        ''buffer_capacity_bytes must be in [1, 1073741824], got '' @ show_nat (spc_buffer_capacity_bytes sp)),
      (spc_max_buffer_count sp < spc_buffer_count sp \<or> spc_max_buffer_count sp > 4096,
        AMIO_ERR_MANIFEST_INVALID, ''staging_pool.max_buffer_count'',
        ''max_buffer_count must be in [buffer_count, 4096], got '' @ show_nat (spc_max_buffer_count sp)
          @ '' with buffer_count '' @ show_nat (spc_buffer_count sp)),
      (\<not> bounded_by 1 256 (wpc_threads wp), AMIO_ERR_MANIFEST_INVALID, ''worker_pool.threads'',
        ''threads must be in [1, 256], got '' @ show_nat (wpc_threads wp)),
      (\<not> bounded_by 1 1024 (pfc_depth pf), AMIO_ERR_MANIFEST_INVALID, ''prefetch.depth'',
        ''depth must be in [1, 1024], got '' @ show_nat (pfc_depth pf)),
      (\<not> bounded_by 1 3600 (pfc_read_timeout_s pf), AMIO_ERR_MANIFEST_INVALID, ''prefetch.read_timeout_s'',
        ''read_timeout_s must be in [1, 3600], got '' @ show_nat (pfc_read_timeout_s pf)),
      (\<not> bounded_by 1 60000 (cf_staging_timeout_ms c), AMIO_ERR_MANIFEST_INVALID, ''staging_timeout_ms'',
        ''staging_timeout_ms must be in [1, 60000], got '' @ show_nat (cf_staging_timeout_ms c)),
      (bpc_high_watermark bp > 0 \<and> bpc_low_watermark bp \<ge> bpc_high_watermark bp,
        AMIO_ERR_MANIFEST_INVALID, ''backpressure.low_watermark'', ''low_watermark must be < high_watermark''),
      (bpc_high_watermark bp > 0 \<and> bpc_high_watermark bp > bpc_queue_capacity bp,
        AMIO_ERR_MANIFEST_INVALID, ''backpressure.high_watermark'', ''high_watermark must be <= queue_capacity''),
      (bad_codec \<noteq> None, AMIO_ERR_LOSSY_CODEC_FORBIDDEN, ''codec.lossless_allow_list'',
        ''codec '' @ [CHR 0x27] @ (case bad_codec of Some x \<Rightarrow> x | None \<Rightarrow> []) @ [CHR 0x27] @ '' is not a recognized lossless codec''),
      (cdc_active_codec cd \<noteq> [] \<and> \<not> is_valid_codec (cdc_active_codec cd),
        AMIO_ERR_LOSSY_CODEC_FORBIDDEN, ''codec.active_codec'',
        ''active codec '' @ [CHR 0x27] @ cdc_active_codec cd @ [CHR 0x27] @ '' is not a recognized lossless codec''),
      (cdc_active_codec cd \<noteq> [] \<and> cdc_lossless_allow_list cd \<noteq> []
         \<and> cdc_active_codec cd \<notin> set (cdc_lossless_allow_list cd),
        AMIO_ERR_LOSSY_CODEC_FORBIDDEN, ''codec.active_codec'',
        ''active codec '' @ [CHR 0x27] @ cdc_active_codec cd @ [CHR 0x27] @ '' is not on the manifest'' @ [CHR 0x27]
          @ ''s lossless_allow_list'')])"

fun first_failing :: "(bool \<times> amio_err \<times> string \<times> string) list \<Rightarrow> validation_error \<Rightarrow> amio_err \<times> validation_error" where
  "first_failing [] ve = (AMIO_OK, ve)"
| "first_failing ((bad, e, path, msg) # rules) ve =
     (if bad then (e, ve\<lparr>ve_field_path := path, ve_message := msg\<rparr>) else first_failing rules ve)"

definition validate :: "config \<Rightarrow> validation_error \<Rightarrow> amio_err \<times> validation_error" where
  "validate c ve = first_failing (validation_rules c) ve"


section \<open>Population\<close>

type_synonym conf_error = "conf_code \<times> string"

record manifest =
  mf_has :: "string \<Rightarrow> bool"
  mf_int :: "string \<Rightarrow> conf_error + int"
  mf_int_list :: "string \<Rightarrow> conf_error + int list"
  mf_string :: "string \<Rightarrow> conf_error + string"
  mf_string_list :: "string \<Rightarrow> conf_error + string list"

text \<open>One guarded read; after a failure the remaining reads are skipped.\<close>

type_synonym reading = "config \<times> (string \<times> conf_error) option"

definition read_key ::
  "manifest \<Rightarrow> (string \<Rightarrow> conf_error + 'a) \<Rightarrow> string \<Rightarrow> ('a \<Rightarrow> config \<Rightarrow> config) \<Rightarrow> reading \<Rightarrow> reading" where
  "read_key m get key set_field r =
     (case r of
        (c, Some failure) \<Rightarrow> (c, Some failure)
      | (c, None) \<Rightarrow>
          if mf_has m key then
            (case get key of Inr v \<Rightarrow> (set_field v c, None) | Inl e \<Rightarrow> (c, Some (key, e)))
          else (c, None))"

definition populate_fields :: "manifest \<Rightarrow> reading" where
  "populate_fields m =
    (let int = mf_int m
     in (read_key m (mf_int_list m) ''io_ranks'' (\<lambda>v c. c\<lparr>cf_io_ranks := v\<rparr>)
         (read_key m (mf_string_list m) ''codec.lossless_allow_list''
            (\<lambda>v c. c\<lparr>cf_codec := (cf_codec c)\<lparr>cdc_lossless_allow_list := v\<rparr>\<rparr>)
         (read_key m (mf_string m) ''codec.active_codec''
            (\<lambda>v c. c\<lparr>cf_codec := (cf_codec c)\<lparr>cdc_active_codec := v\<rparr>\<rparr>)
         (read_key m (mf_string m) ''backend'' (\<lambda>v c. c\<lparr>cf_backend := v\<rparr>)
         (read_key m int ''backpressure.queue_capacity''
            (\<lambda>v c. c\<lparr>cf_backpressure := (cf_backpressure c)\<lparr>bpc_queue_capacity := to_size_t v\<rparr>\<rparr>)
         (read_key m int ''backpressure.high_watermark''
            (\<lambda>v c. c\<lparr>cf_backpressure := (cf_backpressure c)\<lparr>bpc_high_watermark := to_size_t v\<rparr>\<rparr>)
         (read_key m int ''backpressure.low_watermark''
            (\<lambda>v c. c\<lparr>cf_backpressure := (cf_backpressure c)\<lparr>bpc_low_watermark := to_size_t v\<rparr>\<rparr>)
         (read_key m int ''staging_timeout_ms'' (\<lambda>v c. c\<lparr>cf_staging_timeout_ms := to_size_t v\<rparr>)
         (read_key m int ''prefetch.read_timeout_s''
            (\<lambda>v c. c\<lparr>cf_prefetch := (cf_prefetch c)\<lparr>pfc_read_timeout_s := to_size_t v\<rparr>\<rparr>)
         (read_key m int ''prefetch.depth''
            (\<lambda>v c. c\<lparr>cf_prefetch := (cf_prefetch c)\<lparr>pfc_depth := to_size_t v\<rparr>\<rparr>)
         (read_key m int ''worker_pool.numa_domain''
            (\<lambda>v c. c\<lparr>cf_worker_pool := (cf_worker_pool c)\<lparr>wpc_numa_domain := Some v\<rparr>\<rparr>)
         (read_key m (mf_int_list m) ''worker_pool.cpu_cores''
            (\<lambda>v c. c\<lparr>cf_worker_pool := (cf_worker_pool c)\<lparr>wpc_cpu_cores := v\<rparr>\<rparr>)
         (read_key m int ''worker_pool.threads''
            (\<lambda>v c. c\<lparr>cf_worker_pool := (cf_worker_pool c)\<lparr>wpc_threads := to_size_t v\<rparr>\<rparr>)
         (read_key m int ''staging_pool.max_buffer_count''
            (\<lambda>v c. c\<lparr>cf_staging_pool := (cf_staging_pool c)\<lparr>spc_max_buffer_count := to_size_t v\<rparr>\<rparr>)
         (read_key m int ''staging_pool.buffer_capacity_bytes''
            (\<lambda>v c. c\<lparr>cf_staging_pool := (cf_staging_pool c)\<lparr>spc_buffer_capacity_bytes := to_size_t v\<rparr>\<rparr>)
         (read_key m int ''staging_pool.buffer_count''
            (\<lambda>v c. c\<lparr>cf_staging_pool := (cf_staging_pool c)\<lparr>spc_buffer_count := to_size_t v\<rparr>\<rparr>)
         (Config, None))))))))))))))))))"

definition populate_from_conf :: "manifest \<Rightarrow> validation_error \<Rightarrow> amio_err \<times> config \<times> validation_error" where
  "populate_from_conf m ve =
     (case populate_fields m of
        (c, None) \<Rightarrow> (let (e, ve') = validate c ve in (e, c, ve'))
      | (c, Some (key, code, what)) \<Rightarrow>
          (AMIO_ERR_MANIFEST_INVALID, c,
           ve\<lparr>ve_field_path := key,
              ve_message :=
                (case code of
                   Key_Not_Found \<Rightarrow> ''required key not found: '' @ key
                 | Type_Mismatch \<Rightarrow> ''type mismatch at '' @ [CHR 0x27] @ key @ [CHR 0x27] @ '': '' @ what
                 | _ \<Rightarrow> what)\<rparr>))"

text \<open>
  \<^verbatim>\<open>parse\<close> and \<^verbatim>\<open>parse_string\<close> differ in the reader only; \<open>config_out\<close> is untouched when it fails.
\<close>

definition parse_with :: "conf_error + manifest \<Rightarrow> config \<Rightarrow> validation_error \<Rightarrow> amio_err \<times> config \<times> validation_error" where
  "parse_with doc config_out ve =
     (case doc of
        Inr m \<Rightarrow> populate_from_conf m ve
      | Inl (code, what) \<Rightarrow>
          (if code = File_Not_Found then AMIO_ERR_MANIFEST_NOT_FOUND else AMIO_ERR_MANIFEST_INVALID,
           config_out, ve\<lparr>ve_field_path := [], ve_message := what, ve_line := 0\<rparr>))"

definition parse :: "(string \<Rightarrow> conf_error + manifest) \<Rightarrow> string \<Rightarrow> config \<Rightarrow> validation_error \<Rightarrow> amio_err \<times> config \<times> validation_error" where
  "parse from_file path = parse_with (from_file path)"

definition parse_string ::
  "(string \<Rightarrow> conf_error + manifest) \<Rightarrow> string \<Rightarrow> string \<Rightarrow> config \<Rightarrow> validation_error \<Rightarrow> amio_err \<times> config \<times> validation_error" where
  "parse_string from_string content format = parse_with (from_string content)"


section \<open>Serialization\<close>

definition line_of :: "string \<Rightarrow> string \<Rightarrow> string" where
  "line_of key val = key @ val @ newline"

definition seq_lines :: "string \<Rightarrow> string \<Rightarrow> string list \<Rightarrow> string" where
  "seq_lines key item xs = (if xs = [] then [] else key @ newline @ concat (map (line_of item) xs))"

definition serialize :: "config \<Rightarrow> string" where
  "serialize c =
    (let sp = cf_staging_pool c; wp = cf_worker_pool c; pf = cf_prefetch c; bp = cf_backpressure c; cd = cf_codec c
     in ''staging_pool:'' @ newline
      @ line_of ''  buffer_count: '' (show_nat (spc_buffer_count sp))
      @ line_of ''  buffer_capacity_bytes: '' (show_nat (spc_buffer_capacity_bytes sp))
      @ line_of ''  max_buffer_count: '' (show_nat (spc_max_buffer_count sp))
      @ ''worker_pool:'' @ newline
      @ line_of ''  threads: '' (show_nat (wpc_threads wp))
      @ seq_lines ''  cpu_cores:'' ''    - '' (map show_int (wpc_cpu_cores wp))
      @ (case wpc_numa_domain wp of None \<Rightarrow> [] | Some d \<Rightarrow> line_of ''  numa_domain: '' (show_int d))
      @ ''prefetch:'' @ newline
      @ line_of ''  depth: '' (show_nat (pfc_depth pf))
      @ line_of ''  read_timeout_s: '' (show_nat (pfc_read_timeout_s pf))
      @ line_of ''staging_timeout_ms: '' (show_nat (cf_staging_timeout_ms c))
      @ ''backpressure:'' @ newline
      @ line_of ''  low_watermark: '' (show_nat (bpc_low_watermark bp))
      @ line_of ''  high_watermark: '' (show_nat (bpc_high_watermark bp))
      @ line_of ''  queue_capacity: '' (show_nat (bpc_queue_capacity bp))
      @ line_of ''backend: '' (cf_backend c)
      @ ''codec:'' @ newline
      @ line_of ''  active_codec: '' (cdc_active_codec cd)
      @ seq_lines ''  lossless_allow_list:'' ''    - '' (cdc_lossless_allow_list cd)
      @ seq_lines ''io_ranks:'' ''  - '' (map show_int (cf_io_ranks c)))"


section \<open>Lemmas\<close>

text \<open>What the schema demands of a configuration.\<close>

definition config_ok :: "config \<Rightarrow> bool" where
  "config_ok c \<longleftrightarrow>
     pool_args_ok (spc_buffer_count (cf_staging_pool c)) (spc_buffer_capacity_bytes (cf_staging_pool c))
       (int (cf_staging_timeout_ms c)) (spc_max_buffer_count (cf_staging_pool c))
     \<and> wpc_threads (cf_worker_pool c) \<in> {1..256}
     \<and> pfc_depth (cf_prefetch c) \<in> {1..1024} \<and> pfc_read_timeout_s (cf_prefetch c) \<in> {1..3600}
     \<and> (bpc_high_watermark (cf_backpressure c) = 0
        \<or> bpc_low_watermark (cf_backpressure c) < bpc_high_watermark (cf_backpressure c)
          \<and> bpc_high_watermark (cf_backpressure c) \<le> bpc_queue_capacity (cf_backpressure c))
     \<and> set (cdc_lossless_allow_list (cf_codec c)) \<subseteq> set valid_codecs
     \<and> (cdc_active_codec (cf_codec c) = []
        \<or> cdc_active_codec (cf_codec c) \<in> set valid_codecs
          \<and> (cdc_lossless_allow_list (cf_codec c) = []
             \<or> cdc_active_codec (cf_codec c) \<in> set (cdc_lossless_allow_list (cf_codec c))))"

lemma first_failing_OK:
  "list_all (\<lambda>(bad, e, _). e \<noteq> AMIO_OK) rules \<Longrightarrow>
   fst (first_failing rules ve) = AMIO_OK \<longleftrightarrow> list_all (\<lambda>(bad, _). \<not> bad) rules"
  by (induction rules ve rule: first_failing.induct) auto

lemma find_bad_codec:
  "List.find (\<lambda>x. \<not> is_valid_codec x) xs = None \<longleftrightarrow> set xs \<subseteq> set valid_codecs"
  by (auto simp: find_None_iff is_valid_codec_def)

lemma validate_OK: "fst (validate c ve) = AMIO_OK \<longleftrightarrow> config_ok c"
proof -
  have e: "list_all (\<lambda>(bad, e, _). e \<noteq> AMIO_OK) (validation_rules c)"
    by (simp add: validation_rules_def Let_def)
  have "fst (validate c ve) = AMIO_OK \<longleftrightarrow> list_all (\<lambda>(bad, _). \<not> bad) (validation_rules c)"
    unfolding validate_def by (rule first_failing_OK [OF e])
  also have "\<dots> \<longleftrightarrow> config_ok c"
  proof -
    let ?sp = "cf_staging_pool c" and ?bp = "cf_backpressure c"
    have pool: "pool_args_ok (spc_buffer_count ?sp) (spc_buffer_capacity_bytes ?sp)
        (int (cf_staging_timeout_ms c)) (spc_max_buffer_count ?sp) \<longleftrightarrow>
      bounded_by 1 4096 (spc_buffer_count ?sp) \<and> bounded_by 1 1073741824 (spc_buffer_capacity_bytes ?sp)
      \<and> \<not> (spc_max_buffer_count ?sp < spc_buffer_count ?sp \<or> spc_max_buffer_count ?sp > 4096)
      \<and> bounded_by 1 60000 (cf_staging_timeout_ms c)"
      unfolding pool_args_ok_def bounded_by_def kMaxBufferCount_def kMaxBufferCapacity_def by linarith
    have range: "n \<in> {1..hi} \<longleftrightarrow> bounded_by 1 hi n" for n hi :: nat by (auto simp: bounded_by_def)
    have water: "(bpc_high_watermark ?bp = 0 \<or> bpc_low_watermark ?bp < bpc_high_watermark ?bp
        \<and> bpc_high_watermark ?bp \<le> bpc_queue_capacity ?bp) \<longleftrightarrow>
      \<not> (bpc_high_watermark ?bp > 0 \<and> bpc_low_watermark ?bp \<ge> bpc_high_watermark ?bp)
      \<and> \<not> (bpc_high_watermark ?bp > 0 \<and> bpc_high_watermark ?bp > bpc_queue_capacity ?bp)"
      by linarith
    show ?thesis
      unfolding config_ok_def pool range water is_valid_codec_def [symmetric] find_bad_codec [symmetric]
        validation_rules_def Let_def
      by (simp only: list.pred_inject prod.case simp_thms) argo
  qed
  finally show ?thesis .
qed

lemma parse_with_ok: "parse_with doc config_out ve = (AMIO_OK, c, ve') \<Longrightarrow> config_ok c"
  using validate_OK
  by (auto simp: parse_with_def populate_from_conf_def split: sum.splits prod.splits option.splits if_splits)
    (metis fst_conv)

lemma validate_error: "fst (validate c ve) \<in> {AMIO_OK, AMIO_ERR_MANIFEST_INVALID, AMIO_ERR_LOSSY_CODEC_FORBIDDEN}"
proof -
  have "list_all (\<lambda>(bad, e, _). e \<in> E) rules \<Longrightarrow> fst (first_failing rules ve) \<in> insert AMIO_OK E" for rules E
    by (induction rules ve rule: first_failing.induct) auto
  from this [of "{AMIO_ERR_MANIFEST_INVALID, AMIO_ERR_LOSSY_CODEC_FORBIDDEN}" "validation_rules c"]
  show ?thesis by (simp add: validate_def validation_rules_def Let_def)
qed

lemma read_key_hit [simp]:
  "mf_has m key \<Longrightarrow> get key = Inr v \<Longrightarrow> read_key m get key f (c, None) = (f v c, None)"
  by (simp add: read_key_def)

lemma read_key_miss [simp]: "\<not> mf_has m key \<Longrightarrow> read_key m get key f (c, None) = (c, None)"
  by (simp add: read_key_def)

text \<open>The lines of the text \<^verbatim>\<open>serialize\<close> writes.\<close>

definition seq_block :: "string \<Rightarrow> string \<Rightarrow> string list \<Rightarrow> string list" where
  "seq_block key item xs = (if xs = [] then [] else key # map (\<lambda>x. item @ x) xs)"

definition config_lines :: "config \<Rightarrow> string list" where
  "config_lines c =
    (let sp = cf_staging_pool c; wp = cf_worker_pool c; pf = cf_prefetch c; bp = cf_backpressure c; cd = cf_codec c
     in [''staging_pool:'', ''  buffer_count: '' @ show_nat (spc_buffer_count sp),
         ''  buffer_capacity_bytes: '' @ show_nat (spc_buffer_capacity_bytes sp),
         ''  max_buffer_count: '' @ show_nat (spc_max_buffer_count sp),
         ''worker_pool:'', ''  threads: '' @ show_nat (wpc_threads wp)]
        @ seq_block ''  cpu_cores:'' ''    - '' (map show_int (wpc_cpu_cores wp))
        @ (case wpc_numa_domain wp of None \<Rightarrow> [] | Some d \<Rightarrow> [''  numa_domain: '' @ show_int d])
        @ [''prefetch:'', ''  depth: '' @ show_nat (pfc_depth pf), ''  read_timeout_s: '' @ show_nat (pfc_read_timeout_s pf),
           ''staging_timeout_ms: '' @ show_nat (cf_staging_timeout_ms c),
           ''backpressure:'', ''  low_watermark: '' @ show_nat (bpc_low_watermark bp),
           ''  high_watermark: '' @ show_nat (bpc_high_watermark bp), ''  queue_capacity: '' @ show_nat (bpc_queue_capacity bp),
           ''backend: '' @ cf_backend c, ''codec:'', ''  active_codec: '' @ cdc_active_codec cd]
        @ seq_block ''  lossless_allow_list:'' ''    - '' (cdc_lossless_allow_list cd)
        @ seq_block ''io_ranks:'' ''  - '' (map show_int (cf_io_ranks c)))"

definition one_line :: "config \<Rightarrow> bool" where
  "one_line c \<longleftrightarrow>
     list_all (\<lambda>s. CHR 0x0A \<notin> set s) (cf_backend c # cdc_active_codec (cf_codec c) # cdc_lossless_allow_list (cf_codec c))"

lemma serialize_lines: "serialize c = concat (map (\<lambda>l. l @ newline) (config_lines c))"
proof -
  have "seq_lines k i xs = concat (map (\<lambda>l. l @ newline) (seq_block k i xs))" for k i xs
    by (simp add: seq_lines_def seq_block_def line_of_def [abs_def] comp_def)
  then show ?thesis
    by (simp add: serialize_def config_lines_def Let_def line_of_def split: option.split)
qed

lemma unlines_inj:
  assumes "concat (map (\<lambda>l. l @ [c]) xs) = concat (map (\<lambda>l. l @ [c]) ys)" and "\<forall>l \<in> set xs \<union> set ys. c \<notin> set l"
  shows "xs = ys"
  using assms
proof (induction xs arbitrary: ys)
  case Nil
  then show ?case by (cases ys) simp_all
next
  case (Cons x xs)
  from Cons.prems(1) obtain y zs where y: "ys = y # zs" by (cases ys) simp_all
  have e: "x @ c # concat (map (\<lambda>l. l @ [c]) xs) = y @ c # concat (map (\<lambda>l. l @ [c]) zs)" using Cons.prems(1) y by simp
  have c: "c \<notin> set x" "c \<notin> set y" using Cons.prems(2) y by simp_all
  then have "takeWhile (\<lambda>d. d \<noteq> c) (x @ c # r) = x" "takeWhile (\<lambda>d. d \<noteq> c) (y @ c # r) = y" for r
    by (simp_all add: takeWhile_append takeWhile_eq_all_conv [THEN iffD2])
  with e have "x = y" by metis
  with e Cons y show ?case by simp
qed

text \<open>A block of items ends where a line does not begin like an item.\<close>

lemma seq_block_inj:
  assumes "seq_block k i xs @ r = seq_block k i ys @ r'"
    and "\<And>l ls. r = l # ls \<Longrightarrow> l \<noteq> k \<and> take (length i) l \<noteq> i" and "\<And>l ls. r' = l # ls \<Longrightarrow> l \<noteq> k \<and> take (length i) l \<noteq> i"
  shows "xs = ys \<and> r = r'"
proof -
  have items: "xs = ys \<and> r = r'" if "map (\<lambda>x. i @ x) xs @ r = map (\<lambda>x. i @ x) ys @ r'" for xs ys
    using that
  proof (induction xs arbitrary: ys)
    case Nil
    then show ?case using assms(2) by (cases ys) auto
  next
    case (Cons x xs)
    then show ?case using assms(3) by (cases ys) auto
  qed
  show ?thesis
    using assms items [of xs ys] by (cases "xs = []"; cases "ys = []") (auto simp: seq_block_def split: if_splits)
qed

lemma lines_one_line:
  assumes "one_line c"
  shows "\<forall>l \<in> set (config_lines c). CHR 0x0A \<notin> set l"
proof -
  have n: "CHR 0x0A \<notin> set (show_nat n)" for n using show_nat_digits [of "CHR 0x0A" n] by (auto simp: is_digit_def)
  have i: "CHR 0x0A \<notin> set (show_int i)" for i using show_int_chars [of "CHR 0x0A" i] by (auto simp: is_digit_def)
  have b: "\<forall>l \<in> set (seq_block k it xs). CHR 0x0A \<notin> set l"
    if "CHR 0x0A \<notin> set k" "CHR 0x0A \<notin> set it" "\<forall>x \<in> set xs. CHR 0x0A \<notin> set x" for k it xs
    using that by (auto simp: seq_block_def)
  have "\<forall>l \<in> set (seq_block ''  cpu_cores:'' ''    - '' (map show_int xs)). CHR 0x0A \<notin> set l"
    "\<forall>l \<in> set (seq_block ''io_ranks:'' ''  - '' (map show_int xs)). CHR 0x0A \<notin> set l" for xs
    by (rule b; simp add: i)+
  moreover have "\<forall>l \<in> set (seq_block ''  lossless_allow_list:'' ''    - '' (cdc_lossless_allow_list (cf_codec c))). CHR 0x0A \<notin> set l"
    using assms by (intro b) (simp_all add: one_line_def list_all_iff)
  moreover have "\<forall>l \<in> set (case d of None \<Rightarrow> [] | Some d \<Rightarrow> [''  numa_domain: '' @ show_int d]). CHR 0x0A \<notin> set l" for d
    by (cases d) (simp_all add: i)
  ultimately show ?thesis
    using assms unfolding config_lines_def Let_def set_append ball_Un one_line_def list.pred_inject
    by (intro conjI) (assumption | simp add: n)+
qed

lemma config_lines_inj:
  assumes "config_lines c = config_lines c'"
  shows "c = c'"
proof -
  define numa :: "config \<Rightarrow> string list" where "numa = (\<lambda>c. case wpc_numa_domain (cf_worker_pool c) of None \<Rightarrow> [] | Some d \<Rightarrow> [''  numa_domain: '' @ show_int d])"
  define mid :: "config \<Rightarrow> string list" where "mid = (\<lambda>c. [''prefetch:'', ''  depth: '' @ show_nat (pfc_depth (cf_prefetch c)),
    ''  read_timeout_s: '' @ show_nat (pfc_read_timeout_s (cf_prefetch c)), ''staging_timeout_ms: '' @ show_nat (cf_staging_timeout_ms c),
    ''backpressure:'', ''  low_watermark: '' @ show_nat (bpc_low_watermark (cf_backpressure c)),
    ''  high_watermark: '' @ show_nat (bpc_high_watermark (cf_backpressure c)), ''  queue_capacity: '' @ show_nat (bpc_queue_capacity (cf_backpressure c)),
    ''backend: '' @ cf_backend c, ''codec:'', ''  active_codec: '' @ cdc_active_codec (cf_codec c)])"
  define tail :: "config \<Rightarrow> string list" where "tail = (\<lambda>c. seq_block ''  lossless_allow_list:'' ''    - '' (cdc_lossless_allow_list (cf_codec c))
    @ seq_block ''io_ranks:'' ''  - '' (map show_int (cf_io_ranks c)))"
  define cores :: "config \<Rightarrow> string list" where "cores = (\<lambda>c. seq_block ''  cpu_cores:'' ''    - '' (map show_int (wpc_cpu_cores (cf_worker_pool c))))"
  have head: "cf_staging_pool c = cf_staging_pool c'" "wpc_threads (cf_worker_pool c) = wpc_threads (cf_worker_pool c')"
    and rest: "cores c @ numa c @ mid c @ tail c = cores c' @ numa c' @ mid c' @ tail c'"
    using assms by (auto simp: config_lines_def Let_def numa_def mid_def tail_def cores_def)
  have r: "l \<noteq> ''  cpu_cores:'' \<and> take (length ''    - '') l \<noteq> ''    - ''" if "numa c @ mid c @ tail c = l # ls" for c l ls
    using that by (auto simp: numa_def mid_def split: option.splits)
  have 1: "map show_int (wpc_cpu_cores (cf_worker_pool c)) = map show_int (wpc_cpu_cores (cf_worker_pool c'))
      \<and> numa c @ mid c @ tail c = numa c' @ mid c' @ tail c'"
    by (rule seq_block_inj [OF rest [unfolded cores_def]]) (rule r, assumption)+
  then have cpus: "wpc_cpu_cores (cf_worker_pool c) = wpc_cpu_cores (cf_worker_pool c')"
    by (simp add: inj_map_eq_map inj_def)
  have 2: "wpc_numa_domain (cf_worker_pool c) = wpc_numa_domain (cf_worker_pool c') \<and> mid c @ tail c = mid c' @ tail c'"
    using 1 by (auto simp: numa_def mid_def split: option.splits)
  have 3: "cf_prefetch c = cf_prefetch c'" "cf_staging_timeout_ms c = cf_staging_timeout_ms c'" "cf_backpressure c = cf_backpressure c'"
    "cf_backend c = cf_backend c'" "cdc_active_codec (cf_codec c) = cdc_active_codec (cf_codec c')" "tail c = tail c'"
    using 2 by (auto simp: mid_def)
  have 4: "cdc_lossless_allow_list (cf_codec c) = cdc_lossless_allow_list (cf_codec c')
      \<and> seq_block ''io_ranks:'' ''  - '' (map show_int (cf_io_ranks c)) = seq_block ''io_ranks:'' ''  - '' (map show_int (cf_io_ranks c'))"
    by (rule seq_block_inj [OF 3(6) [unfolded tail_def]]) (auto simp: seq_block_def split: if_splits)
  then have 5: "map show_int (cf_io_ranks c) = map show_int (cf_io_ranks c')"
    using seq_block_inj [of "''io_ranks:''" "''  - ''" _ "[]" _ "[]"] by simp
  then have "cf_io_ranks c = cf_io_ranks c'" by (simp add: inj_map_eq_map inj_def)
  with head cpus 2 3 4 show ?thesis
    by (intro config.equality worker_pool_cfg.equality codec_config.equality) (auto intro: worker_pool_cfg.equality codec_config.equality)
qed

lemma read_key_fail:
  "snd (read_key m get key f r) = Some (k, e) \<Longrightarrow> snd r = Some (k, e) \<or> k = key \<and> mf_has m key \<and> get key = Inl e"
  by (auto simp: read_key_def split: prod.splits option.splits if_splits sum.splits)

lemma populate_fields_fail:
  assumes "snd (populate_fields m) = Some (key, e)"
  shows "mf_has m key"
proof -
  have step: "mf_has m key"
    if "snd (read_key m get k f r) = Some (key, e)" and "snd r = Some (key, e) \<Longrightarrow> mf_has m key"
    for get :: "string \<Rightarrow> conf_error + 'v" and k f r
    using read_key_fail [OF that(1)] that(2) by blast
  show ?thesis
    using assms unfolding populate_fields_def Let_def
    by (elim step read_key_fail [THEN disjE] conjE) simp_all
qed

text \<open>A small configuration, for the examples below.\<close>

definition small_config :: config where
  "small_config =
     \<lparr>cf_staging_pool = \<lparr>spc_buffer_count = 1, spc_buffer_capacity_bytes = 2, spc_max_buffer_count = 3\<rparr>,
      cf_worker_pool = \<lparr>wpc_threads = 2, wpc_cpu_cores = [0, 3], wpc_numa_domain = Some 1\<rparr>,
      cf_prefetch = \<lparr>pfc_depth = 4, pfc_read_timeout_s = 5\<rparr>,
      cf_staging_timeout_ms = 6,
      cf_backpressure = \<lparr>bpc_low_watermark = 1, bpc_high_watermark = 2, bpc_queue_capacity = 3\<rparr>,
      cf_backend = ''zarr3'',
      cf_codec = \<lparr>cdc_lossless_allow_list = [''blosc''], cdc_active_codec = ''blosc''\<rparr>,
      cf_io_ranks = []\<rparr>"


section \<open>Properties\<close>

text \<open>
  C11.  Validation is exactly the documented schema, and a configuration it accepts satisfies every
  precondition the runtime components assert: the staging pool's constructor arguments, the thread
  count, the prefetch depth and timeout, the watermark order, and an active codec that is lossless
  and on the manifest's own allow-list.  Every rejection is one of two error codes.
\<close>

theorem config_validation_exact:
  "(fst (validate c ve) = AMIO_OK \<longleftrightarrow> config_ok c)
   \<and> fst (validate c ve) \<in> {AMIO_OK, AMIO_ERR_MANIFEST_INVALID, AMIO_ERR_LOSSY_CODEC_FORBIDDEN}"
  using validate_OK validate_error by blast

text \<open>
  C16.  \<^verbatim>\<open>serialize\<close> loses nothing: two configurations whose names contain no line break have the same text exactly when
  they are equal, in every field, optional entries and lists included.
\<close>

theorem serialize_injective:
  assumes "one_line c" and "one_line c'"
  shows "serialize c = serialize c' \<longleftrightarrow> c = c'"
proof
  assume "serialize c = serialize c'"
  then have "config_lines c = config_lines c'"
    using lines_one_line [OF assms(1)] lines_one_line [OF assms(2)]
    by (intro unlines_inj [of "CHR 0x0A"]) (auto simp: serialize_lines newline_def)
  then show "c = c'" by (rule config_lines_inj)
qed simp

theorem serialize_injective_witness:
  "serialize small_config \<noteq> serialize (small_config\<lparr>cf_io_ranks := [0]\<rparr>)"
proof -
  have "one_line small_config" "one_line (small_config\<lparr>cf_io_ranks := [0]\<rparr>)"
    by (simp_all add: one_line_def small_config_def)
  moreover have "small_config \<noteq> small_config\<lparr>cf_io_ranks := [0]\<rparr>" by (simp add: small_config_def)
  ultimately show ?thesis using serialize_injective [of small_config "small_config\<lparr>cf_io_ranks := [0]\<rparr>"] by blast
qed

text \<open>
  Loading a manifest reports faithfully: success implies a valid configuration; a missing file is
  the only cause of the not-found error and leaves the output as it was; a key whose value has the
  wrong type, or cannot be read, is reported by its dotted path.
\<close>

theorem config_parse_reports:
  assumes "parse from_file path config_out ve = (e, c, ve')"
  shows "(e = AMIO_OK \<longrightarrow> config_ok c)
    \<and> (e = AMIO_ERR_MANIFEST_NOT_FOUND \<longleftrightarrow> (\<exists>what. from_file path = Inl (File_Not_Found, what)))
    \<and> ((\<exists>err. from_file path = Inl err) \<longrightarrow> c = config_out \<and> ve_field_path ve' = [])
    \<and> (\<forall>m key err. from_file path = Inr m \<and> snd (populate_fields m) = Some (key, err) \<longrightarrow>
         e = AMIO_ERR_MANIFEST_INVALID \<and> ve_field_path ve' = key \<and> mf_has m key)"
proof (cases "from_file path")
  case (Inl err)
  with assms show ?thesis by (auto simp: parse_def parse_with_def split: prod.splits if_splits)
next
  case (Inr m)
  then have p: "populate_from_conf m ve = (e, c, ve')" using assms by (simp add: parse_def parse_with_def)
  obtain c0 f where pf: "populate_fields m = (c0, f)" by (cases "populate_fields m")
  show ?thesis
  proof (cases f)
    case None
    then have v: "validate c ve = (e, ve')"
      using p pf by (auto simp: populate_from_conf_def split: prod.splits)
    have "e = AMIO_OK \<longrightarrow> config_ok c" using validate_OK [of c ve] v by simp
    moreover have "e \<noteq> AMIO_ERR_MANIFEST_NOT_FOUND" using validate_error [of c ve] v by auto
    ultimately show ?thesis using Inr pf None by simp
  next
    case (Some ke)
    then show ?thesis
      using p pf Inr populate_fields_fail [of m]
      by (cases ke) (auto simp: populate_from_conf_def split: prod.splits)
  qed
qed

theorem config_parse_reports_witness:
  "\<exists>e c ve'. parse (\<lambda>path. Inl (File_Not_Found, ''gone'')) ''x.yaml'' Config
     \<lparr>ve_field_path = [], ve_message = [], ve_line = 0\<rparr> = (e, c, ve') \<and> e = AMIO_ERR_MANIFEST_NOT_FOUND \<and> c = Config"
proof -
  obtain e c ve' where p: "parse (\<lambda>path. Inl (File_Not_Found, ''gone'')) ''x.yaml'' Config
     \<lparr>ve_field_path = [], ve_message = [], ve_line = 0\<rparr> = (e, c, ve')"
    by (metis prod_cases3)
  from config_parse_reports [OF p] p show ?thesis by auto
qed

text \<open>
  The watermark fields are not range-checked: a manifest with a negative queue capacity is
  accepted, and the capacity becomes 2^64 - 1, that is, no capacity limit at all.
\<close>

theorem negative_queue_capacity_accepted:
  "\<exists>m c. mf_int m ''backpressure.queue_capacity'' = Inr (- 1) \<and> mf_has m ''backpressure.queue_capacity''
    \<and> (\<forall>ve. populate_from_conf m ve = (AMIO_OK, c, ve))
    \<and> bpc_queue_capacity (cf_backpressure c) = 2 ^ 64 - 1"
proof -
  let ?m = "\<lparr>mf_has = (\<lambda>k. k = ''backpressure.queue_capacity''), mf_int = (\<lambda>k. Inr (- 1)), mf_int_list = (\<lambda>k. Inr []),
    mf_string = (\<lambda>k. Inr []), mf_string_list = (\<lambda>k. Inr [])\<rparr>"
  let ?c = "Config\<lparr>cf_backpressure := (cf_backpressure Config)\<lparr>bpc_queue_capacity := 2 ^ 64 - 1\<rparr>\<rparr>"
  have "populate_fields ?m = (?c, None)"
    by (simp add: populate_fields_def read_key_def to_size_t_def)
  moreover have "validate ?c ve = (AMIO_OK, ve)" for ve
    by (simp add: validate_def validation_rules_def Config_def bounded_by_def Let_def)
  ultimately have "populate_from_conf ?m ve = (AMIO_OK, ?c, ve)" for ve
    by (simp add: populate_from_conf_def)
  then show ?thesis by (intro exI [of _ ?m] exI [of _ ?c]) simp
qed

end
