(* ===== verification/Prefetch_Queue.thy ===== *)
theory Prefetch_Queue
  imports Staging_Pool Exception_Bridge
begin

text \<open>
  The look-ahead reader of \<^verbatim>\<open>src/prefetch/prefetch_queue.{hpp,cpp}\<close> for one variable.  Its maps are
  association lists with distinct keys.  The world of a queue is the queue, the staging pool and
  the fetches on their way: dispatched to the worker pool (\<open>pw_tasks\<close>) or holding a buffer while
  the driver reads (\<open>pw_running\<close>).  The driver's \<^verbatim>\<open>read\<close> is the parameter \<open>rd\<close>: given the
  capacity of the destination, the variable's metadata, the time step and the selection, it throws
  or delivers bytes and \<^verbatim>\<open>used_bytes\<close>.  Other threads act at the waits of \<^verbatim>\<open>get_buffer\<close>.
\<close>


section \<open>Data\<close>

record var_meta =
  vm_dataset_id :: nat
  vm_variable_id :: nat
  vm_name :: string
  vm_dtype :: amio_dtype
  vm_shape :: amio_shape
  vm_timestep :: int

record variable_info =
  vi_found :: bool
  vi_dtype :: amio_dtype
  vi_shape :: amio_shape
  vi_total_timesteps :: int

type_synonym reader = "nat \<Rightarrow> var_meta \<Rightarrow> int \<Rightarrow> amio_bbox option \<Rightarrow> exn + byte list \<times> nat"

record prefetch_queue =
  pq_depth :: nat
  pq_read_timeout_s :: int
  pq_total_timesteps :: int
  pq_dataset_id :: nat
  pq_var_name :: string
  pq_info :: variable_info
  pq_completed :: "(int \<times> nat) list"
  pq_fetched_bbox :: "(int \<times> amio_bbox) list"
  pq_pending :: "int list"
  pq_failed :: "(int \<times> amio_err) list"
  pq_latched_bbox :: "amio_bbox option"
  pq_kicked_off :: bool
  pq_cancelled :: bool

definition PrefetchQueue :: "nat \<Rightarrow> int \<Rightarrow> nat \<Rightarrow> string \<Rightarrow> variable_info \<Rightarrow> int \<Rightarrow> prefetch_queue" where
  "PrefetchQueue depth read_timeout_s ds name info total_timesteps =
     \<lparr>pq_depth = (let d = (if depth < 1 then 1 else depth) in if d > 1024 then 1024 else d),
      pq_read_timeout_s = (let t = (if read_timeout_s < 1 then 1 else read_timeout_s) in if t > 3600 then 3600 else t),
      pq_total_timesteps = total_timesteps, pq_dataset_id = ds, pq_var_name = name, pq_info = info,
      pq_completed = [], pq_fetched_bbox = [], pq_pending = [], pq_failed = [],
      pq_latched_bbox = None, pq_kicked_off = False, pq_cancelled = False\<rparr>"

record pq_world =
  pw_q :: prefetch_queue
  pw_pool :: staging_pool
  pw_workers :: bool \<comment> \<open>whether a worker pool is attached\<close>
  pw_tasks :: "(int \<times> amio_bbox option) list"
  pw_running :: "(int \<times> amio_bbox option \<times> nat) list"


section \<open>Selections and sizes\<close>

definition bbox_same :: "amio_bbox option \<Rightarrow> amio_bbox option \<Rightarrow> bool" where
  "bbox_same a b =
     (case (a, b) of
        (None, None) \<Rightarrow> True
      | (Some x, Some y) \<Rightarrow>
          bb_rank x = bb_rank y
          \<and> list_all (\<lambda>d. bb_offsets x ! d = bb_offsets y ! d \<and> bb_extents x ! d = bb_extents y ! d
               \<and> bb_strides x ! d = bb_strides y ! d) [0..<min (nat (bb_rank x)) AMIO_MAX_RANK]
      | _ \<Rightarrow> False)"

text \<open>The driver-side box: the leading entries copied, the others zero.\<close>

definition copy_dims :: "int \<Rightarrow> int list \<Rightarrow> int list" where
  "copy_dims rank xs = map (\<lambda>d. if int d < rank then xs ! d else 0) [0..<AMIO_MAX_RANK]"

definition BoundingBox :: "amio_bbox \<Rightarrow> amio_bbox" where
  "BoundingBox b =
     \<lparr>bb_rank = bb_rank b, bb_offsets = copy_dims (bb_rank b) (bb_offsets b),
      bb_extents = copy_dims (bb_rank b) (bb_extents b), bb_strides = copy_dims (bb_rank b) (bb_strides b)\<rparr>"

text \<open>The running product of the extents; \<open>None\<close> at an extent that is not positive.\<close>

fun extent_product :: "nat \<Rightarrow> int list \<Rightarrow> nat option" where
  "extent_product acc [] = Some acc"
| "extent_product acc (e # es) = (if e \<le> 0 then None else extent_product (size_t (acc * to_size_t e)) es)"

definition extents_bytes :: "nat \<Rightarrow> int \<Rightarrow> int list \<Rightarrow> nat \<Rightarrow> nat" where
  "extents_bytes elem rank extents fallback =
     (if elem > 0 \<and> rank > 0 then
        (case extent_product 1 (take (nat rank) extents) of
           Some p \<Rightarrow> size_t (elem * p)
         | None \<Rightarrow> fallback)
      else fallback)"

definition fetch_bytes :: "variable_info \<Rightarrow> amio_bbox option \<Rightarrow> nat \<Rightarrow> nat" where
  "fetch_bytes info sel capacity =
     (let elem = element_size (vi_dtype info);
          full = extents_bytes elem (sh_rank (vi_shape info)) (sh_extents (vi_shape info)) 0;
          payload = (case sel of None \<Rightarrow> full | Some b \<Rightarrow> extents_bytes elem (bb_rank b) (bb_extents b) full)
      in if payload > 0 then payload else capacity)"

definition fetch_meta :: "prefetch_queue \<Rightarrow> int \<Rightarrow> var_meta" where
  "fetch_meta q t =
     \<lparr>vm_dataset_id = pq_dataset_id q, vm_variable_id = 0, vm_name = pq_var_name q,
      vm_dtype = vi_dtype (pq_info q), vm_shape = vi_shape (pq_info q), vm_timestep = t\<rparr>"


section \<open>Operations\<close>

definition mark_complete :: "int \<Rightarrow> nat \<Rightarrow> amio_bbox option \<Rightarrow> prefetch_queue \<Rightarrow> prefetch_queue" where
  "mark_complete t b sel q =
     q\<lparr>pq_pending := removeAll t (pq_pending q),
       pq_completed := AList.update t b (pq_completed q),
       pq_fetched_bbox :=
         (case sel of Some x \<Rightarrow> AList.update t x (pq_fetched_bbox q) | None \<Rightarrow> AList.delete t (pq_fetched_bbox q))\<rparr>"

definition mark_failed :: "int \<Rightarrow> amio_err \<Rightarrow> prefetch_queue \<Rightarrow> prefetch_queue" where
  "mark_failed t e q =
     q\<lparr>pq_pending := removeAll t (pq_pending q), pq_failed := AList.update t e (pq_failed q)\<rparr>"

definition pool_release :: "nat \<Rightarrow> staging_pool \<Rightarrow> staging_pool" where
  "pool_release b p = (case release b p of Some p' \<Rightarrow> p' | None \<Rightarrow> p)"

text \<open>Release the completed buffers in time-step order, forget everything, and stop scheduling.\<close>

definition cancel_pending :: "pq_world \<Rightarrow> pq_world" where
  "cancel_pending w =
     (let q = pw_q w
      in w\<lparr>pw_pool := foldl (\<lambda>p (t, b). pool_release b p) (pw_pool w) (sort_key fst (pq_completed q)),
           pw_q := q\<lparr>pq_cancelled := True, pq_pending := [], pq_completed := [], pq_fetched_bbox := [],
                     pq_failed := []\<rparr>\<rparr>)"

definition completed_count :: "prefetch_queue \<Rightarrow> nat" where
  "completed_count q = length (pq_completed q)"

definition pending_count :: "prefetch_queue \<Rightarrow> nat" where
  "pending_count q = length (pq_pending q)"

definition failed_count :: "prefetch_queue \<Rightarrow> nat" where
  "failed_count q = length (pq_failed q)"

text \<open>The buffers the queue holds; threads of other components leave them alone.\<close>

definition held_buffers :: "pq_world \<Rightarrow> nat list" where
  "held_buffers w = map snd (pq_completed (pw_q w)) @ map (\<lambda>(t, sel, b). b) (pw_running w)"

definition polite :: "nat list \<Rightarrow> wake \<Rightarrow> wake" where
  "polite held k = k\<lparr>wk_others := filter (\<lambda>op. \<not> list_ex (op_touches op) held) (wk_others k)\<rparr>"

text \<open>
  The first half of \<^verbatim>\<open>sync_fetch\<close>: the cancellation check and the acquisition.  \<open>FetchDone\<close>: it
  returned; \<open>FetchThrown\<close>: \<^verbatim>\<open>std::bad_alloc\<close> escaped it; \<open>FetchWaiting\<close>: blocked in the pool.
\<close>

datatype fetch_begun = FetchHas nat | FetchDone | FetchThrown | FetchWaiting

definition fetch_begin :: "(nat \<Rightarrow> bool) \<Rightarrow> wake list \<Rightarrow> int \<Rightarrow> amio_bbox option \<Rightarrow> pq_world \<Rightarrow> fetch_begun \<times> pq_world" where
  "fetch_begin alloc ws t sel w =
     (let q = pw_q w
      in if pq_cancelled q then (FetchDone, w\<lparr>pw_q := q\<lparr>pq_pending := removeAll t (pq_pending q)\<rparr>\<rparr>)
         else
           (case acquire alloc (fetch_bytes (pq_info q) sel (sp_buffer_capacity (pw_pool w)))
                   (map (polite (held_buffers w)) ws) (pw_pool w) of
              (Acquired b, p) \<Rightarrow> (FetchHas b, w\<lparr>pw_pool := p, pw_running := pw_running w @ [(t, sel, b)]\<rparr>)
            | (NoBuffer, p) \<Rightarrow> (FetchDone, w\<lparr>pw_pool := p, pw_q := mark_failed t AMIO_ERR_STAGING_BACKPRESSURE q\<rparr>)
            | (BadAlloc, p) \<Rightarrow> (FetchThrown, w\<lparr>pw_pool := p\<rparr>)
            | (StillWaiting, p) \<Rightarrow> (FetchWaiting, w\<lparr>pw_pool := p\<rparr>)))"

text \<open>The second half: the read into the acquired buffer, the capacity backstop, and the outcome.\<close>

definition fetch_finish :: "reader \<Rightarrow> nat \<Rightarrow> pq_world \<Rightarrow> pq_world" where
  "fetch_finish rd j w =
     (let (t, sel, b) = pw_running w ! j;
          q = pw_q w; p = pw_pool w;
          w1 = w\<lparr>pw_running := erase_at j (pw_running w)\<rparr>
      in case rd (cap p b) (fetch_meta q t) t (map_option BoundingBox sel) of
           Inl x \<Rightarrow> w1\<lparr>pw_pool := pool_release b p, pw_q := mark_failed t AMIO_ERR_BACKEND_FAILURE q\<rparr>
         | Inr (bs, used) \<Rightarrow>
             (let p1 = fill_buffer b bs used p
              in if used > cap p1 b
                 then w1\<lparr>pw_pool := pool_release b p1, pw_q := mark_failed t AMIO_ERR_BACKEND_FAILURE q\<rparr>
                 else w1\<lparr>pw_pool := p1, pw_q := mark_complete t b sel q\<rparr>))"

definition sync_fetch :: "(nat \<Rightarrow> bool) \<Rightarrow> reader \<Rightarrow> wake list \<Rightarrow> int \<Rightarrow> amio_bbox option \<Rightarrow> pq_world \<Rightarrow> fetch_begun \<times> pq_world" where
  "sync_fetch alloc rd ws t sel w =
     (case fetch_begin alloc ws t sel w of
        (FetchHas b, w1) \<Rightarrow> (FetchDone, fetch_finish rd (length (pw_running w)) w1)
      | r \<Rightarrow> r)"

definition tracked :: "int \<Rightarrow> prefetch_queue \<Rightarrow> bool" where
  "tracked t q \<longleftrightarrow> t \<in> set (pq_pending q) \<or> map_of (pq_completed q) t \<noteq> None \<or> map_of (pq_failed q) t \<noteq> None"

text \<open>
  \<^verbatim>\<open>schedule_fetch\<close>.  Without workers the fetch runs on the calling thread, where \<open>ws\<close> are its waits for
  a buffer; an exception, or a wait that does not end, is passed on.
\<close>

definition schedule_fetch :: "(nat \<Rightarrow> bool) \<Rightarrow> reader \<Rightarrow> wake list \<Rightarrow> int \<Rightarrow> pq_world \<Rightarrow> fetch_begun \<times> pq_world" where
  "schedule_fetch alloc rd ws t w =
     (let q = pw_q w
      in if pq_cancelled q \<or> tracked t q then (FetchDone, w)
         else let w1 = w\<lparr>pw_q := q\<lparr>pq_pending := pq_pending q @ [t]\<rparr>\<rparr>; sel = pq_latched_bbox q
           in if pw_workers w then (FetchDone, w1\<lparr>pw_tasks := pw_tasks w1 @ [(t, sel)]\<rparr>)
              else sync_fetch alloc rd ws t sel w1)"

fun schedule_all :: "(nat \<Rightarrow> bool) \<Rightarrow> reader \<Rightarrow> wake list \<Rightarrow> int list \<Rightarrow> pq_world \<Rightarrow> fetch_begun \<times> pq_world" where
  "schedule_all alloc rd ws [] w = (FetchDone, w)"
| "schedule_all alloc rd ws (t # ts) w =
     (case schedule_fetch alloc rd ws t w of
        (FetchDone, w1) \<Rightarrow> schedule_all alloc rd ws ts w1
      | r \<Rightarrow> r)"

definition schedule_initial :: "(nat \<Rightarrow> bool) \<Rightarrow> reader \<Rightarrow> wake list \<Rightarrow> pq_world \<Rightarrow> fetch_begun \<times> pq_world" where
  "schedule_initial alloc rd ws w =
     (let q = pw_q w; count = min (int (pq_depth q)) (pq_total_timesteps q)
      in schedule_all alloc rd ws [0..count - 1] (w\<lparr>pw_q := q\<lparr>pq_kicked_off := True\<rparr>\<rparr>))"

definition schedule_next :: "(nat \<Rightarrow> bool) \<Rightarrow> reader \<Rightarrow> wake list \<Rightarrow> int \<Rightarrow> pq_world \<Rightarrow> fetch_begun \<times> pq_world" where
  "schedule_next alloc rd ws current w =
     (let next_t = current + int (pq_depth (pw_q w))
      in if next_t \<ge> pq_total_timesteps (pw_q w) then (FetchDone, w) else schedule_fetch alloc rd ws next_t w)"


section \<open>Waiting for a buffer\<close>

text \<open>What other threads do while a reader waits: workers run fetches, the dataset is closed, the pool is used.\<close>

datatype pq_act =
    ActBegin nat "wake list" \<comment> \<open>a worker takes the dispatched fetch at this position\<close>
  | ActFinish nat            \<comment> \<open>the read of the running fetch at this position ends\<close>
  | ActCancel
  | ActPool pool_op

fun pq_step :: "(nat \<Rightarrow> bool) \<Rightarrow> reader \<Rightarrow> pq_act \<Rightarrow> pq_world \<Rightarrow> pq_world" where
  "pq_step alloc rd (ActBegin j ws) w =
     (if j < length (pw_tasks w) then
        (case fetch_begin alloc ws (fst (pw_tasks w ! j)) (snd (pw_tasks w ! j)) w of
           (FetchWaiting, w1) \<Rightarrow> w
         | (_, w1) \<Rightarrow> w1\<lparr>pw_tasks := erase_at j (pw_tasks w1)\<rparr>)
      else w)"
| "pq_step alloc rd (ActFinish j) w = (if j < length (pw_running w) then fetch_finish rd j w else w)"
| "pq_step alloc rd ActCancel w = cancel_pending w"
| "pq_step alloc rd (ActPool op) w =
     (if list_ex (op_touches op) (held_buffers w) then w else w\<lparr>pw_pool := pool_step alloc op (pw_pool w)\<rparr>)"

fun pq_steps :: "(nat \<Rightarrow> bool) \<Rightarrow> reader \<Rightarrow> pq_act list \<Rightarrow> pq_world \<Rightarrow> pq_world" where
  "pq_steps alloc rd [] w = w"
| "pq_steps alloc rd (a # as) w = pq_steps alloc rd as (pq_step alloc rd a w)"

record pq_wake =
  pk_others :: "pq_act list"
  pk_timeout :: bool

datatype get_result =
    GotStatus amio_err "nat option" \<comment> \<open>the status and \<^verbatim>\<open>*out_buf\<close>\<close>
  | GetThrown                       \<comment> \<open>an exception escaped\<close>
  | GetWaiting                      \<comment> \<open>still blocked\<close>

definition drop_completed :: "int \<Rightarrow> prefetch_queue \<Rightarrow> prefetch_queue" where
  "drop_completed t q =
     q\<lparr>pq_completed := AList.delete t (pq_completed q), pq_fetched_bbox := AList.delete t (pq_fetched_bbox q)\<rparr>"

definition drop_failed :: "int \<Rightarrow> prefetch_queue \<Rightarrow> prefetch_queue" where
  "drop_failed t q = q\<lparr>pq_failed := AList.delete t (pq_failed q)\<rparr>"

text \<open>The two exits of the loop body that do not depend on a selection.\<close>

definition check_failed :: "int \<Rightarrow> pq_world \<Rightarrow> (get_result \<times> pq_world) option" where
  "check_failed t w =
     (case map_of (pq_failed (pw_q w)) t of
        Some e \<Rightarrow> Some (GotStatus e None, w\<lparr>pw_q := drop_failed t (pw_q w)\<rparr>)
      | None \<Rightarrow> None)"

text \<open>
  A completed fetch of the time step: hand the buffer over when its selection is the requested one,
  otherwise give the buffer back to the pool (the second result).
\<close>

definition check_completed :: "int \<Rightarrow> amio_bbox option \<Rightarrow> pq_world \<Rightarrow> (get_result \<times> pq_world) option \<times> bool \<times> pq_world" where
  "check_completed t req w =
     (let q = pw_q w
      in case map_of (pq_completed q) t of
           None \<Rightarrow> (None, False, w)
         | Some b \<Rightarrow>
             if bbox_same (map_of (pq_fetched_bbox q) t) req
             then (Some (GotStatus AMIO_OK (Some b), w\<lparr>pw_q := drop_completed t q\<rparr>), False, w)
             else (None, True, w\<lparr>pw_pool := pool_release b (pw_pool w), pw_q := drop_completed t q\<rparr>))"

text \<open>One pass of the loop up to the wait: \<open>Inl\<close> a result, \<open>Inr\<close> the world to wait in.\<close>

definition get_pass ::
  "(nat \<Rightarrow> bool) \<Rightarrow> reader \<Rightarrow> wake list \<Rightarrow> int \<Rightarrow> amio_bbox option \<Rightarrow> pq_world \<Rightarrow> (get_result \<times> pq_world) + pq_world" where
  "get_pass alloc rd ws t req w =
     (case check_completed t req w of
        (Some r, _, _) \<Rightarrow> Inl r
      | (None, stale, w1) \<Rightarrow>
          (case (if stale then schedule_fetch alloc rd ws t w1 else (FetchDone, w1)) of
             (FetchDone, w2) \<Rightarrow>
               (case check_failed t w2 of
                  Some r \<Rightarrow> Inl r
                | None \<Rightarrow> if pq_cancelled (pw_q w2) then Inl (GotStatus AMIO_ERR_BACKEND_FAILURE None, w2) else Inr w2)
           | (FetchThrown, w2) \<Rightarrow> Inl (GetThrown, w2)
           | (_, w2) \<Rightarrow> Inl (GetWaiting, w2)))"

text \<open>The last look after the deadline: the selection is not compared.\<close>

definition get_last :: "int \<Rightarrow> pq_world \<Rightarrow> get_result \<times> pq_world" where
  "get_last t w =
     (case map_of (pq_completed (pw_q w)) t of
        Some b \<Rightarrow> (GotStatus AMIO_OK (Some b),
                   w\<lparr>pw_q := (pw_q w)\<lparr>pq_completed := AList.delete t (pq_completed (pw_q w))\<rparr>\<rparr>)
      | None \<Rightarrow> (case check_failed t w of Some r \<Rightarrow> r | None \<Rightarrow> (GotStatus AMIO_ERR_TIMEOUT None, w)))"

fun get_loop ::
  "(nat \<Rightarrow> bool) \<Rightarrow> reader \<Rightarrow> wake list \<Rightarrow> int \<Rightarrow> amio_bbox option \<Rightarrow> pq_wake list \<Rightarrow> pq_world \<Rightarrow> get_result \<times> pq_world" where
  "get_loop alloc rd ws t req [] w =
     (case get_pass alloc rd ws t req w of Inl r \<Rightarrow> r | Inr w1 \<Rightarrow> (GetWaiting, w1))"
| "get_loop alloc rd ws t req (k # ks) w =
     (case get_pass alloc rd ws t req w of
        Inl r \<Rightarrow> r
      | Inr w1 \<Rightarrow>
          let w2 = pq_steps alloc rd (pk_others k) w1
          in if pk_timeout k then get_last t w2 else get_loop alloc rd ws t req ks w2)"

text \<open>
  \<^verbatim>\<open>get_buffer\<close>: latch the selection, open the window on the first call, look at what is there,
  schedule the fetch if nobody did, and wait.
\<close>

definition kick_off :: "(nat \<Rightarrow> bool) \<Rightarrow> reader \<Rightarrow> wake list \<Rightarrow> int \<Rightarrow> pq_world \<Rightarrow> fetch_begun \<times> pq_world" where
  "kick_off alloc rd ws t w =
     (let q = pw_q w
      in if pq_kicked_off q then (FetchDone, w)
         else let count = min (int (pq_depth q)) (pq_total_timesteps q - t)
           in schedule_all alloc rd ws (map (\<lambda>k. t + k) [0..count - 1]) (w\<lparr>pw_q := q\<lparr>pq_kicked_off := True\<rparr>\<rparr>))"

definition get_buffer ::
  "(nat \<Rightarrow> bool) \<Rightarrow> reader \<Rightarrow> wake list \<Rightarrow> int \<Rightarrow> amio_bbox option \<Rightarrow> pq_wake list \<Rightarrow> pq_world \<Rightarrow> get_result \<times> pq_world" where
  "get_buffer alloc rd ws t req ks w =
     (case kick_off alloc rd ws t (w\<lparr>pw_q := (pw_q w)\<lparr>pq_latched_bbox := req\<rparr>\<rparr>) of
        (FetchDone, w1) \<Rightarrow>
          (case check_failed t w1 of
             Some r \<Rightarrow> r
           | None \<Rightarrow>
               (case check_completed t req w1 of
                  (Some r, _, _) \<Rightarrow> r
                | (None, _, w2) \<Rightarrow>
                    (case (if t \<in> set (pq_pending (pw_q w2)) then (FetchDone, w2)
                           else schedule_fetch alloc rd ws t w2) of
                       (FetchDone, w3) \<Rightarrow> get_loop alloc rd ws t req ks w3
                     | (FetchThrown, w3) \<Rightarrow> (GetThrown, w3)
                     | (_, w3) \<Rightarrow> (GetWaiting, w3))))
      | (FetchThrown, w1) \<Rightarrow> (GetThrown, w1)
      | (_, w1) \<Rightarrow> (GetWaiting, w1))"


section \<open>Invariant\<close>

text \<open>
  The driver reports as used what it delivered.  This is what the drivers document of \<^verbatim>\<open>used_bytes\<close>.
\<close>

definition reader_ok :: "reader \<Rightarrow> bool" where
  "reader_ok rd \<longleftrightarrow> (\<forall>c m t b bs used. rd c m t b = Inr (bs, used) \<longrightarrow> used = length bs)"

text \<open>\<open>b\<close> holds the data of time step \<open>t\<close> under the selection \<open>sel\<close>.\<close>

definition holds_data :: "reader \<Rightarrow> prefetch_queue \<Rightarrow> staging_pool \<Rightarrow> int \<Rightarrow> amio_bbox option \<Rightarrow> nat \<Rightarrow> bool" where
  "holds_data rd q p t sel b \<longleftrightarrow>
     rd (cap p b) (fetch_meta q t) t (map_option BoundingBox sel) = Inr (pool_content p b, length (pool_content p b))"

definition in_flight :: "pq_world \<Rightarrow> int list" where
  "in_flight w = map fst (pw_tasks w) @ map fst (pw_running w)"

definition keys_ok :: "pq_world \<Rightarrow> bool" where
  "keys_ok w \<longleftrightarrow>
     distinct (map fst (pq_completed (pw_q w))) \<and> distinct (in_flight w)
     \<and> (\<forall>t \<in> set (in_flight w). map_of (pq_completed (pw_q w)) t = None
          \<and> (\<not> pq_cancelled (pw_q w) \<longrightarrow> t \<in> set (pq_pending (pw_q w))))
     \<and> (\<forall>t \<in> set (pq_pending (pw_q w)). map_of (pq_completed (pw_q w)) t = None)"

definition pf_inv :: "reader \<Rightarrow> pq_world \<Rightarrow> bool" where
  "pf_inv rd w \<longleftrightarrow>
     pool_inv (pw_pool w) \<and> keys_ok w
     \<and> distinct (held_buffers w) \<and> (\<forall>b \<in> set (held_buffers w). pool_refs (pw_pool w) b > 0)
     \<and> (\<forall>t b. map_of (pq_completed (pw_q w)) t = Some b \<longrightarrow>
          holds_data rd (pw_q w) (pw_pool w) t (map_of (pq_fetched_bbox (pw_q w)) t) b)"

lemma pf_inv_init:
  "pool_inv p \<Longrightarrow> pf_inv rd \<lparr>pw_q = PrefetchQueue d rt ds nm info tot, pw_pool = p, pw_workers = wk, pw_tasks = [], pw_running = []\<rparr>"
  by (simp add: pf_inv_def keys_ok_def in_flight_def held_buffers_def PrefetchQueue_def)


subsection \<open>Buffers nobody addresses\<close>

definition kept :: "staging_pool \<Rightarrow> staging_pool \<Rightarrow> nat \<Rightarrow> bool" where
  "kept p p' i \<longleftrightarrow> i < length (sp_buffers p') \<and> buf p' i = buf p i"

lemma kept_refs: "kept p p' i \<Longrightarrow> pool_refs p i > 0 \<Longrightarrow> pool_refs p' i = pool_refs p i"
  by (auto simp: kept_def pool_refs_def split: if_splits)

lemma kept_content: "kept p p' i \<Longrightarrow> pool_content p' i = pool_content p i \<and> cap p' i = cap p i"
  by (simp add: kept_def pool_content_def split: option.split)

lemma kept_trans: "kept p q i \<Longrightarrow> kept q r i \<Longrightarrow> kept p r i"
  by (simp add: kept_def)

lemma kept_refl: "pool_refs p i > 0 \<Longrightarrow> kept p p i"
  by (simp add: kept_def pool_refs_def split: if_splits)

lemma kept_step: "pool_inv p \<Longrightarrow> pool_refs p i > 0 \<Longrightarrow> \<not> op_touches op i \<Longrightarrow> kept p (pool_step alloc op p) i"
  unfolding kept_def by (rule pool_step_held)

lemma kept_run:
  "pool_inv p \<Longrightarrow> pool_refs p i > 0 \<Longrightarrow> \<forall>op\<in>set ops. \<not> op_touches op i \<Longrightarrow> kept p (pool_run alloc ops p) i"
proof (induction ops arbitrary: p)
  case (Cons op ops)
  have k: "kept p (pool_step alloc op p) i" using Cons.prems by (intro kept_step) simp_all
  have "kept (pool_step alloc op p) (pool_run alloc ops (pool_step alloc op p)) i"
    using Cons.prems k by (intro Cons.IH) (simp_all add: pool_step_inv kept_refs)
  with k show ?case using kept_trans by simp
qed (simp add: kept_refl)

lemma kept_acquire:
  assumes "pool_inv p" and "pool_refs p i > 0" and "\<forall>k\<in>set ws. \<forall>op\<in>set (wk_others k). \<not> op_touches op i"
    and "acquire alloc n ws p = (r, p')"
  shows "kept p p' i \<and> r \<noteq> Acquired i"
  using assms
proof (induction ws arbitrary: p)
  case Nil
  show ?case
  proof (cases "acquire_pass alloc n p")
    case None
    with Nil show ?thesis by (auto simp: acquire_blocked kept_refl)
  next
    case (Some rp)
    with Nil.prems(4) have rp: "acquire_pass alloc n p = Some (r, p')" by (simp add: acquire_at_once)
    have "kept p p' i" unfolding kept_def by (rule acquire_pass_held [OF Nil.prems(1,2) rp])
    moreover have "r \<noteq> Acquired i"
      using acquire_pass_not_held [OF Nil.prems(1,2)] rp by blast
    ultimately show ?thesis by simp
  qed
next
  case (Cons k ks)
  let ?q = "pool_run alloc (wk_others k) p"
  have kq: "kept p ?q i" using Cons.prems by (intro kept_run) simp_all
  have q: "pool_inv ?q" "pool_refs ?q i > 0"
    using pool_run_inv [OF Cons.prems(1)] kept_refs [OF kq Cons.prems(2)] Cons.prems(2) by simp_all
  show ?case
  proof (cases "acquire_pass alloc n p")
    case (Some rp)
    with Cons.prems(4) have rp: "acquire_pass alloc n p = Some (r, p')" by (simp add: acquire_at_once)
    then show ?thesis
      using acquire_pass_held [OF Cons.prems(1,2) rp] acquire_pass_not_held [OF Cons.prems(1,2)]
      by (auto simp: kept_def)
  next
    case None
    show ?thesis
    proof (cases "wk_timeout k")
      case True
      then have res: "(case take_free alloc n ?q of Some x \<Rightarrow> x | None \<Rightarrow> (NoBuffer, ?q)) = (r, p')"
        using None Cons.prems(4) by (simp add: acquire_timed_out)
      show ?thesis
      proof (cases "take_free alloc n ?q")
        case None
        with res kq show ?thesis by auto
      next
        case (Some x)
        then have rp: "acquire_pass alloc n ?q = Some (r, p')" using res by (simp add: acquire_pass_def)
        then show ?thesis
          using acquire_pass_held [OF q rp] acquire_pass_not_held [OF q] kq by (auto simp: kept_def)
      qed
    next
      case False
      then have "acquire alloc n ks ?q = (r, p')" using None Cons.prems(4) by (simp add: acquire_woken)
      from Cons.IH [OF q _ this] Cons.prems(3) kq show ?thesis by (auto intro: kept_trans)
    qed
  qed
qed


subsection \<open>Every step keeps the invariant\<close>

lemma pool_release_step: "pool_release b p = pool_step (\<lambda>_. True) (OpRelease b) p"
  by (simp add: pool_release_def)

lemma pool_release_inv: "pool_inv p \<Longrightarrow> pool_inv (pool_release b p)"
  unfolding pool_release_step by (rule pool_step_inv)

lemma kept_release: "pool_inv p \<Longrightarrow> pool_refs p i > 0 \<Longrightarrow> i \<noteq> b \<Longrightarrow> kept p (pool_release b p) i"
  unfolding pool_release_step by (rule kept_step) auto

lemma kept_fill: "pool_refs p i > 0 \<Longrightarrow> i \<noteq> b \<Longrightarrow> kept p (fill_buffer b bs used p) i"
  by (auto simp: kept_def pool_refs_def fill_buffer_def split: if_splits)

lemma holds_data_kept: "kept p p' b \<Longrightarrow> holds_data rd q p' t sel b = holds_data rd q p t sel b"
  using kept_content [of p p' b] by (simp add: holds_data_def)

lemma holds_data_queue [simp]:
  "holds_data rd (q\<lparr>pq_pending := x\<rparr>) = holds_data rd q" "holds_data rd (q\<lparr>pq_latched_bbox := l\<rparr>) = holds_data rd q"
  "holds_data rd (q\<lparr>pq_kicked_off := k\<rparr>) = holds_data rd q" "holds_data rd (mark_failed t e q) = holds_data rd q"
  "holds_data rd (mark_complete t b sel q) = holds_data rd q" "holds_data rd (drop_completed t q) = holds_data rd q"
  "holds_data rd (drop_failed t q) = holds_data rd q" "holds_data rd (q\<lparr>pq_completed := c\<rparr>) = holds_data rd q"
  by (simp_all add: holds_data_def fetch_meta_def fun_eq_iff mark_failed_def mark_complete_def drop_completed_def
      drop_failed_def)

lemma pf_inv_pool:
  assumes "pf_inv rd w" and "pool_inv p'" and "\<forall>b\<in>set (held_buffers w). kept (pw_pool w) p' b"
  shows "pf_inv rd (w\<lparr>pw_pool := p'\<rparr>)"
proof -
  have h: "b \<in> set (held_buffers w)" if "map_of (pq_completed (pw_q w)) t = Some b" for t b
    using map_of_SomeD [OF that] by (force simp: held_buffers_def)
  have "held_buffers (w\<lparr>pw_pool := p'\<rparr>) = held_buffers w" "keys_ok (w\<lparr>pw_pool := p'\<rparr>) = keys_ok w"
    by (simp_all add: held_buffers_def keys_ok_def in_flight_def)
  moreover have "holds_data rd (pw_q w) p' t (map_of (pq_fetched_bbox (pw_q w)) t) b"
    if "map_of (pq_completed (pw_q w)) t = Some b" for t b
    using assms(1,3) h [OF that] that holds_data_kept [of "pw_pool w" p' b] by (simp add: pf_inv_def)
  ultimately show ?thesis
    using assms by (auto simp: pf_inv_def kept_refs)
qed

text \<open>A buffer and a time step leave the queue.\<close>

lemma mset_delete: "distinct (map fst xs) \<Longrightarrow> map_of xs t = Some b \<Longrightarrow> mset (map snd xs) = add_mset b (mset (map snd (AList.delete t xs)))"
proof (induction xs)
  case (Cons x xs)
  show ?case
  proof (cases "fst x = t")
    case True
    with Cons.prems have "t \<notin> fst ` set xs" by auto
    then have "AList.delete t xs = xs" by (rule delete_id)
    with True Cons.prems show ?thesis by (cases x) auto
  next
    case False
    with Cons show ?thesis by (cases x) auto
  qed
qed simp

lemma held_drop:
  assumes "distinct (map fst (pq_completed (pw_q w)))" and "map_of (pq_completed (pw_q w)) t = Some b"
    and "pq_completed (pw_q w') = AList.delete t (pq_completed (pw_q w))" and "pw_running w' = pw_running w"
  shows "mset (held_buffers w) = add_mset b (mset (held_buffers w'))"
  using mset_delete [OF assms(1,2)] assms(3,4) by (simp add: held_buffers_def)

lemma distinct_mset_less: "mset xs = add_mset b (mset ys) \<Longrightarrow> distinct xs \<Longrightarrow> distinct ys \<and> b \<notin> set ys \<and> set xs = insert b (set ys)"
proof -
  assume m: "mset xs = add_mset b (mset ys)" and d: "distinct xs"
  then have "mset xs = mset (b # ys)" by simp
  then have "distinct (b # ys)" "set xs = set (b # ys)" using d by (metis mset_eq_imp_distinct_iff, metis mset_eq_setD)
  then show ?thesis by simp
qed

lemma drop_completed_inv:
  assumes "pf_inv rd w" and "map_of (pq_completed (pw_q w)) t = Some b"
  shows "pf_inv rd (w\<lparr>pw_q := drop_completed t (pw_q w)\<rparr>)"
    and "b \<notin> set (held_buffers (w\<lparr>pw_q := drop_completed t (pw_q w)\<rparr>))"
proof -
  let ?w = "w\<lparr>pw_q := drop_completed t (pw_q w)\<rparr>"
  have d: "distinct (map fst (pq_completed (pw_q w)))" "distinct (held_buffers w)"
    using assms(1) by (simp_all add: pf_inv_def keys_ok_def)
  have "mset (held_buffers w) = add_mset b (mset (held_buffers ?w))"
    by (rule held_drop [OF d(1) assms(2)]) (simp_all add: drop_completed_def)
  from distinct_mset_less [OF this d(2)]
  have h: "distinct (held_buffers ?w)" "b \<notin> set (held_buffers ?w)" "set (held_buffers ?w) \<subseteq> set (held_buffers w)"
    by auto
  then show "b \<notin> set (held_buffers ?w)" by simp
  have "keys_ok ?w"
    using assms(1) d(1)
    by (auto simp: pf_inv_def keys_ok_def in_flight_def drop_completed_def delete_conv' distinct_delete)
  moreover have "\<forall>t' b'. map_of (pq_completed (pw_q ?w)) t' = Some b' \<longrightarrow>
      holds_data rd (pw_q ?w) (pw_pool ?w) t' (map_of (pq_fetched_bbox (pw_q ?w)) t') b'"
    using assms(1) by (auto simp: pf_inv_def) (auto simp: drop_completed_def delete_conv' split: if_splits)
  ultimately show "pf_inv rd ?w"
    using assms(1) h by (auto simp: pf_inv_def)
qed

lemma drop_failed_inv: "pf_inv rd w \<Longrightarrow> pf_inv rd (w\<lparr>pw_q := drop_failed t (pw_q w)\<rparr>)"
  by (simp add: pf_inv_def keys_ok_def in_flight_def held_buffers_def) (simp add: drop_failed_def)

lemma polite_wakes:
  "b \<in> set held \<Longrightarrow> \<forall>k\<in>set (map (polite held) ws). \<forall>op\<in>set (wk_others k). \<not> op_touches op b"
  by (auto simp: polite_def list_ex_iff)

lemma fetch_begin_inv:
  assumes "pf_inv rd w" and "t \<notin> set (in_flight w)" and "map_of (pq_completed (pw_q w)) t = None"
    and "\<not> pq_cancelled (pw_q w) \<Longrightarrow> t \<in> set (pq_pending (pw_q w))" and "fetch_begin alloc ws t sel w = (r, w')"
  shows "pf_inv rd w'"
proof (cases "pq_cancelled (pw_q w)")
  case True
  then have w': "w' = w\<lparr>pw_q := (pw_q w)\<lparr>pq_pending := removeAll t (pq_pending (pw_q w))\<rparr>\<rparr>"
    using assms(5) by (auto simp: fetch_begin_def Let_def)
  show ?thesis
    using assms(1) True by (simp add: w' pf_inv_def keys_ok_def in_flight_def held_buffers_def)
next
  case False
  let ?n = "fetch_bytes (pq_info (pw_q w)) sel (sp_buffer_capacity (pw_pool w))"
  let ?ws = "map (polite (held_buffers w)) ws"
  obtain a p where a: "acquire alloc ?n ?ws (pw_pool w) = (a, p)" by (cases "acquire alloc ?n ?ws (pw_pool w)")
  have inv: "pool_inv (pw_pool w)" "\<forall>b\<in>set (held_buffers w). pool_refs (pw_pool w) b > 0"
    using assms(1) by (simp_all add: pf_inv_def)
  have k: "\<forall>b\<in>set (held_buffers w). kept (pw_pool w) p b \<and> a \<noteq> Acquired b"
  proof
    fix b
    assume b: "b \<in> set (held_buffers w)"
    from kept_acquire [OF inv(1) _ polite_wakes [OF b] a] b inv(2) show "kept (pw_pool w) p b \<and> a \<noteq> Acquired b"
      by blast
  qed
  have p: "pool_inv p" by (rule acquire_inv [OF inv(1) a])
  have wp: "pf_inv rd (w\<lparr>pw_pool := p\<rparr>)" using pf_inv_pool [OF assms(1) p] k by blast
  show ?thesis
  proof (cases a)
    case (Acquired b)
    then have w': "w' = w\<lparr>pw_pool := p, pw_running := pw_running w @ [(t, sel, b)]\<rparr>"
      using assms(5) False a by (simp add: fetch_begin_def Let_def)
    have b: "b \<notin> set (held_buffers w)" using k Acquired by blast
    have "pool_refs p b = 1"
      using acquire_Acquired [OF inv(1) a [unfolded Acquired]]
      by (auto simp: acquired_from_def pool_refs_def pool_inv_def)
    moreover have "keys_ok w'"
      using assms(1-4) False by (auto simp: w' pf_inv_def keys_ok_def in_flight_def)
    ultimately show ?thesis
      using wp b by (auto simp: w' pf_inv_def held_buffers_def)
  next
    case BadAlloc
    with assms(5) False a wp show ?thesis by (auto simp: fetch_begin_def Let_def)
  next
    case NoBuffer
    then have w': "w' = w\<lparr>pw_pool := p, pw_q := mark_failed t AMIO_ERR_STAGING_BACKPRESSURE (pw_q w)\<rparr>"
      using assms(5) False a by (simp add: fetch_begin_def Let_def)
    have "keys_ok w'"
      using assms(1,2) by (auto simp: w' pf_inv_def keys_ok_def in_flight_def mark_failed_def)
    with wp show ?thesis by (simp add: w' pf_inv_def held_buffers_def) (simp add: mark_failed_def)
  next
    case StillWaiting
    with assms(5) False a wp show ?thesis by (auto simp: fetch_begin_def Let_def)
  qed
qed


text \<open>The buffer of a running fetch leaves the running list.\<close>

lemma running_erase:
  assumes "j < length (pw_running w)" and "pw_running w ! j = (t, sel, b)"
  shows "mset (held_buffers w) = add_mset b (mset (held_buffers (w\<lparr>pw_running := erase_at j (pw_running w)\<rparr>)))"
    and "mset (in_flight w) = add_mset t (mset (in_flight (w\<lparr>pw_running := erase_at j (pw_running w)\<rparr>)))"
  using arg_cong [OF mset_erase_at [OF assms(1)], of "image_mset (\<lambda>(t, sel, b). b)"]
    arg_cong [OF mset_erase_at [OF assms(1)], of "image_mset fst"] assms(2)
  by (simp_all add: held_buffers_def in_flight_def)

lemma update_new: "t \<notin> fst ` set xs \<Longrightarrow> AList.update t b xs = xs @ [(t, b)]"
  by (induction xs) auto

lemma mark_failed_simps [simp]:
  "pq_completed (mark_failed t e q) = pq_completed q" "pq_fetched_bbox (mark_failed t e q) = pq_fetched_bbox q"
  "pq_pending (mark_failed t e q) = removeAll t (pq_pending q)" "pq_cancelled (mark_failed t e q) = pq_cancelled q"
  by (simp_all add: mark_failed_def)

lemma mark_complete_simps [simp]:
  "pq_pending (mark_complete t b sel q) = removeAll t (pq_pending q)"
  "pq_cancelled (mark_complete t b sel q) = pq_cancelled q"
  "map_of (pq_fetched_bbox (mark_complete t b sel q)) = (map_of (pq_fetched_bbox q))(t := sel)"
  by (auto simp: mark_complete_def update_conv' delete_conv' split: option.splits)

lemma fetch_finish_failed_inv:
  assumes "pf_inv rd w" and "j < length (pw_running w)" and "pw_running w ! j = (t, sel, b)"
    and "pool_inv p'" and "\<forall>i\<in>set (held_buffers w). i \<noteq> b \<longrightarrow> kept (pw_pool w) p' i"
  shows "pf_inv rd (w\<lparr>pw_running := erase_at j (pw_running w), pw_pool := p', pw_q := mark_failed t e (pw_q w)\<rparr>)"
proof -
  let ?w1 = "w\<lparr>pw_running := erase_at j (pw_running w)\<rparr>"
  note er = running_erase [OF assms(2,3)]
  have d: "distinct (held_buffers w)" "distinct (in_flight w)"
    using assms(1) by (simp_all add: pf_inv_def keys_ok_def)
  note h = distinct_mset_less [OF er(1) d(1)] and f = distinct_mset_less [OF er(2) d(2)]
  have ieq: "in_flight (?w1\<lparr>pw_q := mark_failed t e (pw_q w)\<rparr>) = in_flight ?w1" by (simp add: in_flight_def)
  have heq: "held_buffers (?w1\<lparr>pw_q := mark_failed t e (pw_q w)\<rparr>) = held_buffers ?w1"
    by (simp add: held_buffers_def)
  have "keys_ok (?w1\<lparr>pw_q := mark_failed t e (pw_q w)\<rparr>)"
    using assms(1) f unfolding pf_inv_def keys_ok_def ieq by auto
  then have "pf_inv rd (?w1\<lparr>pw_q := mark_failed t e (pw_q w)\<rparr>)"
    using assms(1) h unfolding pf_inv_def heq by simp
  moreover have "\<forall>i\<in>set (held_buffers (?w1\<lparr>pw_q := mark_failed t e (pw_q w)\<rparr>)).
      kept (pw_pool (?w1\<lparr>pw_q := mark_failed t e (pw_q w)\<rparr>)) p' i"
    using assms(5) h unfolding heq by auto
  ultimately have "pf_inv rd (?w1\<lparr>pw_q := mark_failed t e (pw_q w), pw_pool := p'\<rparr>)"
    by (intro pf_inv_pool assms(4))
  moreover have "?w1\<lparr>pw_q := mark_failed t e (pw_q w), pw_pool := p'\<rparr>
      = w\<lparr>pw_running := erase_at j (pw_running w), pw_pool := p', pw_q := mark_failed t e (pw_q w)\<rparr>"
    by simp
  ultimately show ?thesis by (simp only:)
qed

lemma fetch_finish_done_inv:
  assumes "pf_inv rd w" and "j < length (pw_running w)" and "pw_running w ! j = (t, sel, b)"
    and "rd (cap (pw_pool w) b) (fetch_meta (pw_q w) t) t (map_option BoundingBox sel) = Inr (bs, length bs)"
    and "length bs \<le> cap (pw_pool w) b"
  shows "pf_inv rd (w\<lparr>pw_running := erase_at j (pw_running w),
    pw_pool := fill_buffer b bs (length bs) (pw_pool w), pw_q := mark_complete t b sel (pw_q w)\<rparr>)"
    (is "pf_inv rd ?w'")
proof -
  let ?w1 = "w\<lparr>pw_running := erase_at j (pw_running w)\<rparr>"
  let ?p = "fill_buffer b bs (length bs) (pw_pool w)"
  note er = running_erase [OF assms(2,3)]
  have inv: "pool_inv (pw_pool w)" "keys_ok w" "distinct (held_buffers w)"
    "\<forall>b\<in>set (held_buffers w). pool_refs (pw_pool w) b > 0"
    using assms(1) by (simp_all add: pf_inv_def)
  have d: "distinct (in_flight w)" using inv(2) by (simp add: keys_ok_def)
  note h = distinct_mset_less [OF er(1) inv(3)] and f = distinct_mset_less [OF er(2) d]
  have t: "map_of (pq_completed (pw_q w)) t = None" using inv(2) f by (simp add: keys_ok_def)
  then have app: "pq_completed (mark_complete t b sel (pw_q w)) = pq_completed (pw_q w) @ [(t, b)]"
    by (simp add: mark_complete_def update_new map_of_eq_None_iff)
  have refs: "pool_refs (pw_pool w) b > 0" using inv(4) h by simp
  then have b: "b < length (sp_buffers (pw_pool w))" "sb_ref_count (buf (pw_pool w) b) > 0"
    by (auto simp: pool_refs_def split: if_splits)
  then have "sb_data (buf (pw_pool w) b) \<noteq> None"
    using inv(1) by (auto simp: pool_inv_def buf_ok_def split: option.splits)
  then have content: "pool_content ?p b = bs" using pool_content_fill [OF inv(1) b(1)] assms(5) by simp
  have cap: "cap ?p b = cap (pw_pool w) b" using b by (simp add: fill_buffer_def)
  have pinv: "pool_inv ?p" by (rule fill_buffer_inv [OF inv(1) b])
  have kept: "kept (pw_pool w) ?p i" if "i \<in> set (held_buffers ?w1)" for i
    using that h inv(4) by (intro kept_fill) auto
  have hl: "held_buffers ?w' = map snd (pq_completed (pw_q w)) @ [b] @ map (\<lambda>(t, sel, b). b) (erase_at j (pw_running w))"
    "held_buffers ?w1 = map snd (pq_completed (pw_q w)) @ map (\<lambda>(t, sel, b). b) (erase_at j (pw_running w))"
    by (simp_all add: held_buffers_def app)
  then have held: "set (held_buffers ?w') = insert b (set (held_buffers ?w1))"
    "mset (held_buffers ?w') = mset (held_buffers w)"
    using er(1) by simp_all
  have ieq: "in_flight ?w' = in_flight ?w1" by (simp add: in_flight_def)
  have t': "t \<notin> fst ` set (pq_completed (pw_q w))" using t by (simp add: map_of_eq_None_iff)
  have mo: "map_of (pq_completed (mark_complete t b sel (pw_q w))) t' = (if t' = t then Some b else map_of (pq_completed (pw_q w)) t')" for t'
    using t by (simp add: app map_add_def split: option.split)
  have "keys_ok ?w'"
    using inv(2) f t' unfolding keys_ok_def ieq by (simp add: mo) (auto simp: app)
  moreover have "holds_data rd (pw_q ?w') ?p t' (map_of (pq_fetched_bbox (pw_q ?w')) t') b'"
    if c: "map_of (pq_completed (pw_q ?w')) t' = Some b'" for t' b'
  proof (cases "t' = t")
    case True
    then have "b' = b" using c by (simp add: mo)
    moreover have "map_of (pq_fetched_bbox (pw_q ?w')) t = sel" by simp
    ultimately show ?thesis using assms(4) True content cap by (simp add: holds_data_def fetch_meta_def mark_complete_def)
  next
    case False
    then have c': "map_of (pq_completed (pw_q w)) t' = Some b'" using c by (simp add: mo)
    then have "b' \<in> set (held_buffers ?w1)" using map_of_SomeD [OF c'] by (force simp: held_buffers_def)
    moreover have "map_of (pq_fetched_bbox (pw_q ?w')) t' = map_of (pq_fetched_bbox (pw_q w)) t'"
      using False by simp
    ultimately show ?thesis
      using assms(1) c' holds_data_kept [OF kept] by (simp add: pf_inv_def)
  qed
  moreover have "distinct (held_buffers ?w')" using held(2) inv(3) mset_eq_imp_distinct_iff by blast
  moreover have "pool_refs ?p i > 0" if "i \<in> set (held_buffers ?w')" for i
  proof (cases "i = b")
    case True
    then show ?thesis using refs b by (simp add: pool_refs_def fill_buffer_def)
  next
    case False
    then have "i \<in> set (held_buffers ?w1)" using that held(1) by blast
    then show ?thesis using kept_refs [OF kept] h inv(4) by auto
  qed
  ultimately show ?thesis using pinv by (simp add: pf_inv_def)
qed

lemma fetch_finish_inv:
  assumes "pf_inv rd w" and "reader_ok rd" and "j < length (pw_running w)"
  shows "pf_inv rd (fetch_finish rd j w)"
proof -
  obtain t sel b where j: "pw_running w ! j = (t, sel, b)" by (cases "pw_running w ! j")
  have inv: "pool_inv (pw_pool w)" "\<forall>b\<in>set (held_buffers w). pool_refs (pw_pool w) b > 0"
    using assms(1) by (simp_all add: pf_inv_def)
  have "b \<in> set (held_buffers w)" using j nth_mem [OF assms(3)] by (force simp: held_buffers_def)
  then have b: "b < length (sp_buffers (pw_pool w))" "sb_ref_count (buf (pw_pool w) b) > 0"
    using inv(2) by (auto simp: pool_refs_def split: if_splits)
  let ?r = "rd (cap (pw_pool w) b) (fetch_meta (pw_q w) t) t (map_option BoundingBox sel)"
  show ?thesis
  proof (cases ?r)
    case (Inl x)
    have "pf_inv rd (w\<lparr>pw_running := erase_at j (pw_running w), pw_pool := pool_release b (pw_pool w),
        pw_q := mark_failed t AMIO_ERR_BACKEND_FAILURE (pw_q w)\<rparr>)"
      using inv by (intro fetch_finish_failed_inv [OF assms(1,3) j]) (auto intro: pool_release_inv kept_release)
    with Inl j show ?thesis by (simp add: fetch_finish_def)
  next
    case (Inr bu)
    obtain bs used where bu: "bu = (bs, used)" by (cases bu)
    then have used: "used = length bs" using Inr assms(2) by (auto simp: reader_ok_def)
    let ?p1 = "fill_buffer b bs used (pw_pool w)"
    have cap: "cap ?p1 b = cap (pw_pool w) b" using b by (simp add: fill_buffer_def)
    show ?thesis
    proof (cases "used > cap (pw_pool w) b")
      case True
      have p1: "pool_inv ?p1" by (rule fill_buffer_inv [OF inv(1) b])
      have "kept (pw_pool w) (pool_release b ?p1) i" if "i \<in> set (held_buffers w)" "i \<noteq> b" for i
      proof -
        have k: "kept (pw_pool w) ?p1 i" using that inv(2) by (intro kept_fill) auto
        have "kept ?p1 (pool_release b ?p1) i"
          using that inv(2) kept_refs [OF k] by (intro kept_release [OF p1]) auto
        with k show ?thesis by (rule kept_trans)
      qed
      then have "pf_inv rd (w\<lparr>pw_running := erase_at j (pw_running w), pw_pool := pool_release b ?p1,
          pw_q := mark_failed t AMIO_ERR_BACKEND_FAILURE (pw_q w)\<rparr>)"
        using pool_release_inv [OF p1] by (intro fetch_finish_failed_inv [OF assms(1,3) j]) auto
      with Inr bu j True cap show ?thesis by (simp add: fetch_finish_def Let_def)
    next
      case False
      then have "pf_inv rd (w\<lparr>pw_running := erase_at j (pw_running w),
          pw_pool := fill_buffer b bs (length bs) (pw_pool w), pw_q := mark_complete t b sel (pw_q w)\<rparr>)"
        using Inr bu used by (intro fetch_finish_done_inv [OF assms(1,3) j]) simp_all
      with Inr bu j False cap used show ?thesis by (simp add: fetch_finish_def Let_def)
    qed
  qed
qed


lemma schedule_pending_inv:
  assumes "pf_inv rd w" and "\<not> pq_cancelled (pw_q w)" and "\<not> tracked t (pw_q w)"
  shows "pf_inv rd (w\<lparr>pw_q := (pw_q w)\<lparr>pq_pending := pq_pending (pw_q w) @ [t]\<rparr>\<rparr>)"
    and "t \<notin> set (in_flight w)" and "map_of (pq_completed (pw_q w)) t = None"
proof -
  show "t \<notin> set (in_flight w)" using assms unfolding pf_inv_def keys_ok_def tracked_def by blast
  show t: "map_of (pq_completed (pw_q w)) t = None" using assms(3) by (simp add: tracked_def)
  have "keys_ok (w\<lparr>pw_q := (pw_q w)\<lparr>pq_pending := pq_pending (pw_q w) @ [t]\<rparr>\<rparr>)"
    using assms(1) t by (simp add: pf_inv_def keys_ok_def in_flight_def)
  with assms(1) show "pf_inv rd (w\<lparr>pw_q := (pw_q w)\<lparr>pq_pending := pq_pending (pw_q w) @ [t]\<rparr>\<rparr>)"
    by (simp add: pf_inv_def held_buffers_def)
qed

lemma fetch_begin_running:
  "fetch_begin alloc ws t sel w = (FetchHas b, w1) \<Longrightarrow> pw_running w1 = pw_running w @ [(t, sel, b)]"
  by (auto simp: fetch_begin_def Let_def split: if_splits prod.splits acquire_result.splits)

lemma sync_fetch_inv:
  assumes "pf_inv rd w" and "reader_ok rd" and "t \<notin> set (in_flight w)" and "map_of (pq_completed (pw_q w)) t = None"
    and "\<not> pq_cancelled (pw_q w) \<Longrightarrow> t \<in> set (pq_pending (pw_q w))" and "sync_fetch alloc rd ws t sel w = (r, w')"
  shows "pf_inv rd w'"
proof -
  obtain r1 w1 where b: "fetch_begin alloc ws t sel w = (r1, w1)" by (cases "fetch_begin alloc ws t sel w")
  have inv: "pf_inv rd w1" by (rule fetch_begin_inv [OF assms(1,3,4,5) b])
  show ?thesis
  proof (cases r1)
    case (FetchHas i)
    with b have "length (pw_running w) < length (pw_running w1)" using fetch_begin_running by fastforce
    with FetchHas b assms(6) fetch_finish_inv [OF inv assms(2)] show ?thesis
      by (auto simp: sync_fetch_def)
  qed (use b inv assms(6) in \<open>auto simp: sync_fetch_def\<close>)
qed

lemma schedule_fetch_inv:
  assumes "pf_inv rd w" and "reader_ok rd" and "schedule_fetch alloc rd ws t w = (r, w')"
  shows "pf_inv rd w'"
proof (cases "pq_cancelled (pw_q w) \<or> tracked t (pw_q w)")
  case True
  with assms show ?thesis by (auto simp: schedule_fetch_def Let_def)
next
  case False
  let ?w1 = "w\<lparr>pw_q := (pw_q w)\<lparr>pq_pending := pq_pending (pw_q w) @ [t]\<rparr>\<rparr>"
  have w1: "pf_inv rd ?w1" "t \<notin> set (in_flight w)" "map_of (pq_completed (pw_q w)) t = None"
    using schedule_pending_inv [OF assms(1)] False by blast+
  show ?thesis
  proof (cases "pw_workers w")
    case True
    then have w': "w' = ?w1\<lparr>pw_tasks := pw_tasks w @ [(t, pq_latched_bbox (pw_q w))]\<rparr>"
      using assms(3) False by (auto simp: schedule_fetch_def Let_def)
    have "keys_ok w'" using w1 by (auto simp: w' pf_inv_def keys_ok_def in_flight_def)
    with w1(1) show ?thesis by (simp add: w' pf_inv_def held_buffers_def)
  next
    case workers: False
    then have s: "sync_fetch alloc rd ws t (pq_latched_bbox (pw_q w)) ?w1 = (r, w')"
      using assms(3) False by (simp add: schedule_fetch_def Let_def)
    have "t \<notin> set (in_flight ?w1)" using w1(2) by (simp add: in_flight_def)
    from sync_fetch_inv [OF w1(1) assms(2) this _ _ s] w1(3) show ?thesis by simp
  qed
qed

lemma schedule_all_inv:
  "pf_inv rd w \<Longrightarrow> reader_ok rd \<Longrightarrow> schedule_all alloc rd ws ts w = (r, w') \<Longrightarrow> pf_inv rd w'"
proof (induction ts arbitrary: w)
  case (Cons t ts)
  obtain r1 w1 where s: "schedule_fetch alloc rd ws t w = (r1, w1)" by (cases "schedule_fetch alloc rd ws t w")
  have "pf_inv rd w1" by (rule schedule_fetch_inv [OF Cons.prems(1,2) s])
  with Cons s show ?case by (cases r1) auto
qed simp

lemma foldl_release: "foldl (\<lambda>p (t, b). pool_release b p) p xs = pool_run (\<lambda>_. True) (map (\<lambda>x. OpRelease (snd x)) xs) p"
  by (induction xs arbitrary: p) (auto simp: pool_release_step)

lemma cancel_pending_inv:
  assumes "pf_inv rd w"
  shows "pf_inv rd (cancel_pending w)"
proof -
  let ?c = "sort_key fst (pq_completed (pw_q w))"
  let ?p = "foldl (\<lambda>p (t, b). pool_release b p) (pw_pool w) ?c"
  have inv: "pool_inv (pw_pool w)" "distinct (held_buffers w)" "\<forall>b\<in>set (held_buffers w). pool_refs (pw_pool w) b > 0"
    using assms by (simp_all add: pf_inv_def)
  have held: "held_buffers (cancel_pending w) = map (\<lambda>(t, sel, b). b) (pw_running w)"
    by (simp add: held_buffers_def cancel_pending_def Let_def)
  have kept: "kept (pw_pool w) ?p b" if "b \<in> set (held_buffers (cancel_pending w))" for b
  proof -
    have b: "b \<in> set (map (\<lambda>(t, sel, b). b) (pw_running w))" using that by (simp only: held)
    then have "b \<notin> set (map snd (pq_completed (pw_q w)))"
      using inv(2) unfolding held_buffers_def distinct_append by blast
    then have nt: "\<forall>op\<in>set (map (\<lambda>x. OpRelease (snd x)) ?c). \<not> op_touches op b" by auto
    have "b \<in> set (held_buffers w)" using b unfolding held_buffers_def set_append by blast
    then show ?thesis
      unfolding foldl_release using inv(1,3) nt by (intro kept_run) simp_all
  qed
  have "pool_inv ?p" unfolding foldl_release by (rule pool_run_inv [OF inv(1)])
  moreover have "keys_ok (cancel_pending w)"
    using assms by (simp add: pf_inv_def keys_ok_def in_flight_def cancel_pending_def Let_def)
  moreover have "distinct (held_buffers (cancel_pending w))" using inv(2) by (simp add: held) (simp add: held_buffers_def)
  moreover have "pool_refs ?p b > 0" if "b \<in> set (held_buffers (cancel_pending w))" for b
  proof -
    have "b \<in> set (held_buffers w)" using that by (simp add: held) (simp add: held_buffers_def)
    with kept_refs [OF kept [OF that]] inv(3) show ?thesis by auto
  qed
  moreover have "pw_pool (cancel_pending w) = ?p" "pq_completed (pw_q (cancel_pending w)) = []"
    by (simp_all add: cancel_pending_def Let_def)
  ultimately show ?thesis unfolding pf_inv_def by simp
qed

lemma fetch_begin_tasks:
  "fetch_begin alloc ws t sel (w\<lparr>pw_tasks := x\<rparr>) =
     (fst (fetch_begin alloc ws t sel w), (snd (fetch_begin alloc ws t sel w))\<lparr>pw_tasks := x\<rparr>)"
  by (simp add: fetch_begin_def held_buffers_def Let_def split: prod.split acquire_result.split)

lemma pq_step_inv:
  assumes "pf_inv rd w" and "reader_ok rd"
  shows "pf_inv rd (pq_step alloc rd a w)"
proof (cases a)
  case (ActBegin j ws)
  show ?thesis
  proof (cases "j < length (pw_tasks w)")
    case True
    obtain t sel where j: "pw_tasks w ! j = (t, sel)" by (cases "pw_tasks w ! j")
    let ?w0 = "w\<lparr>pw_tasks := erase_at j (pw_tasks w)\<rparr>"
    have m: "mset (in_flight w) = add_mset t (mset (in_flight ?w0))"
      using arg_cong [OF mset_erase_at [OF True], of "image_mset fst"] j by (simp add: in_flight_def)
    have d: "distinct (in_flight w)" using assms(1) by (simp add: pf_inv_def keys_ok_def)
    have f: "distinct (in_flight ?w0)" "t \<notin> set (in_flight ?w0)" "set (in_flight w) = insert t (set (in_flight ?w0))"
      using distinct_mset_less [OF m d] by simp_all
    have "keys_ok w" using assms(1) by (simp add: pf_inv_def)
    then have keys: "keys_ok ?w0" "map_of (pq_completed (pw_q w)) t = None"
      "\<not> pq_cancelled (pw_q w) \<Longrightarrow> t \<in> set (pq_pending (pw_q w))"
      using f(1) unfolding keys_ok_def f(3) by simp_all
    have w0: "pf_inv rd ?w0" using assms(1) keys(1) by (simp add: pf_inv_def held_buffers_def)
    obtain r w1 where b: "fetch_begin alloc ws t sel w = (r, w1)" by (cases "fetch_begin alloc ws t sel w")
    have b0: "fetch_begin alloc ws t sel ?w0 = (r, w1\<lparr>pw_tasks := erase_at j (pw_tasks w)\<rparr>)"
      by (simp add: fetch_begin_tasks b)
    have "pw_tasks w1 = pw_tasks w"
      using b by (auto simp: fetch_begin_def Let_def split: if_splits prod.splits acquire_result.splits)
    moreover have "pf_inv rd (w1\<lparr>pw_tasks := erase_at j (pw_tasks w)\<rparr>)"
      by (rule fetch_begin_inv [OF w0 f(2) _ _ b0]) (simp_all add: keys)
    ultimately show ?thesis using ActBegin True j b assms(1) by (cases r) simp_all
  qed (use ActBegin assms in simp)
next
  case (ActFinish j)
  with assms fetch_finish_inv show ?thesis by simp
next
  case ActCancel
  with assms cancel_pending_inv show ?thesis by simp
next
  case (ActPool op)
  show ?thesis
  proof (cases "list_ex (op_touches op) (held_buffers w)")
    case False
    have inv: "pool_inv (pw_pool w)" "\<forall>b\<in>set (held_buffers w). pool_refs (pw_pool w) b > 0"
      using assms(1) by (simp_all add: pf_inv_def)
    have "\<forall>b\<in>set (held_buffers w). kept (pw_pool w) (pool_step alloc op (pw_pool w)) b"
      using False inv by (auto simp: list_ex_iff intro: kept_step)
    with pf_inv_pool [OF assms(1) pool_step_inv [OF inv(1)]] ActPool False show ?thesis by simp
  qed (use ActPool assms in simp)
qed

lemma pq_steps_inv: "pf_inv rd w \<Longrightarrow> reader_ok rd \<Longrightarrow> pf_inv rd (pq_steps alloc rd as w)"
  by (induction as arbitrary: w) (auto intro: pq_step_inv)


section \<open>Handing a buffer over\<close>

lemma bbox_same_BoundingBox: "bbox_same a b \<Longrightarrow> map_option BoundingBox a = map_option BoundingBox b"
  by (auto simp: bbox_same_def BoundingBox_def copy_dims_def list_all_iff split: option.splits)

definition delivered :: "reader \<Rightarrow> int \<Rightarrow> amio_bbox option \<Rightarrow> get_result \<times> pq_world \<Rightarrow> bool" where
  "delivered rd t req rw \<longleftrightarrow>
     pf_inv rd (snd rw) \<and>
     (\<forall>b. fst rw = GotStatus AMIO_OK (Some b) \<longrightarrow>
        holds_data rd (pw_q (snd rw)) (pw_pool (snd rw)) t req b \<and> pool_refs (pw_pool (snd rw)) b > 0
        \<and> b \<notin> set (held_buffers (snd rw)))"

lemma delivered_none: "pf_inv rd w \<Longrightarrow> \<forall>b. r \<noteq> GotStatus AMIO_OK (Some b) \<Longrightarrow> delivered rd t req (r, w)"
  by (simp add: delivered_def)

lemma check_failed_ok: "pf_inv rd w \<Longrightarrow> check_failed t w = Some rw \<Longrightarrow> delivered rd t req rw"
  by (auto simp: check_failed_def split: option.splits intro!: delivered_none drop_failed_inv)

lemma check_completed_ok:
  assumes "pf_inv rd w" and "check_completed t req w = (Some rw, st, w1)"
  shows "delivered rd t req rw"
proof -
  obtain b where b: "map_of (pq_completed (pw_q w)) t = Some b"
    and same: "bbox_same (map_of (pq_fetched_bbox (pw_q w)) t) req"
    and rw: "rw = (GotStatus AMIO_OK (Some b), w\<lparr>pw_q := drop_completed t (pw_q w)\<rparr>)"
    using assms(2) by (auto simp: check_completed_def Let_def split: option.splits if_splits)
  have "holds_data rd (pw_q w) (pw_pool w) t (map_of (pq_fetched_bbox (pw_q w)) t) b"
    using assms(1) b by (simp add: pf_inv_def)
  then have "holds_data rd (pw_q w) (pw_pool w) t req b"
    using bbox_same_BoundingBox [OF same] by (simp add: holds_data_def)
  moreover have "b \<in> set (held_buffers w)" using map_of_SomeD [OF b] by (force simp: held_buffers_def)
  then have "pool_refs (pw_pool w) b > 0" using assms(1) by (simp add: pf_inv_def)
  ultimately show ?thesis using drop_completed_inv [OF assms(1) b] by (simp add: rw delivered_def)
qed

lemma check_completed_stale:
  assumes "pf_inv rd w" and "check_completed t req w = (None, st, w1)"
  shows "pf_inv rd w1"
proof (cases "map_of (pq_completed (pw_q w)) t")
  case None
  with assms show ?thesis by (simp add: check_completed_def Let_def)
next
  case (Some b)
  let ?w = "w\<lparr>pw_q := drop_completed t (pw_q w)\<rparr>"
  have w1: "w1 = w\<lparr>pw_pool := pool_release b (pw_pool w), pw_q := drop_completed t (pw_q w)\<rparr>"
    using assms(2) Some by (auto simp: check_completed_def Let_def split: if_splits)
  note d = drop_completed_inv [OF assms(1) Some]
  have inv: "pool_inv (pw_pool w)" "\<forall>i\<in>set (held_buffers ?w). pool_refs (pw_pool w) i > 0"
    using d(1) by (simp_all add: pf_inv_def)
  have "\<forall>i\<in>set (held_buffers ?w). kept (pw_pool ?w) (pool_release b (pw_pool w)) i"
    using d(2) inv by (auto intro!: kept_release)
  from pf_inv_pool [OF d(1) pool_release_inv [OF inv(1)] this]
  have "pf_inv rd (?w\<lparr>pw_pool := pool_release b (pw_pool w)\<rparr>)" .
  moreover have "?w\<lparr>pw_pool := pool_release b (pw_pool w)\<rparr> = w1" by (simp add: w1)
  ultimately show ?thesis by (simp only:)
qed

lemma get_pass_ok:
  assumes "pf_inv rd w" and "reader_ok rd"
  shows "case get_pass alloc rd ws t req w of Inl rw \<Rightarrow> delivered rd t req rw | Inr w1 \<Rightarrow> pf_inv rd w1"
proof -
  obtain ro st w1 where cc: "check_completed t req w = (ro, st, w1)" by (cases "check_completed t req w")
  show ?thesis
  proof (cases ro)
    case (Some rw)
    with cc check_completed_ok [OF assms(1)] show ?thesis by (simp add: get_pass_def)
  next
    case None
    with cc have w1: "pf_inv rd w1" using check_completed_stale [OF assms(1)] by simp
    obtain r w2 where s: "(if st then schedule_fetch alloc rd ws t w1 else (FetchDone, w1)) = (r, w2)"
      by (cases "if st then schedule_fetch alloc rd ws t w1 else (FetchDone, w1)")
    have w2: "pf_inv rd w2"
      using s w1 schedule_fetch_inv [OF w1 assms(2), of alloc ws t r w2] by (auto split: if_splits)
    show ?thesis
    proof (cases r)
      case FetchDone
      with cc None s w2 check_failed_ok [OF w2] show ?thesis
        by (auto simp: get_pass_def intro: delivered_none split: option.split)
    qed (use cc None s w2 in \<open>auto simp: get_pass_def intro: delivered_none\<close>)
  qed
qed

lemma get_loop_ok:
  assumes "pf_inv rd w" and "reader_ok rd" and "\<forall>k\<in>set ks. \<not> pk_timeout k"
  shows "delivered rd t req (get_loop alloc rd ws t req ks w)"
  using assms
proof (induction ks arbitrary: w)
  case Nil
  from get_pass_ok [OF Nil(1,2), where alloc = alloc and ws = ws and t = t and req = req] show ?case
    by (cases "get_pass alloc rd ws t req w") (auto intro: delivered_none)
next
  case (Cons k ks)
  show ?case
  proof (cases "get_pass alloc rd ws t req w")
    case (Inl rw)
    with get_pass_ok [OF Cons.prems(1,2), where alloc = alloc and ws = ws and t = t and req = req] show ?thesis by simp
  next
    case (Inr w1)
    then have "pf_inv rd w1" using get_pass_ok [OF Cons.prems(1,2), where alloc = alloc and ws = ws and t = t and req = req] by simp
    then have "pf_inv rd (pq_steps alloc rd (pk_others k) w1)" by (rule pq_steps_inv [OF _ Cons.prems(2)])
    with Cons Inr show ?thesis by (simp add: Let_def)
  qed
qed

lemma latch_inv: "pf_inv rd w \<Longrightarrow> pf_inv rd (w\<lparr>pw_q := (pw_q w)\<lparr>pq_latched_bbox := req\<rparr>\<rparr>)"
  by (simp add: pf_inv_def keys_ok_def in_flight_def held_buffers_def)

lemma kicked_inv: "pf_inv rd w \<Longrightarrow> pf_inv rd (w\<lparr>pw_q := (pw_q w)\<lparr>pq_kicked_off := b\<rparr>\<rparr>)"
  by (simp add: pf_inv_def keys_ok_def in_flight_def held_buffers_def)

lemma kick_off_inv:
  assumes "pf_inv rd w" and "reader_ok rd" and "kick_off alloc rd ws t w = (r, w')"
  shows "pf_inv rd w'"
  using assms schedule_all_inv [OF kicked_inv [OF assms(1)] assms(2)]
  by (auto simp: kick_off_def Let_def split: if_splits)

lemma get_buffer_ok:
  assumes "pf_inv rd w" and "reader_ok rd" and "\<forall>k\<in>set ks. \<not> pk_timeout k"
  shows "delivered rd t req (get_buffer alloc rd ws t req ks w)"
proof -
  let ?w0 = "w\<lparr>pw_q := (pw_q w)\<lparr>pq_latched_bbox := req\<rparr>\<rparr>"
  obtain r w1 where k: "kick_off alloc rd ws t ?w0 = (r, w1)" by (cases "kick_off alloc rd ws t ?w0")
  have w1: "pf_inv rd w1" by (rule kick_off_inv [OF latch_inv [OF assms(1)] assms(2) k])
  show ?thesis
  proof (cases "r = FetchDone")
    case False
    with k w1 show ?thesis by (cases r) (auto simp: get_buffer_def intro: delivered_none)
  next
    case True
    show ?thesis
    proof (cases "check_failed t w1")
      case (Some rw)
      with True k check_failed_ok [OF w1] show ?thesis by (simp add: get_buffer_def)
    next
      case nofail: None
      obtain ro st w2 where cc: "check_completed t req w1 = (ro, st, w2)" by (cases "check_completed t req w1")
      show ?thesis
      proof (cases ro)
        case (Some rw)
        with True k nofail cc check_completed_ok [OF w1] show ?thesis by (simp add: get_buffer_def)
      next
        case None
        with cc have w2: "pf_inv rd w2" using check_completed_stale [OF w1] by simp
        obtain r3 w3 where s: "(if t \<in> set (pq_pending (pw_q w2)) then (FetchDone, w2)
            else schedule_fetch alloc rd ws t w2) = (r3, w3)"
          by (cases "if t \<in> set (pq_pending (pw_q w2)) then (FetchDone, w2) else schedule_fetch alloc rd ws t w2")
        have w3: "pf_inv rd w3"
          using s w2 schedule_fetch_inv [OF w2 assms(2), of alloc ws t r3 w3] by (auto split: if_splits)
        show ?thesis
        proof (cases r3)
          case FetchDone
          with True k nofail cc None s get_loop_ok [OF w3 assms(2,3)] show ?thesis by (simp add: get_buffer_def)
        qed (use True k nofail cc None s w3 in \<open>simp_all add: get_buffer_def delivered_none\<close>)
      qed
    qed
  qed
qed


section \<open>The window\<close>

lemma schedule_fetch_workers:
  assumes "pw_workers w"
  shows "schedule_fetch alloc rd ws t w =
    (FetchDone,
     if pq_cancelled (pw_q w) \<or> tracked t (pw_q w) then w
     else w\<lparr>pw_q := (pw_q w)\<lparr>pq_pending := pq_pending (pw_q w) @ [t]\<rparr>,
             pw_tasks := pw_tasks w @ [(t, pq_latched_bbox (pw_q w))]\<rparr>)"
  using assms by (simp add: schedule_fetch_def Let_def)

lemma schedule_all_workers:
  assumes "pw_workers w" and "\<not> pq_cancelled (pw_q w)" and "distinct ts" and "\<forall>t\<in>set ts. \<not> tracked t (pw_q w)"
  shows "schedule_all alloc rd ws ts w =
    (FetchDone, w\<lparr>pw_q := (pw_q w)\<lparr>pq_pending := pq_pending (pw_q w) @ ts\<rparr>,
                  pw_tasks := pw_tasks w @ map (\<lambda>t. (t, pq_latched_bbox (pw_q w))) ts\<rparr>)"
  using assms
proof (induction ts arbitrary: w)
  case (Cons t ts)
  let ?w1 = "w\<lparr>pw_q := (pw_q w)\<lparr>pq_pending := pq_pending (pw_q w) @ [t]\<rparr>,
      pw_tasks := pw_tasks w @ [(t, pq_latched_bbox (pw_q w))]\<rparr>"
  have "schedule_all alloc rd ws (t # ts) w = schedule_all alloc rd ws ts ?w1"
    using Cons.prems by (simp add: schedule_fetch_workers)
  also have "\<dots> = (FetchDone, ?w1\<lparr>pw_q := (pw_q ?w1)\<lparr>pq_pending := pq_pending (pw_q ?w1) @ ts\<rparr>,
      pw_tasks := pw_tasks ?w1 @ map (\<lambda>t. (t, pq_latched_bbox (pw_q ?w1))) ts\<rparr>)"
    using Cons.prems by (intro Cons.IH) (auto simp: tracked_def)
  finally show ?case by simp
qed simp

lemma get_last_returns: "fst (get_last t w) \<noteq> GetWaiting"
  by (auto simp: get_last_def check_failed_def split: option.splits)

lemma pw_workers_simps:
  "pw_workers (cancel_pending w) = pw_workers w" "pw_workers (fetch_finish rd j w) = pw_workers w"
  "pw_workers (snd (fetch_begin alloc ws t sel w)) = pw_workers w"
  by (auto simp: cancel_pending_def fetch_finish_def fetch_begin_def Let_def
      split: prod.split sum.split acquire_result.split)

lemma pw_workers_step: "pw_workers (pq_step alloc rd a w) = pw_workers w"
proof (cases a)
  case (ActBegin j ws)
  then show ?thesis
    using pw_workers_simps(3) [of alloc ws "fst (pw_tasks w ! j)" "snd (pw_tasks w ! j)" w]
    by (auto split: prod.split fetch_begun.split)
qed (simp_all add: pw_workers_simps)

lemma pw_workers_steps: "pw_workers (pq_steps alloc rd as w) = pw_workers w"
  by (induction as arbitrary: w) (simp_all add: pw_workers_step)

lemma get_pass_workers:
  assumes "pw_workers w" and "get_pass alloc rd ws t req w = Inl rw"
  shows "fst rw \<noteq> GetWaiting"
  using assms
  by (auto simp: get_pass_def check_completed_def check_failed_def schedule_fetch_workers Let_def
      split: option.splits if_splits prod.splits)

lemma get_pass_workers_kept:
  assumes "pw_workers w" and "get_pass alloc rd ws t req w = Inr w1"
  shows "pw_workers w1"
  using assms
  by (auto simp: get_pass_def check_completed_def check_failed_def schedule_fetch_workers Let_def
      split: option.splits if_splits prod.splits)

lemma get_loop_returns:
  "pw_workers w \<Longrightarrow> \<exists>k\<in>set ks. pk_timeout k \<Longrightarrow> fst (get_loop alloc rd ws t req ks w) \<noteq> GetWaiting"
proof (induction ks arbitrary: w)
  case (Cons k ks)
  show ?case
  proof (cases "get_pass alloc rd ws t req w")
    case (Inl rw)
    with get_pass_workers [OF Cons.prems(1)] show ?thesis by simp
  next
    case (Inr w1)
    then have "pw_workers (pq_steps alloc rd (pk_others k) w1)"
      using get_pass_workers_kept [OF Cons.prems(1)] by (simp add: pw_workers_steps)
    with Cons Inr get_last_returns show ?thesis by (auto simp: Let_def)
  qed
qed simp

lemma schedule_all_done: "pw_workers w \<Longrightarrow> \<exists>w1. schedule_all alloc rd ws ts w = (FetchDone, w1) \<and> pw_workers w1"
proof (induction ts arbitrary: w)
  case (Cons t ts)
  have "pw_workers (if pq_cancelled (pw_q w) \<or> tracked t (pw_q w) then w
     else w\<lparr>pw_q := (pw_q w)\<lparr>pq_pending := pq_pending (pw_q w) @ [t]\<rparr>,
             pw_tasks := pw_tasks w @ [(t, pq_latched_bbox (pw_q w))]\<rparr>)"
    using Cons.prems by simp
  from Cons.IH [OF this] Cons.prems show ?case by (simp add: schedule_fetch_workers)
qed simp


section \<open>Properties\<close>

text \<open>Concrete worlds, for the examples below: a reader whose bytes tell the time step and the selection.\<close>

definition demo_reader :: reader where
  "demo_reader c m t sel = Inr ([word_of_int t, if sel = None then 0 else 1], 2)"

definition demo_box :: amio_bbox where
  "demo_box = \<lparr>bb_rank = 1, bb_offsets = [1,0,0,0,0,0,0], bb_extents = [1,0,0,0,0,0,0], bb_strides = [1,0,0,0,0,0,0]\<rparr>"

definition demo_world :: "bool \<Rightarrow> pq_world" where
  "demo_world workers =
     \<lparr>pw_q = PrefetchQueue 2 60 1 ''T'' \<lparr>vi_found = True, vi_dtype = AMIO_DTYPE_OTHER 99, vi_shape = empty_shape,
        vi_total_timesteps = 5\<rparr> 5,
      pw_pool = StagingPool 4 4 100 4 Bounded, pw_workers = workers, pw_tasks = [], pw_running = []\<rparr>"

lemma demo_reader_ok: "reader_ok demo_reader"
  by (simp add: reader_ok_def demo_reader_def)

lemma demo_world_inv: "pf_inv demo_reader (demo_world wk)"
  unfolding demo_world_def by (rule pf_inv_init, rule pool_inv_init) simp_all

text \<open>
  C5.  The reader gets the data it asked for: when \<^verbatim>\<open>get_buffer\<close> succeeds before its deadline, whatever
  was prefetched earlier under other selections and whatever workers, the pool's other users and a
  concurrent close did meanwhile, the buffer it hands out contains exactly what the driver delivers
  for the requested time step and bounding box, the caller is a holder of it, and the queue no
  longer is.
\<close>

theorem get_buffer_exact:
  assumes "pf_inv rd w" and "reader_ok rd" and "\<forall>k\<in>set ks. \<not> pk_timeout k"
    and "get_buffer alloc rd ws t req ks w = (GotStatus AMIO_OK (Some b), w')"
  shows "rd (cap (pw_pool w') b) (fetch_meta (pw_q w') t) t (map_option BoundingBox req)
      = Inr (pool_content (pw_pool w') b, length (pool_content (pw_pool w') b))
    \<and> pool_refs (pw_pool w') b > 0 \<and> b \<notin> set (held_buffers w') \<and> pf_inv rd w'"
  using get_buffer_ok [OF assms(1-3), of t req alloc ws] assms(4) by (simp add: delivered_def holds_data_def)

theorem get_buffer_exact_witness:
  "\<exists>w'. get_buffer (\<lambda>_. True) demo_reader [] 3 (Some demo_box) [] (demo_world False) = (GotStatus AMIO_OK (Some 0), w')
    \<and> pool_content (pw_pool w') 0 = [3, 1]"
proof -
  have "fst (get_buffer (\<lambda>_. True) demo_reader [] 3 (Some demo_box) [] (demo_world False)) = GotStatus AMIO_OK (Some 0)"
    by code_simp
  then obtain w' where w': "get_buffer (\<lambda>_. True) demo_reader [] 3 (Some demo_box) [] (demo_world False)
      = (GotStatus AMIO_OK (Some 0), w')"
    by (metis prod.collapse)
  from get_buffer_exact [OF demo_world_inv demo_reader_ok _ w'] w' show ?thesis
    by (simp add: demo_reader_def)
qed

text \<open>
  Past the deadline the selection is not compared: a reader whose wait times out just as a fetch
  made under an earlier selection completes is given that fetch's data, of another region, as a
  success.
\<close>

theorem get_buffer_stale_at_deadline:
  "\<exists>w w' b ks. pf_inv demo_reader w
    \<and> get_buffer (\<lambda>_. True) demo_reader [] 0 (Some demo_box) ks w = (GotStatus AMIO_OK (Some b), w')
    \<and> demo_reader (cap (pw_pool w') b) (fetch_meta (pw_q w') 0) 0 (map_option BoundingBox (Some demo_box))
        \<noteq> Inr (pool_content (pw_pool w') b, length (pool_content (pw_pool w') b))"
proof -
  define w where "w = snd (schedule_initial (\<lambda>_. True) demo_reader [] (demo_world True))"
  define ks where "ks = [\<lparr>pk_others = [ActBegin 0 [], ActFinish 0], pk_timeout = True\<rparr>]"
  have "pf_inv demo_reader w"
    using schedule_all_inv [OF kicked_inv [OF demo_world_inv] demo_reader_ok prod.collapse [symmetric]]
    unfolding w_def schedule_initial_def Let_def .
  moreover have "fst (get_buffer (\<lambda>_. True) demo_reader [] 0 (Some demo_box) ks w) = GotStatus AMIO_OK (Some 0)"
    unfolding w_def ks_def by code_simp
  moreover have "pool_content (pw_pool (snd (get_buffer (\<lambda>_. True) demo_reader [] 0 (Some demo_box) ks w))) 0 = [0, 0]"
    unfolding w_def ks_def by code_simp
  ultimately show ?thesis
    by (intro exI [of _ w] exI [of _ "snd (get_buffer (\<lambda>_. True) demo_reader [] 0 (Some demo_box) ks w)"] exI [of _ 0]
        exI [of _ ks]) (simp add: prod_eq_iff demo_reader_def)
qed

text \<open>
  C27.  \<^verbatim>\<open>get_buffer\<close> does not block past its deadline when fetches run on worker threads: after a wait
  that ended with the timeout status it has returned.
\<close>

theorem get_buffer_returns_by_deadline:
  assumes "pw_workers w" and "k \<in> set ks" and "pk_timeout k"
  shows "fst (get_buffer alloc rd ws t req ks w) \<noteq> GetWaiting"
proof -
  let ?w0 = "w\<lparr>pw_q := (pw_q w)\<lparr>pq_latched_bbox := req\<rparr>\<rparr>"
  let ?wk = "?w0\<lparr>pw_q := (pw_q ?w0)\<lparr>pq_kicked_off := True\<rparr>\<rparr>"
  let ?ts = "map (\<lambda>k. t + k) [0..min (int (pq_depth (pw_q ?w0))) (pq_total_timesteps (pw_q ?w0) - t) - 1]"
  have "pw_workers ?wk" using assms(1) by simp
  then obtain w1' where "schedule_all alloc rd ws ?ts ?wk = (FetchDone, w1')" "pw_workers w1'"
    using schedule_all_done by blast
  with assms(1) obtain w1 where w1: "kick_off alloc rd ws t ?w0 = (FetchDone, w1)" "pw_workers w1"
    unfolding kick_off_def Let_def by (cases "pq_kicked_off (pw_q ?w0)") simp_all
  have to: "\<exists>k\<in>set ks. pk_timeout k" using assms(2,3) by blast
  show ?thesis
  proof (cases "check_failed t w1")
    case (Some rw)
    with w1 show ?thesis by (auto simp: get_buffer_def check_failed_def split: option.splits)
  next
    case None
    obtain ro st w2 where cc: "check_completed t req w1 = (ro, st, w2)" by (cases "check_completed t req w1")
    then have "pw_workers w2" "ro \<noteq> None \<Longrightarrow> fst (the ro) \<noteq> GetWaiting"
      using w1(2) by (auto simp: check_completed_def Let_def split: option.splits if_splits)
    with w1 None cc get_loop_returns [OF _ to, of _ alloc rd ws t req] show ?thesis
      by (cases ro) (auto simp: get_buffer_def schedule_fetch_workers)
  qed
qed

theorem get_buffer_returns_by_deadline_witness:
  "fst (get_buffer (\<lambda>_. True) demo_reader [] 0 None [\<lparr>pk_others = [], pk_timeout = True\<rparr>] (demo_world True)) \<noteq> GetWaiting"
proof (rule get_buffer_returns_by_deadline)
  show "pw_workers (demo_world True)" by (simp add: demo_world_def)
  show "\<lparr>pk_others = [], pk_timeout = True\<rparr> \<in> set [\<lparr>pk_others = [], pk_timeout = True\<rparr>]" by simp
qed simp



text \<open>
  A fetch that cannot get memory is never retried: the time step stays marked as pending with
  nobody fetching it, so every later read of it waits for its whole timeout and fails, although
  memory and buffers are available again.
\<close>

theorem failed_allocation_blocks_timestep:
  "\<exists>w. pf_inv demo_reader w \<and> 0 \<in> set (pq_pending (pw_q w)) \<and> in_flight w = [1]
    \<and> w = pq_step (\<lambda>_. False) demo_reader (ActBegin 0 []) (snd (schedule_initial (\<lambda>_. True) demo_reader [] (demo_world True)))
    \<and> fst (get_buffer (\<lambda>_. True) demo_reader [] 0 None
        [\<lparr>pk_others = [ActBegin 0 [], ActFinish 0], pk_timeout = False\<rparr>, \<lparr>pk_others = [], pk_timeout = True\<rparr>] w)
      = GotStatus AMIO_ERR_TIMEOUT None"
proof (intro exI conjI)
  let ?w = "pq_step (\<lambda>_. False) demo_reader (ActBegin 0 []) (snd (schedule_initial (\<lambda>_. True) demo_reader [] (demo_world True)))"
  have "pf_inv demo_reader (snd (schedule_initial (\<lambda>_. True) demo_reader [] (demo_world True)))"
    using schedule_all_inv [OF kicked_inv [OF demo_world_inv] demo_reader_ok prod.collapse [symmetric]]
    unfolding schedule_initial_def Let_def .
  then show "pf_inv demo_reader ?w" by (rule pq_step_inv [OF _ demo_reader_ok])
  show "0 \<in> set (pq_pending (pw_q ?w))" by code_simp
  show "in_flight ?w = [1]" by code_simp
  show "fst (get_buffer (\<lambda>_. True) demo_reader [] 0 None
        [\<lparr>pk_others = [ActBegin 0 [], ActFinish 0], pk_timeout = False\<rparr>, \<lparr>pk_others = [], pk_timeout = True\<rparr>] ?w)
      = GotStatus AMIO_ERR_TIMEOUT None" by code_simp
qed (rule refl)

end
