(* ===== verification/Buffer_Ownership.thy ===== *)
theory Buffer_Ownership
  imports Prefetch_Queue
begin

text \<open>
  Who holds a staging buffer.  A component's holdings are a multiset of buffer indices next to the
  pool; \<open>own_ok\<close> says that every holding is backed by a reference and that no buffer has two, and
  \<open>own_frame\<close> relates the pool and the holdings before and after an operation: the references that are
  not accounted for do not decrease, and a buffer somebody else holds is left alone.  Operations on
  the pool move buffers between these, and the operations of the prefetch queue are built from
  them; the holdings of a context put together those of its queues, its write tasks and its views.
\<close>


section \<open>Accounts\<close>

definition own_ok :: "staging_pool \<Rightarrow> nat multiset \<Rightarrow> bool" where
  "own_ok p H \<longleftrightarrow> pool_inv p \<and> (\<forall>b. pool_refs p b \<le> 1) \<and> (\<forall>b. int (count H b) \<le> pool_refs p b)"

text \<open>\<open>G\<close> are the buffers handed out to the caller.\<close>

definition own_frame ::
  "staging_pool \<Rightarrow> nat multiset \<Rightarrow> staging_pool \<Rightarrow> nat multiset \<Rightarrow> nat multiset \<Rightarrow> bool" where
  "own_frame p H p' H' G \<longleftrightarrow>
     pool_inv p' \<and> (\<forall>b. pool_refs p' b \<le> 1)
     \<and> (\<forall>b. pool_refs p b - int (count H b) \<le> pool_refs p' b - int (count H' b) - int (count G b))
     \<and> (\<forall>b. pool_refs p b > 0 \<and> b \<notin># H \<longrightarrow> kept p p' b)"

lemma own_ok_held:
  assumes "own_ok p H" and "b \<in># H"
  shows "pool_refs p b = 1 \<and> count H b = 1"
proof -
  have "count H b > 0" using assms(2) by (simp only: count_greater_zero_iff)
  moreover have "int (count H b) \<le> pool_refs p b" "pool_refs p b \<le> 1" using assms(1) by (simp_all add: own_ok_def)
  ultimately show ?thesis by linarith
qed

lemma own_frame_ok: "own_ok p H \<Longrightarrow> own_frame p H p' H' G \<Longrightarrow> own_ok p' (H' + G)"
proof -
  assume ok: "own_ok p H" and fr: "own_frame p H p' H' G"
  have "int (count (H' + G) b) \<le> pool_refs p' b" for b
  proof -
    have "pool_refs p b - int (count H b) \<le> pool_refs p' b - int (count H' b) - int (count G b)"
      using fr by (simp add: own_frame_def)
    moreover have "int (count H b) \<le> pool_refs p b" using ok by (simp add: own_ok_def)
    ultimately show ?thesis by simp
  qed
  with fr show ?thesis by (simp add: own_ok_def own_frame_def)
qed

lemma own_frame_ok0: "own_ok p H \<Longrightarrow> own_frame p H p' H' {#} \<Longrightarrow> own_ok p' H'"
  using own_frame_ok [of p H p' H' "{#}"] by simp

lemma own_frame_refl: "own_ok p H \<Longrightarrow> own_frame p H p H {#}"
  by (auto simp: own_ok_def own_frame_def intro: kept_refl)

text \<open>A buffer that somebody else holds stays his.\<close>

lemma own_frame_other:
  assumes "own_ok p H" and "own_frame p H p' H' G" and "pool_refs p b > 0" and "b \<notin># H"
  shows "kept p p' b \<and> pool_refs p' b = 1 \<and> b \<notin># H' \<and> b \<notin># G"
proof -
  have k: "kept p p' b" using assms by (simp add: own_frame_def)
  have r: "pool_refs p b = 1" using assms(1,3) by (auto simp: own_ok_def dest!: spec [of _ b])
  have r': "pool_refs p' b = 1" using kept_refs [OF k assms(3)] r by simp
  have "pool_refs p b - int (count H b) \<le> pool_refs p' b - int (count H' b) - int (count G b)"
    using assms(2) by (simp add: own_frame_def)
  with r r' assms(4) have "count H' b = 0 \<and> count G b = 0" by (simp add: not_in_iff)
  with k r' show ?thesis by (simp add: not_in_iff)
qed

lemma own_frame_trans:
  assumes "own_ok p H" and a: "own_frame p H p1 H1 {#}" and b: "own_frame p1 H1 p2 H2 G"
  shows "own_frame p H p2 H2 G"
proof -
  have "kept p p2 x" if "pool_refs p x > 0" "x \<notin># H" for x
  proof -
    have k: "kept p p1 x" "pool_refs p1 x = 1" "x \<notin># H1" using own_frame_other [OF assms(1) a that] by auto
    then have "kept p1 p2 x" using b by (simp add: own_frame_def)
    with k(1) show ?thesis by (rule kept_trans)
  qed
  moreover have "pool_refs p x - int (count H x) \<le> pool_refs p2 x - int (count H2 x) - int (count G x)" for x
  proof -
    have "pool_refs p x - int (count H x) \<le> pool_refs p1 x - int (count H1 x)"
      using a by (simp add: own_frame_def)
    moreover have "pool_refs p1 x - int (count H1 x) \<le> pool_refs p2 x - int (count H2 x) - int (count G x)"
      using b by (simp add: own_frame_def)
    ultimately show ?thesis by simp
  qed
  ultimately show ?thesis using b by (simp add: own_frame_def)
qed

text \<open>The part of the account an operation does not know about.\<close>

lemma own_ok_mono: "own_ok p H \<Longrightarrow> H' \<subseteq># H \<Longrightarrow> own_ok p H'"
proof -
  assume ok: "own_ok p H" and sub: "H' \<subseteq># H"
  have "int (count H' b) \<le> pool_refs p b" for b
  proof -
    have "count H' b \<le> count H b" using sub by (simp add: mset_subset_eq_count)
    moreover have "int (count H b) \<le> pool_refs p b" using ok by (simp add: own_ok_def)
    ultimately show ?thesis by simp
  qed
  with ok show ?thesis by (simp add: own_ok_def)
qed

lemma own_frame_rest: "own_frame p H p' H' G \<Longrightarrow> own_frame p (H + R) p' (H' + R) G"
proof -
  assume fr: "own_frame p H p' H' G"
  have "pool_refs p x - int (count (H + R) x) \<le> pool_refs p' x - int (count (H' + R) x) - int (count G x)" for x
  proof -
    have "pool_refs p x - int (count H x) \<le> pool_refs p' x - int (count H' x) - int (count G x)"
      using fr by (simp add: own_frame_def)
    then show ?thesis by simp
  qed
  with fr show ?thesis by (simp add: own_frame_def)
qed


section \<open>Moves of the pool\<close>

lemma own_forget: "own_ok p H \<Longrightarrow> H' \<subseteq># H \<Longrightarrow> own_frame p H p H' {#}"
proof -
  assume ok: "own_ok p H" and sub: "H' \<subseteq># H"
  have "count H' b \<le> count H b" for b using sub by (simp add: mset_subset_eq_count)
  with ok show ?thesis by (auto simp: own_ok_def own_frame_def intro: kept_refl)
qed

lemma own_give: "own_ok p H \<Longrightarrow> b \<in># H \<Longrightarrow> own_frame p H p (H - {#b#}) {#b#}"
  by (auto simp: own_ok_def own_frame_def intro: kept_refl)

lemma refs_grow [simp]: "pool_refs (grow_slot p) b = pool_refs p b"
  by (auto simp: pool_refs_def grow_slot_def lazy_slot_def nth_append)

lemma acquire_pass_refs:
  assumes "pool_inv p" and "acquire_pass alloc n p = Some (Acquired b, p')"
  shows "pool_refs p b = 0 \<and> pool_refs p' b = 1 \<and> (\<forall>x. x \<noteq> b \<longrightarrow> pool_refs p' x = pool_refs p x)"
proof -
  obtain q where q: "pool_inv q" "acquired_from q n b p'" "q = p \<or> q = grow_slot p"
    using acquire_pass_Acquired [OF assms] by blast
  have same: "pool_refs q x = pool_refs p x" for x using q(3) by auto
  have bq: "b \<in> set (sp_free_list q)" "b < length (sp_buffers q)"
    using q(1,2) by (auto simp: acquired_from_def pool_inv_def)
  then have "pool_refs q b = 0" using q(1) by (simp add: pool_inv_def pool_refs_def)
  moreover have "pool_refs p' b = 1" using q(2) bq by (simp add: acquired_from_def pool_refs_def)
  moreover have "pool_refs p' x = pool_refs q x" if "x \<noteq> b" for x
    using q(2) that by (simp add: acquired_from_def pool_refs_def)
  ultimately show ?thesis using same by simp
qed

lemma own_acquire:
  assumes "own_ok p H" and "acquire_pass alloc n p = Some (Acquired b, p')"
  shows "own_frame p H p' (add_mset b H) {#}"
proof -
  have inv: "pool_inv p" using assms(1) by (simp add: own_ok_def)
  have refs: "pool_refs p b = 0" "pool_refs p' b = 1" "\<And>x. x \<noteq> b \<Longrightarrow> pool_refs p' x = pool_refs p x"
    using acquire_pass_refs [OF inv assms(2)] by auto
  have "pool_refs p' x \<le> 1" for x using refs assms(1) by (cases "x = b") (auto simp: own_ok_def)
  moreover have "pool_refs p x - int (count H x) \<le> pool_refs p' x - int (count (add_mset b H) x)" for x
    using refs by (cases "x = b") auto
  moreover have "kept p p' x" if "pool_refs p x > 0" for x
    using acquire_pass_held [OF inv that assms(2)] by (simp add: kept_def)
  moreover have "pool_inv p'" using acquire_pass_inv [OF inv assms(2)] .
  ultimately show ?thesis by (simp add: own_frame_def)
qed

lemma own_bad_alloc:
  assumes "own_ok p H" and "acquire_pass alloc n p = Some (BadAlloc, p')"
  shows "own_frame p H p' H {#}"
proof -
  have inv: "pool_inv p" using assms(1) by (simp add: own_ok_def)
  have "p' = p \<or> p' = grow_slot p"
    using assms(2) by (auto simp: acquire_pass_def split: option.splits if_splits dest: take_free_BadAlloc)
  then have refs: "pool_refs p' x = pool_refs p x" for x by auto
  have "kept p p' x" if "pool_refs p x > 0" for x
    using acquire_pass_held [OF inv that assms(2)] by (simp add: kept_def)
  moreover have "pool_inv p'" using acquire_pass_inv [OF inv assms(2)] .
  ultimately show ?thesis using assms(1) refs by (simp add: own_frame_def own_ok_def)
qed

lemma refs_release: "pool_refs p b > 0 \<Longrightarrow> pool_refs (pool_release b p) x = (if x = b then pool_refs p b - 1 else pool_refs p x)"
  by (auto simp: pool_refs_def pool_release_def release_def Let_def split: if_splits)

lemma own_release:
  assumes "own_ok p H" and "b \<in># H"
  shows "own_frame p H (pool_release b p) (H - {#b#}) {#}"
proof -
  have inv: "pool_inv p" using assms(1) by (simp add: own_ok_def)
  have r: "pool_refs p b > 0" and c: "count H b = 1" using own_ok_held [OF assms] by simp_all
  have "pool_refs (pool_release b p) x \<le> 1" for x
  proof -
    have "pool_refs p x \<le> 1" using assms(1) by (simp add: own_ok_def)
    then show ?thesis using refs_release [OF r, of x] by (cases "x = b") simp_all
  qed
  moreover have "pool_refs p x - int (count H x)
      \<le> pool_refs (pool_release b p) x - int (count (H - {#b#}) x)" for x
    using refs_release [OF r, of x] c by (cases "x = b") simp_all
  moreover have "kept p (pool_release b p) x" if "pool_refs p x > 0" "x \<notin># H" for x
    using that inv assms(2) by (intro kept_release) auto
  ultimately show ?thesis using pool_release_inv [OF inv] by (simp add: own_frame_def)
qed

lemma refs_fill [simp]: "pool_refs (fill_buffer b bs used p) x = pool_refs p x"
  by (cases "x = b") (auto simp: pool_refs_def fill_buffer_def set_buf_def)

lemma own_fill:
  assumes "own_ok p H" and "b \<in># H"
  shows "own_frame p H (fill_buffer b bs used p) H {#}"
proof -
  have inv: "pool_inv p" using assms(1) by (simp add: own_ok_def)
  have "pool_refs p b > 0" using own_ok_held [OF assms] by simp
  then have "pool_inv (fill_buffer b bs used p)"
    using inv by (auto simp: pool_refs_def split: if_splits intro: fill_buffer_inv)
  moreover have "kept p (fill_buffer b bs used p) x" if "pool_refs p x > 0" "x \<notin># H" for x
    using that assms(2) by (intro kept_fill) auto
  ultimately show ?thesis using assms(1) by (simp add: own_frame_def own_ok_def)
qed


section \<open>The prefetch queue\<close>

abbreviation pq_held :: "pq_world \<Rightarrow> nat multiset" where
  "pq_held w \<equiv> mset (held_buffers w)"

definition pq_ok :: "pq_world \<Rightarrow> bool" where
  "pq_ok w \<longleftrightarrow> own_ok (pw_pool w) (pq_held w)"

definition pq_frame :: "nat multiset \<Rightarrow> pq_world \<Rightarrow> pq_world \<Rightarrow> bool" where
  "pq_frame G w w' \<longleftrightarrow> own_frame (pw_pool w) (pq_held w) (pw_pool w') (pq_held w') G"

lemma pq_frame_ok: "pq_ok w \<Longrightarrow> pq_frame {#} w w' \<Longrightarrow> pq_ok w'"
  unfolding pq_ok_def pq_frame_def by (rule own_frame_ok0)

lemma pq_frame_trans: "pq_ok w \<Longrightarrow> pq_frame {#} w w1 \<Longrightarrow> pq_frame G w1 w2 \<Longrightarrow> pq_frame G w w2"
  unfolding pq_ok_def pq_frame_def by (rule own_frame_trans)

lemma pq_frame_refl: "pq_ok w \<Longrightarrow> pq_frame {#} w w"
  unfolding pq_ok_def pq_frame_def by (rule own_frame_refl)

text \<open>Changes that concern neither the buffers nor the pool.\<close>

lemma pq_frame_same:
  assumes "pq_ok w" and "pw_pool w' = pw_pool w" and "held_buffers w' = held_buffers w"
  shows "pq_frame {#} w w'"
  using pq_frame_refl [OF assms(1)] assms(2,3) by (simp add: pq_frame_def)

lemma pq_ok_same: "pw_pool w' = pw_pool w \<Longrightarrow> held_buffers w' = held_buffers w \<Longrightarrow> pq_ok w' = pq_ok w"
  by (simp add: pq_ok_def)

definition quick :: "wake list \<Rightarrow> bool" where
  "quick ws \<longleftrightarrow> ws = [] \<or> ws = [\<lparr>wk_others = [], wk_timeout = True\<rparr>]"

text \<open>An acquisition nobody interferes with succeeds at once or not at all.\<close>

lemma acquire_quick:
  assumes "quick ws"
  shows "acquire alloc n ws p =
    (case acquire_pass alloc n p of
       Some r \<Rightarrow> r
     | None \<Rightarrow> ((if ws = [] then StillWaiting else NoBuffer), p))"
proof (cases "acquire_pass alloc n p")
  case None
  then have "take_free alloc n p = None" by (simp add: acquire_pass_None take_free_None)
  with None assms show ?thesis by (auto simp: quick_def acquire.simps)
qed (simp add: acquire_at_once)

lemma polite_quick: "quick ws \<Longrightarrow> quick (map (polite H) ws) \<and> (map (polite H) ws = [] \<longleftrightarrow> ws = [])"
  by (auto simp: quick_def polite_def)

lemma held_marks [simp]:
  "held_buffers (w\<lparr>pw_q := mark_failed t e (pw_q w)\<rparr>) = held_buffers w"
  "held_buffers (w\<lparr>pw_q := (pw_q w)\<lparr>pq_pending := x\<rparr>\<rparr>) = held_buffers w"
  "held_buffers (w\<lparr>pw_q := (pw_q w)\<lparr>pq_latched_bbox := l\<rparr>\<rparr>) = held_buffers w"
  "held_buffers (w\<lparr>pw_q := (pw_q w)\<lparr>pq_kicked_off := k\<rparr>\<rparr>) = held_buffers w"
  "held_buffers (w\<lparr>pw_q := drop_failed t (pw_q w)\<rparr>) = held_buffers w"
  "held_buffers (w\<lparr>pw_pool := p\<rparr>) = held_buffers w"
  "held_buffers (w\<lparr>pw_tasks := ts\<rparr>) = held_buffers w"
  by (simp_all add: held_buffers_def mark_failed_def drop_failed_def)

lemma fetch_begin_frame:
  assumes ok: "pq_ok w" and "quick ws" and f: "fetch_begin alloc ws t sel w = (r, w')"
  shows "pq_frame {#} w w'"
proof (cases "pq_cancelled (pw_q w)")
  case True
  then have "w' = w\<lparr>pw_q := (pw_q w)\<lparr>pq_pending := removeAll t (pq_pending (pw_q w))\<rparr>\<rparr>"
    using f by (simp add: fetch_begin_def Let_def)
  then show ?thesis using ok by (intro pq_frame_same) simp_all
next
  case False
  let ?n = "fetch_bytes (pq_info (pw_q w)) sel (sp_buffer_capacity (pw_pool w))"
  let ?ws = "map (polite (held_buffers w)) ws"
  have acq: "acquire alloc ?n ?ws (pw_pool w) =
      (case acquire_pass alloc ?n (pw_pool w) of
         Some r \<Rightarrow> r | None \<Rightarrow> ((if ws = [] then StillWaiting else NoBuffer), pw_pool w))"
    using acquire_quick polite_quick [OF assms(2)] by simp
  show ?thesis
  proof (cases "acquire_pass alloc ?n (pw_pool w)")
    case None
    with False f acq have "pw_pool w' = pw_pool w" "held_buffers w' = held_buffers w"
      by (auto simp: fetch_begin_def Let_def held_buffers_def mark_failed_def split: if_splits)
    with ok show ?thesis by (rule pq_frame_same)
  next
    case (Some rp)
    obtain res p' where rp: "rp = (res, p')" by (cases rp)
    consider "res = BadAlloc" | b where "res = Acquired b" using acquire_pass_results Some rp by blast
    then show ?thesis
    proof cases
      case 1
      then have w': "w' = w\<lparr>pw_pool := p'\<rparr>" using False f acq Some rp by (simp add: fetch_begin_def Let_def)
      have "own_frame (pw_pool w) (pq_held w) p' (pq_held w) {#}"
        using own_bad_alloc ok Some rp 1 by (auto simp: pq_ok_def)
      then show ?thesis by (simp add: w' pq_frame_def)
    next
      case 2
      then have w': "w' = w\<lparr>pw_pool := p', pw_running := pw_running w @ [(t, sel, b)]\<rparr>"
        using False f acq Some rp by (simp add: fetch_begin_def Let_def)
      have "own_frame (pw_pool w) (pq_held w) p' (add_mset b (pq_held w)) {#}"
        using own_acquire ok Some rp 2 by (auto simp: pq_ok_def)
      then show ?thesis by (simp add: w' pq_frame_def held_buffers_def)
    qed
  qed
qed


lemma mset_update_sub: "mset (map snd (AList.update t b xs)) \<subseteq># add_mset b (mset (map snd xs))"
proof (induction xs)
  case (Cons x xs)
  obtain k v where x: "x = (k, v)" by (cases x)
  show ?case
  proof (cases "k = t")
    case True
    then show ?thesis by (simp add: x)
  next
    case False
    with Cons show ?thesis by (simp add: x add_mset_commute [of b v])
  qed
qed simp

lemma mset_delete_sub: "mset (map snd (AList.delete t xs)) \<subseteq># mset (map snd xs)"
proof -
  have "AList.delete t xs = filter (\<lambda>x. fst x \<noteq> t) xs" by (induction xs) auto
  then show ?thesis by (simp add: image_mset_subseteq_mono)
qed

lemma mset_delete_found:
  "map_of xs t = Some b \<Longrightarrow> mset (map snd (AList.delete t xs)) \<subseteq># mset (map snd xs) - {#b#}"
proof (induction xs)
  case (Cons x xs)
  obtain k v where x: "x = (k, v)" by (cases x)
  show ?case
  proof (cases "k = t")
    case True
    with Cons.prems show ?thesis using mset_delete_sub [of t xs] by (simp add: x)
  next
    case False
    then have m: "map_of xs t = Some b" using Cons.prems by (simp add: x)
    then have "b \<in># mset (map snd xs)" using map_of_SomeD by force
    then obtain Y where Y: "mset (map snd xs) = add_mset b Y" by (rule mset_add)
    have "mset (map snd (AList.delete t xs)) \<subseteq># Y" using Cons.IH [OF m] unfolding Y by simp
    then have "add_mset v (mset (map snd (AList.delete t xs))) \<subseteq># add_mset v (mset (map snd xs)) - {#b#}"
      unfolding Y by (simp add: add_mset_commute [of v b])
    with False show ?thesis by (simp add: x)
  qed
qed simp


text \<open>A completed fetch leaves the queue: its buffer is given back, or handed out.\<close>

lemma held_completed:
  assumes "map_of (pq_completed (pw_q w)) t = Some b"
  shows "b \<in># pq_held w"
  using map_of_SomeD [OF assms] by (force simp: held_buffers_def)

lemma held_delete:
  assumes "map_of (pq_completed (pw_q w)) t = Some b"
    and "pq_completed (pw_q w') = AList.delete t (pq_completed (pw_q w))" and "pw_running w' = pw_running w"
  shows "pq_held w' \<subseteq># pq_held w - {#b#}"
proof -
  let ?R = "mset (map (\<lambda>(t, sel, b). b) (pw_running w))" and ?C = "mset (map snd (pq_completed (pw_q w)))"
  have "b \<in># ?C" using map_of_SomeD [OF assms(1)] by force
  then have "?C + ?R - {#b#} = (?C - {#b#}) + ?R" by simp
  moreover have "mset (map snd (pq_completed (pw_q w'))) \<subseteq># ?C - {#b#}"
    using mset_delete_found [OF assms(1)] assms(2) by simp
  ultimately show ?thesis using assms(3) by (simp add: held_buffers_def)
qed

lemma hand_out_frame:
  assumes "pq_ok w" and "map_of (pq_completed (pw_q w)) t = Some b" and "pw_pool w' = pw_pool w"
    and "pq_completed (pw_q w') = AList.delete t (pq_completed (pw_q w))" and "pw_running w' = pw_running w"
  shows "pq_frame {#b#} w w'"
proof -
  have g: "own_frame (pw_pool w) (pq_held w) (pw_pool w) (pq_held w - {#b#}) {#b#}"
    using own_give held_completed [OF assms(2)] assms(1) by (simp add: pq_ok_def)
  have "count (pq_held w') x \<le> count (pq_held w - {#b#}) x" for x
    using held_delete [OF assms(2,4,5)] by (rule mset_subset_eq_count)
  then have "int (count (pq_held w') x) \<le> int (count (pq_held w - {#b#}) x)" for x by simp
  with g show ?thesis unfolding pq_frame_def own_frame_def assms(3) by (meson diff_mono order_trans order_refl)
qed

lemma give_back_frame:
  assumes "pq_ok w" and "map_of (pq_completed (pw_q w)) t = Some b"
    and "pw_pool w' = pool_release b (pw_pool w)"
    and "pq_completed (pw_q w') = AList.delete t (pq_completed (pw_q w))" and "pw_running w' = pw_running w"
  shows "pq_frame {#} w w'"
proof -
  have ok: "own_ok (pw_pool w) (pq_held w)" using assms(1) by (simp add: pq_ok_def)
  have r: "own_frame (pw_pool w) (pq_held w) (pw_pool w') (pq_held w - {#b#}) {#}"
    using own_release [OF ok held_completed [OF assms(2)]] assms(3) by simp
  have "own_frame (pw_pool w') (pq_held w - {#b#}) (pw_pool w') (pq_held w') {#}"
    by (rule own_forget [OF own_frame_ok0 [OF ok r] held_delete [OF assms(2,4,5)]])
  then show ?thesis unfolding pq_frame_def by (rule own_frame_trans [OF ok r])
qed

lemma held_running: "j < length (pw_running w) \<Longrightarrow> pw_running w ! j = (t, sel, b) \<Longrightarrow> b \<in># pq_held w"
  by (force simp: held_buffers_def in_set_conv_nth intro!: exI [of _ j])

lemma held_erase:
  assumes "j < length (pw_running w)" and "pw_running w ! j = (t, sel, b)"
    and "pw_running w' = erase_at j (pw_running w)"
  shows "mset (map (\<lambda>(t, sel, b). b) (pw_running w)) = add_mset b (mset (map (\<lambda>(t, sel, b). b) (pw_running w')))"
  using mset_erase_at [OF assms(1)] assms(2,3) by simp

lemma fetch_finish_frame:
  assumes ok: "pq_ok w" and j: "j < length (pw_running w)"
  shows "pq_frame {#} w (fetch_finish rd j w)"
proof -
  obtain t sel b where r: "pw_running w ! j = (t, sel, b)" by (cases "pw_running w ! j") auto
  let ?p = "pw_pool w" and ?H = "pq_held w" and ?R = "mset (map (\<lambda>(t, sel, b). b) (erase_at j (pw_running w)))"
  have o: "own_ok ?p ?H" using ok by (simp add: pq_ok_def)
  have b: "b \<in># ?H" by (rule held_running [OF j r])
  have H: "?H = add_mset b (mset (map snd (pq_completed (pw_q w))) + ?R)"
    using mset_erase_at [OF j] r by (simp add: held_buffers_def)
  show ?thesis
  proof (cases "rd (cap ?p b) (fetch_meta (pw_q w) t) t (map_option BoundingBox sel)")
    case (Inl x)
    then have w': "pw_pool (fetch_finish rd j w) = pool_release b ?p"
      "pq_held (fetch_finish rd j w) = ?H - {#b#}"
      using r H by (simp_all add: fetch_finish_def Let_def held_buffers_def mark_failed_def)
    show ?thesis unfolding pq_frame_def w' by (rule own_release [OF o b])
  next
    case (Inr res)
    obtain bs used where res: "res = (bs, used)" by (cases res)
    let ?p1 = "fill_buffer b bs used ?p"
    have f: "own_frame ?p ?H ?p1 ?H {#}" by (rule own_fill [OF o b])
    have o1: "own_ok ?p1 ?H" by (rule own_frame_ok0 [OF o f])
    show ?thesis
    proof (cases "used > cap ?p1 b")
      case True
      then have w': "pw_pool (fetch_finish rd j w) = pool_release b ?p1"
        "pq_held (fetch_finish rd j w) = ?H - {#b#}"
        using r H Inr res by (simp_all add: fetch_finish_def Let_def held_buffers_def mark_failed_def)
      show ?thesis unfolding pq_frame_def w' by (rule own_frame_trans [OF o f own_release [OF o1 b]])
    next
      case False
      then have w': "pw_pool (fetch_finish rd j w) = ?p1"
        "pq_held (fetch_finish rd j w) = mset (map snd (AList.update t b (pq_completed (pw_q w)))) + ?R"
        using r H Inr res by (simp_all add: fetch_finish_def Let_def held_buffers_def mark_complete_def)
      have "pq_held (fetch_finish rd j w) \<subseteq># ?H"
        unfolding w'(2) H using mset_update_sub [of t b "pq_completed (pw_q w)"] by (simp flip: union_mset_add_mset_left)
      then show ?thesis unfolding pq_frame_def w'(1) by (rule own_frame_trans [OF o f own_forget [OF o1]])
    qed
  qed
qed


lemma sync_fetch_frame:
  assumes ok: "pq_ok w" and q: "quick ws" and f: "sync_fetch alloc rd ws t sel w = (r, w')"
  shows "pq_frame {#} w w'"
proof (cases "fetch_begin alloc ws t sel w")
  case (Pair r1 w1)
  have fr: "pq_frame {#} w w1" by (rule fetch_begin_frame [OF ok q Pair])
  show ?thesis
  proof (cases "\<exists>b. r1 = FetchHas b")
    case True
    then obtain b where b: "r1 = FetchHas b" by blast
    then have "length (pw_running w1) = length (pw_running w) + 1"
      using Pair by (auto simp: fetch_begin_def Let_def split: if_splits prod.splits acquire_result.splits)
    then have "pq_frame {#} w1 (fetch_finish rd (length (pw_running w)) w1)"
      by (intro fetch_finish_frame pq_frame_ok [OF ok fr]) simp
    moreover have "w' = fetch_finish rd (length (pw_running w)) w1" using f Pair b by (simp add: sync_fetch_def)
    ultimately show ?thesis using pq_frame_trans [OF ok fr] by simp
  next
    case False
    then have "w' = w1" using f Pair by (cases r1) (auto simp: sync_fetch_def)
    with fr show ?thesis by simp
  qed
qed

lemma schedule_fetch_frame:
  assumes ok: "pq_ok w" and q: "quick ws" and f: "schedule_fetch alloc rd ws t w = (r, w')"
  shows "pq_frame {#} w w'"
proof -
  let ?w1 = "w\<lparr>pw_q := (pw_q w)\<lparr>pq_pending := pq_pending (pw_q w) @ [t]\<rparr>\<rparr>"
  have s1: "pq_frame {#} w ?w1" using ok by (intro pq_frame_same) simp_all
  consider "w' = w" | "w' = ?w1\<lparr>pw_tasks := pw_tasks ?w1 @ [(t, pq_latched_bbox (pw_q w))]\<rparr>"
    | "sync_fetch alloc rd ws t (pq_latched_bbox (pw_q w)) ?w1 = (r, w')"
    using f by (auto simp: schedule_fetch_def Let_def split: if_splits)
  then show ?thesis
  proof cases
    case 1
    with ok show ?thesis by (simp add: pq_frame_refl)
  next
    case 2
    then show ?thesis using ok by (intro pq_frame_same) (simp_all add: held_buffers_def)
  next
    case 3
    from sync_fetch_frame [OF pq_frame_ok [OF ok s1] q 3] show ?thesis by (rule pq_frame_trans [OF ok s1])
  qed
qed

lemma schedule_all_frame:
  "pq_ok w \<Longrightarrow> quick ws \<Longrightarrow> schedule_all alloc rd ws ts w = (r, w') \<Longrightarrow> pq_frame {#} w w'"
proof (induction ts arbitrary: w)
  case Nil
  then show ?case by (simp add: pq_frame_refl)
next
  case (Cons t ts)
  obtain r1 w1 where f: "schedule_fetch alloc rd ws t w = (r1, w1)" by (cases "schedule_fetch alloc rd ws t w")
  have fr: "pq_frame {#} w w1" by (rule schedule_fetch_frame [OF Cons.prems(1,2) f])
  show ?case
  proof (cases "r1 = FetchDone")
    case True
    with Cons.prems(3) f have "schedule_all alloc rd ws ts w1 = (r, w')" by simp
    from Cons.IH [OF pq_frame_ok [OF Cons.prems(1) fr] Cons.prems(2) this]
    show ?thesis by (rule pq_frame_trans [OF Cons.prems(1) fr])
  next
    case False
    with Cons.prems(3) f have "w' = w1" by (cases r1) simp_all
    with fr show ?thesis by simp
  qed
qed

lemma schedule_next_frame:
  "pq_ok w \<Longrightarrow> quick ws \<Longrightarrow> schedule_next alloc rd ws t w = (r, w') \<Longrightarrow> pq_frame {#} w w'"
  by (auto simp: schedule_next_def Let_def split: if_splits intro: pq_frame_refl schedule_fetch_frame)

lemma kick_off_frame:
  assumes ok: "pq_ok w" and q: "quick ws" and f: "kick_off alloc rd ws t w = (r, w')"
  shows "pq_frame {#} w w'"
proof (cases "pq_kicked_off (pw_q w)")
  case True
  with f ok show ?thesis by (simp add: kick_off_def Let_def pq_frame_refl)
next
  case False
  let ?w1 = "w\<lparr>pw_q := (pw_q w)\<lparr>pq_kicked_off := True\<rparr>\<rparr>"
  have s1: "pq_frame {#} w ?w1" using ok by (intro pq_frame_same) simp_all
  have "schedule_all alloc rd ws (map (\<lambda>k. t + k) [0..min (int (pq_depth (pw_q w))) (pq_total_timesteps (pw_q w) - t) - 1])
      ?w1 = (r, w')"
    using f False by (simp add: kick_off_def Let_def)
  from schedule_all_frame [OF pq_frame_ok [OF ok s1] q this] show ?thesis by (rule pq_frame_trans [OF ok s1])
qed

text \<open>Cancelling gives every completed buffer back and keeps those of running fetches.\<close>

lemma release_all_frame:
  "own_ok p H \<Longrightarrow> mset (map snd xs) \<subseteq># H \<Longrightarrow>
   own_frame p H (foldl (\<lambda>p (t, b). pool_release b p) p xs) (H - mset (map snd xs)) {#}"
proof (induction xs arbitrary: p H)
  case Nil
  then show ?case by (simp add: own_frame_refl)
next
  case (Cons x xs)
  obtain t b where x: "x = (t, b)" by (cases x)
  have sub: "add_mset b (mset (map snd xs)) \<subseteq># H" using Cons.prems(2) by (simp add: x)
  then have b: "b \<in># H" and rest: "mset (map snd xs) \<subseteq># H - {#b#}" by (simp_all add: insert_subset_eq_iff)
  have r: "own_frame p H (pool_release b p) (H - {#b#}) {#}" by (rule own_release [OF Cons.prems(1) b])
  from Cons.IH [OF own_frame_ok0 [OF Cons.prems(1) r] rest]
  have "own_frame p H (foldl (\<lambda>p (t, b). pool_release b p) (pool_release b p) xs) (H - {#b#} - mset (map snd xs)) {#}"
    by (rule own_frame_trans [OF Cons.prems(1) r])
  then show ?case by (simp add: x)
qed

lemma cancel_pending_frame:
  assumes ok: "pq_ok w"
  shows "pq_frame {#} w (cancel_pending w)"
proof -
  let ?xs = "sort_key fst (pq_completed (pw_q w))"
  have m: "mset (map snd ?xs) = mset (map snd (pq_completed (pw_q w)))" by simp
  then have "mset (map snd ?xs) \<subseteq># pq_held w" by (simp add: held_buffers_def)
  from release_all_frame [OF _ this, of "pw_pool w"] ok
  have "own_frame (pw_pool w) (pq_held w) (pw_pool (cancel_pending w)) (pq_held w - mset (map snd ?xs)) {#}"
    by (simp add: pq_ok_def cancel_pending_def Let_def)
  moreover have "pq_held w - mset (map snd ?xs) = pq_held (cancel_pending w)"
    unfolding m by (simp add: held_buffers_def cancel_pending_def Let_def)
  ultimately show ?thesis by (simp add: pq_frame_def)
qed

text \<open>The worker's steps, with no interference while it waits for a buffer.\<close>

fun quiet_act :: "pq_act \<Rightarrow> bool" where
  "quiet_act (ActBegin j ws) \<longleftrightarrow> quick ws"
| "quiet_act (ActFinish j) \<longleftrightarrow> True"
| "quiet_act ActCancel \<longleftrightarrow> True"
| "quiet_act (ActPool op) \<longleftrightarrow> False"

lemma pq_step_frame:
  assumes ok: "pq_ok w" and "quiet_act act"
  shows "pq_frame {#} w (pq_step alloc rd act w)"
proof (cases act)
  case (ActBegin j ws)
  show ?thesis
  proof (cases "j < length (pw_tasks w)")
    case True
    obtain r w1 where f: "fetch_begin alloc ws (fst (pw_tasks w ! j)) (snd (pw_tasks w ! j)) w = (r, w1)"
      by (cases "fetch_begin alloc ws (fst (pw_tasks w ! j)) (snd (pw_tasks w ! j)) w")
    have fr: "pq_frame {#} w w1" using fetch_begin_frame [OF ok _ f] assms(2) ActBegin by simp
    have "pq_frame {#} w (w1\<lparr>pw_tasks := erase_at j (pw_tasks w1)\<rparr>)"
      using fr by (simp add: pq_frame_def)
    with True ActBegin f ok show ?thesis by (cases r) (simp_all add: pq_frame_refl)
  qed (use ActBegin ok in \<open>simp add: pq_frame_refl\<close>)
qed (use assms in \<open>auto intro: fetch_finish_frame cancel_pending_frame pq_frame_refl\<close>)


text \<open>What a call of \<^verbatim>\<open>get_buffer\<close> hands to its caller.\<close>

fun handed :: "get_result \<Rightarrow> nat multiset" where
  "handed (GotStatus e (Some b)) = {#b#}"
| "handed _ = {#}"

lemma check_failed_frame:
  assumes "pq_ok w" and "check_failed t w = Some (r, w')"
  shows "pq_frame (handed r) w w'"
  using assms by (auto simp: check_failed_def split: option.splits intro!: pq_frame_same)

lemma check_completed_frame:
  assumes ok: "pq_ok w" and c: "check_completed t req w = (ro, stale, w1)"
  shows "(case ro of Some (r, w') \<Rightarrow> pq_frame (handed r) w w' | None \<Rightarrow> pq_frame {#} w w1)"
proof (cases "map_of (pq_completed (pw_q w)) t")
  case None
  with c ok show ?thesis by (auto simp: check_completed_def Let_def pq_frame_refl)
next
  case (Some b)
  show ?thesis
  proof (cases "bbox_same (map_of (pq_fetched_bbox (pw_q w)) t) req")
    case True
    then have "ro = Some (GotStatus AMIO_OK (Some b), w\<lparr>pw_q := drop_completed t (pw_q w)\<rparr>)"
      using c Some by (auto simp: check_completed_def Let_def)
    moreover have "pq_frame {#b#} w (w\<lparr>pw_q := drop_completed t (pw_q w)\<rparr>)"
      by (rule hand_out_frame [OF ok Some]) (simp_all add: drop_completed_def)
    ultimately show ?thesis by simp
  next
    case False
    then have "ro = None" "w1 = w\<lparr>pw_pool := pool_release b (pw_pool w), pw_q := drop_completed t (pw_q w)\<rparr>"
      using c Some by (simp_all add: check_completed_def Let_def)
    moreover have "pq_frame {#} w (w\<lparr>pw_pool := pool_release b (pw_pool w), pw_q := drop_completed t (pw_q w)\<rparr>)"
      by (rule give_back_frame [OF ok Some]) (simp_all add: drop_completed_def)
    ultimately show ?thesis by simp
  qed
qed

lemma get_pass_frame:
  assumes ok: "pq_ok w" and q: "quick ws" and g: "get_pass alloc rd ws t req w = res"
  shows "case res of Inl (r, w') \<Rightarrow> pq_frame (handed r) w w' | Inr w' \<Rightarrow> pq_frame {#} w w'"
proof -
  obtain ro stale w1 where c: "check_completed t req w = (ro, stale, w1)" by (cases "check_completed t req w")
  show ?thesis
  proof (cases ro)
    case (Some rw)
    then have "res = Inl rw" using g c by (simp add: get_pass_def)
    then show ?thesis using check_completed_frame [OF ok c] Some by simp
  next
    case None
    then have f1: "pq_frame {#} w w1" using check_completed_frame [OF ok c] by simp
    obtain f w2 where s: "(if stale then schedule_fetch alloc rd ws t w1 else (FetchDone, w1)) = (f, w2)"
      by (cases "if stale then schedule_fetch alloc rd ws t w1 else (FetchDone, w1)")
    have ok1: "pq_ok w1" by (rule pq_frame_ok [OF ok f1])
    have "pq_frame {#} w1 w2"
      using s schedule_fetch_frame [OF ok1 q] pq_frame_refl [OF ok1] by (auto split: if_splits)
    then have f2: "pq_frame {#} w w2" by (rule pq_frame_trans [OF ok f1])
    have "pq_frame (handed r) w w'" if "check_failed t w2 = Some (r, w')" for r w'
      using check_failed_frame [OF pq_frame_ok [OF ok f2] that] by (rule pq_frame_trans [OF ok f2])
    with g c None s f2 show ?thesis
      by (cases f) (auto simp: get_pass_def split: option.splits if_splits)
  qed
qed

lemma get_last_frame:
  assumes ok: "pq_ok w" and g: "get_last t w = (r, w')"
  shows "pq_frame (handed r) w w'"
proof (cases "map_of (pq_completed (pw_q w)) t")
  case None
  with g ok show ?thesis
    by (auto simp: get_last_def split: option.splits intro: check_failed_frame pq_frame_refl)
next
  case (Some b)
  then have "r = GotStatus AMIO_OK (Some b)"
    and w': "w' = w\<lparr>pw_q := (pw_q w)\<lparr>pq_completed := AList.delete t (pq_completed (pw_q w))\<rparr>\<rparr>"
    using g by (simp_all add: get_last_def)
  moreover have "pq_frame {#b#} w w'" by (rule hand_out_frame [OF ok Some]) (simp_all add: w')
  ultimately show ?thesis by simp
qed

lemma get_loop_frame:
  assumes "pq_ok w" and "quick ws" and "get_loop alloc rd ws t req [] w = (r, w')"
  shows "pq_frame (handed r) w w'"
  using get_pass_frame [OF assms(1,2) refl, of alloc rd t req] assms(3) by (auto split: sum.splits)

lemma get_buffer_frame:
  assumes ok: "pq_ok w" and q: "quick ws" and g: "get_buffer alloc rd ws t req [] w = (r, w')"
  shows "pq_frame (handed r) w w'"
proof -
  let ?w0 = "w\<lparr>pw_q := (pw_q w)\<lparr>pq_latched_bbox := req\<rparr>\<rparr>"
  have f0: "pq_frame {#} w ?w0" using ok by (intro pq_frame_same) simp_all
  obtain k w1 where k: "kick_off alloc rd ws t ?w0 = (k, w1)" by (cases "kick_off alloc rd ws t ?w0")
  have f1: "pq_frame {#} w w1"
    using kick_off_frame [OF pq_frame_ok [OF ok f0] q k] by (rule pq_frame_trans [OF ok f0])
  note ok1 = pq_frame_ok [OF ok f1]
  obtain ro stale w2 where c: "check_completed t req w1 = (ro, stale, w2)" by (cases "check_completed t req w1")
  obtain f w3 where s: "(if t \<in> set (pq_pending (pw_q w2)) then (FetchDone, w2) else schedule_fetch alloc rd ws t w2) = (f, w3)"
    by (cases "if t \<in> set (pq_pending (pw_q w2)) then (FetchDone, w2) else schedule_fetch alloc rd ws t w2")
  have f3: "pq_frame {#} w w3" if "ro = None"
  proof -
    have f2: "pq_frame {#} w w2"
      using check_completed_frame [OF ok1 c] that by (auto intro: pq_frame_trans [OF ok f1])
    note ok2 = pq_frame_ok [OF ok f2]
    have "pq_frame {#} w2 w3"
      using s schedule_fetch_frame [OF ok2 q] pq_frame_refl [OF ok2] by (auto split: if_splits)
    then show ?thesis by (rule pq_frame_trans [OF ok f2])
  qed
  consider "check_failed t w1 = Some (r, w')" | "ro = Some (r, w')"
    | "ro = None" "get_loop alloc rd ws t req [] w3 = (r, w')" | "ro = None" "w' = w3" "handed r = {#}"
    | "w' = w1" "handed r = {#}"
  proof (cases "k = FetchDone \<and> check_failed t w1 = None \<and> ro = None")
    case True
    with g k c s that show ?thesis by (cases f) (auto simp: get_buffer_def)
  next
    case False
    with g k c that show ?thesis
      by (cases k; cases "check_failed t w1"; cases ro) (auto simp: get_buffer_def)
  qed
  then show ?thesis
  proof cases
    case 1
    from check_failed_frame [OF ok1 1] show ?thesis by (rule pq_frame_trans [OF ok f1])
  next
    case 2
    with check_completed_frame [OF ok1 c] have "pq_frame (handed r) w1 w'" by simp
    then show ?thesis by (rule pq_frame_trans [OF ok f1])
  next
    case 3
    from get_loop_frame [OF pq_frame_ok [OF ok f3 [OF 3(1)]] q 3(2)] show ?thesis
      by (rule pq_frame_trans [OF ok f3 [OF 3(1)]])
  next
    case 4
    with f3 show ?thesis by simp
  next
    case 5
    with f1 show ?thesis by simp
  qed
qed

end
