(* ===== verification/Amio_Core.thy ===== *)
theory Amio_Core
  imports Handle_Table Backend_Factory Config_Loader Worker_Pool Buffer_Ownership
begin

text \<open>
  The runtime behind the C interface, \<^verbatim>\<open>src/c_boundary/amio_core.{hpp,cpp}\<close>: contexts, datasets, write
  tracking records and read views, and one definition per private entry point.

  Heap objects that the C interface names by handles live in the maps of a \<open>world\<close>: a context by its
  address, a dataset by its context's address and its identifier, a tracking record or a view by its
  address.  A freed object is \<open>None\<close>, and using one is \<open>Undef\<close>.  The staging pool of a context is never
  null between \<^verbatim>\<open>init\<close>, which builds it, and \<^verbatim>\<open>finalize\<close>, which destroys it with the context, so the
  branches for a missing pool are not part of the model; the worker pool may be null.  The members
  \<^verbatim>\<open>next_variable_id\<close>, \<^verbatim>\<open>prefetch_queue\<close> and \<^verbatim>\<open>total_timesteps\<close> of a dataset are never used by the code, and
  the logger only receives text; they are left out.

  The drivers are behind an abstract class, a record of functions on a driver state here; a
  \<^verbatim>\<open>conf::Config\<close> is the key lookup of the configuration loader; whether constructing the pools throws
  is a parameter.  Background activity enters as explicit lists: the worker threads act between the
  polls of a waiting call, and between the submission of a write and the accounting for it.
\<close>


section \<open>Data\<close>

record 'd driver_ops =
  drv_set_communicator :: "int \<Rightarrow> 'd \<Rightarrow> exn + 'd"
  drv_open_write :: "manifest \<Rightarrow> 'd \<Rightarrow> exn + 'd"
  drv_open_read :: "manifest \<Rightarrow> 'd \<Rightarrow> exn + 'd"
  drv_write :: "staging_buffer \<Rightarrow> var_meta \<Rightarrow> 'd \<Rightarrow> exn option \<times> 'd"
  drv_read :: "'d \<Rightarrow> reader"
  drv_describe :: "string \<Rightarrow> 'd \<Rightarrow> exn + variable_info"
  drv_text_attribute :: "string \<Rightarrow> string \<Rightarrow> 'd \<Rightarrow> exn + string option"
  drv_numeric_attribute :: "string \<Rightarrow> string \<Rightarrow> 'd \<Rightarrow> exn + u64 option" \<comment> \<open>the bits of a \<^verbatim>\<open>double\<close>\<close>
  drv_flush :: "'d \<Rightarrow> exn option \<times> 'd"
  drv_close :: "'d \<Rightarrow> exn option \<times> 'd"

record ('d, 'c) amio_env =
  en_alloc :: "nat \<Rightarrow> bool"
  en_from_file :: "string \<Rightarrow> conf_error + manifest"
  en_from_string :: "string \<Rightarrow> conf_error + manifest"
  en_ops :: "'d driver_ops"
  en_factory :: "'d factory"
  en_pools_built :: "config \<Rightarrow> bool" \<comment> \<open>the constructors of the pools do not throw\<close>
  en_has_mpi :: bool
  en_comm :: "'c io_communicator option \<Rightarrow> int" \<comment> \<open>raw communicator handle: of a worker pool, or the parent's\<close>
  en_trace :: "'c trace_env"

record io_record =
  io_dataset_id :: nat
  io_dv_seq :: nat
  io_token :: token
  io_staging_buf :: nat
  io_core :: nat
  io_completed :: bool
  io_failed :: bool
  io_failure_code :: amio_err

record view_record =
  vw_staging_buf :: nat
  vw_token :: token
  vw_core :: nat
  vw_dataset_id :: nat
  vw_timestep :: int
  vw_shape :: amio_shape
  vw_dtype :: amio_dtype

text \<open>A variable's queue, with the fetches it has dispatched and those that are running.\<close>

record variable_read_state =
  vs_name :: string
  vs_info :: variable_info
  vs_queue :: prefetch_queue
  vs_tasks :: "(int \<times> amio_bbox option) list"
  vs_running :: "(int \<times> amio_bbox option \<times> nat) list"

record 'd dataset_record =
  ds_manifest_config :: manifest
  ds_driver :: 'd
  ds_mode :: int
  ds_token :: token
  ds_id :: nat
  ds_pending_writes :: u64
  ds_has_failure :: bool
  ds_first_failure_code :: amio_err
  ds_config :: config
  ds_variables :: "(string \<times> variable_read_state) list"
  ds_read_timeout_s :: int
  ds_prefetch_depth :: nat
  ds_outstanding_views :: u64

text \<open>What a write callback captured.\<close>

record write_job =
  wj_buf :: nat
  wj_core :: nat
  wj_dataset :: nat
  wj_io :: nat
  wj_meta :: var_meta

record ('d, 'c) amio_core =
  co_token :: token
  co_datasets :: "(nat \<times> 'd dataset_record) list"
  co_next_dataset_id :: nat
  co_staging_pool :: staging_pool
  co_staging_timeout_ms :: int
  co_worker_pool :: "(write_job, 'c) worker_pool option"
  co_logs_initialized :: bool

datatype payload = At_Core nat | At_Dataset nat nat | At_Io nat | At_View nat

record ('d, 'c) world =
  w_table :: "payload handle_table"
  w_cores :: "nat \<Rightarrow> ('d, 'c) amio_core option"
  w_ios :: "nat \<Rightarrow> io_record option"
  w_views :: "(nat \<times> view_record) list" \<comment> \<open>by address\<close>
  w_next :: nat \<comment> \<open>the next unused address\<close>

text \<open>How a call ends.\<close>

datatype call =
    Rc amio_err
  | Raised      \<comment> \<open>an exception left it\<close>
  | Waits       \<comment> \<open>it is still blocked\<close>
  | Undef       \<comment> \<open>it used a freed object or read beyond the host's memory\<close>

definition AMIO_MODE_WRITE :: int where
  "AMIO_MODE_WRITE = 0"

definition AMIO_MODE_READ :: int where
  "AMIO_MODE_READ = 1"

definition upd_core :: "nat \<Rightarrow> (('d, 'c) amio_core \<Rightarrow> ('d, 'c) amio_core) \<Rightarrow> ('d, 'c) world \<Rightarrow> ('d, 'c) world" where
  "upd_core a f w = w\<lparr>w_cores := (w_cores w)(a := map_option f (w_cores w a))\<rparr>"

definition ds_at :: "('d, 'c) world \<Rightarrow> nat \<Rightarrow> nat \<Rightarrow> 'd dataset_record option" where
  "ds_at w a i = (case w_cores w a of None \<Rightarrow> None | Some c \<Rightarrow> map_of (co_datasets c) i)"

definition upd_ds :: "nat \<Rightarrow> nat \<Rightarrow> ('d dataset_record \<Rightarrow> 'd dataset_record) \<Rightarrow> ('d, 'c) world \<Rightarrow> ('d, 'c) world" where
  "upd_ds a i f =
     upd_core a (\<lambda>c. c\<lparr>co_datasets := map (\<lambda>(j, d). (j, if j = i then f d else d)) (co_datasets c)\<rparr>)"

definition upd_pool :: "nat \<Rightarrow> (staging_pool \<Rightarrow> staging_pool) \<Rightarrow> ('d, 'c) world \<Rightarrow> ('d, 'c) world" where
  "upd_pool a f = upd_core a (\<lambda>c. c\<lparr>co_staging_pool := f (co_staging_pool c)\<rparr>)"

definition upd_io :: "nat \<Rightarrow> (io_record \<Rightarrow> io_record) \<Rightarrow> ('d, 'c) world \<Rightarrow> ('d, 'c) world" where
  "upd_io x f w = w\<lparr>w_ios := (w_ios w)(x := map_option f (w_ios w x))\<rparr>"


section \<open>Contexts\<close>

definition default_worker_config :: "nat \<Rightarrow> 'c worker_pool_config" where
  "default_worker_config threads =
     \<lparr>wc_thread_count = threads, wc_thread_configs = [], wc_io_comm = IOCommunicator,
      wc_backpressure = BackpressureConfig\<rparr>"

definition init_from_config :: "('d, 'c) amio_env \<Rightarrow> config \<Rightarrow> ('d, 'c) world \<Rightarrow> call \<times> token \<times> ('d, 'c) world" where
  "init_from_config env cfg w =
     (if \<not> en_pools_built env cfg then (Rc AMIO_ERR_BACKEND_FAILURE, 0, w)
      else
        let sp = cf_staging_pool cfg;
            threads = wpc_threads (cf_worker_pool cfg);
            a = w_next w;
            (tok, table) = ht_insert Core (Some (At_Core a)) (w_table w);
            c = \<lparr>co_token = tok, co_datasets = [], co_next_dataset_id = 1,
                 co_staging_pool =
                   StagingPool (spc_buffer_count sp) (spc_buffer_capacity_bytes sp) (int (cf_staging_timeout_ms cfg))
                     (spc_max_buffer_count sp) Grow,
                 co_staging_timeout_ms = int (cf_staging_timeout_ms cfg),
                 co_worker_pool = (if threads > 0 then Some (WorkerPool (default_worker_config threads)) else None),
                 co_logs_initialized = True\<rparr>
        in (Rc AMIO_OK, tok, w\<lparr>w_table := table, w_cores := (w_cores w)(a \<mapsto> c), w_next := a + 1\<rparr>))"

definition no_error :: validation_error where
  "no_error = \<lparr>ve_field_path = [], ve_message = [], ve_line = 0\<rparr>"

definition init :: "('d, 'c) amio_env \<Rightarrow> string \<Rightarrow> ('d, 'c) world \<Rightarrow> call \<times> token \<times> ('d, 'c) world" where
  "init env manifest_path w =
     (case parse (en_from_file env) manifest_path Config no_error of
        (rc, cfg, _) \<Rightarrow> if rc \<noteq> AMIO_OK then (Rc rc, 0, w) else init_from_config env cfg w)"

definition init_from_string :: "('d, 'c) amio_env \<Rightarrow> string \<Rightarrow> string \<Rightarrow> ('d, 'c) world \<Rightarrow> call \<times> token \<times> ('d, 'c) world" where
  "init_from_string env manifest_content format w =
     (case parse_string (en_from_string env) manifest_content format Config no_error of
        (rc, cfg, _) \<Rightarrow> if rc \<noteq> AMIO_OK then (Rc rc, 0, w) else init_from_config env cfg w)"


section \<open>Opening a dataset\<close>

text \<open>The driver, built, given its communicator and opened; \<open>Inl\<close> the status of a failure.\<close>

definition open_driver :: "('d, 'c) amio_env \<Rightarrow> ('d, 'c) amio_core \<Rightarrow> config \<Rightarrow> manifest \<Rightarrow> int \<Rightarrow> amio_err + 'd" where
  "open_driver env c config manifest_cfg mode =
     (case factory_build (cf_backend config) (en_factory env) of
        (e, None) \<Rightarrow> Inl e
      | (_, Some d) \<Rightarrow>
          (case (if en_has_mpi env
                 then drv_set_communicator (en_ops env) (en_comm env (map_option wp_io_comm (co_worker_pool c))) d
                 else Inr d) of
             Inl x \<Rightarrow> Inl AMIO_ERR_BACKEND_FAILURE
           | Inr d1 \<Rightarrow>
               (case (if mode = AMIO_MODE_WRITE then drv_open_write (en_ops env) manifest_cfg d1
                      else drv_open_read (en_ops env) manifest_cfg d1) of
                  Inl x \<Rightarrow> Inl AMIO_ERR_BACKEND_FAILURE
                | Inr d2 \<Rightarrow> Inr d2)))"

definition open_dataset_from_config ::
  "('d, 'c) amio_env \<Rightarrow> nat \<Rightarrow> config \<Rightarrow> manifest \<Rightarrow> int \<Rightarrow> ('d, 'c) world \<Rightarrow> call \<times> token \<times> ('d, 'c) world" where
  "open_dataset_from_config env a config manifest_cfg mode w =
     (case w_cores w a of
        None \<Rightarrow> (Undef, 0, w)
      | Some c \<Rightarrow>
          (case open_driver env c config manifest_cfg mode of
             Inl e \<Rightarrow> (Rc e, 0, w)
           | Inr d \<Rightarrow>
               let i = co_next_dataset_id c;
                   (tok, table) = ht_insert Dataset (Some (At_Dataset a i)) (w_table w);
                   r = \<lparr>ds_manifest_config = manifest_cfg, ds_driver = d, ds_mode = mode, ds_token = tok, ds_id = i,
                        ds_pending_writes = 0, ds_has_failure = False, ds_first_failure_code = AMIO_OK,
                        ds_config = (if mode = AMIO_MODE_READ then config else Config), ds_variables = [],
                        ds_read_timeout_s =
                          (if mode = AMIO_MODE_READ then int (pfc_read_timeout_s (cf_prefetch config)) else 60),
                        ds_prefetch_depth = (if mode = AMIO_MODE_READ then pfc_depth (cf_prefetch config) else 4),
                        ds_outstanding_views = 0\<rparr>
               in (Rc AMIO_OK, tok,
                   upd_core a (\<lambda>c. c\<lparr>co_next_dataset_id := i + 1, co_datasets := AList.update i r (co_datasets c)\<rparr>)
                     (w\<lparr>w_table := table\<rparr>))))"

definition open_dataset :: "('d, 'c) amio_env \<Rightarrow> nat \<Rightarrow> string \<Rightarrow> int \<Rightarrow> ('d, 'c) world \<Rightarrow> call \<times> token \<times> ('d, 'c) world" where
  "open_dataset env a config_path mode w =
     (case parse (en_from_file env) config_path Config no_error of
        (rc, config, _) \<Rightarrow>
          if rc \<noteq> AMIO_OK then (Rc rc, 0, w)
          else case en_from_file env config_path of
              Inl _ \<Rightarrow> (Raised, 0, w)
            | Inr m \<Rightarrow> open_dataset_from_config env a config m mode w)"

definition open_dataset_from_string ::
  "('d, 'c) amio_env \<Rightarrow> nat \<Rightarrow> string \<Rightarrow> string \<Rightarrow> int \<Rightarrow> ('d, 'c) world \<Rightarrow> call \<times> token \<times> ('d, 'c) world" where
  "open_dataset_from_string env a config_content format mode w =
     (case parse_string (en_from_string env) config_content format Config no_error of
        (rc, config, _) \<Rightarrow>
          if rc \<noteq> AMIO_OK then (Rc rc, 0, w)
          else case en_from_string env config_content of
              Inl _ \<Rightarrow> (Raised, 0, w)
            | Inr m \<Rightarrow> open_dataset_from_config env a config m mode w)"


section \<open>Background activity\<close>

definition pq_world_of :: "('d, 'c) amio_core \<Rightarrow> variable_read_state \<Rightarrow> pq_world" where
  "pq_world_of c v =
     \<lparr>pw_q = vs_queue v, pw_pool = co_staging_pool c, pw_workers = (co_worker_pool c \<noteq> None),
      pw_tasks = vs_tasks v, pw_running = vs_running v\<rparr>"

definition put_queue :: "pq_world \<Rightarrow> variable_read_state \<Rightarrow> variable_read_state" where
  "put_queue p v = v\<lparr>vs_queue := pw_q p, vs_tasks := pw_tasks p, vs_running := pw_running p\<rparr>"

text \<open>Store what an operation on the queue of variable \<open>name\<close> did.\<close>

definition put_pq :: "nat \<Rightarrow> nat \<Rightarrow> string \<Rightarrow> pq_world \<Rightarrow> ('d, 'c) world \<Rightarrow> ('d, 'c) world" where
  "put_pq a i name p w =
     upd_ds a i (\<lambda>d. d\<lparr>ds_variables := map (\<lambda>(n, v). (n, if n = name then put_queue p v else v)) (ds_variables d)\<rparr>)
       (upd_pool a (\<lambda>_. pw_pool p) w)"

text \<open>
  The callback of a write: hand the staged buffer to the driver, note the outcome, give the buffer
  back and count down.  A failure is noted in the record but does not complete it.  The four are one
  step of the model, at the time the driver's write ends: the worker does them in this order without
  waiting for anyone, the flags, the pool (under its mutex) and the counter are set once each, and the
  states in between differ from the ones before and after only in that a completed write still holds
  its buffer or is still counted as pending.  The branch for a context or dataset that does not exist
  is never taken: the datasets of a context outlive its tasks (shown with the safety of the calls).
\<close>

definition note_outcome :: "exn option \<Rightarrow> io_record \<Rightarrow> io_record" where
  "note_outcome x r =
     (case x of
        None \<Rightarrow> r\<lparr>io_completed := True\<rparr>
      | Some _ \<Rightarrow> r\<lparr>io_failed := True, io_failure_code := AMIO_ERR_BACKEND_FAILURE\<rparr>)"

definition note_failure :: "exn option \<Rightarrow> 'd dataset_record \<Rightarrow> 'd dataset_record" where
  "note_failure x d =
     (case x of
        None \<Rightarrow> d
      | Some _ \<Rightarrow> d\<lparr>ds_has_failure := True,
          ds_first_failure_code :=
            (if ds_first_failure_code d = AMIO_OK then AMIO_ERR_BACKEND_FAILURE else ds_first_failure_code d)\<rparr>)"

definition write_callback :: "('d, 'c) amio_env \<Rightarrow> write_job \<Rightarrow> ('d, 'c) world \<Rightarrow> ('d, 'c) world" where
  "write_callback env j w =
     (case (w_cores w (wj_core j), ds_at w (wj_core j) (wj_dataset j)) of
        (Some c, Some d) \<Rightarrow>
          (case drv_write (en_ops env) (buf (co_staging_pool c) (wj_buf j)) (wj_meta j) (ds_driver d) of
             (x, dr) \<Rightarrow>
               upd_ds (wj_core j) (wj_dataset j)
                 (\<lambda>d. (note_failure x d)\<lparr>ds_driver := dr, ds_pending_writes := ds_pending_writes d - 1\<rparr>)
                 (upd_pool (wj_core j) (pool_release (wj_buf j)) (upd_io (wj_io j) (note_outcome x) w)))
      | _ \<Rightarrow> w)"

text \<open>
  One step of a worker thread of context \<open>a\<close>: it polls the write queue; it ends the task at a position
  of the running list; it takes a dispatched fetch of a variable, whose wait for a buffer may have
  ended with the timeout; it ends a running fetch.  A worker that waits for a buffer changes nothing,
  so its wait is the absence of its step.
\<close>

datatype core_act =
    ActPoll nat
  | ActDone nat nat
  | FetchBegin nat nat string nat bool
  | FetchEnd nat nat string nat

definition expired :: "wake list" where
  "expired = [\<lparr>wk_others = [], wk_timeout = True\<rparr>]"

definition fetch_step ::
  "('d, 'c) amio_env \<Rightarrow> nat \<Rightarrow> nat \<Rightarrow> string \<Rightarrow> pq_act \<Rightarrow> ('d, 'c) world \<Rightarrow> ('d, 'c) world" where
  "fetch_step env a i name act w =
     (case (w_cores w a, ds_at w a i) of
        (Some c, Some d) \<Rightarrow>
          (case map_of (ds_variables d) name of
             Some v \<Rightarrow> put_pq a i name (pq_step (en_alloc env) (drv_read (en_ops env) (ds_driver d)) act (pq_world_of c v)) w
           | None \<Rightarrow> w)
      | _ \<Rightarrow> w)"

definition upd_workers ::
  "nat \<Rightarrow> ((write_job, 'c) worker_pool \<Rightarrow> (write_job, 'c) worker_pool) \<Rightarrow> ('d, 'c) world \<Rightarrow> ('d, 'c) world" where
  "upd_workers a f = upd_core a (\<lambda>c. c\<lparr>co_worker_pool := map_option f (co_worker_pool c)\<rparr>)"

fun core_step :: "('d, 'c) amio_env \<Rightarrow> core_act \<Rightarrow> ('d, 'c) world \<Rightarrow> ('d, 'c) world" where
  "core_step env (ActPoll a) w = upd_workers a (\<lambda>wp. snd (try_execute_one 0 wp)) w"
| "core_step env (ActDone a n) w =
     (case w_cores w a of
        Some c \<Rightarrow>
          (case co_worker_pool c of
             Some wp \<Rightarrow>
               if n < length (wp_running wp) then
                 (case wp_running wp ! n of
                    RunWrite t \<Rightarrow>
                      upd_workers a (finish_write (en_trace env) n t None) (write_callback env (wt_callback t) w)
                  | _ \<Rightarrow> w)
               else w
           | None \<Rightarrow> w)
      | None \<Rightarrow> w)"
| "core_step env (FetchBegin a i name j timed_out) w =
     fetch_step env a i name (ActBegin j (if timed_out then expired else [])) w"
| "core_step env (FetchEnd a i name j) w = fetch_step env a i name (ActFinish j) w"

fun core_run :: "('d, 'c) amio_env \<Rightarrow> core_act list \<Rightarrow> ('d, 'c) world \<Rightarrow> ('d, 'c) world" where
  "core_run env [] w = w"
| "core_run env (x # xs) w = core_run env xs (core_step env x w)"

text \<open>
  A polling loop: check the condition, then the clock (milliseconds since the call), then sleep while
  the others act.
\<close>

record poll =
  pl_elapsed :: int
  pl_others :: "core_act list"

datatype poll_end = PollDone | PollExpired | Polling

fun poll_until ::
  "('d, 'c) amio_env \<Rightarrow> (('d, 'c) world \<Rightarrow> bool) \<Rightarrow> int \<Rightarrow> poll list \<Rightarrow> ('d, 'c) world \<Rightarrow> poll_end \<times> ('d, 'c) world" where
  "poll_until env fin limit [] w = ((if fin w then PollDone else Polling), w)"
| "poll_until env fin limit (p # ps) w =
     (if fin w then (PollDone, w)
      else if pl_elapsed p \<ge> limit then (PollExpired, w)
      else poll_until env fin limit ps (core_run env (pl_others p) w))"


section \<open>Closing, flushing, waiting\<close>

definition cancel_variables :: "nat \<Rightarrow> nat \<Rightarrow> ('d, 'c) world \<Rightarrow> ('d, 'c) world" where
  "cancel_variables a i w =
     (case ds_at w a i of
        None \<Rightarrow> w
      | Some d \<Rightarrow>
          foldl (\<lambda>w (name, v). case w_cores w a of
                    Some c \<Rightarrow> put_pq a i name (cancel_pending (pq_world_of c v)) w
                  | None \<Rightarrow> w) w (ds_variables d))"

definition no_pending :: "nat \<Rightarrow> nat \<Rightarrow> ('d, 'c) world \<Rightarrow> bool" where
  "no_pending a i w \<longleftrightarrow> (case ds_at w a i of Some d \<Rightarrow> ds_pending_writes d = 0 | None \<Rightarrow> True)"

definition surface :: "'d dataset_record \<Rightarrow> amio_err" where
  "surface d = (if ds_has_failure d then ds_first_failure_code d else AMIO_OK)"

definition worse :: "amio_err \<Rightarrow> exn option \<Rightarrow> amio_err" where
  "worse result x = (if x \<noteq> None \<and> result = AMIO_OK then AMIO_ERR_BACKEND_FAILURE else result)"

definition close_dataset ::
  "('d, 'c) amio_env \<Rightarrow> nat \<Rightarrow> nat \<Rightarrow> poll list \<Rightarrow> ('d, 'c) world \<Rightarrow> call \<times> ('d, 'c) world" where
  "close_dataset env a i polls w =
     (case ds_at w a i of
        None \<Rightarrow> (Undef, w)
      | Some d0 \<Rightarrow>
          if ds_outstanding_views d0 > 0 then (Rc AMIO_ERR_VIEWS_OUTSTANDING, w)
          else
            (case poll_until env (no_pending a i) 30000 polls (cancel_variables a i w) of
               (Polling, w1) \<Rightarrow> (Waits, w1)
             | (_, w1) \<Rightarrow>
                 (case ds_at w1 a i of
                    None \<Rightarrow> (Undef, w1)
                  | Some d \<Rightarrow>
                      let (x1, dr1) = drv_flush (en_ops env) (ds_driver d);
                          (x2, dr2) = drv_close (en_ops env) dr1;
                          result = worse (worse (surface d) x1) x2;
                          w2 = upd_ds a i (\<lambda>d. d\<lparr>ds_driver := dr2\<rparr>) w1
                      in (Rc result, w2\<lparr>w_table := snd (ht_release (ds_token d) Dataset (w_table w2))\<rparr>))))"

definition poll_limit :: "int \<Rightarrow> int" where
  "poll_limit timeout_ms = (if timeout_ms > 0 then timeout_ms else 86400000)"

definition flush :: "('d, 'c) amio_env \<Rightarrow> nat \<Rightarrow> nat \<Rightarrow> int \<Rightarrow> poll list \<Rightarrow> ('d, 'c) world \<Rightarrow> call \<times> ('d, 'c) world" where
  "flush env a i timeout_ms polls w =
     (case ds_at w a i of
        None \<Rightarrow> (Undef, w)
      | Some d0 \<Rightarrow>
          if ds_pending_writes d0 = 0 then (Rc (surface d0), w)
          else
            (case poll_until env (no_pending a i) (poll_limit timeout_ms) polls w of
               (Polling, w1) \<Rightarrow> (Waits, w1)
             | (PollExpired, w1) \<Rightarrow> (Rc AMIO_ERR_TIMEOUT, w1)
             | (PollDone, w1) \<Rightarrow>
                 (case ds_at w1 a i of None \<Rightarrow> (Undef, w1) | Some d \<Rightarrow> (Rc (surface d), w1))))"

definition io_done :: "nat \<Rightarrow> ('d, 'c) world \<Rightarrow> bool" where
  "io_done x w \<longleftrightarrow> (case w_ios w x of Some r \<Rightarrow> io_completed r | None \<Rightarrow> True)"

definition io_status :: "io_record \<Rightarrow> amio_err" where
  "io_status r = (if io_failed r then io_failure_code r else AMIO_OK)"

definition wait :: "('d, 'c) amio_env \<Rightarrow> nat \<Rightarrow> int \<Rightarrow> poll list \<Rightarrow> ('d, 'c) world \<Rightarrow> call \<times> ('d, 'c) world" where
  "wait env x timeout_ms polls w =
     (case w_ios w x of
        None \<Rightarrow> (Undef, w)
      | Some r0 \<Rightarrow>
          if io_completed r0 then (Rc (io_status r0), w)
          else
            (case poll_until env (io_done x) (poll_limit timeout_ms) polls w of
               (Polling, w1) \<Rightarrow> (Waits, w1)
             | (PollExpired, w1) \<Rightarrow> (Rc AMIO_ERR_TIMEOUT, w1)
             | (PollDone, w1) \<Rightarrow>
                 (case w_ios w1 x of None \<Rightarrow> (Undef, w1) | Some r \<Rightarrow> (Rc (io_status r), w1))))"


section \<open>Writing\<close>

text \<open>
  \<^verbatim>\<open>StagingPool::acquire\<close> as the host thread runs it: while it waits on the condition variable the worker
  threads act, and the wait ends with a notification or with the timeout.
\<close>

record core_wake =
  ck_others :: "core_act list"
  ck_timeout :: bool

definition pool_try ::
  "(staging_pool \<Rightarrow> (acquire_result \<times> staging_pool) option) \<Rightarrow> nat \<Rightarrow> ('d, 'c) world \<Rightarrow> (acquire_result \<times> ('d, 'c) world) option" where
  "pool_try f a w =
     (case w_cores w a of
        None \<Rightarrow> None
      | Some c \<Rightarrow> map_option (\<lambda>(r, p). (r, upd_pool a (\<lambda>_. p) w)) (f (co_staging_pool c)))"

fun core_acquire ::
  "('d, 'c) amio_env \<Rightarrow> nat \<Rightarrow> nat \<Rightarrow> core_wake list \<Rightarrow> ('d, 'c) world \<Rightarrow> acquire_result \<times> ('d, 'c) world" where
  "core_acquire env a n ks w =
     (case pool_try (acquire_pass (en_alloc env) n) a w of
        Some r \<Rightarrow> r
      | None \<Rightarrow>
          (case ks of
             [] \<Rightarrow> (StillWaiting, w)
           | k # ks' \<Rightarrow>
               let w1 = core_run env (ck_others k) w
               in if ck_timeout k
                  then (case pool_try (take_free (en_alloc env) n) a w1 of Some r \<Rightarrow> r | None \<Rightarrow> (NoBuffer, w1))
                  else core_acquire env a n ks' w1))"

declare core_acquire.simps [simp del]

text \<open>The order key of a variable: \<^verbatim>\<open>char\<close> is signed, the product wraps at 64 bits.\<close>

definition var_hash :: "string \<Rightarrow> u64" where
  "var_hash name = foldl (\<lambda>h c. h * 31 + scast (of_char c :: 8 word)) 0 name"

definition write_meta :: "nat \<Rightarrow> string \<Rightarrow> amio_dtype \<Rightarrow> amio_shape \<Rightarrow> var_meta" where
  "write_meta i name dtype shape =
     \<lparr>vm_dataset_id = i, vm_variable_id = unat (var_hash name), vm_name = name, vm_dtype = dtype,
      vm_shape = shape, vm_timestep = - 1\<rparr>"

definition payload_bytes :: "amio_dtype \<Rightarrow> amio_shape \<Rightarrow> nat" where
  "payload_bytes dtype shape = size_t (compute_element_count shape * element_size dtype)"

definition write_input_ok :: "amio_dtype \<Rightarrow> amio_shape \<Rightarrow> bool" where
  "write_input_ok dtype shape \<longleftrightarrow>
     element_size dtype \<noteq> 0 \<and> validate_shape shape \<and> payload_bytes dtype shape \<noteq> 0"

text \<open>
  Steps 6 to 8, with the payload staged in buffer \<open>b\<close>: create the tracking record and its handle, then
  submit the task and account for it, or complete at once when there are no workers.  \<open>race\<close> is what the
  workers do between the submission and the accounting.
\<close>

definition enqueue_io ::
  "('d, 'c) amio_env \<Rightarrow> nat \<Rightarrow> nat \<Rightarrow> var_meta \<Rightarrow> nat \<Rightarrow> core_act list \<Rightarrow> ('d, 'c) world \<Rightarrow> call \<times> token \<times> ('d, 'c) world" where
  "enqueue_io env a i meta b race w =
     (let x = w_next w;
          (tok, table) = ht_insert Io (Some (At_Io x)) (w_table w);
          r = \<lparr>io_dataset_id = i, io_dv_seq = 0, io_token = tok, io_staging_buf = b, io_core = a,
               io_completed = False, io_failed = False, io_failure_code = AMIO_OK\<rparr>;
          w1 = w\<lparr>w_table := table, w_ios := (w_ios w)(x \<mapsto> r), w_next := x + 1\<rparr>
      in case w_cores w a of
           None \<Rightarrow> (Undef, 0, w)
         | Some c \<Rightarrow>
             (case co_worker_pool c of
                None \<Rightarrow>
                  (Rc AMIO_OK, tok, upd_pool a (pool_release b) (upd_io x (\<lambda>r. r\<lparr>io_completed := True\<rparr>) w1))
              | Some wp \<Rightarrow>
                  (case submit_write_core \<lparr>dataset_id = i, variable_id = vm_variable_id meta\<rparr> tok
                          \<lparr>wj_buf = b, wj_core = a, wj_dataset = i, wj_io = x, wj_meta = meta\<rparr> wp of
                     (Blocked, wp1) \<Rightarrow> (Waits, 0, upd_workers a (\<lambda>_. wp1) w1)
                   | (res, wp1) \<Rightarrow>
                       let w2 = core_run env race (upd_workers a (\<lambda>_. wp1) w1);
                           w3 = upd_io x (\<lambda>r. r\<lparr>io_dv_seq := snd (submit_return res)\<rparr>) w2
                       in (Rc AMIO_OK, tok, upd_ds a i (\<lambda>d. d\<lparr>ds_pending_writes := ds_pending_writes d + 1\<rparr>) w3))))"

text \<open>\<open>host\<close> is the host's memory from \<^verbatim>\<open>host_data\<close> on.\<close>

definition core_write ::
  "('d, 'c) amio_env \<Rightarrow> nat \<Rightarrow> nat \<Rightarrow> string \<Rightarrow> byte list \<Rightarrow> amio_dtype \<Rightarrow> amio_shape \<Rightarrow> core_wake list
     \<Rightarrow> core_act list \<Rightarrow> ('d, 'c) world \<Rightarrow> call \<times> token \<times> ('d, 'c) world" where
  "core_write env a i var_name host dtype shape waits race w =
     (if ds_at w a i = None then (Undef, 0, w)
      else if \<not> write_input_ok dtype shape then (Rc AMIO_ERR_INVALID_INPUT, 0, w)
      else let n = payload_bytes dtype shape
        in case core_acquire env a n waits w of
             (NoBuffer, w1) \<Rightarrow> (Rc AMIO_ERR_STAGING_BACKPRESSURE, 0, w1)
           | (BadAlloc, w1) \<Rightarrow> (Raised, 0, w1)
           | (StillWaiting, w1) \<Rightarrow> (Waits, 0, w1)
           | (Acquired b, w1) \<Rightarrow>
               if length host < n then (Undef, 0, w1)
               else enqueue_io env a i (write_meta i var_name dtype shape) b race
                      (upd_pool a (fill_buffer b (take n host) n) w1))"


section \<open>Reading\<close>

datatype resolved = Resolved variable_read_state | Unresolved | ResolveRaised

definition resolve_variable :: "('d, 'c) amio_env \<Rightarrow> nat \<Rightarrow> nat \<Rightarrow> string \<Rightarrow> ('d, 'c) world \<Rightarrow> resolved \<times> ('d, 'c) world" where
  "resolve_variable env a i name w =
     (case ds_at w a i of
        None \<Rightarrow> (Unresolved, w)
      | Some d \<Rightarrow>
          (case map_of (ds_variables d) name of
             Some v \<Rightarrow> (Resolved v, w)
           | None \<Rightarrow>
               (case drv_describe (en_ops env) name (ds_driver d) of
                  Inl x \<Rightarrow> (ResolveRaised, w)
                | Inr info \<Rightarrow>
                    if \<not> vi_found info then (Unresolved, w)
                    else
                      let pf = cf_prefetch (ds_config d);
                          v = \<lparr>vs_name = name, vs_info = info,
                               vs_queue = PrefetchQueue (pfc_depth pf) (int (pfc_read_timeout_s pf)) i name info
                                 (vi_total_timesteps info),
                               vs_tasks = [], vs_running = []\<rparr>
                      in (Resolved v, upd_ds a i (\<lambda>d. d\<lparr>ds_variables := ds_variables d @ [(name, v)]\<rparr>) w))))"

text \<open>The out parameters of \<^verbatim>\<open>describe\<close> are written on success only.\<close>

definition describe ::
  "('d, 'c) amio_env \<Rightarrow> nat \<Rightarrow> nat \<Rightarrow> string \<Rightarrow> ('d, 'c) world \<Rightarrow> call \<times> (amio_shape \<times> int) option \<times> ('d, 'c) world" where
  "describe env a i var_name w =
     (case ds_at w a i of
        None \<Rightarrow> (Undef, None, w)
      | Some d \<Rightarrow>
          if var_name = [] then (Rc AMIO_ERR_INVALID_INPUT, None, w)
          else if ds_mode d \<noteq> AMIO_MODE_READ then (Rc AMIO_ERR_INVALID_INPUT, None, w)
          else
            (case resolve_variable env a i var_name w of
               (ResolveRaised, w1) \<Rightarrow> (Raised, None, w1)
             | (Unresolved, w1) \<Rightarrow> (Rc AMIO_ERR_BACKEND_FAILURE, None, w1)
             | (Resolved v, w1) \<Rightarrow>
                 (Rc AMIO_OK, Some (vi_shape (vs_info v), vi_total_timesteps (vs_info v)), w1)))"

text \<open>\<open>cap_opt\<close> is the capacity of the caller's buffer, \<open>None\<close> without one; the result is the length and what is copied.\<close>

definition get_var_attribute_text ::
  "('d, 'c) amio_env \<Rightarrow> nat \<Rightarrow> nat \<Rightarrow> string option \<Rightarrow> string \<Rightarrow> nat option \<Rightarrow> ('d, 'c) world
     \<Rightarrow> call \<times> (nat \<times> string option) option" where
  "get_var_attribute_text env a i var_name attr_name cap_opt w =
     (case ds_at w a i of
        None \<Rightarrow> (Undef, None)
      | Some d \<Rightarrow>
          if attr_name = [] then (Rc AMIO_ERR_INVALID_INPUT, None)
          else if cap_opt = Some 0 then (Rc AMIO_ERR_INVALID_INPUT, None)
          else if ds_mode d \<noteq> AMIO_MODE_READ then (Rc AMIO_ERR_INVALID_INPUT, None)
          else
            (case drv_text_attribute (en_ops env) (case var_name of None \<Rightarrow> [] | Some n \<Rightarrow> n) attr_name (ds_driver d) of
               Inl x \<Rightarrow> (Raised, None)
             | Inr None \<Rightarrow> (Rc AMIO_ERR_BACKEND_FAILURE, None)
             | Inr (Some v) \<Rightarrow>
                 (Rc AMIO_OK,
                  Some (length v, map_option (\<lambda>cap. take (min (length v) (cap - 1)) v @ [CHR 0x00]) cap_opt))))"

definition get_var_attribute_double ::
  "('d, 'c) amio_env \<Rightarrow> nat \<Rightarrow> nat \<Rightarrow> string option \<Rightarrow> string \<Rightarrow> ('d, 'c) world \<Rightarrow> call \<times> u64 option" where
  "get_var_attribute_double env a i var_name attr_name w =
     (case ds_at w a i of
        None \<Rightarrow> (Undef, None)
      | Some d \<Rightarrow>
          if attr_name = [] then (Rc AMIO_ERR_INVALID_INPUT, None)
          else if ds_mode d \<noteq> AMIO_MODE_READ then (Rc AMIO_ERR_INVALID_INPUT, None)
          else
            (case drv_numeric_attribute (en_ops env) (case var_name of None \<Rightarrow> [] | Some n \<Rightarrow> n) attr_name (ds_driver d) of
               Inl x \<Rightarrow> (Raised, None)
             | Inr None \<Rightarrow> (Rc AMIO_ERR_BACKEND_FAILURE, None)
             | Inr (Some v) \<Rightarrow> (Rc AMIO_OK, Some v)))"


text \<open>
  \<^verbatim>\<open>get_buffer\<close> of the prefetch queue as the host thread runs it.  Up to the first wait, and from a wake-up to
  the next wait, it is the code of the queue; while it waits the worker threads act.
\<close>

definition on_queue ::
  "(reader \<Rightarrow> pq_world \<Rightarrow> 'r \<times> pq_world) \<Rightarrow> ('d, 'c) amio_env \<Rightarrow> nat \<Rightarrow> nat \<Rightarrow> string \<Rightarrow> ('d, 'c) world
     \<Rightarrow> ('r \<times> ('d, 'c) world) option" where
  "on_queue f env a i name w =
     (case (w_cores w a, ds_at w a i) of
        (Some c, Some d) \<Rightarrow>
          (case map_of (ds_variables d) name of
             Some v \<Rightarrow>
               (let (r, p) = f (drv_read (en_ops env) (ds_driver d)) (pq_world_of c v)
                in Some (r, put_pq a i name p w))
           | None \<Rightarrow> None)
      | _ \<Rightarrow> None)"

fun get_more ::
  "('d, 'c) amio_env \<Rightarrow> nat \<Rightarrow> nat \<Rightarrow> string \<Rightarrow> int \<Rightarrow> amio_bbox option \<Rightarrow> core_wake list \<Rightarrow> ('d, 'c) world
     \<Rightarrow> get_result \<times> ('d, 'c) world" where
  "get_more env a i name t req [] w = (GetWaiting, w)"
| "get_more env a i name t req (k # ks) w =
     (let w1 = core_run env (ck_others k) w
      in if ck_timeout k then
           (case on_queue (\<lambda>rd. get_last t) env a i name w1 of Some r \<Rightarrow> r | None \<Rightarrow> (GetWaiting, w1))
         else
           (case on_queue (\<lambda>rd. get_loop (en_alloc env) rd expired t req []) env a i name w1 of
              Some (GetWaiting, w2) \<Rightarrow> get_more env a i name t req ks w2
            | Some r \<Rightarrow> r
            | None \<Rightarrow> (GetWaiting, w1)))"

definition core_get_buffer ::
  "('d, 'c) amio_env \<Rightarrow> nat \<Rightarrow> nat \<Rightarrow> string \<Rightarrow> int \<Rightarrow> amio_bbox option \<Rightarrow> core_wake list \<Rightarrow> ('d, 'c) world
     \<Rightarrow> get_result \<times> ('d, 'c) world" where
  "core_get_buffer env a i name t req ks w =
     (case on_queue (\<lambda>rd. get_buffer (en_alloc env) rd expired t req []) env a i name w of
        Some (GetWaiting, w1) \<Rightarrow> get_more env a i name t req ks w1
      | Some r \<Rightarrow> r
      | None \<Rightarrow> (GetWaiting, w))"

definition view_shape_of :: "amio_bbox option \<Rightarrow> variable_info \<Rightarrow> amio_shape" where
  "view_shape_of bbox info =
     (case bbox of
        Some b \<Rightarrow> \<lparr>sh_rank = bb_rank b, sh_extents = copy_dims (bb_rank b) (bb_extents b),
                   sh_strides = copy_dims (bb_rank b) (bb_strides b)\<rparr>
      | None \<Rightarrow> vi_shape info)"

text \<open>Steps 4 to 6, with the data in buffer \<open>b\<close>: the view, its handle, the count, and the next fetch.\<close>

definition make_view ::
  "('d, 'c) amio_env \<Rightarrow> nat \<Rightarrow> nat \<Rightarrow> variable_read_state \<Rightarrow> int \<Rightarrow> amio_bbox option \<Rightarrow> nat \<Rightarrow> ('d, 'c) world
     \<Rightarrow> call \<times> token \<times> ('d, 'c) world" where
  "make_view env a i v t bbox b w =
     (let x = w_next w;
          (tok, table) = ht_insert View (Some (At_View x)) (w_table w);
          r = \<lparr>vw_staging_buf = b, vw_token = tok, vw_core = a, vw_dataset_id = i, vw_timestep = t,
               vw_shape = view_shape_of bbox (vs_info v), vw_dtype = vi_dtype (vs_info v)\<rparr>;
          w1 = w\<lparr>w_table := table, w_views := w_views w @ [(x, r)], w_next := x + 1\<rparr>;
          w2 = upd_ds a i (\<lambda>d. d\<lparr>ds_outstanding_views := ds_outstanding_views d + 1\<rparr>) w1
      in case on_queue (\<lambda>rd. schedule_next (en_alloc env) rd expired t) env a i (vs_name v) w2 of
           Some (FetchDone, w3) \<Rightarrow> (Rc AMIO_OK, tok, w3)
         | Some (FetchThrown, w3) \<Rightarrow> (Raised, 0, w3)
         | Some (_, w3) \<Rightarrow> (Waits, 0, w3)
         | None \<Rightarrow> (Undef, 0, w2))"

definition core_read ::
  "('d, 'c) amio_env \<Rightarrow> nat \<Rightarrow> nat \<Rightarrow> string \<Rightarrow> int \<Rightarrow> amio_bbox option \<Rightarrow> core_wake list \<Rightarrow> ('d, 'c) world
     \<Rightarrow> call \<times> token \<times> ('d, 'c) world" where
  "core_read env a i var_name t bbox ks w =
     (case ds_at w a i of
        None \<Rightarrow> (Undef, 0, w)
      | Some d \<Rightarrow>
          if var_name = [] then (Rc AMIO_ERR_INVALID_INPUT, 0, w)
          else if ds_mode d \<noteq> AMIO_MODE_READ then (Rc AMIO_ERR_INVALID_INPUT, 0, w)
          else if t < 0 then (Rc AMIO_ERR_INVALID_INPUT, 0, w)
          else
            (case resolve_variable env a i var_name w of
               (ResolveRaised, w1) \<Rightarrow> (Raised, 0, w1)
             | (Unresolved, w1) \<Rightarrow> (Rc AMIO_ERR_BACKEND_FAILURE, 0, w1)
             | (Resolved v, w1) \<Rightarrow>
                 if t \<ge> vi_total_timesteps (vs_info v) then (Rc AMIO_ERR_INVALID_INPUT, 0, w1)
                 else if validate_bbox bbox (vi_shape (vs_info v)) \<noteq> AMIO_OK
                 then (Rc (validate_bbox bbox (vi_shape (vs_info v))), 0, w1)
                 else
                   (case core_get_buffer env a i var_name t bbox ks w1 of
                      (GetThrown, w2) \<Rightarrow> (Raised, 0, w2)
                    | (GetWaiting, w2) \<Rightarrow> (Waits, 0, w2)
                    | (GotStatus e bo, w2) \<Rightarrow>
                        if e \<noteq> AMIO_OK then (Rc e, 0, w2)
                        else case bo of
                            None \<Rightarrow> (Rc AMIO_ERR_BACKEND_FAILURE, 0, w2)
                          | Some b \<Rightarrow> make_view env a i v t bbox b w2)))"


section \<open>Views\<close>

definition release_view :: "nat \<Rightarrow> ('d, 'c) world \<Rightarrow> call \<times> ('d, 'c) world" where
  "release_view x w =
     (case map_of (w_views w) x of
        None \<Rightarrow> (Undef, w)
      | Some v \<Rightarrow>
          if w_cores w (vw_core v) = None then (Undef, w)
          else
            let w1 = upd_pool (vw_core v) (pool_release (vw_staging_buf v)) w;
                w2 = upd_ds (vw_core v) (vw_dataset_id v)
                       (\<lambda>d. d\<lparr>ds_outstanding_views := ds_outstanding_views d - 1\<rparr>) w1
            in (Rc AMIO_OK,
                w2\<lparr>w_table := snd (ht_release (vw_token v) View (w_table w2)), w_views := AList.delete x (w_views w2)\<rparr>))"

text \<open>The storage the returned pointer points to, and \<^verbatim>\<open>used_bytes\<close>.\<close>

definition view_data :: "nat \<Rightarrow> ('d, 'c) world \<Rightarrow> call \<times> (byte list option \<times> nat)" where
  "view_data x w =
     (case map_of (w_views w) x of
        None \<Rightarrow> (Undef, None, 0)
      | Some v \<Rightarrow>
          (case w_cores w (vw_core v) of
             None \<Rightarrow> (Undef, None, 0)
           | Some c \<Rightarrow> (let b = buf (co_staging_pool c) (vw_staging_buf v) in (Rc AMIO_OK, sb_data b, sb_used b))))"

definition view_shape :: "nat \<Rightarrow> ('d, 'c) world \<Rightarrow> call \<times> amio_shape option" where
  "view_shape x w = (case map_of (w_views w) x of None \<Rightarrow> (Undef, None) | Some v \<Rightarrow> (Rc AMIO_OK, Some (vw_shape v)))"

definition view_dtype :: "nat \<Rightarrow> ('d, 'c) world \<Rightarrow> call \<times> amio_dtype option" where
  "view_dtype x w = (case map_of (w_views w) x of None \<Rightarrow> (Undef, None) | Some v \<Rightarrow> (Rc AMIO_OK, Some (vw_dtype v)))"


section \<open>Finalizing\<close>

text \<open>All worker threads have returned: nothing is queued or running.\<close>

definition all_idle :: "('d, 'c) amio_core \<Rightarrow> bool" where
  "all_idle c \<longleftrightarrow>
     (case co_worker_pool c of None \<Rightarrow> True | Some wp \<Rightarrow> worker_exits wp \<and> wp_running wp = [])
     \<and> list_all (\<lambda>(i, d). list_all (\<lambda>(n, v). vs_tasks v = [] \<and> vs_running v = []) (ds_variables d)) (co_datasets c)"

definition flush_and_close :: "'d driver_ops \<Rightarrow> 'd \<Rightarrow> 'd" where
  "flush_and_close ops d =
     (case drv_flush ops d of (Some x, d1) \<Rightarrow> d1 | (None, d1) \<Rightarrow> snd (drv_close ops d1))"

definition release_datasets :: "'d dataset_record list \<Rightarrow> payload handle_table \<Rightarrow> payload handle_table" where
  "release_datasets ds t =
     foldl (\<lambda>t d. if ds_token d \<noteq> 0 then snd (ht_release (ds_token d) Dataset t) else t) t ds"

text \<open>
  \<open>draining\<close> is what the workers do during \<^verbatim>\<open>drain\<close>, \<open>joining\<close> what they do after the shutdown flag is set; the
  second result is the drivers as they are destroyed.
\<close>

definition finalize ::
  "('d, 'c) amio_env \<Rightarrow> nat \<Rightarrow> core_act list \<Rightarrow> core_act list \<Rightarrow> ('d, 'c) world \<Rightarrow> call \<times> 'd list \<times> ('d, 'c) world" where
  "finalize env a draining joining w =
     (case w_cores w a of
        None \<Rightarrow> (Undef, [], w)
      | Some c0 \<Rightarrow>
          let w1 = (if co_worker_pool c0 = None then w
                    else core_run env joining (upd_workers a shutdown (core_run env draining w)))
          in case w_cores w1 a of
               None \<Rightarrow> (Undef, [], w1)
             | Some c \<Rightarrow>
                 if \<not> all_idle c then (Waits, [], w1)
                 else
                   let ds = map snd (co_datasets c);
                       t1 = release_datasets ds (w_table w1);
                       t2 = snd (ht_release (co_token c) Core t1)
                   in (Rc AMIO_OK, map (\<lambda>d. flush_and_close (en_ops env) (ds_driver d)) ds,
                       w1\<lparr>w_table := t2, w_cores := (w_cores w1)(a := None)\<rparr>))"

end
