(* ===== verification/Amio_Api.thy ===== *)
theory Amio_Api
  imports Amio_Core
begin

text \<open>
  The C entry points of \<^verbatim>\<open>src/c_boundary/amio_api.cpp\<close>: argument checks, the handle lookup, the exception
  cordon, and the call of the private entry point.  A handle is the token it was minted from, 0 the
  null pointer; a pointer argument that may be null is an option; \<open>out\<close> says whether the out pointer
  was given.  The out value is what the call leaves there.
\<close>

definition kind_dispatch ::
  "token \<Rightarrow> handle_kind \<Rightarrow> 'o \<Rightarrow> (payload \<Rightarrow> ('d, 'c) world \<Rightarrow> call \<times> 'o \<times> ('d, 'c) world) \<Rightarrow> ('d, 'c) world
     \<Rightarrow> call \<times> 'o \<times> ('d, 'c) world" where
  "kind_dispatch handle expected none_out op w =
     (if handle = 0 then (Rc AMIO_ERR_NULL_HANDLE, none_out, w)
      else case ht_lookup handle expected True (w_table w) of
          (AMIO_OK, None) \<Rightarrow> (Undef, none_out, w)
        | (AMIO_OK, Some p) \<Rightarrow>
            (case op p w of
               (Raised, x, w1) \<Rightarrow> (Rc AMIO_ERR_BACKEND_FAILURE, x, w1)
             | r \<Rightarrow> r)
        | (rc, _) \<Rightarrow> (Rc rc, none_out, w))"

text \<open>The static casts of the payload.\<close>

fun on_core :: "'o \<Rightarrow> (nat \<Rightarrow> ('d, 'c) world \<Rightarrow> call \<times> 'o \<times> ('d, 'c) world) \<Rightarrow> payload \<Rightarrow> ('d, 'c) world \<Rightarrow> call \<times> 'o \<times> ('d, 'c) world" where
  "on_core z f (At_Core a) w = f a w"
| "on_core z f _ w = (Undef, z, w)"

fun on_dataset :: "'o \<Rightarrow> (nat \<Rightarrow> nat \<Rightarrow> ('d, 'c) world \<Rightarrow> call \<times> 'o \<times> ('d, 'c) world) \<Rightarrow> payload \<Rightarrow> ('d, 'c) world \<Rightarrow> call \<times> 'o \<times> ('d, 'c) world" where
  "on_dataset z f (At_Dataset a i) w = f a i w"
| "on_dataset z f _ w = (Undef, z, w)"

fun on_io :: "'o \<Rightarrow> (nat \<Rightarrow> ('d, 'c) world \<Rightarrow> call \<times> 'o \<times> ('d, 'c) world) \<Rightarrow> payload \<Rightarrow> ('d, 'c) world \<Rightarrow> call \<times> 'o \<times> ('d, 'c) world" where
  "on_io z f (At_Io x) w = f x w"
| "on_io z f _ w = (Undef, z, w)"

fun on_view :: "'o \<Rightarrow> (nat \<Rightarrow> ('d, 'c) world \<Rightarrow> call \<times> 'o \<times> ('d, 'c) world) \<Rightarrow> payload \<Rightarrow> ('d, 'c) world \<Rightarrow> call \<times> 'o \<times> ('d, 'c) world" where
  "on_view z f (At_View x) w = f x w"
| "on_view z f _ w = (Undef, z, w)"

definition cordon :: "call \<times> token \<times> ('d, 'c) world \<Rightarrow> call \<times> token \<times> ('d, 'c) world" where
  "cordon r = (case r of (Raised, x, w) \<Rightarrow> (Rc AMIO_ERR_BACKEND_FAILURE, x, w) | _ \<Rightarrow> r)"

definition amio_init ::
  "('d, 'c) amio_env \<Rightarrow> string option \<Rightarrow> bool \<Rightarrow> ('d, 'c) world \<Rightarrow> call \<times> token \<times> ('d, 'c) world" where
  "amio_init env manifest_path out w =
     (if \<not> out then (Rc AMIO_ERR_INVALID_INPUT, 0, w)
      else case manifest_path of
          None \<Rightarrow> (Rc AMIO_ERR_INVALID_INPUT, 0, w)
        | Some path \<Rightarrow> cordon (init env path w))"

definition amio_init_from_string ::
  "('d, 'c) amio_env \<Rightarrow> string option \<Rightarrow> string option \<Rightarrow> bool \<Rightarrow> ('d, 'c) world \<Rightarrow> call \<times> token \<times> ('d, 'c) world" where
  "amio_init_from_string env content format out w =
     (if \<not> out then (Rc AMIO_ERR_INVALID_INPUT, 0, w)
      else case (content, format) of
          (Some s, Some f) \<Rightarrow> cordon (init_from_string env s f w)
        | _ \<Rightarrow> (Rc AMIO_ERR_INVALID_INPUT, 0, w))"

definition amio_finalize ::
  "('d, 'c) amio_env \<Rightarrow> token \<Rightarrow> core_act list \<Rightarrow> core_act list \<Rightarrow> ('d, 'c) world \<Rightarrow> call \<times> 'd list \<times> ('d, 'c) world" where
  "amio_finalize env core draining joining =
     kind_dispatch core Core [] (on_core [] (\<lambda>a. finalize env a draining joining))"

definition valid_mode :: "int \<Rightarrow> bool" where
  "valid_mode mode \<longleftrightarrow> mode = AMIO_MODE_WRITE \<or> mode = AMIO_MODE_READ"

definition amio_open_dataset ::
  "('d, 'c) amio_env \<Rightarrow> token \<Rightarrow> string option \<Rightarrow> int \<Rightarrow> bool \<Rightarrow> ('d, 'c) world \<Rightarrow> call \<times> token \<times> ('d, 'c) world" where
  "amio_open_dataset env core config_path mode out w =
     (if \<not> out then (Rc AMIO_ERR_INVALID_INPUT, 0, w)
      else case config_path of
          None \<Rightarrow> (Rc AMIO_ERR_INVALID_INPUT, 0, w)
        | Some path \<Rightarrow>
            if \<not> valid_mode mode then (Rc AMIO_ERR_INVALID_INPUT, 0, w)
            else kind_dispatch core Core 0 (on_core 0 (\<lambda>a. open_dataset env a path mode)) w)"

definition amio_open_dataset_from_string ::
  "('d, 'c) amio_env \<Rightarrow> token \<Rightarrow> string option \<Rightarrow> string option \<Rightarrow> int \<Rightarrow> bool \<Rightarrow> ('d, 'c) world \<Rightarrow> call \<times> token \<times> ('d, 'c) world" where
  "amio_open_dataset_from_string env core content format mode out w =
     (if \<not> out then (Rc AMIO_ERR_INVALID_INPUT, 0, w)
      else case (content, format) of
          (Some s, Some f) \<Rightarrow>
            if \<not> valid_mode mode then (Rc AMIO_ERR_INVALID_INPUT, 0, w)
            else kind_dispatch core Core 0 (on_core 0 (\<lambda>a. open_dataset_from_string env a s f mode)) w
        | _ \<Rightarrow> (Rc AMIO_ERR_INVALID_INPUT, 0, w))"

definition amio_close_dataset ::
  "('d, 'c) amio_env \<Rightarrow> token \<Rightarrow> poll list \<Rightarrow> ('d, 'c) world \<Rightarrow> call \<times> unit \<times> ('d, 'c) world" where
  "amio_close_dataset env dataset polls =
     kind_dispatch dataset Dataset () (on_dataset () (\<lambda>a i w. case close_dataset env a i polls w of (c, w1) \<Rightarrow> (c, (), w1)))"

text \<open>\<^verbatim>\<open>amio_close\<close> reaches the same code through \<^verbatim>\<open>close\<close>.\<close>

definition amio_close ::
  "('d, 'c) amio_env \<Rightarrow> token \<Rightarrow> poll list \<Rightarrow> ('d, 'c) world \<Rightarrow> call \<times> unit \<times> ('d, 'c) world" where
  "amio_close env dataset polls =
     kind_dispatch dataset Dataset () (on_dataset () (\<lambda>a i w. case close_dataset env a i polls w of (c, w1) \<Rightarrow> (c, (), w1)))"

definition amio_flush ::
  "('d, 'c) amio_env \<Rightarrow> token \<Rightarrow> int \<Rightarrow> poll list \<Rightarrow> ('d, 'c) world \<Rightarrow> call \<times> unit \<times> ('d, 'c) world" where
  "amio_flush env dataset timeout_ms polls =
     kind_dispatch dataset Dataset ()
       (on_dataset () (\<lambda>a i w. case flush env a i timeout_ms polls w of (c, w1) \<Rightarrow> (c, (), w1)))"

definition amio_wait ::
  "('d, 'c) amio_env \<Rightarrow> token \<Rightarrow> int \<Rightarrow> poll list \<Rightarrow> ('d, 'c) world \<Rightarrow> call \<times> unit \<times> ('d, 'c) world" where
  "amio_wait env io timeout_ms polls =
     kind_dispatch io Io () (on_io () (\<lambda>x w. case wait env x timeout_ms polls w of (c, w1) \<Rightarrow> (c, (), w1)))"

definition amio_write ::
  "('d, 'c) amio_env \<Rightarrow> token \<Rightarrow> string option \<Rightarrow> byte list option \<Rightarrow> amio_dtype \<Rightarrow> amio_shape option \<Rightarrow> bool
     \<Rightarrow> core_wake list \<Rightarrow> core_act list \<Rightarrow> ('d, 'c) world \<Rightarrow> call \<times> token \<times> ('d, 'c) world" where
  "amio_write env dataset var_name host_data dtype shape out waits race w =
     (if \<not> out then (Rc AMIO_ERR_INVALID_INPUT, 0, w)
      else case (var_name, host_data, shape) of
          (Some n, Some host, Some s) \<Rightarrow>
            kind_dispatch dataset Dataset 0 (on_dataset 0 (\<lambda>a i. core_write env a i n host dtype s waits race)) w
        | _ \<Rightarrow> (Rc AMIO_ERR_INVALID_INPUT, 0, w))"

definition amio_read ::
  "('d, 'c) amio_env \<Rightarrow> token \<Rightarrow> string option \<Rightarrow> int \<Rightarrow> amio_bbox option \<Rightarrow> bool \<Rightarrow> core_wake list
     \<Rightarrow> ('d, 'c) world \<Rightarrow> call \<times> token \<times> ('d, 'c) world" where
  "amio_read env dataset var_name t bbox out ks w =
     (if \<not> out then (Rc AMIO_ERR_INVALID_INPUT, 0, w)
      else case var_name of
          None \<Rightarrow> (Rc AMIO_ERR_INVALID_INPUT, 0, w)
        | Some n \<Rightarrow> kind_dispatch dataset Dataset 0 (on_dataset 0 (\<lambda>a i. core_read env a i n t bbox ks)) w)"

text \<open>The shape and the count are cleared before the lookup.\<close>

definition amio_describe ::
  "('d, 'c) amio_env \<Rightarrow> token \<Rightarrow> string option \<Rightarrow> bool \<Rightarrow> ('d, 'c) world \<Rightarrow> call \<times> (amio_shape \<times> int) \<times> ('d, 'c) world" where
  "amio_describe env dataset var_name out w =
     (if \<not> out then (Rc AMIO_ERR_INVALID_INPUT, (empty_shape, 0), w)
      else case var_name of
          None \<Rightarrow> (Rc AMIO_ERR_INVALID_INPUT, (empty_shape, 0), w)
        | Some n \<Rightarrow>
            kind_dispatch dataset Dataset (empty_shape, 0)
              (on_dataset (empty_shape, 0)
                 (\<lambda>a i w. case describe env a i n w of
                     (c, Some r, w1) \<Rightarrow> (c, r, w1) | (c, None, w1) \<Rightarrow> (c, (empty_shape, 0), w1))) w)"

definition amio_get_var_attribute_text ::
  "('d, 'c) amio_env \<Rightarrow> token \<Rightarrow> string option \<Rightarrow> string option \<Rightarrow> nat option \<Rightarrow> bool \<Rightarrow> ('d, 'c) world
     \<Rightarrow> call \<times> (nat \<times> string option) \<times> ('d, 'c) world" where
  "amio_get_var_attribute_text env dataset var_name attr_name cap_opt out w =
     (if attr_name = None \<or> \<not> out then (Rc AMIO_ERR_INVALID_INPUT, (0, None), w)
      else kind_dispatch dataset Dataset (0, None)
             (on_dataset (0, None)
                (\<lambda>a i w. case get_var_attribute_text env a i var_name (the attr_name) cap_opt w of
                    (c, Some r) \<Rightarrow> (c, r, w) | (c, None) \<Rightarrow> (c, (0, None), w))) w)"

definition amio_get_var_attribute_double ::
  "('d, 'c) amio_env \<Rightarrow> token \<Rightarrow> string option \<Rightarrow> string option \<Rightarrow> bool \<Rightarrow> ('d, 'c) world
     \<Rightarrow> call \<times> u64 \<times> ('d, 'c) world" where
  "amio_get_var_attribute_double env dataset var_name attr_name out w =
     (if attr_name = None \<or> \<not> out then (Rc AMIO_ERR_INVALID_INPUT, 0, w)
      else kind_dispatch dataset Dataset 0
             (on_dataset 0
                (\<lambda>a i w. case get_var_attribute_double env a i var_name (the attr_name) w of
                    (c, Some r) \<Rightarrow> (c, r, w) | (c, None) \<Rightarrow> (c, 0, w))) w)"

definition amio_release_view :: "token \<Rightarrow> ('d, 'c) world \<Rightarrow> call \<times> unit \<times> ('d, 'c) world" where
  "amio_release_view view =
     kind_dispatch view View () (on_view () (\<lambda>x w. case release_view x w of (c, w1) \<Rightarrow> (c, (), w1)))"

definition amio_view_data :: "token \<Rightarrow> bool \<Rightarrow> ('d, 'c) world \<Rightarrow> call \<times> (byte list option \<times> nat) \<times> ('d, 'c) world" where
  "amio_view_data view out w =
     (if \<not> out then (Rc AMIO_ERR_INVALID_INPUT, (None, 0), w)
      else kind_dispatch view View (None, 0)
             (on_view (None, 0) (\<lambda>x w. case view_data x w of (c, r) \<Rightarrow> (c, r, w))) w)"

definition amio_view_shape :: "token \<Rightarrow> bool \<Rightarrow> ('d, 'c) world \<Rightarrow> call \<times> amio_shape \<times> ('d, 'c) world" where
  "amio_view_shape view out w =
     (if \<not> out then (Rc AMIO_ERR_INVALID_INPUT, empty_shape, w)
      else kind_dispatch view View empty_shape
             (on_view empty_shape
                (\<lambda>x w. case view_shape x w of (c, Some s) \<Rightarrow> (c, s, w) | (c, None) \<Rightarrow> (c, empty_shape, w))) w)"

definition amio_view_dtype :: "token \<Rightarrow> bool \<Rightarrow> ('d, 'c) world \<Rightarrow> call \<times> amio_dtype \<times> ('d, 'c) world" where
  "amio_view_dtype view out w =
     (if \<not> out then (Rc AMIO_ERR_INVALID_INPUT, AMIO_DTYPE_F32, w)
      else kind_dispatch view View AMIO_DTYPE_F32
             (on_view AMIO_DTYPE_F32
                (\<lambda>x w. case view_dtype x w of (c, Some s) \<Rightarrow> (c, s, w) | (c, None) \<Rightarrow> (c, AMIO_DTYPE_F32, w))) w)"

end
