(* ===== verification/Core_Invariant.thy ===== *)
theory Core_Invariant
  imports Amio_Api
begin

text \<open>
  The invariant of the runtime and the frame of its steps.  \<open>world_ok\<close> ties the handle table to the
  objects it names, and the staging buffers of each context to their holders: queued and executing
  writes, prefetch queues, views.  \<open>safe\<close> says that a step creates no reference to an old holder and
  leaves the buffer of every surviving holder alone.  Every entry point and every step of a worker is
  \<open>good\<close>: it keeps the invariant and is safe.
\<close>


section \<open>Holders\<close>

definition wp_jobs :: "(write_job, 'c) worker_pool \<Rightarrow> write_job list" where
  "wp_jobs wp =
     map wt_callback (wp_write_queue wp) @ map wt_callback (writes_of (wp_running wp))
     @ map (\<lambda>(k, h, j). j) (wp_blocked wp)"

definition jobs :: "('d, 'c) amio_core \<Rightarrow> write_job list" where
  "jobs c = (case co_worker_pool c of None \<Rightarrow> [] | Some wp \<Rightarrow> wp_jobs wp)"

definition var_held :: "variable_read_state \<Rightarrow> nat multiset" where
  "var_held v = mset (map snd (pq_completed (vs_queue v)) @ map (\<lambda>(t, sel, b). b) (vs_running v))"

definition ds_held :: "'d dataset_record \<Rightarrow> nat multiset" where
  "ds_held d = sum_list (map (\<lambda>(n, v). var_held v) (ds_variables d))"

definition queue_held :: "('d, 'c) amio_core \<Rightarrow> nat multiset" where
  "queue_held c = sum_list (map (\<lambda>(i, d). ds_held d) (co_datasets c))"

definition job_held :: "('d, 'c) amio_core \<Rightarrow> nat multiset" where
  "job_held c = mset (map wj_buf (jobs c))"

definition view_held :: "(nat \<times> view_record) list \<Rightarrow> nat \<Rightarrow> nat multiset" where
  "view_held vs a = mset (map (\<lambda>(x, v). vw_staging_buf v) (filter (\<lambda>(x, v). vw_core v = a) vs))"

definition owners :: "(nat \<times> view_record) list \<Rightarrow> nat \<Rightarrow> ('d, 'c) amio_core \<Rightarrow> nat multiset" where
  "owners vs a c = job_held c + queue_held c + view_held vs a"

lemma pq_held_of [simp]: "pq_held (pq_world_of c v) = var_held v"
  by (simp add: held_buffers_def pq_world_of_def var_held_def)

lemma var_held_put: "var_held (put_queue p v) = pq_held p"
  by (simp add: held_buffers_def put_queue_def var_held_def)

text \<open>Replacing the value of one key in a sum over the values.\<close>

lemma sum_list_put:
  fixes f :: "'v \<Rightarrow> 'm :: comm_monoid_add"
  assumes "distinct (map fst xs)" and "map_of xs k = Some v"
  shows "sum_list (map (\<lambda>(j, d). f d) (map (\<lambda>(j, d). (j, if j = k then g d else d)) xs)) + f v
    = sum_list (map (\<lambda>(j, d). f d) xs) + f (g v)"
  using assms
proof (induction xs)
  case (Cons x xs)
  obtain j d where x: "x = (j, d)" by (cases x)
  show ?case
  proof (cases "j = k")
    case True
    then have "k \<notin> fst ` set xs" using Cons.prems(1) by (auto simp: x)
    then have "map (\<lambda>(j, d). (j, if j = k then g d else d)) xs = xs"
      by (intro map_idI) (auto simp: rev_image_eqI)
    with True Cons.prems show ?thesis by (simp add: x ac_simps)
  next
    case False
    with Cons show ?thesis by (simp add: x ac_simps)
  qed
qed simp

lemma sum_list_member: "(k, v) \<in> set xs \<Longrightarrow> f v \<subseteq># sum_list (map (\<lambda>(k, v). f v) xs)"
proof (induction xs)
  case (Cons x xs)
  obtain j u where x: "x = (j, u)" by (cases x)
  show ?case
  proof (cases "(k, v) = x")
    case False
    then have "f v \<subseteq># sum_list (map (\<lambda>(k, v). f v) xs)" using Cons by simp
    also have "\<dots> \<subseteq># f u + sum_list (map (\<lambda>(k, v). f v) xs)" by simp
    finally show ?thesis by (simp add: x)
  qed (auto simp: x)
qed simp

lemma mset_balance:
  fixes A :: "'a multiset"
  assumes "A + D = B + D'" and "D' + V = D + P"
  shows "A + V = B + P"
proof (rule multiset_eqI)
  fix x
  have "count A x + count D x = count B x + count D' x" "count D' x + count V x = count D x + count P x"
    using arg_cong [OF assms(1), of "\<lambda>M. count M x"] arg_cong [OF assms(2), of "\<lambda>M. count M x"] by simp_all
  then show "count (A + V) x = count (B + P) x" by simp
qed

lemma map_of_put: "map_of (map (\<lambda>(j, d). (j, if j = k then g d else d)) xs) i
    = (if i = k then map_option g (map_of xs i) else map_of xs i)"
  by (induction xs) auto

lemma keys_put [simp]: "map fst (map (\<lambda>(j, d). (j, if j = k then g d else d)) xs) = map fst xs"
  by (induction xs) auto


section \<open>The invariant\<close>

definition ds_ok :: "'d dataset_record \<Rightarrow> bool" where
  "ds_ok d \<longleftrightarrow> distinct (map fst (ds_variables d)) \<and> (\<forall>(n, v) \<in> set (ds_variables d). vs_name v = n)"

definition core_ok :: "(nat \<times> view_record) list \<Rightarrow> nat \<Rightarrow> nat \<Rightarrow> ('d, 'c) amio_core \<Rightarrow> bool" where
  "core_ok vs nx a c \<longleftrightarrow>
     own_ok (co_staging_pool c) (owners vs a c)
     \<and> distinct (map fst (co_datasets c)) \<and> (\<forall>(i, d) \<in> set (co_datasets c). i < co_next_dataset_id c \<and> ds_ok d)
     \<and> (\<forall>j \<in> set (jobs c). wj_core j = a \<and> wj_dataset j \<in> fst ` set (co_datasets c) \<and> wj_io j < nx)"

text \<open>What a live token of the handle table stands for.\<close>

definition token_ok :: "('d, 'c) world \<Rightarrow> token \<Rightarrow> handle_kind \<times> payload option \<Rightarrow> bool" where
  "token_ok w tok e \<longleftrightarrow>
     (case e of
        (Core, Some (At_Core a)) \<Rightarrow> map_option co_token (w_cores w a) = Some tok
      | (Dataset, Some (At_Dataset a i)) \<Rightarrow> map_option ds_token (ds_at w a i) = Some tok
      | (Io, Some (At_Io x)) \<Rightarrow> w_ios w x \<noteq> None
      | (View, Some (At_View x)) \<Rightarrow> map_option vw_token (map_of (w_views w) x) = Some tok
      | _ \<Rightarrow> False)"

definition table_ok :: "('d, 'c) world \<Rightarrow> bool" where
  "table_ok w \<longleftrightarrow> ht_inv (w_table w) \<and> (\<forall>tok e. ht_abs (w_table w) tok = Some e \<longrightarrow> token_ok w tok e)"

definition heap_ok :: "('d, 'c) world \<Rightarrow> bool" where
  "heap_ok w \<longleftrightarrow>
     (\<forall>a. w_cores w a \<noteq> None \<longrightarrow> a < w_next w) \<and> (\<forall>x. w_ios w x \<noteq> None \<longrightarrow> x < w_next w)
     \<and> distinct (map fst (w_views w)) \<and> (\<forall>(x, v) \<in> set (w_views w). x < w_next w \<and> vw_core v < w_next w)"

definition world_ok :: "('d, 'c) world \<Rightarrow> bool" where
  "world_ok w \<longleftrightarrow>
     table_ok w \<and> heap_ok w \<and> (\<forall>a c. w_cores w a = Some c \<longrightarrow> core_ok (w_views w) (w_next w) a c)"

text \<open>The holders an outside observer can name: a write task, dated by its tracking record, and a view, dated by its address.\<close>

datatype holder = Job write_job | Seen nat view_record

fun addr :: "holder \<Rightarrow> nat" where
  "addr (Job j) = wj_io j"
| "addr (Seen x v) = x"

fun holds :: "('d, 'c) world \<Rightarrow> holder \<Rightarrow> nat \<Rightarrow> nat \<Rightarrow> bool" where
  "holds w (Job j) a b \<longleftrightarrow> (\<exists>c. w_cores w a = Some c \<and> j \<in> set (jobs c) \<and> wj_buf j = b)"
| "holds w (Seen x v) a b \<longleftrightarrow>
     w_cores w a \<noteq> None \<and> (x, v) \<in> set (w_views w) \<and> vw_core v = a \<and> vw_staging_buf v = b"

definition pools_kept :: "('d, 'c) world \<Rightarrow> ('d, 'c) world \<Rightarrow> nat \<Rightarrow> nat \<Rightarrow> bool" where
  "pools_kept w w' a b \<longleftrightarrow>
     (\<exists>c c'. w_cores w a = Some c \<and> w_cores w' a = Some c' \<and> kept (co_staging_pool c) (co_staging_pool c') b)"

definition safe :: "('d, 'c) world \<Rightarrow> ('d, 'c) world \<Rightarrow> bool" where
  "safe w w' \<longleftrightarrow>
     w_next w \<le> w_next w'
     \<and> (\<forall>h a b. holds w' h a b \<and> addr h < w_next w \<longrightarrow> holds w h a b \<and> pools_kept w w' a b)"

definition good :: "('d, 'c) world \<Rightarrow> ('d, 'c) world \<Rightarrow> bool" where
  "good w w' \<longleftrightarrow> world_ok w' \<and> safe w w'"

lemma pools_kept_trans: "pools_kept w w1 a b \<Longrightarrow> pools_kept w1 w2 a b \<Longrightarrow> pools_kept w w2 a b"
  by (auto simp: pools_kept_def intro: kept_trans)

lemma safe_trans: "safe w w1 \<Longrightarrow> safe w1 w2 \<Longrightarrow> safe w w2"
proof -
  assume a: "safe w w1" and b: "safe w1 w2"
  have "holds w h x y \<and> pools_kept w w2 x y" if "holds w2 h x y" "addr h < w_next w" for h x y
  proof -
    have lt: "addr h < w_next w1" using that(2) a by (simp add: safe_def)
    have 1: "holds w1 h x y" "pools_kept w1 w2 x y" using b that(1) lt by (simp_all add: safe_def)
    then have "holds w h x y" "pools_kept w w1 x y" using a that(2) by (simp_all add: safe_def)
    with 1 show ?thesis using pools_kept_trans by blast
  qed
  with a b show ?thesis by (auto simp: safe_def)
qed

lemma good_trans: "good w w1 \<Longrightarrow> good w1 w2 \<Longrightarrow> good w w2"
  by (auto simp: good_def intro: safe_trans)

lemma good_ok: "good w w' \<Longrightarrow> world_ok w'"
  by (simp add: good_def)

text \<open>A holder's buffer is on the books of its context.\<close>

lemma holds_owned:
  assumes "holds w h a b" and "w_cores w a = Some c"
  shows "b \<in># job_held c + view_held (w_views w) a"
proof (cases h)
  case (Job x)
  with assms show ?thesis by (auto simp: job_held_def)
next
  case (Seen x v)
  then have v: "(x, v) \<in> set (w_views w)" "vw_core v = a" "vw_staging_buf v = b"
    using assms(1) by auto
  then have "b \<in> set (map (\<lambda>(x, v). vw_staging_buf v) (filter (\<lambda>(x, v). vw_core v = a) (w_views w)))"
    by (auto intro!: rev_image_eqI [of "(x, v)"])
  then show ?thesis by (simp only: view_held_def set_mset_mset union_iff) simp
qed

lemma holds_core: "holds w h a b \<Longrightarrow> w_cores w a \<noteq> None"
  by (cases h) auto

lemma holds_refs:
  assumes "world_ok w" and "holds w h a b" and "w_cores w a = Some c"
  shows "pool_refs (co_staging_pool c) b = 1"
proof -
  have "own_ok (co_staging_pool c) (owners (w_views w) a c)"
    using assms(1,3) by (simp add: world_ok_def core_ok_def)
  moreover have "b \<in># owners (w_views w) a c" using holds_owned [OF assms(2,3)] by (auto simp: owners_def)
  ultimately show ?thesis using own_ok_held by blast
qed

lemma safe_refl: "world_ok w \<Longrightarrow> safe w w"
proof -
  assume ok: "world_ok w"
  have "pools_kept w w a b" if h: "holds w h a b" for h a b
  proof -
    obtain c where c: "w_cores w a = Some c" using holds_core [OF h] by auto
    have "pool_refs (co_staging_pool c) b > 0" using holds_refs [OF ok h c] by simp
    with c show ?thesis by (simp add: pools_kept_def kept_refl)
  qed
  then show ?thesis by (auto simp: safe_def)
qed

lemma good_refl: "world_ok w \<Longrightarrow> good w w"
  by (simp add: good_def safe_refl)



section \<open>Changes of one context\<close>

lemma upd_core_simps [simp]:
  "w_table (upd_core a f w) = w_table w" "w_ios (upd_core a f w) = w_ios w" "w_views (upd_core a f w) = w_views w"
  "w_next (upd_core a f w) = w_next w"
  "w_cores (upd_core a f w) x = (if x = a then map_option f (w_cores w a) else w_cores w x)"
  by (simp_all add: upd_core_def)

lemma upd_core_comp: "upd_core a f (upd_core a g w) = upd_core a (f \<circ> g) w"
  by (simp add: upd_core_def option.map_comp)

lemma upd_io_simps [simp]:
  "w_table (upd_io x f w) = w_table w" "w_cores (upd_io x f w) = w_cores w" "w_views (upd_io x f w) = w_views w"
  "w_next (upd_io x f w) = w_next w" "w_ios (upd_io x f w) y = (if y = x then map_option f (w_ios w x) else w_ios w y)"
  by (simp_all add: upd_io_def)

lemma ds_at_upd_core: "ds_at (upd_core a f w) a' i =
   (if a' = a then (case w_cores w a of None \<Rightarrow> None | Some c \<Rightarrow> map_of (co_datasets (f c)) i) else ds_at w a' i)"
  by (simp add: ds_at_def split: option.split)

lemma token_ok_cong:
  assumes "\<And>a. map_option co_token (w_cores w' a) = map_option co_token (w_cores w a)"
    and "\<And>a i. map_option ds_token (ds_at w' a i) = map_option ds_token (ds_at w a i)"
    and "\<And>x. w_ios w' x = None \<longleftrightarrow> w_ios w x = None" and "w_views w' = w_views w"
  shows "token_ok w' tok e = token_ok w tok e"
  using assms by (simp add: token_ok_def split: prod.split handle_kind.split option.split payload.split)

lemma holds_cong:
  assumes "w_cores w' = w_cores w" and "w_views w' = w_views w"
  shows "holds w' h a b = holds w h a b"
  using assms by (cases h) simp_all

lemma holds_back:
  assumes "holds w' h a' b" and "w_views w' = w_views w"
    and "\<And>c'. w_cores w' a' = Some c' \<Longrightarrow> \<exists>c. w_cores w a' = Some c \<and> set (jobs c') \<subseteq> set (jobs c)"
  shows "holds w h a' b"
proof (cases h)
  case (Job x)
  then show ?thesis using assms(1,3) by fastforce
next
  case (Seen x v)
  then have "w_cores w a' \<noteq> None" using assms(1,3) by fastforce
  with Seen assms(1,2) show ?thesis by auto
qed

lemma good_upd_core:
  assumes ok: "world_ok w" and c: "w_cores w a = Some c"
    and core': "core_ok (w_views w) (w_next w) a (f c)"
    and tok: "co_token (f c) = co_token c"
    and ds: "\<And>i. map_option ds_token (map_of (co_datasets (f c)) i) = map_option ds_token (map_of (co_datasets c) i)"
    and jobs: "set (jobs (f c)) \<subseteq> set (jobs c)"
    and kept: "\<And>b. b \<in># job_held (f c) + view_held (w_views w) a \<Longrightarrow> kept (co_staging_pool c) (co_staging_pool (f c)) b"
  shows "good w (upd_core a f w)"
proof -
  let ?w = "upd_core a f w"
  have "token_ok ?w t e = token_ok w t e" for t e
    using c tok ds by (intro token_ok_cong) (simp_all add: ds_at_upd_core ds_at_def)
  then have "world_ok ?w"
    using ok c core' by (auto simp: world_ok_def table_ok_def heap_ok_def)
  moreover have "holds w h a' b \<and> pools_kept w ?w a' b" if h: "holds ?w h a' b" for h a' b
  proof -
    have h0: "holds w h a' b" by (rule holds_back [OF h]) (use c jobs in \<open>auto split: if_splits\<close>)
    have "pools_kept w ?w a' b"
    proof (cases "a' = a")
      case True
      have "b \<in># job_held (f c) + view_held (w_views w) a"
        using holds_owned [OF h, of "f c"] True c by simp
      from kept [OF this] show ?thesis using True c by (simp add: pools_kept_def)
    next
      case False
      obtain c1 where c1: "w_cores w a' = Some c1" using holds_core [OF h0] by auto
      have "pool_refs (co_staging_pool c1) b > 0" using holds_refs [OF ok h0 c1] by simp
      with c1 False show ?thesis by (simp add: pools_kept_def kept_refl)
    qed
    with h0 show ?thesis by simp
  qed
  then have "safe w ?w" by (auto simp: safe_def)
  ultimately show ?thesis by (simp add: good_def)
qed

text \<open>Changes that concern neither objects nor buffers.\<close>

lemma good_same:
  assumes ok: "world_ok w" and "w_table w' = w_table w" and "w_cores w' = w_cores w"
    and "\<And>x. w_ios w' x = None \<longleftrightarrow> w_ios w x = None" and "w_views w' = w_views w" and "w_next w' = w_next w"
  shows "good w w'"
proof -
  have "ds_at w' a i = ds_at w a i" for a i using assms(3) by (simp add: ds_at_def)
  then have "token_ok w' t e = token_ok w t e" for t e
    using assms by (intro token_ok_cong) simp_all
  then have "world_ok w'" using assms by (auto simp: world_ok_def table_ok_def heap_ok_def)
  moreover have "safe w w'"
    using safe_refl [OF ok] holds_cong [OF assms(3,5)] assms(3,6) by (simp add: safe_def pools_kept_def)
  ultimately show ?thesis by (simp add: good_def)
qed

lemma good_upd_io: "world_ok w \<Longrightarrow> good w (upd_io x f w)"
  by (rule good_same) auto

text \<open>A change of the account of one part; the other holders keep their buffers.\<close>

lemma rest_kept:
  assumes "own_ok p (H + R)" and "own_frame p H p' H' G" and "b \<in># R"
  shows "kept p p' b"
proof -
  have "b \<in># H + R" using assms(3) by simp
  then have r: "pool_refs p b = 1" and "count H b + count R b = 1" using own_ok_held [OF assms(1)] by auto
  moreover have "count R b > 0" using assms(3) by (simp only: count_greater_zero_iff)
  ultimately have "count H b = 0" by linarith
  with r assms(2) show ?thesis by (simp add: own_frame_def not_in_iff)
qed


definition put_core :: "nat \<Rightarrow> string \<Rightarrow> pq_world \<Rightarrow> ('d, 'c) amio_core \<Rightarrow> ('d, 'c) amio_core" where
  "put_core i name p c =
     c\<lparr>co_staging_pool := pw_pool p,
       co_datasets := map (\<lambda>(j, d). (j, if j = i then d\<lparr>ds_variables :=
         map (\<lambda>(n, v). (n, if n = name then put_queue p v else v)) (ds_variables d)\<rparr> else d)) (co_datasets c)\<rparr>"

lemma put_pq_core: "put_pq a i name p w = upd_core a (put_core i name p) w"
  by (simp add: put_pq_def upd_ds_def upd_pool_def upd_core_comp put_core_def [abs_def] comp_def)

lemma put_core_simps [simp]:
  "co_staging_pool (put_core i name p c) = pw_pool p" "co_token (put_core i name p c) = co_token c"
  "co_worker_pool (put_core i name p c) = co_worker_pool c"
  "co_next_dataset_id (put_core i name p c) = co_next_dataset_id c"
  "jobs (put_core i name p c) = jobs c" "job_held (put_core i name p c) = job_held c"
  by (simp_all add: put_core_def jobs_def job_held_def)

lemma ds_held_put:
  assumes "ds_ok d" and "map_of (ds_variables d) name = Some v"
  shows "ds_held (d\<lparr>ds_variables := map (\<lambda>(n, v). (n, if n = name then put_queue p v else v)) (ds_variables d)\<rparr>) + var_held v
    = ds_held d + pq_held p"
  using sum_list_put [of "ds_variables d" name v var_held "put_queue p"] assms
  by (simp add: ds_held_def ds_ok_def var_held_put)

lemma ds_ok_put: "ds_ok d \<Longrightarrow> ds_ok (d\<lparr>ds_variables := map (\<lambda>(n, v). (n, if n = name then put_queue p v else v)) (ds_variables d)\<rparr>)"
  by (auto simp: ds_ok_def put_queue_def comp_def split_beta)

lemma queue_held_put:
  assumes "core_ok vs nx a c" and "map_of (co_datasets c) i = Some d" and "map_of (ds_variables d) name = Some v"
  shows "queue_held (put_core i name p c) + var_held v = queue_held c + pq_held p"
proof -
  let ?g = "\<lambda>d. d\<lparr>ds_variables := map (\<lambda>(n, v). (n, if n = name then put_queue p v else v)) (ds_variables d)\<rparr>"
  have d: "ds_ok d" and dist: "distinct (map fst (co_datasets c))"
    using assms(1) map_of_SomeD [OF assms(2)] by (auto simp: core_ok_def)
  have "queue_held (put_core i name p c) + ds_held d = queue_held c + ds_held (?g d)"
    using sum_list_put [OF dist assms(2), of ds_held ?g] by (simp add: queue_held_def put_core_def)
  then show ?thesis by (rule mset_balance [OF _ ds_held_put [OF d assms(3)]])
qed

lemma put_core_ok:
  assumes co: "core_ok vs nx a c" and d: "map_of (co_datasets c) i = Some d" and v: "map_of (ds_variables d) name = Some v"
    and fr: "own_frame (co_staging_pool c) (var_held v) (pw_pool p) (pq_held p) G"
  shows "own_ok (pw_pool p) (owners vs a (put_core i name p c) + G) \<and> core_ok vs nx a (put_core i name p c)
    \<and> (\<forall>b. b \<in># job_held c + view_held vs a \<longrightarrow> kept (co_staging_pool c) (pw_pool p) b)"
proof -
  let ?c = "put_core i name p c"
  have "var_held v \<subseteq># ds_held d" unfolding ds_held_def by (rule sum_list_member [OF map_of_SomeD [OF v]])
  moreover have "ds_held d \<subseteq># queue_held c" unfolding queue_held_def by (rule sum_list_member [OF map_of_SomeD [OF d]])
  ultimately obtain Q where Q: "queue_held c = var_held v + Q"
    by (metis subset_mset.le_iff_add subset_mset.order_trans)
  have Q': "queue_held ?c = pq_held p + Q"
    using queue_held_put [OF co d v, of p] unfolding Q by (simp add: ac_simps)
  let ?R = "job_held c + view_held vs a + Q"
  have o: "own_ok (co_staging_pool c) (var_held v + ?R)"
    using co Q by (simp add: core_ok_def owners_def ac_simps)
  have fr': "own_frame (co_staging_pool c) (var_held v + ?R) (pw_pool p) (pq_held p + ?R) G"
    by (rule own_frame_rest [OF fr])
  have o': "own_ok (pw_pool p) (owners vs a ?c + G)"
    using own_frame_ok [OF o fr'] by (simp add: owners_def Q' ac_simps)
  have "kept (co_staging_pool c) (pw_pool p) b" if "b \<in># job_held c + view_held vs a" for b
    by (rule rest_kept [OF o fr]) (use that in auto)
  moreover have "own_ok (pw_pool p) (owners vs a ?c)" by (rule own_ok_mono [OF o']) simp
  moreover have "fst ` set (co_datasets ?c) = fst ` set (co_datasets c)" by (force simp: put_core_def)
  moreover have "\<forall>(j, d) \<in> set (co_datasets ?c). j < co_next_dataset_id c \<and> ds_ok d"
    using co by (auto simp: core_ok_def put_core_def intro!: ds_ok_put)
  moreover have "distinct (map fst (co_datasets ?c))" using co by (simp add: core_ok_def put_core_def del: map_map)
  ultimately show ?thesis using o' co by (simp add: core_ok_def)
qed

lemma put_pq_good:
  assumes ok: "world_ok w" and c: "w_cores w a = Some c" and d: "ds_at w a i = Some d"
    and v: "map_of (ds_variables d) name = Some v"
    and fr: "own_frame (co_staging_pool c) (var_held v) (pw_pool p) (pq_held p) G"
  shows "good w (put_pq a i name p w)"
    and "own_ok (pw_pool p) (owners (w_views w) a (put_core i name p c) + G)"
proof -
  have d': "map_of (co_datasets c) i = Some d" using d c by (simp add: ds_at_def)
  have co: "core_ok (w_views w) (w_next w) a c" using ok c by (simp add: world_ok_def)
  note p = put_core_ok [OF co d' v fr]
  have "map_option ds_token (map_of (co_datasets (put_core i name p c)) j)
      = map_option ds_token (map_of (co_datasets c) j)" for j
    by (simp add: put_core_def map_of_put option.map_comp comp_def)
  then show "good w (put_pq a i name p w)"
    unfolding put_pq_core using p by (intro good_upd_core [OF ok c]) (simp_all, blast)
  show "own_ok (pw_pool p) (owners (w_views w) a (put_core i name p c) + G)" using p by simp
qed


lemma upd_core_None: "w_cores w a = None \<Longrightarrow> upd_core a f w = w"
  by (simp add: upd_core_def fun_upd_idem)

text \<open>A change of a context that moves no buffer.\<close>

lemma good_upd_still:
  assumes ok: "world_ok w"
    and same: "\<And>c. w_cores w a = Some c \<Longrightarrow> co_staging_pool (f c) = co_staging_pool c \<and> co_token (f c) = co_token c
      \<and> mset (jobs (f c)) = mset (jobs c) \<and> queue_held (f c) = queue_held c
      \<and> co_next_dataset_id (f c) = co_next_dataset_id c \<and> map fst (co_datasets (f c)) = map fst (co_datasets c)"
    and ds: "\<And>c i. w_cores w a = Some c \<Longrightarrow>
      map_option ds_token (map_of (co_datasets (f c)) i) = map_option ds_token (map_of (co_datasets c) i)"
    and dsok: "\<And>c. w_cores w a = Some c \<Longrightarrow> \<forall>(i, d) \<in> set (co_datasets c). ds_ok d \<Longrightarrow>
      \<forall>(i, d) \<in> set (co_datasets (f c)). ds_ok d"
  shows "good w (upd_core a f w)"
proof (cases "w_cores w a")
  case None
  with ok show ?thesis by (simp add: upd_core_None good_refl)
next
  case (Some c)
  have co: "core_ok (w_views w) (w_next w) a c" using ok Some by (simp add: world_ok_def)
  note s = same [OF Some]
  have j: "set (jobs (f c)) = set (jobs c)" "job_held (f c) = job_held c"
    using s by (metis mset_eq_setD, simp add: job_held_def)
  have o: "owners (w_views w) a (f c) = owners (w_views w) a c" using s j by (simp add: owners_def)
  have k: "fst ` set (co_datasets (f c)) = fst ` set (co_datasets c)" using s by (metis set_map)
  have "\<forall>(i, d) \<in> set (co_datasets (f c)). i < co_next_dataset_id c \<and> ds_ok d"
  proof -
    have lt: "\<forall>i \<in> fst ` set (co_datasets (f c)). i < co_next_dataset_id c"
      using co k by (auto simp: core_ok_def)
    have "\<forall>(i, d) \<in> set (co_datasets (f c)). ds_ok d"
      using co by (intro dsok [OF Some]) (auto simp: core_ok_def)
    with lt show ?thesis by force
  qed
  then have co': "core_ok (w_views w) (w_next w) a (f c)"
    using co s j k by (simp add: core_ok_def o)
  have "kept (co_staging_pool c) (co_staging_pool (f c)) b"
    if "b \<in># job_held (f c) + view_held (w_views w) a" for b
  proof -
    have "b \<in># owners (w_views w) a c" using that j by (auto simp: owners_def)
    then have "pool_refs (co_staging_pool c) b > 0"
      using own_ok_held co by (fastforce simp: core_ok_def)
    then show ?thesis using s kept_refl by simp
  qed
  then show ?thesis using s j ds [OF Some] co' by (intro good_upd_core [OF ok Some]) simp_all
qed

lemma good_upd_ds:
  assumes ok: "world_ok w" and f: "\<And>d. ds_token (f d) = ds_token d \<and> ds_variables (f d) = ds_variables d"
  shows "good w (upd_ds a i f w)"
  unfolding upd_ds_def
proof (rule good_upd_still [OF ok])
  fix c assume "w_cores w a = Some c"
  have "map (\<lambda>(i, d). ds_held d) (map (\<lambda>(j, d). (j, if j = i then f d else d)) (co_datasets c))
      = map (\<lambda>(i, d). ds_held d) (co_datasets c)"
    using f by (auto simp: ds_held_def)
  then show "co_staging_pool (c\<lparr>co_datasets := map (\<lambda>(j, d). (j, if j = i then f d else d)) (co_datasets c)\<rparr>) = co_staging_pool c \<and>
      co_token (c\<lparr>co_datasets := map (\<lambda>(j, d). (j, if j = i then f d else d)) (co_datasets c)\<rparr>) = co_token c \<and>
      mset (jobs (c\<lparr>co_datasets := map (\<lambda>(j, d). (j, if j = i then f d else d)) (co_datasets c)\<rparr>)) = mset (jobs c) \<and>
      queue_held (c\<lparr>co_datasets := map (\<lambda>(j, d). (j, if j = i then f d else d)) (co_datasets c)\<rparr>) = queue_held c \<and>
      co_next_dataset_id (c\<lparr>co_datasets := map (\<lambda>(j, d). (j, if j = i then f d else d)) (co_datasets c)\<rparr>) = co_next_dataset_id c \<and>
      map fst (co_datasets (c\<lparr>co_datasets := map (\<lambda>(j, d). (j, if j = i then f d else d)) (co_datasets c)\<rparr>)) = map fst (co_datasets c)"
    by (simp add: jobs_def queue_held_def del: map_map)
next
  fix c assume "w_cores w a = Some c" and "\<forall>(i, d) \<in> set (co_datasets c). ds_ok d"
  moreover have "ds_ok (if j = i then f d else d) = ds_ok d" for j d using f by (simp add: ds_ok_def)
  ultimately show "\<forall>(j, d) \<in> set (co_datasets (c\<lparr>co_datasets := map (\<lambda>(j, d). (j, if j = i then f d else d)) (co_datasets c)\<rparr>)). ds_ok d"
    by (auto simp del: if_split)
qed (use f in \<open>simp add: map_of_put option.map_comp comp_def\<close>)

lemma get_dv_state_queues:
  assumes "get_dv_state k st = (d, st')"
  shows "wp_write_queue st' = wp_write_queue st \<and> wp_running st' = wp_running st \<and> wp_blocked st' = wp_blocked st
    \<and> wp_prefetch_queue st' = wp_prefetch_queue st"
  using assms by (auto simp: get_dv_state_def split: option.splits)

lemma try_execute_jobs: "mset (wp_jobs (snd (try_execute_one i st))) = mset (wp_jobs st)"
proof (cases "wp_write_queue st")
  case Nil
  then show ?thesis by (simp add: try_execute_one_def start_prefetch_def wp_jobs_def)
next
  case (Cons t q)
  obtain d st1 where g: "get_dv_state (wt_key t) (st\<lparr>wp_write_queue := q\<rparr>) = (d, st1)"
    by (cases "get_dv_state (wt_key t) (st\<lparr>wp_write_queue := q\<rparr>)")
  from get_dv_state_queues [OF g] have "wp_write_queue st1 = q" "wp_running st1 = wp_running st" "wp_blocked st1 = wp_blocked st"
    by simp_all
  with Cons g show ?thesis by (simp add: try_execute_one_def start_prefetch_def wp_jobs_def Let_def)
qed

lemma good_poll: "world_ok w \<Longrightarrow> good w (core_step env (ActPoll a) w)"
proof -
  assume ok: "world_ok w"
  have "mset (jobs (c\<lparr>co_worker_pool := map_option (\<lambda>wp. snd (try_execute_one 0 wp)) (co_worker_pool c)\<rparr>)) = mset (jobs c)"
    for c :: "('d, 'c) amio_core"
    by (simp add: jobs_def try_execute_jobs split: option.split)
  then show ?thesis unfolding core_step.simps upd_workers_def
    by (intro good_upd_still [OF ok]) (simp_all add: queue_held_def)
qed

lemma pw_pool_of [simp]: "pw_pool (pq_world_of c v) = co_staging_pool c"
  by (simp add: pq_world_of_def)

lemma var_pq_ok:
  assumes ok: "world_ok w" and c: "w_cores w a = Some c" and d: "ds_at w a i = Some d"
    and v: "map_of (ds_variables d) name = Some v"
  shows "pq_ok (pq_world_of c v)"
proof -
  have d': "map_of (co_datasets c) i = Some d" using c d by (simp add: ds_at_def)
  have "var_held v \<subseteq># ds_held d" unfolding ds_held_def by (rule sum_list_member [OF map_of_SomeD [OF v]])
  also have "\<dots> \<subseteq># queue_held c" unfolding queue_held_def by (rule sum_list_member [OF map_of_SomeD [OF d']])
  finally have "var_held v \<subseteq># owners (w_views w) a c"
    by (simp add: owners_def subset_mset.add_increasing subset_mset.add_increasing2)
  moreover have "own_ok (co_staging_pool c) (owners (w_views w) a c)" using ok c by (simp add: world_ok_def core_ok_def)
  ultimately show ?thesis unfolding pq_ok_def pq_held_of pw_pool_of using own_ok_mono by blast
qed

lemma good_fetch_step:
  assumes ok: "world_ok w" and q: "quiet_act act"
  shows "good w (fetch_step env a i name act w)"
proof (cases "w_cores w a = None \<or> ds_at w a i = None \<or> map_of (ds_variables (the (ds_at w a i))) name = None")
  case True
  then have "fetch_step env a i name act w = w"
    by (auto simp: fetch_step_def split: option.splits)
  with ok show ?thesis by (simp add: good_refl)
next
  case False
  then obtain c d v where c: "w_cores w a = Some c" and d: "ds_at w a i = Some d" and v: "map_of (ds_variables d) name = Some v"
    by auto
  let ?p = "pq_step (en_alloc env) (drv_read (en_ops env) (ds_driver d)) act (pq_world_of c v)"
  from pq_step_frame [OF var_pq_ok [OF ok c d v] q]
  have "own_frame (co_staging_pool c) (var_held v) (pw_pool ?p) (pq_held ?p) {#}"
    unfolding pq_frame_def pq_held_of pw_pool_of .
  from put_pq_good(1) [OF ok c d v this] show ?thesis using c d v by (simp add: fetch_step_def)
qed

text \<open>The end of a write: the task leaves the pool and its buffer goes back, in one step.\<close>

definition done_core ::
  "'c trace_env \<Rightarrow> nat \<Rightarrow> write_job write_task \<Rightarrow> ('d dataset_record \<Rightarrow> 'd dataset_record) \<Rightarrow> ('d, 'c) amio_core \<Rightarrow> ('d, 'c) amio_core" where
  "done_core tr n t g c =
     c\<lparr>co_staging_pool := pool_release (wj_buf (wt_callback t)) (co_staging_pool c),
       co_datasets := map (\<lambda>(j, d). (j, if j = wj_dataset (wt_callback t) then g d else d)) (co_datasets c),
       co_worker_pool := map_option (finish_write tr n t None) (co_worker_pool c)\<rparr>"

lemma record_outcome_queues [simp]:
  "wp_write_queue (record_outcome env h r st) = wp_write_queue st" "wp_running (record_outcome env h r st) = wp_running st"
  "wp_blocked (record_outcome env h r st) = wp_blocked st"
  by (simp_all add: record_outcome_def)

lemma finish_write_jobs:
  assumes "n < length (wp_running st)" and "wp_running st ! n = RunWrite t"
  shows "mset (wp_jobs st) = add_mset (wt_callback t) (mset (wp_jobs (finish_write tr n t x st)))"
proof -
  obtain d st2 where g: "get_dv_state (wt_key t) (record_outcome tr (wt_handle t) x st) = (d, st2)"
    by (cases "get_dv_state (wt_key t) (record_outcome tr (wt_handle t) x st)")
  from get_dv_state_queues [OF g] g writes_of_erase [OF assms(1)] assms(2) show ?thesis
    by (simp add: finish_write_def wp_jobs_def)
qed


lemma done_core_ok:
  assumes co: "core_ok vs nx a c" and wp: "co_worker_pool c = Some wp"
    and n: "n < length (wp_running wp)" "wp_running wp ! n = RunWrite t"
    and g: "\<And>d. ds_token (g d) = ds_token d \<and> ds_variables (g d) = ds_variables d"
  shows "core_ok vs nx a (done_core tr n t g c)"
    and "set (jobs (done_core tr n t g c)) \<subseteq> set (jobs c)"
    and "b \<in># job_held (done_core tr n t g c) + view_held vs a \<Longrightarrow>
      kept (co_staging_pool c) (co_staging_pool (done_core tr n t g c)) b"
proof -
  let ?c = "done_core tr n t g c" and ?b = "wj_buf (wt_callback t)" and ?p = "co_staging_pool c"
  have j: "mset (jobs c) = add_mset (wt_callback t) (mset (jobs ?c))"
    using finish_write_jobs [OF n, of tr None] wp by (simp add: jobs_def done_core_def)
  then have J: "job_held c = add_mset ?b (job_held ?c)" by (simp add: job_held_def)
  show sub: "set (jobs ?c) \<subseteq> set (jobs c)"
  proof -
    have "set (jobs c) = insert (wt_callback t) (set (jobs ?c))"
      using arg_cong [OF j, of set_mset] by simp
    then show ?thesis by blast
  qed
  have Q: "queue_held ?c = queue_held c"
  proof -
    have "map (\<lambda>(i, d). ds_held d) (map (\<lambda>(j, d). (j, if j = wj_dataset (wt_callback t) then g d else d)) (co_datasets c))
      = map (\<lambda>(i, d). ds_held d) (co_datasets c)"
      using g by (auto simp: ds_held_def)
    then show ?thesis by (simp add: queue_held_def done_core_def del: map_map)
  qed
  have O: "owners vs a c = {#?b#} + owners vs a ?c" by (simp add: owners_def J Q)
  have o: "own_ok ?p ({#?b#} + owners vs a ?c)" using co unfolding core_ok_def O by blast
  have "own_ok ?p {#?b#}" by (rule own_ok_mono [OF o]) simp
  from own_release [OF this, of ?b] have fr: "own_frame ?p {#?b#} (pool_release ?b ?p) {#} {#}" by simp
  have o': "own_ok (pool_release ?b ?p) (owners vs a ?c)"
    using own_frame_ok0 [OF o own_frame_rest [OF fr]] by simp
  have "fst ` set (co_datasets ?c) = fst ` set (co_datasets c)" by (force simp: done_core_def)
  moreover have "distinct (map fst (co_datasets ?c))" using co by (simp add: core_ok_def done_core_def del: map_map)
  moreover have "\<forall>(j, d) \<in> set (co_datasets ?c). j < co_next_dataset_id c \<and> ds_ok d"
  proof -
    have "ds_ok (if j = wj_dataset (wt_callback t) then g d else d) = ds_ok d" for j d using g by (simp add: ds_ok_def)
    then show ?thesis using co by (auto simp: core_ok_def done_core_def simp del: if_split)
  qed
  ultimately show "core_ok vs nx a ?c"
    using co o' sub by (auto simp: core_ok_def done_core_def)
  show "kept ?p (co_staging_pool ?c) b" if "b \<in># job_held ?c + view_held vs a"
  proof -
    have "b \<in># owners vs a ?c" using that by (auto simp: owners_def)
    from rest_kept [OF o fr this] show ?thesis by (simp add: done_core_def)
  qed
qed

lemma good_done:
  assumes ok: "world_ok w"
  shows "good w (core_step env (ActDone a n) w)"
proof (cases "\<exists>c wp t. w_cores w a = Some c \<and> co_worker_pool c = Some wp \<and> n < length (wp_running wp) \<and> wp_running wp ! n = RunWrite t")
  case False
  then have "core_step env (ActDone a n) w = w"
    by (auto split: option.splits running.splits)
  with ok show ?thesis by (simp add: good_refl)
next
  case True
  then obtain c wp t where c: "w_cores w a = Some c" and wp: "co_worker_pool c = Some wp"
    and n: "n < length (wp_running wp)" "wp_running wp ! n = RunWrite t" by blast
  let ?j = "wt_callback t"
  have co: "core_ok (w_views w) (w_next w) a c" using ok c by (simp add: world_ok_def)
  have "?j \<in># mset (wp_jobs wp)" unfolding finish_write_jobs [OF n, of "en_trace env" None] by simp
  then have "?j \<in> set (jobs c)" using wp by (simp add: jobs_def)
  then have j: "wj_core ?j = a" "wj_dataset ?j \<in> fst ` set (co_datasets c)" using co by (auto simp: core_ok_def)
  then obtain d where d: "map_of (co_datasets c) (wj_dataset ?j) = Some d"
    by (metis map_of_eq_None_iff not_Some_eq)
  obtain x dr where dw: "drv_write (en_ops env) (buf (co_staging_pool c) (wj_buf ?j)) (wj_meta ?j) (ds_driver d) = (x, dr)"
    by (cases "drv_write (en_ops env) (buf (co_staging_pool c) (wj_buf ?j)) (wj_meta ?j) (ds_driver d)")
  let ?g = "\<lambda>d. (note_failure x d)\<lparr>ds_driver := dr, ds_pending_writes := ds_pending_writes d - 1\<rparr>"
  have g: "ds_token (?g d) = ds_token d \<and> ds_variables (?g d) = ds_variables d" for d
    by (simp add: note_failure_def split: option.split)
  have e: "core_step env (ActDone a n) w = upd_core a (done_core (en_trace env) n t ?g) (upd_io (wj_io ?j) (note_outcome x) w)"
    using c wp n j d dw
    by (simp add: write_callback_def ds_at_def upd_ds_def upd_pool_def upd_workers_def upd_core_comp done_core_def [abs_def] comp_def)
  have g1: "good w (upd_io (wj_io ?j) (note_outcome x) w)" (is "good w ?w") by (rule good_upd_io [OF ok])
  have "good ?w (upd_core a (done_core (en_trace env) n t ?g) ?w)"
  proof (rule good_upd_core [OF good_ok [OF g1]])
    show "w_cores ?w a = Some c" using c by simp
    show "core_ok (w_views ?w) (w_next ?w) a (done_core (en_trace env) n t ?g c)"
      using done_core_ok(1) [OF co wp n g] by simp
    show "set (jobs (done_core (en_trace env) n t ?g c)) \<subseteq> set (jobs c)" by (rule done_core_ok(2) [OF co wp n g])
    show "kept (co_staging_pool c) (co_staging_pool (done_core (en_trace env) n t ?g c)) b"
      if "b \<in># job_held (done_core (en_trace env) n t ?g c) + view_held (w_views ?w) a" for b
      using done_core_ok(3) [OF co wp n g] that by simp
  qed (use g in \<open>simp_all add: done_core_def map_of_put option.map_comp comp_def\<close>)
  then show ?thesis unfolding e by (rule good_trans [OF g1])
qed

lemma quick_expired [simp]: "quick expired" "quick []"
  by (simp_all add: quick_def expired_def)

lemma core_step_good: "world_ok w \<Longrightarrow> good w (core_step env act w)"
  by (cases act) (simp_all add: good_poll [simplified] good_done [simplified] good_fetch_step)

lemma core_run_good: "world_ok w \<Longrightarrow> good w (core_run env acts w)"
  by (induction acts arbitrary: w) (auto intro: good_refl good_trans core_step_good good_ok)

end
