(* ===== verification/Core_Safety.thy ===== *)
theory Core_Safety
  imports Core_Invariant
begin

text \<open>
  The entry points keep the invariant of the runtime and are safe, and what follows for a host: calls
  through handles never reach a freed object, a staged write and a view are never overwritten.
\<close>


section \<open>Buffers taken out\<close>

definition spare :: "('d, 'c) world \<Rightarrow> nat \<Rightarrow> nat multiset \<Rightarrow> bool" where
  "spare w a G \<longleftrightarrow>
     (\<exists>c. w_cores w a = Some c \<and> own_ok (co_staging_pool c) (owners (w_views w) a c + G))"

lemma on_queue_good:
  assumes ok: "world_ok w" and q: "on_queue f env a i name w = Some (r, w')"
    and f: "\<And>rd p p' r. pq_ok p \<Longrightarrow> f rd p = (r, p') \<Longrightarrow> pq_frame (G r) p p'"
  shows "good w w' \<and> spare w' a (G r)"
proof -
  obtain c d v p where c: "w_cores w a = Some c" and d: "ds_at w a i = Some d" and v: "map_of (ds_variables d) name = Some v"
    and p: "f (drv_read (en_ops env) (ds_driver d)) (pq_world_of c v) = (r, p)" and w': "w' = put_pq a i name p w"
    using q by (auto simp: on_queue_def Let_def split: option.splits prod.splits)
  have "pq_frame (G r) (pq_world_of c v) p" by (rule f [OF var_pq_ok [OF ok c d v] p])
  then have fr: "own_frame (co_staging_pool c) (var_held v) (pw_pool p) (pq_held p) (G r)"
    unfolding pq_frame_def pq_held_of pw_pool_of .
  have "w_cores w' a = Some (put_core i name p c)" "w_views w' = w_views w"
    using c by (simp_all add: w' put_pq_core)
  then show ?thesis using put_pq_good [OF ok c d v fr] by (simp add: w' spare_def)
qed

lemma get_more_good:
  "world_ok w \<Longrightarrow> get_more env a i name t req ks w = (r, w') \<Longrightarrow>
   good w w' \<and> (handed r \<noteq> {#} \<longrightarrow> spare w' a (handed r))"
proof (induction ks arbitrary: w)
  case Nil
  then show ?case by (simp add: good_refl)
next
  case (Cons k ks)
  let ?w1 = "core_run env (ck_others k) w"
  have g1: "good w ?w1" by (rule core_run_good [OF Cons.prems(1)])
  note ok1 = good_ok [OF g1]
  show ?case
  proof (cases "ck_timeout k")
    case True
    show ?thesis
    proof (cases "on_queue (\<lambda>rd. get_last t) env a i name ?w1")
      case None
      with True Cons.prems g1 show ?thesis by simp
    next
      case (Some rw)
      with True Cons.prems have "on_queue (\<lambda>rd. get_last t) env a i name ?w1 = Some (r, w')" by simp
      then have "good ?w1 w' \<and> spare w' a (handed r)"
        by (rule on_queue_good [OF ok1]) (rule get_last_frame)
      with g1 show ?thesis using good_trans by blast
    qed
  next
    case False
    let ?f = "\<lambda>rd. get_loop (en_alloc env) rd expired t req []"
    show ?thesis
    proof (cases "on_queue ?f env a i name ?w1")
      case None
      with False Cons.prems g1 show ?thesis by simp
    next
      case (Some rw)
      obtain r2 w2 where rw: "rw = (r2, w2)" by (cases rw)
      have q2: "on_queue ?f env a i name ?w1 = Some (r2, w2)" using Some rw by simp
      have g2: "good ?w1 w2 \<and> spare w2 a (handed r2)"
        by (rule on_queue_good [OF ok1 q2]) (rule get_loop_frame [OF _ quick_expired(1)])
      then have g: "good w w2" using g1 good_trans by blast
      show ?thesis
      proof (cases "r2 = GetWaiting")
        case True
        then have "get_more env a i name t req ks w2 = (r, w')" using False Cons.prems Some rw by simp
        from Cons.IH [OF good_ok [OF g] this] show ?thesis using g good_trans by blast
      next
        case other: False
        then have "r = r2 \<and> w' = w2" using False Cons.prems Some rw by (cases r2) simp_all
        with g g2 show ?thesis by simp
      qed
    qed
  qed
qed

lemma core_get_buffer_good:
  assumes ok: "world_ok w" and g: "core_get_buffer env a i name t req ks w = (r, w')"
  shows "good w w' \<and> (handed r \<noteq> {#} \<longrightarrow> spare w' a (handed r))"
proof (cases "on_queue (\<lambda>rd. get_buffer (en_alloc env) rd expired t req []) env a i name w")
  case None
  with g ok show ?thesis by (auto simp: core_get_buffer_def good_refl)
next
  case (Some rw)
  obtain r1 w1 where rw: "rw = (r1, w1)" by (cases rw)
  have q1: "on_queue (\<lambda>rd. get_buffer (en_alloc env) rd expired t req []) env a i name w = Some (r1, w1)"
    using Some rw by simp
  have g1: "good w w1 \<and> spare w1 a (handed r1)"
    by (rule on_queue_good [OF ok q1]) (rule get_buffer_frame [OF _ quick_expired(1)])
  show ?thesis
  proof (cases "r1 = GetWaiting")
    case True
    then have "get_more env a i name t req ks w1 = (r, w')" using g Some rw by (simp add: core_get_buffer_def)
    from get_more_good [OF good_ok this] g1 show ?thesis using good_trans by blast
  next
    case False
    then have "r = r1 \<and> w' = w1" using g Some rw by (cases r1) (simp_all add: core_get_buffer_def)
    with g1 show ?thesis by simp
  qed
qed

text \<open>A new pool in which the holders' buffers are untouched.\<close>

lemma good_upd_pool:
  assumes ok: "world_ok w" and c: "w_cores w a = Some c"
    and o: "own_ok p (owners (w_views w) a c)"
    and k: "\<And>b. b \<in># owners (w_views w) a c \<Longrightarrow> kept (co_staging_pool c) p b"
  shows "good w (upd_pool a (\<lambda>_. p) w)"
proof -
  have co: "core_ok (w_views w) (w_next w) a c" using ok c by (simp add: world_ok_def)
  have same: "jobs (c\<lparr>co_staging_pool := p\<rparr>) = jobs c" "owners vs a (c\<lparr>co_staging_pool := p\<rparr>) = owners vs a c"
    "job_held (c\<lparr>co_staging_pool := p\<rparr>) = job_held c" for vs
    by (simp_all add: jobs_def owners_def job_held_def queue_held_def)
  have "core_ok (w_views w) (w_next w) a (c\<lparr>co_staging_pool := p\<rparr>)"
    using co o by (simp add: core_ok_def same)
  then show ?thesis unfolding upd_pool_def
    by (intro good_upd_core [OF ok c]) (auto simp: same intro!: k simp: owners_def)
qed

lemma pool_try_acquire:
  assumes ok: "world_ok w" and t: "pool_try (acquire_pass alloc n) a w = Some (r, w')"
  shows "good w w' \<and> (\<forall>b. r = Acquired b \<longrightarrow> spare w' a {#b#}
    \<and> (\<exists>c. w_cores w' a = Some c \<and> n \<le> cap (co_staging_pool c) b \<and> sb_data (buf (co_staging_pool c) b) \<noteq> None))"
proof -
  obtain c p where c: "w_cores w a = Some c" and p: "acquire_pass alloc n (co_staging_pool c) = Some (r, p)"
    and w': "w' = upd_pool a (\<lambda>_. p) w"
    using t by (auto simp: pool_try_def split: option.splits)
  let ?H = "owners (w_views w) a c"
  have o: "own_ok (co_staging_pool c) ?H" using ok c by (simp add: world_ok_def core_ok_def)
  then have inv: "pool_inv (co_staging_pool c)" by (simp add: own_ok_def)
  have k: "kept (co_staging_pool c) p b" if "b \<in># ?H" for b
  proof -
    have "pool_refs (co_staging_pool c) b > 0" using own_ok_held [OF o that] by simp
    from acquire_pass_held [OF inv this p] show ?thesis by (simp add: kept_def)
  qed
  have c': "w_cores w' a = Some (c\<lparr>co_staging_pool := p\<rparr>)" "w_views w' = w_views w"
    using c by (simp_all add: w' upd_pool_def)
  have H': "owners vs a (c\<lparr>co_staging_pool := p\<rparr>) = owners vs a c" for vs
    by (simp add: owners_def job_held_def jobs_def queue_held_def)
  consider "r = BadAlloc" | b where "r = Acquired b" using acquire_pass_results [OF p] by blast
  then show ?thesis
  proof cases
    case 1
    then have "own_frame (co_staging_pool c) ?H p ?H {#}" using own_bad_alloc [OF o] p by simp
    then have "own_ok p ?H" by (rule own_frame_ok0 [OF o])
    with 1 show ?thesis using good_upd_pool [OF ok c _ k] by (simp add: w')
  next
    case (2 b)
    then have fr: "own_frame (co_staging_pool c) ?H p (add_mset b ?H) {#}" using own_acquire [OF o] p by simp
    have o': "own_ok p (add_mset b ?H)" by (rule own_frame_ok0 [OF o fr])
    have "own_ok p ?H" by (rule own_ok_mono [OF o']) simp
    then have g: "good w w'" unfolding w' by (rule good_upd_pool [OF ok c _ k])
    obtain q where "acquired_from q n b p" using acquire_pass_Acquired [OF inv] p 2 by blast
    then have "n \<le> cap p b \<and> sb_data (buf p b) \<noteq> None" by (simp add: acquired_from_def)
    with g o' 2 c' show ?thesis by (simp add: spare_def H')
  qed
qed

lemma take_free_pass: "take_free alloc n p = Some r \<Longrightarrow> acquire_pass alloc n p = Some r"
  by (simp add: acquire_pass_def)

lemma core_acquire_good:
  "world_ok w \<Longrightarrow> core_acquire env a n ks w = (r, w') \<Longrightarrow>
   good w w' \<and> (\<forall>b. r = Acquired b \<longrightarrow> spare w' a {#b#}
     \<and> (\<exists>c. w_cores w' a = Some c \<and> n \<le> cap (co_staging_pool c) b \<and> sb_data (buf (co_staging_pool c) b) \<noteq> None))"
proof (induction ks arbitrary: w)
  case Nil
  show ?case
  proof (cases "pool_try (acquire_pass (en_alloc env) n) a w")
    case None
    then have "core_acquire env a n [] w = (StillWaiting, w)" by (subst core_acquire.simps) simp
    with Nil show ?thesis by (auto simp: good_refl)
  next
    case (Some x)
    then have "core_acquire env a n [] w = x" by (subst core_acquire.simps) simp
    with Nil Some show ?thesis by (intro pool_try_acquire) simp_all
  qed
next
  case (Cons k ks)
  show ?case
  proof (cases "pool_try (acquire_pass (en_alloc env) n) a w")
    case (Some x)
    then have "core_acquire env a n (k # ks) w = x" by (subst core_acquire.simps) simp
    with Cons.prems Some show ?thesis by (intro pool_try_acquire) simp_all
  next
    case None
    let ?w1 = "core_run env (ck_others k) w"
    have g1: "good w ?w1" by (rule core_run_good [OF Cons.prems(1)])
    have e: "core_acquire env a n (k # ks) w =
        (if ck_timeout k
         then (case pool_try (take_free (en_alloc env) n) a ?w1 of Some r \<Rightarrow> r | None \<Rightarrow> (NoBuffer, ?w1))
         else core_acquire env a n ks ?w1)"
      using None by (subst core_acquire.simps) (simp add: Let_def)
    show ?thesis
    proof (cases "ck_timeout k")
      case False
      then have "core_acquire env a n ks ?w1 = (r, w')" using e Cons.prems by simp
      from Cons.IH [OF good_ok [OF g1] this] g1 show ?thesis using good_trans by blast
    next
      case True
      show ?thesis
      proof (cases "pool_try (take_free (en_alloc env) n) a ?w1")
        case None
        with True e Cons.prems g1 show ?thesis by auto
      next
        case (Some x)
        then have "pool_try (take_free (en_alloc env) n) a ?w1 = Some (r, w')" using True e Cons.prems by simp
        then have "pool_try (acquire_pass (en_alloc env) n) a ?w1 = Some (r, w')"
          by (auto simp: pool_try_def take_free_pass split: option.splits)
        from pool_try_acquire [OF good_ok [OF g1] this] g1 show ?thesis using good_trans by blast
      qed
    qed
  qed
qed


text \<open>Work on a buffer that was taken out.\<close>

lemma upd_pool_const: "w_cores w a = Some c \<Longrightarrow> upd_pool a f w = upd_pool a (\<lambda>_. f (co_staging_pool c)) w"
  by (simp add: upd_pool_def upd_core_def)

lemma spare_move:
  assumes ok: "world_ok w" and c: "w_cores w a = Some c" and o: "own_ok (co_staging_pool c) (owners (w_views w) a c + G)"
    and fr: "own_frame (co_staging_pool c) G (f (co_staging_pool c)) G' {#}"
  shows "good w (upd_pool a f w) \<and> spare (upd_pool a f w) a G'"
proof -
  let ?p = "co_staging_pool c" and ?H = "owners (w_views w) a c"
  have o1: "own_ok ?p (G + ?H)" using o by (simp add: ac_simps)
  have o2: "own_ok (f ?p) (G' + ?H)" by (rule own_frame_ok0 [OF o1 own_frame_rest [OF fr]])
  have "own_ok (f ?p) ?H" by (rule own_ok_mono [OF o2]) simp
  moreover have "kept ?p (f ?p) x" if "x \<in># ?H" for x by (rule rest_kept [OF o1 fr that])
  ultimately have "good w (upd_pool a (\<lambda>_. f ?p) w)" by (rule good_upd_pool [OF ok c])
  moreover have "owners vs a (c\<lparr>co_staging_pool := f ?p\<rparr>) = owners vs a c" for vs
    by (simp add: owners_def job_held_def jobs_def queue_held_def)
  ultimately show ?thesis
    unfolding upd_pool_const [OF c, of f] using o2 c by (simp add: spare_def upd_pool_def ac_simps)
qed

lemma spare_fill:
  assumes "world_ok w" and "spare w a {#b#}"
  shows "good w (upd_pool a (fill_buffer b bs used) w) \<and> spare (upd_pool a (fill_buffer b bs used) w) a {#b#}"
proof -
  obtain c where c: "w_cores w a = Some c" and o: "own_ok (co_staging_pool c) (owners (w_views w) a c + {#b#})"
    using assms(2) by (auto simp: spare_def)
  have "own_ok (co_staging_pool c) {#b#}" by (rule own_ok_mono [OF o]) simp
  from own_fill [OF this, of b bs used] show ?thesis by (intro spare_move [OF assms(1) c o]) simp
qed

lemma spare_release:
  assumes "world_ok w" and "spare w a {#b#}"
  shows "good w (upd_pool a (pool_release b) w)"
proof -
  obtain c where c: "w_cores w a = Some c" and o: "own_ok (co_staging_pool c) (owners (w_views w) a c + {#b#})"
    using assms(2) by (auto simp: spare_def)
  have "own_ok (co_staging_pool c) {#b#}" by (rule own_ok_mono [OF o]) simp
  from own_release [OF this, of b] have "own_frame (co_staging_pool c) {#b#} (pool_release b (co_staging_pool c)) {#} {#}"
    by simp
  then show ?thesis using spare_move [where f = "pool_release b", OF assms(1) c o] by blast
qed


section \<open>The handle table\<close>

lemma table_ok_insert:
  assumes t: "table_ok w" and i: "ht_insert k p (w_table w) = (tok, t')" and w': "w_table w' = t'"
    and old: "\<And>x e. token_ok w x e \<Longrightarrow> token_ok w' x e" and new: "token_ok w' tok (k, p)"
  shows "table_ok w'"
proof -
  have inv: "ht_inv (w_table w)" using t by (simp add: table_ok_def)
  have "token_ok w' x e" if x: "ht_abs t' x = Some e" for x e
  proof (cases "tok = 0")
    case True
    then have "ht_abs (w_table w) x = Some e" using ht_insert_full(2) [OF inv i] x by simp
    then show ?thesis using t by (intro old) (unfold table_ok_def, blast)
  next
    case False
    then have "ht_abs t' = (ht_abs (w_table w))(tok \<mapsto> (k, p))" using ht_insert_spec [OF inv i] by simp
    with x have "x = tok \<and> e = (k, p) \<or> ht_abs (w_table w) x = Some e" by (auto split: if_splits)
    then show ?thesis
    proof
      assume "ht_abs (w_table w) x = Some e"
      then show ?thesis using t by (intro old) (unfold table_ok_def, blast)
    qed (use new in simp)
  qed
  then show ?thesis using ht_insert_inv [OF inv i] by (simp add: table_ok_def w')
qed

lemma ht_release_sub:
  assumes "ht_inv t"
  shows "ht_inv (snd (ht_release tok k t))"
    and "ht_abs (snd (ht_release tok k t)) x = Some e \<Longrightarrow> ht_abs t x = Some e \<and> (x \<noteq> tok \<or> fst e \<noteq> k)"
proof -
  obtain r t' where r: "ht_release tok k t = (r, t')" by (cases "ht_release tok k t")
  show "ht_inv (snd (ht_release tok k t))" using ht_release_spec(4) [OF assms r] r by simp
  show "ht_abs t x = Some e \<and> (x \<noteq> tok \<or> fst e \<noteq> k)" if x: "ht_abs (snd (ht_release tok k t)) x = Some e"
  proof (cases "r = AMIO_OK")
    case True
    then have "ht_abs t' = (ht_abs t)(tok := None)" by (rule ht_release_spec(2) [OF assms r])
    with x r show ?thesis by (simp split: if_splits)
  next
    case False
    then have "t' = t" "\<nexists>p. ht_abs t tok = Some (k, p)"
      using ht_release_spec(1,3) [OF assms r] by auto
    with x r show ?thesis by (cases e) auto
  qed
qed

text \<open>A new object with its handle: addresses grow, the old objects stay.\<close>

lemma world_ok_core: "world_ok w \<Longrightarrow> w_cores w a = Some c \<Longrightarrow> core_ok (w_views w) (w_next w) a c"
  by (simp add: world_ok_def)

lemma core_ok_mono: "core_ok vs nx a c \<Longrightarrow> nx \<le> nx' \<Longrightarrow> core_ok vs nx' a c"
  by (force simp: core_ok_def)

lemma safe_grow:
  assumes ok: "world_ok w" and n: "w_next w \<le> w_next w'"
    and "\<And>h a b. holds w' h a b \<Longrightarrow> addr h < w_next w \<Longrightarrow> holds w h a b"
    and "\<And>a c. w_cores w a = Some c \<Longrightarrow> \<exists>c'. w_cores w' a = Some c' \<and> co_staging_pool c' = co_staging_pool c"
  shows "safe w w'"
proof -
  have "pools_kept w w' a b" if h: "holds w h a b" for h a b
  proof -
    obtain c where c: "w_cores w a = Some c" using holds_core [OF h] by auto
    then obtain c' where c': "w_cores w' a = Some c'" "co_staging_pool c' = co_staging_pool c" using assms(4) by blast
    have "pool_refs (co_staging_pool c) b > 0" using holds_refs [OF ok h c] by simp
    with c c' show ?thesis by (simp add: pools_kept_def kept_refl)
  qed
  with assms(2,3) show ?thesis unfolding safe_def by blast
qed

lemma good_new_io:
  assumes ok: "world_ok w" and i: "ht_insert Io (Some (At_Io (w_next w))) (w_table w) = (tok, t')"
    and w': "w' = w\<lparr>w_table := t', w_ios := (w_ios w)(w_next w \<mapsto> r), w_next := w_next w + 1\<rparr>"
  shows "good w w'"
proof -
  have t: "table_ok w'"
  proof (rule table_ok_insert [OF _ i])
    show "table_ok w" using ok by (simp add: world_ok_def)
    show "token_ok w' x e" if "token_ok w x e" for x e
      using that by (auto simp: w' token_ok_def ds_at_def split: prod.splits handle_kind.splits option.splits payload.splits)
  qed (simp_all add: w' token_ok_def)
  have "heap_ok w'" using ok by (auto simp: w' world_ok_def heap_ok_def)
  moreover have "core_ok (w_views w') (w_next w') a c" if "w_cores w' a = Some c" for a c
    using core_ok_mono [OF world_ok_core [OF ok]] that by (simp add: w')
  moreover have "safe w w'"
    using holds_cong [of w' w] by (intro safe_grow [OF ok]) (simp_all add: w')
  ultimately show ?thesis using t by (simp add: good_def world_ok_def)
qed



section \<open>Objects that stay\<close>

text \<open>The contexts with their datasets and variables, which only opening, describing, reading and finalizing change.\<close>

definition core_shape :: "('d, 'c) amio_core \<Rightarrow> token \<times> (nat \<times> token \<times> int \<times> u64 \<times> string list) list \<times> bool" where
  "core_shape c =
     (co_token c,
      map (\<lambda>(i, d). (i, ds_token d, ds_mode d, ds_outstanding_views d, map fst (ds_variables d))) (co_datasets c),
      co_worker_pool c = None)"

definition shape_same :: "('d, 'c) world \<Rightarrow> ('d, 'c) world \<Rightarrow> bool" where
  "shape_same w w' \<longleftrightarrow> (\<forall>a. map_option core_shape (w_cores w' a) = map_option core_shape (w_cores w a))"

lemma shape_trans: "shape_same w w1 \<Longrightarrow> shape_same w1 w2 \<Longrightarrow> shape_same w w2"
  by (simp add: shape_same_def)

lemma shape_cores: "w_cores w' = w_cores w \<Longrightarrow> shape_same w w'"
  by (simp add: shape_same_def)

lemma shape_upd_core: "(\<And>c. core_shape (f c) = core_shape c) \<Longrightarrow> shape_same w (upd_core a f w)"
  by (simp add: shape_same_def option.map_comp comp_def)

lemma shape_upd_pool: "shape_same w (upd_pool a f w)"
  unfolding upd_pool_def by (rule shape_upd_core) (simp add: core_shape_def)

lemma shape_upd_workers: "shape_same w (upd_workers a f w)"
  unfolding upd_workers_def by (rule shape_upd_core) (simp add: core_shape_def)

lemma shape_upd_ds:
  assumes "\<And>d. ds_token (f d) = ds_token d \<and> ds_mode (f d) = ds_mode d
      \<and> ds_outstanding_views (f d) = ds_outstanding_views d \<and> map fst (ds_variables (f d)) = map fst (ds_variables d)"
  shows "shape_same w (upd_ds a i f w)"
  unfolding upd_ds_def using assms by (intro shape_upd_core) (auto simp: core_shape_def)

lemma shape_put_pq: "shape_same w (put_pq a i name p w)"
  unfolding put_pq_def
  by (rule shape_trans [OF shape_upd_pool shape_upd_ds]) (auto simp: comp_def split_beta)

lemma shape_callback: "shape_same w (write_callback env j w)"
proof -
  have "shape_same w (upd_ds a i (\<lambda>d. (note_failure x d)\<lparr>ds_driver := dr, ds_pending_writes := ds_pending_writes d - 1\<rparr>)
      (upd_pool a f (upd_io y g w)))" for a i x dr f y g
    by (rule shape_trans [OF shape_trans [OF shape_cores shape_upd_pool] shape_upd_ds])
      (simp_all add: note_failure_def split: option.split)
  then show ?thesis by (simp add: write_callback_def shape_cores split: option.split prod.split)
qed

lemma shape_step: "shape_same w (core_step env act w)"
  by (cases act)
    (auto simp: fetch_step_def split: option.splits running.splits
      intro!: shape_upd_workers shape_put_pq shape_cores shape_trans [OF shape_callback shape_upd_workers])

lemma shape_run: "shape_same w (core_run env acts w)"
proof (induction acts arbitrary: w)
  case Nil
  show ?case by (simp add: shape_cores)
next
  case (Cons x xs)
  from shape_trans [OF shape_step Cons] show ?case by simp
qed

lemma shape_on_queue: "on_queue f env a i name w = Some (r, w') \<Longrightarrow> shape_same w w'"
  by (auto simp: on_queue_def Let_def shape_put_pq split: option.splits prod.splits)

lemma shape_get_more: "get_more env a i name t req ks w = (r, w') \<Longrightarrow> shape_same w w'"
proof (induction ks arbitrary: w)
  case Nil
  then show ?case by (simp add: shape_cores)
next
  case (Cons k ks)
  have 1: "shape_same w w2" if "on_queue f env a i name (core_run env (ck_others k) w) = Some (x, w2)" for f x w2
    by (rule shape_trans [OF shape_run shape_on_queue [OF that]])
  show ?case
    using Cons.prems shape_run [of w env "ck_others k"] shape_trans [OF 1 Cons.IH]
    by (auto simp: Let_def split: if_splits option.splits prod.splits get_result.splits intro: 1)
qed

lemma shape_get_buffer: "core_get_buffer env a i name t req ks w = (r, w') \<Longrightarrow> shape_same w w'"
  by (auto simp: core_get_buffer_def split: option.splits prod.splits get_result.splits
      intro: shape_trans shape_on_queue shape_get_more shape_cores)

lemma shape_pool_try: "pool_try f a w = Some (r, w') \<Longrightarrow> shape_same w w'"
  by (auto simp: pool_try_def shape_upd_pool split: option.splits)

lemma shape_acquire: "core_acquire env a n ks w = (r, w') \<Longrightarrow> shape_same w w'"
proof (induction ks arbitrary: w)
  case Nil
  then show ?case
    by (subst (asm) core_acquire.simps) (auto split: option.splits intro: shape_pool_try shape_cores)
next
  case (Cons k ks)
  have 1: "shape_same w (core_run env (ck_others k) w)" by (rule shape_run)
  show ?case
    using Cons.prems Cons.IH [of "core_run env (ck_others k) w"] 1
    by (subst (asm) core_acquire.simps)
      (auto simp: Let_def split: option.splits if_splits intro: shape_pool_try shape_trans)
qed

text \<open>What a shape tells.\<close>

lemma shape_core:
  assumes "shape_same w w'" and "w_cores w a = Some c"
  obtains c' where "w_cores w' a = Some c'" and "core_shape c' = core_shape c"
proof -
  have "map_option core_shape (w_cores w' a) = map_option core_shape (w_cores w a)"
    using assms(1) by (simp add: shape_same_def)
  with assms(2) that show ?thesis by (cases "w_cores w' a") simp_all
qed

lemma core_shape_ds:
  fixes c c' :: "('d, 'c) amio_core"
  assumes "core_shape c' = core_shape c" and "map_of (co_datasets c) i = Some d"
  shows "\<exists>d'. map_of (co_datasets c') i = Some d' \<and> ds_token d' = ds_token d \<and> ds_mode d' = ds_mode d
    \<and> ds_outstanding_views d' = ds_outstanding_views d \<and> map fst (ds_variables d') = map fst (ds_variables d)"
proof -
  let ?s = "\<lambda>d. (ds_token d, ds_mode d, ds_outstanding_views d, map fst (ds_variables d))"
  have m: "map_option ?s (map_of (co_datasets x) i)
      = map_of (map (\<lambda>(i, d). (i, ?s d)) (co_datasets x)) i" for x :: "('d, 'c) amio_core"
    by (simp add: map_of_map)
  have "map_option ?s (map_of (co_datasets c') i) = map_option ?s (map_of (co_datasets c) i)"
  proof -
    have "map (\<lambda>(i, d). (i, ?s d)) (co_datasets c') = map (\<lambda>(i, d). (i, ?s d)) (co_datasets c)"
      using assms(1) by (simp add: core_shape_def)
    then show ?thesis by (simp only: m)
  qed
  with assms(2) show ?thesis by auto
qed

lemma shape_ds:
  assumes "shape_same w w'" and "ds_at w a i = Some d"
  shows "\<exists>d'. ds_at w' a i = Some d' \<and> ds_token d' = ds_token d \<and> ds_mode d' = ds_mode d
    \<and> ds_outstanding_views d' = ds_outstanding_views d \<and> map fst (ds_variables d') = map fst (ds_variables d)"
proof -
  obtain c where c: "w_cores w a = Some c" "map_of (co_datasets c) i = Some d"
    using assms(2) by (auto simp: ds_at_def split: option.splits)
  obtain c' where c': "w_cores w' a = Some c'" "core_shape c' = core_shape c" by (rule shape_core [OF assms(1) c(1)])
  from core_shape_ds [OF c'(2) c(2)] c'(1) show ?thesis by (simp add: ds_at_def)
qed


section \<open>Writing\<close>

lemma enqueue_write_jobs:
  assumes "enqueue_write k h j wp = (t, wp1)"
  shows "mset (wp_jobs wp1) = add_mset j (mset (wp_jobs wp))"
proof -
  obtain d st1 where g: "get_dv_state k wp = (d, st1)" by (cases "get_dv_state k wp")
  from get_dv_state_queues [OF g] g assms show ?thesis by (auto simp: enqueue_write_def wp_jobs_def Let_def)
qed

text \<open>A submission is rejected, or its task joins those of the pool, waiting or queued.\<close>

lemma submit_write_jobs:
  assumes "submit_write_core k h j wp = (res, wp1)"
  shows "wp1 = wp \<and> (res = ShutDown \<or> res = QueueFull) \<or> mset (wp_jobs wp1) = add_mset j (mset (wp_jobs wp))"
  using assms enqueue_write_jobs [of k h j wp]
  by (auto simp: submit_write_core_def submit_locked_def split: if_splits prod.splits) (simp add: wp_jobs_def)

text \<open>A new tracking record together with the task that refers to it.\<close>

lemma good_new_job:
  assumes ok: "world_ok w" and c: "w_cores w a = Some c" and wp: "co_worker_pool c = Some wp"
    and sp: "spare w a {#wj_buf j#}" and d: "wj_dataset j \<in> fst ` set (co_datasets c)"
    and j: "wj_core j = a" "wj_io j = w_next w"
    and jobs: "mset (wp_jobs wp1) = add_mset j (mset (wp_jobs wp))"
    and g1: "good w w1" and w1: "w_cores w1 = w_cores w" "w_views w1 = w_views w" "w_next w1 = w_next w + 1"
  shows "good w (upd_workers a (\<lambda>_. wp1) w1)"
proof -
  let ?c = "c\<lparr>co_worker_pool := Some wp1\<rparr>" and ?w = "upd_workers a (\<lambda>_. wp1) w1"
  have ok1: "world_ok w1" by (rule good_ok [OF g1])
  have o: "own_ok (co_staging_pool c) (owners (w_views w) a c + {#wj_buf j#})" using sp c by (auto simp: spare_def)
  have J: "mset (Core_Invariant.jobs ?c) = add_mset j (mset (Core_Invariant.jobs c))" using jobs wp by (simp add: jobs_def)
  then have Js: "set (Core_Invariant.jobs ?c) = insert j (set (Core_Invariant.jobs c))"
    by (metis set_mset_add_mset_insert set_mset_mset)
  have H: "owners (w_views w) a ?c = add_mset (wj_buf j) (owners (w_views w) a c)"
    using J by (simp add: owners_def job_held_def queue_held_def)
  have co: "core_ok (w_views w) (w_next w) a c" by (rule world_ok_core [OF ok c])
  have co': "core_ok (w_views w1) (w_next w1) a ?c"
    using o core_ok_mono [OF co, of "w_next w1"] d j by (simp add: core_ok_def w1 H Js)
  have c1: "w_cores w1 a = Some c" using c w1 by simp
  have cores: "w_cores ?w x = (if x = a then Some ?c else w_cores w x)" for x
    using c1 wp w1 by (simp add: upd_workers_def)
  have rest: "w_views ?w = w_views w" "w_next ?w = w_next w + 1" "w_table ?w = w_table w1" "w_ios ?w = w_ios w1"
    using w1 by (simp_all add: upd_workers_def)
  have "token_ok ?w t e = token_ok w1 t e" for t e
  proof (rule token_ok_cong)
    show "map_option ds_token (ds_at ?w a' i) = map_option ds_token (ds_at w1 a' i)" for a' i
      using cores w1 c by (simp add: ds_at_def)
  qed (use cores w1 c rest in auto)
  then have "table_ok ?w" "heap_ok ?w"
    using ok1 cores rest w1 c by (auto simp: world_ok_def table_ok_def heap_ok_def)
  moreover have "core_ok (w_views ?w) (w_next ?w) x y" if "w_cores ?w x = Some y" for x y
    using that co' world_ok_core [OF ok1, of x y] w1 rest cores by (auto split: if_splits)
  moreover have "safe w ?w"
  proof (rule safe_grow [OF ok])
    show "holds w h x b" if h: "holds ?w h x b" "addr h < w_next w" for h x b
      using h Js j c by (cases h) (auto simp: cores rest split: if_splits)
  qed (use cores c rest in auto)
  ultimately show ?thesis by (simp add: good_def world_ok_def)
qed


lemma spare_cong:
  "w_cores w' = w_cores w \<Longrightarrow> w_views w' = w_views w \<Longrightarrow> spare w' a G = spare w a G"
  by (simp add: spare_def)

text \<open>The tracking record that \<^verbatim>\<open>amio_write\<close> creates, the world with it, and the task that refers to it.\<close>

definition new_record :: "nat \<Rightarrow> nat \<Rightarrow> nat \<Rightarrow> token \<Rightarrow> io_record" where
  "new_record a i b tk =
     \<lparr>io_dataset_id = i, io_dv_seq = 0, io_token = tk, io_staging_buf = b, io_core = a,
      io_completed = False, io_failed = False, io_failure_code = AMIO_OK\<rparr>"

definition with_record :: "io_record \<Rightarrow> payload handle_table \<Rightarrow> ('d, 'c) world \<Rightarrow> ('d, 'c) world" where
  "with_record r t w = w\<lparr>w_table := t, w_ios := (w_ios w)(w_next w \<mapsto> r), w_next := w_next w + 1\<rparr>"

definition new_job :: "nat \<Rightarrow> nat \<Rightarrow> var_meta \<Rightarrow> nat \<Rightarrow> nat \<Rightarrow> write_job" where
  "new_job a i meta b x = \<lparr>wj_buf = b, wj_core = a, wj_dataset = i, wj_io = x, wj_meta = meta\<rparr>"

lemma with_record_simps [simp]:
  "w_cores (with_record r t w) = w_cores w" "w_views (with_record r t w) = w_views w"
  "w_next (with_record r t w) = Suc (w_next w)" "w_table (with_record r t w) = t"
  "w_ios (with_record r t w) = (w_ios w)(w_next w \<mapsto> r)"
  by (simp_all add: with_record_def)

lemma enqueue_submit_good:
  assumes ok: "world_ok w" and sp: "spare w a {#b#}" and d: "ds_at w a i \<noteq> None"
    and c: "w_cores w a = Some c" "co_worker_pool c = Some wp"
    and i: "ht_insert Io (Some (At_Io (w_next w))) (w_table w) = (tk, t')"
    and sub: "submit_write_core k tk (new_job a i meta b (w_next w)) wp = (res, wp1)"
  shows "good w (upd_workers a (\<lambda>_. wp1) (with_record (new_record a i b tk) t' w))"
proof -
  let ?w1 = "with_record (new_record a i b tk) t' w" and ?j = "new_job a i meta b (w_next w)"
  have g1: "good w ?w1" by (rule good_new_io [OF ok i]) (simp add: with_record_def)
  show ?thesis
  proof (cases "wp1 = wp")
    case True
    then have "upd_workers a (\<lambda>_. wp1) ?w1 = ?w1" using c by (simp add: upd_workers_def upd_core_def fun_upd_idem)
    with g1 show ?thesis by simp
  next
    case False
    then have "mset (wp_jobs wp1) = add_mset ?j (mset (wp_jobs wp))" using submit_write_jobs [OF sub] by blast
    moreover have "i \<in> fst ` set (co_datasets c)"
      using d c by (force simp: ds_at_def dest: map_of_SomeD)
    ultimately show ?thesis using sp g1 by (intro good_new_job [OF ok c, where j = ?j]) (simp_all add: new_job_def)
  qed
qed

lemma enqueue_io_cases:
  assumes e: "enqueue_io env a i meta b race w = (r, tok, w')" and c: "w_cores w a = Some c"
    and i: "ht_insert Io (Some (At_Io (w_next w))) (w_table w) = (tk, t')"
  defines "w1 \<equiv> with_record (new_record a i b tk) t' w"
  obtains (no_workers) "co_worker_pool c = None" "r = Rc AMIO_OK" "tok = tk"
      "w' = upd_pool a (pool_release b) (upd_io (w_next w) (\<lambda>r. r\<lparr>io_completed := True\<rparr>) w1)"
  | (submitted) wp res wp1 where "co_worker_pool c = Some wp"
      "submit_write_core \<lparr>dataset_id = i, variable_id = vm_variable_id meta\<rparr> tk (new_job a i meta b (w_next w)) wp = (res, wp1)"
      "res = Blocked \<and> r = Waits \<and> w' = upd_workers a (\<lambda>_. wp1) w1 \<or>
       res \<noteq> Blocked \<and> r = Rc AMIO_OK \<and> tok = tk \<and> w' = upd_ds a i (\<lambda>d. d\<lparr>ds_pending_writes := ds_pending_writes d + 1\<rparr>)
          (upd_io (w_next w) (\<lambda>r. r\<lparr>io_dv_seq := snd (submit_return res)\<rparr>) (core_run env race (upd_workers a (\<lambda>_. wp1) w1)))"
proof (cases "co_worker_pool c")
  case None
  with e c i show thesis
    by (intro no_workers) (auto simp: enqueue_io_def Let_def w1_def with_record_def new_record_def)
next
  case (Some wp)
  obtain res wp1 where sub: "submit_write_core \<lparr>dataset_id = i, variable_id = vm_variable_id meta\<rparr> tk (new_job a i meta b (w_next w)) wp
      = (res, wp1)"
    by (cases "submit_write_core \<lparr>dataset_id = i, variable_id = vm_variable_id meta\<rparr> tk (new_job a i meta b (w_next w)) wp")
  show thesis
    by (rule submitted [OF Some sub]) (use e c i Some sub in \<open>cases res;
      auto simp: enqueue_io_def Let_def w1_def with_record_def new_record_def new_job_def\<close>)
qed

lemma enqueue_tail_good:
  assumes "world_ok w"
  shows "good w (upd_ds a i (\<lambda>d. d\<lparr>ds_pending_writes := ds_pending_writes d + 1\<rparr>) (upd_io x f (core_run env race w)))"
proof -
  have g3: "good w (core_run env race w)" by (rule core_run_good [OF assms])
  have g4: "good w (upd_io x f (core_run env race w))" by (rule good_trans [OF g3 good_upd_io [OF good_ok [OF g3]]])
  show ?thesis by (rule good_trans [OF g4 good_upd_ds [OF good_ok [OF g4]]]) simp
qed

lemma enqueue_io_good:
  assumes ok: "world_ok w" and sp: "spare w a {#b#}" and d: "ds_at w a i \<noteq> None"
    and e: "enqueue_io env a i meta b race w = (r, tok, w')"
  shows "good w w' \<and> r \<noteq> Undef"
proof -
  obtain c where c: "w_cores w a = Some c" using sp by (auto simp: spare_def)
  obtain tk t' where i: "ht_insert Io (Some (At_Io (w_next w))) (w_table w) = (tk, t')"
    by (cases "ht_insert Io (Some (At_Io (w_next w))) (w_table w)")
  let ?w1 = "with_record (new_record a i b tk) t' w"
  from e c i show ?thesis
  proof (cases rule: enqueue_io_cases)
    case no_workers
    let ?w2 = "upd_io (w_next w) (\<lambda>r. r\<lparr>io_completed := True\<rparr>) ?w1"
    have g1: "good w ?w1" by (rule good_new_io [OF ok i]) (simp add: with_record_def)
    have g2: "good ?w1 ?w2" by (rule good_upd_io [OF good_ok [OF g1]])
    have "spare ?w2 a {#b#}" using sp by (subst spare_cong [of _ w]) simp_all
    from spare_release [OF good_ok [OF g2] this] show ?thesis
      using no_workers good_trans [OF good_trans [OF g1 g2]] by simp
  next
    case (submitted wp res wp1)
    note g2 = enqueue_submit_good [OF ok sp d c submitted(1) i submitted(2)]
    from submitted(3) show ?thesis
      using g2 good_trans [OF g2 enqueue_tail_good [OF good_ok [OF g2]]] by auto
  qed
qed

lemma core_write_good:
  assumes ok: "world_ok w" and d: "ds_at w a i \<noteq> None"
    and e: "core_write env a i name host dtype shape waits race w = (r, tok, w')"
  shows "good w w' \<and> (payload_bytes dtype shape \<le> length host \<longrightarrow> r \<noteq> Undef)"
proof (cases "write_input_ok dtype shape")
  case False
  with e d ok show ?thesis by (auto simp: core_write_def good_refl)
next
  case True
  let ?n = "payload_bytes dtype shape"
  obtain res w1 where a: "core_acquire env a ?n waits w = (res, w1)" by (cases "core_acquire env a ?n waits w")
  note g = core_acquire_good [OF ok a]
  show ?thesis
  proof (cases "\<exists>b. res = Acquired b \<and> ?n \<le> length host")
    case False
    with e d True a g show ?thesis by (cases res) (auto simp: core_write_def Let_def)
  next
    case True': True
    then obtain b where b: "res = Acquired b" and len: "?n \<le> length host" by blast
    let ?w2 = "upd_pool a (fill_buffer b (take ?n host) ?n) w1"
    have g1: "good w w1" and sp: "spare w1 a {#b#}" using g b by auto
    have g2: "good w1 ?w2" "spare ?w2 a {#b#}" using spare_fill [OF good_ok [OF g1] sp] by auto
    have "ds_at w1 a i \<noteq> None" using shape_ds [OF shape_acquire [OF a]] d by fastforce
    then have d2: "ds_at ?w2 a i \<noteq> None" using shape_ds [OF shape_upd_pool] by fastforce
    have "enqueue_io env a i (write_meta i name dtype shape) b race ?w2 = (r, tok, w')"
      using e d True a b len by (simp add: core_write_def Let_def)
    from enqueue_io_good [OF good_ok [OF g2(1)] g2(2) d2 this] show ?thesis
      using good_trans [OF good_trans [OF g1 g2(1)]] by blast
  qed
qed



section \<open>Reading\<close>

lemma fresh_var_held: "var_held \<lparr>vs_name = n, vs_info = info, vs_queue = PrefetchQueue d rt ds nm info2 tot, vs_tasks = [], vs_running = []\<rparr> = {#}"
  by (simp add: var_held_def PrefetchQueue_def)

lemma map_add_key:
  assumes "distinct (map fst xs)" and "map_of xs i = Some d"
  shows "map (\<lambda>(j, e). (j, if j = i then f e else e)) xs = map (\<lambda>(j, e). (j, if j = i then f d else e)) xs"
proof (rule map_cong [OF refl], clarsimp)
  fix e assume "(i, e) \<in> set xs"
  then have "map_of xs i = Some e" using assms(1) by simp
  with assms(2) show "f e = f d" by simp
qed

lemma good_new_variable:
  assumes ok: "world_ok w" and d: "ds_at w a i = Some d" and new: "map_of (ds_variables d) name = None"
    and v: "var_held v = {#}" "vs_name v = name"
  shows "good w (upd_ds a i (\<lambda>d. d\<lparr>ds_variables := ds_variables d @ [(name, v)]\<rparr>) w)"
  unfolding upd_ds_def
proof (rule good_upd_still [OF ok])
  let ?f = "\<lambda>d. d\<lparr>ds_variables := ds_variables d @ [(name, v)]\<rparr>"
  fix c assume c: "w_cores w a = Some c"
  let ?c = "c\<lparr>co_datasets := map (\<lambda>(j, d). (j, if j = i then ?f d else d)) (co_datasets c)\<rparr>"
  have "map (\<lambda>(i, d). ds_held d) (map (\<lambda>(j, d). (j, if j = i then ?f d else d)) (co_datasets c))
      = map (\<lambda>(i, d). ds_held d) (co_datasets c)"
    using v by (auto simp: ds_held_def)
  then show "co_staging_pool ?c = co_staging_pool c \<and> co_token ?c = co_token c \<and> mset (jobs ?c) = mset (jobs c)
      \<and> queue_held ?c = queue_held c \<and> co_next_dataset_id ?c = co_next_dataset_id c
      \<and> map fst (co_datasets ?c) = map fst (co_datasets c)"
    by (simp add: jobs_def queue_held_def del: map_map)
  show "map_option ds_token (map_of (co_datasets ?c) j) = map_option ds_token (map_of (co_datasets c) j)" for j
    by (simp add: map_of_put option.map_comp comp_def)
  assume all: "\<forall>(i, d) \<in> set (co_datasets c). ds_ok d"
  have d': "map_of (co_datasets c) i = Some d" using d c by (simp add: ds_at_def)
  then have "ds_ok d" using all map_of_SomeD by fast
  then have "ds_ok (?f d)" using new v by (auto simp: ds_ok_def map_of_eq_None_iff)
  moreover have "distinct (map fst (co_datasets c))" using world_ok_core [OF ok c] by (simp add: core_ok_def)
  ultimately show "\<forall>(j, d) \<in> set (co_datasets ?c). ds_ok d"
    using all by (simp add: map_add_key [OF _ d', of ?f]) auto
qed

lemma resolve_good:
  assumes ok: "world_ok w" and r: "resolve_variable env a i name w = (res, w')" and d: "ds_at w a i \<noteq> None"
  shows "good w w' \<and> ds_at w' a i \<noteq> None
    \<and> (\<forall>v. res = Resolved v \<longrightarrow> vs_name v = name \<and> (\<exists>d. ds_at w' a i = Some d \<and> map_of (ds_variables d) name = Some v))"
proof -
  obtain d where d: "ds_at w a i = Some d" using d by auto
  show ?thesis
  proof (cases "map_of (ds_variables d) name")
    case (Some v)
    obtain c where c: "w_cores w a = Some c" "map_of (co_datasets c) i = Some d"
      using d by (auto simp: ds_at_def split: option.splits)
    then have "ds_ok d" using world_ok_core [OF ok c(1)] map_of_SomeD [OF c(2)] by (auto simp: core_ok_def)
    then have "vs_name v = name" using map_of_SomeD [OF Some] by (auto simp: ds_ok_def)
    with Some d r ok show ?thesis by (auto simp: resolve_variable_def good_refl)
  next
    case None
    show ?thesis
    proof (cases "\<exists>info. drv_describe (en_ops env) name (ds_driver d) = Inr info \<and> vi_found info")
      case False
      with None d r ok show ?thesis by (auto simp: resolve_variable_def good_refl split: sum.splits if_splits)
    next
      case True
      then obtain info where info: "drv_describe (en_ops env) name (ds_driver d) = Inr info" "vi_found info" by blast
      let ?v = "\<lparr>vs_name = name, vs_info = info,
         vs_queue = PrefetchQueue (pfc_depth (cf_prefetch (ds_config d))) (int (pfc_read_timeout_s (cf_prefetch (ds_config d)))) i name info
           (vi_total_timesteps info), vs_tasks = [], vs_running = []\<rparr>"
      have w': "res = Resolved ?v" "w' = upd_ds a i (\<lambda>d. d\<lparr>ds_variables := ds_variables d @ [(name, ?v)]\<rparr>) w"
        using r d None info by (auto simp: resolve_variable_def Let_def)
      have "good w w'" unfolding w' by (rule good_new_variable [OF ok d None fresh_var_held]) simp
      moreover have "ds_at w' a i = Some (d\<lparr>ds_variables := ds_variables d @ [(name, ?v)]\<rparr>)"
        using d by (auto simp: w' upd_ds_def ds_at_upd_core ds_at_def map_of_put split: option.splits)
      ultimately show ?thesis using None by (simp add: w' map_add_def)
    qed
  qed
qed

lemma view_held_snoc: "view_held (vs @ [(x, v)]) a = view_held vs a + (if vw_core v = a then {#vw_staging_buf v#} else {#})"
  by (simp add: view_held_def)

lemma good_new_view:
  assumes ok: "world_ok w" and sp: "spare w a {#vw_staging_buf v#}" and v: "vw_core v = a" "vw_token v = tok"
    and i: "ht_insert View (Some (At_View (w_next w))) (w_table w) = (tok, t')"
    and w': "w' = w\<lparr>w_table := t', w_views := w_views w @ [(w_next w, v)], w_next := w_next w + 1\<rparr>"
  shows "good w w'"
proof -
  have heap: "heap_ok w" using ok by (simp add: world_ok_def)
  then have fresh: "w_next w \<notin> fst ` set (w_views w)" by (auto simp: heap_ok_def)
  then have none: "map_of (w_views w) (w_next w) = None" by (simp add: map_of_eq_None_iff)
  have m: "map_of (w_views w') x = (if x = w_next w then Some v else map_of (w_views w) x)" for x
    using none by (cases "x = w_next w") (simp_all add: w' map_add_def split: option.split)
  obtain c where c: "w_cores w a = Some c" and o: "own_ok (co_staging_pool c) (owners (w_views w) a c + {#vw_staging_buf v#})"
    using sp by (auto simp: spare_def)
  have t: "table_ok w'"
  proof (rule table_ok_insert [OF _ i])
    show "table_ok w" using ok by (simp add: world_ok_def)
    show "token_ok w' x e" if "token_ok w x e" for x e
      using that none
      by (cases "fst e"; cases "snd e"; cases "the (snd e)"; cases e) (auto simp: token_ok_def ds_at_def m, simp_all add: w')
    show "token_ok w' tok (View, Some (At_View (w_next w)))" using v by (simp add: token_ok_def m)
  qed (simp add: w')
  have "heap_ok w'" using heap fresh c v by (auto simp: w' heap_ok_def)
  moreover have "core_ok (w_views w') (w_next w') x y" if y: "w_cores w' x = Some y" for x y
  proof -
    have y': "w_cores w x = Some y" using y by (simp add: w')
    have co: "core_ok (w_views w) (w_next w + 1) x y" by (rule core_ok_mono [OF world_ok_core [OF ok y']]) simp
    have "own_ok (co_staging_pool y) (owners (w_views w') x y)"
    proof (cases "x = a")
      case True
      with o c y' v show ?thesis by (simp add: w' owners_def view_held_snoc ac_simps)
    next
      case False
      with co v show ?thesis by (simp add: w' owners_def view_held_snoc core_ok_def)
    qed
    with co show ?thesis by (simp add: core_ok_def w')
  qed
  moreover have "safe w w'"
  proof (rule safe_grow [OF ok])
    show "holds w h x b" if "holds w' h x b" "addr h < w_next w" for h x b
      using that by (cases h) (auto simp: w')
  qed (simp_all add: w')
  ultimately show ?thesis using t by (simp add: good_def world_ok_def)
qed


lemma shape_var:
  assumes "shape_same w w'" and "ds_at w a i = Some d" and "n \<in> set (map fst (ds_variables d))"
  obtains d' where "ds_at w' a i = Some d'" and "n \<in> set (map fst (ds_variables d'))"
proof -
  obtain d' where "ds_at w' a i = Some d'" "map fst (ds_variables d') = map fst (ds_variables d)"
    using shape_ds [OF assms(1,2)] by blast
  with assms(3) that show ?thesis by (simp only:)
qed

lemma on_queue_Some:
  assumes "w_cores w a \<noteq> None" and "ds_at w a i = Some d" and "name \<in> set (map fst (ds_variables d))"
  shows "on_queue f env a i name w \<noteq> None"
proof -
  have "map_of (ds_variables d) name \<noteq> None" using assms(3) by (simp add: map_of_eq_None_iff)
  with assms(1,2) show ?thesis by (auto simp: on_queue_def Let_def split: option.split prod.split)
qed

lemma make_view_good:
  assumes ok: "world_ok w" and sp: "spare w a {#b#}" and d: "ds_at w a i = Some d" "vs_name v \<in> set (map fst (ds_variables d))"
    and e: "make_view env a i v t bbox b w = (r, tok, w')"
  shows "good w w' \<and> r \<noteq> Undef"
proof -
  obtain tk t' where ins: "ht_insert View (Some (At_View (w_next w))) (w_table w) = (tk, t')"
    by (cases "ht_insert View (Some (At_View (w_next w))) (w_table w)")
  define vr where "vr = \<lparr>vw_staging_buf = b, vw_token = tk, vw_core = a, vw_dataset_id = i, vw_timestep = t,
    vw_shape = view_shape_of bbox (vs_info v), vw_dtype = vi_dtype (vs_info v)\<rparr>"
  define w1 where "w1 = w\<lparr>w_table := t', w_views := w_views w @ [(w_next w, vr)], w_next := w_next w + 1\<rparr>"
  let ?w2 = "upd_ds a i (\<lambda>d. d\<lparr>ds_outstanding_views := ds_outstanding_views d + 1\<rparr>) w1"
  let ?q = "on_queue (\<lambda>rd. schedule_next (en_alloc env) rd expired t) env a i (vs_name v) ?w2"
  have g1: "good w w1" using sp by (intro good_new_view [OF ok _ _ _ ins]) (simp_all add: vr_def w1_def)
  have g2: "good w ?w2" by (rule good_trans [OF g1 good_upd_ds [OF good_ok [OF g1]]]) simp
  obtain d' where d': "ds_at ?w2 a i = Some d'" "vs_name v \<in> set (map fst (ds_variables d'))"
    using d by (auto simp: upd_ds_def ds_at_upd_core ds_at_def map_of_put w1_def split: option.splits)
  have "w_cores ?w2 a \<noteq> None" using d'(1) by (auto simp: ds_at_def split: option.splits)
  then have "?q \<noteq> None" using d' by (rule on_queue_Some)
  then obtain q w3 where q: "?q = Some (q, w3)" by auto
  then have "good ?w2 w3 \<and> spare w3 a {#}"
    by (rule on_queue_good [OF good_ok [OF g2], where G = "\<lambda>_. {#}"]) (rule schedule_next_frame [OF _ quick_expired(1)])
  then have "good w w3" using g2 good_trans by blast
  moreover have "w' = w3 \<and> r \<noteq> Undef"
    using e ins q by (cases q) (auto simp: make_view_def Let_def vr_def w1_def)
  ultimately show ?thesis by simp
qed

lemma core_read_good:
  assumes ok: "world_ok w" and d: "ds_at w a i \<noteq> None" and e: "core_read env a i name t bbox ks w = (r, tok, w')"
  shows "good w w' \<and> r \<noteq> Undef"
proof -
  obtain d where d0: "ds_at w a i = Some d" using d by auto
  show ?thesis
  proof (cases "name = [] \<or> ds_mode d \<noteq> AMIO_MODE_READ \<or> t < 0")
    case True
    with e d0 ok show ?thesis by (auto simp: core_read_def good_refl split: if_splits)
  next
    case False
    obtain res w1 where rv: "resolve_variable env a i name w = (res, w1)" by (cases "resolve_variable env a i name w")
    note g1 = resolve_good [OF ok rv d]
    show ?thesis
    proof (cases "\<exists>v. res = Resolved v \<and> t < vi_total_timesteps (vs_info v) \<and> validate_bbox bbox (vi_shape (vs_info v)) = AMIO_OK")
      case False': False
      with False e d0 rv g1 show ?thesis by (cases res) (auto simp: core_read_def split: if_splits)
    next
      case True
      then obtain v where v: "res = Resolved v" "t < vi_total_timesteps (vs_info v)" "validate_bbox bbox (vi_shape (vs_info v)) = AMIO_OK"
        by blast
      obtain gr w2 where gb: "core_get_buffer env a i name t bbox ks w1 = (gr, w2)" by (cases "core_get_buffer env a i name t bbox ks w1")
      note g2 = core_get_buffer_good [OF good_ok gb]
      have gw2: "good w w2" using g1 g2 good_trans by blast
      show ?thesis
      proof (cases "\<exists>b. gr = GotStatus AMIO_OK (Some b)")
        case nb: False
        with False e d0 rv v gb gw2 show ?thesis
          by (cases gr) (auto simp: core_read_def split: if_splits option.splits)
      next
        case nb: True
        then obtain b where b: "gr = GotStatus AMIO_OK (Some b)" by blast
        have sp: "spare w2 a {#b#}" using g1 g2 b by auto
        obtain d1 where d1: "ds_at w1 a i = Some d1" "map_of (ds_variables d1) name = Some v" "vs_name v = name"
          using g1 v by auto
        then have "vs_name v \<in> set (map fst (ds_variables d1))" using map_of_SomeD by force
        with shape_get_buffer [OF gb] d1(1) obtain d2 where d2: "ds_at w2 a i = Some d2" "vs_name v \<in> set (map fst (ds_variables d2))"
          by (rule shape_var)
        have "make_view env a i v t bbox b w2 = (r, tok, w')"
          using False e d0 rv v gb b by (simp add: core_read_def)
        from make_view_good [OF good_ok [OF gw2] sp d2 this] show ?thesis using gw2 good_trans by blast
      qed
    qed
  qed
qed

lemma describe_good:
  assumes ok: "world_ok w" and d: "ds_at w a i \<noteq> None" and e: "describe env a i name w = (r, out, w')"
  shows "good w w' \<and> r \<noteq> Undef"
proof -
  obtain res w1 where rv: "resolve_variable env a i name w = (res, w1)" by (cases "resolve_variable env a i name w")
  from resolve_good [OF ok rv d] e d rv ok show ?thesis
    by (auto simp: describe_def good_refl split: if_splits resolved.splits)
qed


section \<open>Waiting, closing\<close>

lemma poll_until_good:
  "world_ok w \<Longrightarrow> poll_until env f n ps w = (r, w') \<Longrightarrow> good w w' \<and> shape_same w w'"
proof (induction ps arbitrary: w)
  case Nil
  then show ?case by (auto simp: good_refl shape_cores split: if_splits)
next
  case (Cons p ps)
  have g: "good w (core_run env (pl_others p) w)" by (rule core_run_good [OF Cons.prems(1)])
  have sh: "shape_same w (core_run env (pl_others p) w)" by (rule shape_run)
  show ?case
  proof (cases "f w \<or> n \<le> pl_elapsed p")
    case True
    with Cons.prems show ?thesis by (auto simp: good_refl shape_cores split: if_splits)
  next
    case False
    with Cons.prems have "poll_until env f n ps (core_run env (pl_others p) w) = (r, w')" by simp
    from Cons.IH [OF good_ok [OF g] this] g sh show ?thesis using good_trans shape_trans by blast
  qed
qed

lemma flush_good:
  assumes ok: "world_ok w" and d: "ds_at w a i \<noteq> None" and e: "flush env a i n ps w = (r, w')"
  shows "good w w' \<and> r \<noteq> Undef"
proof -
  obtain d where d: "ds_at w a i = Some d" using d by auto
  obtain pe w1 where p: "poll_until env (no_pending a i) (poll_limit n) ps w = (pe, w1)"
    by (cases "poll_until env (no_pending a i) (poll_limit n) ps w")
  have g: "good w w1" "shape_same w w1" using poll_until_good [OF ok p] by auto
  obtain d' where "ds_at w1 a i = Some d'" using shape_ds [OF g(2) d] by blast
  with e d p g ok show ?thesis by (auto simp: flush_def good_refl split: if_splits poll_end.splits)
qed

text \<open>Tracking records are never freed.\<close>

lemma ios_stay:
  "w_ios (core_step env act w) x = None \<longleftrightarrow> w_ios w x = None"
  by (cases act) (auto simp: upd_workers_def fetch_step_def put_pq_core write_callback_def upd_ds_def upd_pool_def
      split: option.splits running.splits prod.splits)

lemma ios_stay_run: "w_ios (core_run env acts w) x = None \<longleftrightarrow> w_ios w x = None"
  by (induction acts arbitrary: w) (simp_all add: ios_stay)

lemma ios_stay_poll: "poll_until env f n ps w = (r, w') \<Longrightarrow> w_ios w' x = None \<longleftrightarrow> w_ios w x = None"
  by (induction ps arbitrary: w) (auto simp: ios_stay_run split: if_splits)

lemma wait_good:
  assumes ok: "world_ok w" and d: "w_ios w x \<noteq> None" and e: "wait env x n ps w = (r, w')"
  shows "good w w' \<and> r \<noteq> Undef"
proof -
  obtain pe w1 where p: "poll_until env (io_done x) (poll_limit n) ps w = (pe, w1)"
    by (cases "poll_until env (io_done x) (poll_limit n) ps w")
  have g: "good w w1" using poll_until_good [OF ok p] by auto
  have "w_ios w1 x \<noteq> None" using ios_stay_poll [OF p] d by simp
  with e d p g ok show ?thesis by (auto simp: wait_def good_refl split: if_splits poll_end.splits option.splits)
qed

end
