(* ===== verification/Core_Lifecycle.thy ===== *)
theory Core_Lifecycle
  imports Core_Safety
begin

text \<open>
  Closing, releasing, opening, initialising and finalizing keep the invariant of the runtime; the
  theorems on whole histories of calls.
\<close>


section \<open>Closing\<close>

lemma ds_at_put_pq:
  assumes "ds_at w a i = Some d"
  shows "ds_at (put_pq a i name p w) a i
    = Some (d\<lparr>ds_variables := map (\<lambda>(n, v). (n, if n = name then put_queue p v else v)) (ds_variables d)\<rparr>)"
  using assms by (auto simp: put_pq_core put_core_def ds_at_upd_core ds_at_def map_of_put split: option.splits)

lemma cancel_list_good:
  "world_ok w \<Longrightarrow> ds_at w a i = Some d \<Longrightarrow> distinct (map fst xs) \<Longrightarrow>
   \<forall>(n, v) \<in> set xs. map_of (ds_variables d) n = Some v \<Longrightarrow>
   w' = foldl (\<lambda>w (name, v). case w_cores w a of
          Some c \<Rightarrow> put_pq a i name (cancel_pending (pq_world_of c v)) w | None \<Rightarrow> w) w xs \<Longrightarrow>
   good w w' \<and> shape_same w w'"
proof (induction xs arbitrary: w d)
  case Nil
  then show ?case by (simp add: good_refl shape_cores)
next
  case (Cons x xs)
  obtain name v where x: "x = (name, v)" by (cases x)
  obtain c where c: "w_cores w a = Some c" using Cons.prems(2) by (auto simp: ds_at_def split: option.splits)
  have v: "map_of (ds_variables d) name = Some v" using Cons.prems(4) by (simp add: x)
  let ?p = "cancel_pending (pq_world_of c v)" and ?w1 = "put_pq a i name (cancel_pending (pq_world_of c v)) w"
  have "pq_frame {#} (pq_world_of c v) ?p" by (rule cancel_pending_frame [OF var_pq_ok [OF Cons.prems(1) c Cons.prems(2) v]])
  then have fr: "own_frame (co_staging_pool c) (var_held v) (pw_pool ?p) (pq_held ?p) {#}"
    unfolding pq_frame_def pq_held_of pw_pool_of .
  have g1: "good w ?w1" by (rule put_pq_good(1) [OF Cons.prems(1) c Cons.prems(2) v fr])
  have "\<forall>(n, u) \<in> set xs. map_of (map (\<lambda>(n, v). (n, if n = name then put_queue ?p v else v)) (ds_variables d)) n = Some u"
    using Cons.prems(3,4) by (force simp: x map_of_put)
  then have "good ?w1 w' \<and> shape_same ?w1 w'"
    using Cons.prems(3,5) c by (intro Cons.IH [OF good_ok [OF g1] ds_at_put_pq [OF Cons.prems(2)]]) (simp_all add: x)
  then show ?case using g1 good_trans shape_trans [OF shape_put_pq] by blast
qed

lemma cancel_variables_good:
  assumes ok: "world_ok w" and d: "ds_at w a i = Some d"
  shows "good w (cancel_variables a i w) \<and> shape_same w (cancel_variables a i w)"
proof -
  obtain c where c: "w_cores w a = Some c" "map_of (co_datasets c) i = Some d"
    using d by (auto simp: ds_at_def split: option.splits)
  then have "ds_ok d" using world_ok_core [OF ok c(1)] map_of_SomeD [OF c(2)] by (auto simp: core_ok_def)
  then have dist: "distinct (map fst (ds_variables d))" by (simp add: ds_ok_def)
  then have "\<forall>(n, v) \<in> set (ds_variables d). map_of (ds_variables d) n = Some v" by simp
  from cancel_list_good [OF ok d dist this] show ?thesis using d by (simp add: cancel_variables_def)
qed

text \<open>A token is released; the objects stay.\<close>

lemma good_release_token:
  assumes ok: "world_ok w"
  shows "good w (w\<lparr>w_table := snd (ht_release tok k (w_table w))\<rparr>)" (is "good w ?w")
proof -
  have inv: "ht_inv (w_table w)" using ok by (simp add: world_ok_def table_ok_def)
  have "token_ok ?w t e = token_ok w t e" for t e by (rule token_ok_cong) (simp_all add: ds_at_def)
  then have "table_ok ?w"
    using ok ht_release_sub [OF inv, of tok k] by (auto simp: world_ok_def table_ok_def)
  moreover have "safe w ?w" by (rule safe_grow [OF ok]) (use holds_cong [of ?w w] in simp_all)
  ultimately show ?thesis using ok by (simp add: good_def world_ok_def heap_ok_def)
qed

lemma close_dataset_good:
  assumes ok: "world_ok w" and d: "ds_at w a i \<noteq> None" and e: "close_dataset env a i ps w = (r, w')"
  shows "good w w' \<and> r \<noteq> Undef"
proof -
  obtain d0 where d0: "ds_at w a i = Some d0" using d by auto
  show ?thesis
  proof (cases "ds_outstanding_views d0 > 0")
    case True
    with e d0 ok show ?thesis by (auto simp: close_dataset_def good_refl)
  next
    case False
    let ?w0 = "cancel_variables a i w"
    have g0: "good w ?w0" "shape_same w ?w0" using cancel_variables_good [OF ok d0] by auto
    obtain pe w1 where p: "poll_until env (no_pending a i) 30000 ps ?w0 = (pe, w1)"
      by (cases "poll_until env (no_pending a i) 30000 ps ?w0")
    have "good ?w0 w1" "shape_same ?w0 w1" using poll_until_good [OF good_ok [OF g0(1)] p] by auto
    then have g1: "good w w1" "shape_same w w1" using g0 good_trans shape_trans by blast+
    obtain d1 where d1: "ds_at w1 a i = Some d1" using shape_ds [OF g1(2) d0] by blast
    obtain x1 dr1 where f: "drv_flush (en_ops env) (ds_driver d1) = (x1, dr1)" by (cases "drv_flush (en_ops env) (ds_driver d1)")
    obtain x2 dr2 where cl: "drv_close (en_ops env) dr1 = (x2, dr2)" by (cases "drv_close (en_ops env) dr1")
    let ?w2 = "upd_ds a i (\<lambda>d. d\<lparr>ds_driver := dr2\<rparr>) w1"
    have g2: "good w ?w2" by (rule good_trans [OF g1(1) good_upd_ds [OF good_ok [OF g1(1)]]]) simp
    have "good w (?w2\<lparr>w_table := snd (ht_release (ds_token d1) Dataset (w_table ?w2))\<rparr>)"
      by (rule good_trans [OF g2 good_release_token [OF good_ok [OF g2]]])
    with e d0 False p d1 f cl g1 show ?thesis
      by (cases pe) (auto simp: close_dataset_def Let_def)
  qed
qed


section \<open>Releasing a view\<close>

lemma view_held_delete:
  assumes "distinct (map fst vs)" and "map_of vs x = Some v"
  shows "view_held vs a = view_held (AList.delete x vs) a + (if vw_core v = a then {#vw_staging_buf v#} else {#})"
  using assms
proof (induction vs)
  case (Cons y vs)
  obtain z u where y: "y = (z, u)" by (cases y)
  show ?case
  proof (cases "z = x")
    case True
    then have "x \<notin> fst ` set vs" using Cons.prems(1) by (auto simp: y)
    then have "AList.delete x vs = vs" by (rule delete_id)
    with True Cons.prems show ?thesis by (simp add: y view_held_def)
  next
    case False
    with Cons show ?thesis by (auto simp: y view_held_def)
  qed
qed simp

lemma in_delete: "(y, u) \<in> set (AList.delete x vs) \<longleftrightarrow> y \<noteq> x \<and> (y, u) \<in> set vs"
  by (induction vs) auto

text \<open>The view's context afterwards.\<close>

definition unview_core :: "view_record \<Rightarrow> ('d, 'c) amio_core \<Rightarrow> ('d, 'c) amio_core" where
  "unview_core v c =
     c\<lparr>co_staging_pool := pool_release (vw_staging_buf v) (co_staging_pool c),
       co_datasets := map (\<lambda>(j, d). (j, if j = vw_dataset_id v
         then d\<lparr>ds_outstanding_views := ds_outstanding_views d - 1\<rparr> else d)) (co_datasets c)\<rparr>"

lemma ds_ok_views [simp]: "ds_ok (d\<lparr>ds_outstanding_views := n\<rparr>) = ds_ok d"
  by (simp add: ds_ok_def)

lemma unview_core_simps [simp]:
  "jobs (unview_core v c) = jobs c" "job_held (unview_core v c) = job_held c" "queue_held (unview_core v c) = queue_held c"
  "co_token (unview_core v c) = co_token c" "co_next_dataset_id (unview_core v c) = co_next_dataset_id c"
  "co_staging_pool (unview_core v c) = pool_release (vw_staging_buf v) (co_staging_pool c)"
  "map fst (co_datasets (unview_core v c)) = map fst (co_datasets c)"
  "map_option ds_token (map_of (co_datasets (unview_core v c)) j) = map_option ds_token (map_of (co_datasets c) j)"
proof -
  have "map (\<lambda>(i, d). ds_held d) (co_datasets (unview_core v c)) = map (\<lambda>(i, d). ds_held d) (co_datasets c)"
    by (auto simp: unview_core_def ds_held_def)
  then show "queue_held (unview_core v c) = queue_held c" by (simp add: queue_held_def)
qed (simp_all add: unview_core_def jobs_def job_held_def map_of_put option.map_comp comp_def split_beta)

lemma unview_core_ok:
  assumes co: "core_ok vs nx (vw_core v) c" and dist: "distinct (map fst vs)" and v: "map_of vs x = Some v"
  shows "core_ok (AList.delete x vs) nx (vw_core v) (unview_core v c)"
    and "b \<in># owners (AList.delete x vs) (vw_core v) c \<Longrightarrow>
      kept (co_staging_pool c) (co_staging_pool (unview_core v c)) b"
proof -
  let ?a = "vw_core v" and ?b = "vw_staging_buf v" and ?p = "co_staging_pool c" and ?R = "owners (AList.delete x vs) (vw_core v) c"
  have O: "owners vs ?a c = {#?b#} + ?R" by (simp add: owners_def view_held_delete [OF dist v, of ?a])
  have o: "own_ok ?p ({#?b#} + ?R)" using co unfolding core_ok_def O by blast
  have "own_ok ?p {#?b#}" by (rule own_ok_mono [OF o]) simp
  from own_release [OF this, of ?b] have fr: "own_frame ?p {#?b#} (pool_release ?b ?p) {#} {#}" by simp
  have o': "own_ok (pool_release ?b ?p) ?R" using own_frame_ok0 [OF o own_frame_rest [OF fr]] by simp
  have "fst ` set (co_datasets (unview_core v c)) = fst ` set (co_datasets c)" by (metis set_map unview_core_simps(7))
  moreover have "\<forall>(i, d) \<in> set (co_datasets (unview_core v c)). i < co_next_dataset_id c \<and> ds_ok d"
    using co by (auto simp: core_ok_def unview_core_def)
  ultimately show "core_ok (AList.delete x vs) nx ?a (unview_core v c)"
    using co o' by (simp add: core_ok_def owners_def)
  show "kept ?p (co_staging_pool (unview_core v c)) b" if "b \<in># ?R" using rest_kept [OF o fr that] by simp
qed

lemma release_view_world:
  assumes "map_of (w_views w) x = Some v" and "w_cores w (vw_core v) = Some c" and "release_view x w = (r, w')"
  shows "r = Rc AMIO_OK"
    and "w' = w\<lparr>w_cores := (w_cores w)(vw_core v \<mapsto> unview_core v c),
      w_table := snd (ht_release (vw_token v) View (w_table w)), w_views := AList.delete x (w_views w)\<rparr>"
  using assms by (auto simp: release_view_def Let_def upd_ds_def upd_pool_def upd_core_def unview_core_def)

lemma unview_table:
  assumes ok: "world_ok w" and v: "map_of (w_views w) x = Some v" and c: "w_cores w (vw_core v) = Some c"
    and w': "w' = w\<lparr>w_cores := (w_cores w)(vw_core v \<mapsto> unview_core v c),
      w_table := snd (ht_release (vw_token v) View (w_table w)), w_views := AList.delete x (w_views w)\<rparr>"
  shows "table_ok w'"
proof -
  have inv: "ht_inv (w_table w)" and tab: "table_ok w" using ok by (auto simp: world_ok_def table_ok_def)
  have "token_ok w' t k" if t: "ht_abs (w_table w') t = Some k" for t k
  proof -
    have k: "ht_abs (w_table w) t = Some k" "t \<noteq> vw_token v \<or> fst k \<noteq> View"
      using ht_release_sub(2) [OF inv, of "vw_token v" View t k] t by (simp_all add: w')
    then have "token_ok w t k" using tab unfolding table_ok_def by blast
    moreover have "map_option co_token (w_cores w' y) = map_option co_token (w_cores w y)" for y using c by (simp add: w')
    moreover have "map_option ds_token (ds_at w' y j) = map_option ds_token (ds_at w y j)" for y j
      using c by (simp add: ds_at_def w')
    moreover have "w_ios w' = w_ios w" by (simp add: w')
    moreover have "map_of (w_views w') y = (if y = x then None else map_of (w_views w) y)" for y
      by (simp add: w' delete_conv')
    ultimately show ?thesis using k(2) v
      by (cases "fst k"; cases "snd k"; cases "the (snd k)"; cases k) (auto simp: token_ok_def)
  qed
  then show ?thesis using ht_release_sub(1) [OF inv] by (simp add: table_ok_def w')
qed

lemma release_view_good:
  assumes ok: "world_ok w" and v: "map_of (w_views w) x = Some v" and c: "w_cores w (vw_core v) = Some c"
    and e: "release_view x w = (r, w')"
  shows "good w w' \<and> r = Rc AMIO_OK"
proof -
  note w' = release_view_world(2) [OF v c e]
  have heap: "heap_ok w" using ok by (simp add: world_ok_def)
  then have dist: "distinct (map fst (w_views w))" by (simp add: heap_ok_def)
  note u = unview_core_ok [OF world_ok_core [OF ok c] dist v]
  have cores: "w_cores w' y = (if y = vw_core v then Some (unview_core v c) else w_cores w y)" for y by (simp add: w')
  have "core_ok (w_views w') (w_next w') y z" if z: "w_cores w' y = Some z" for y z
  proof (cases "y = vw_core v")
    case False
    then have "w_cores w y = Some z" using z cores by simp
    from world_ok_core [OF ok this] False show ?thesis
      by (simp add: w' core_ok_def owners_def view_held_delete [OF dist v, of y])
  qed (use z u(1) in \<open>simp add: w'\<close>)
  moreover have "heap_ok w'"
    using heap c cores by (auto simp: heap_ok_def w' in_delete distinct_delete split: if_splits)
  moreover have "holds w h y b \<and> pools_kept w w' y b" if h: "holds w' h y b" for h y b
  proof -
    have h0: "holds w h y b" using h c by (cases h) (auto simp: w' in_delete split: if_splits)
    obtain z where z: "w_cores w y = Some z" using holds_core [OF h0] by auto
    have "kept (co_staging_pool z) (co_staging_pool (the (w_cores w' y))) b"
    proof (cases "y = vw_core v")
      case True
      have "b \<in># job_held c + view_held (w_views w') y" using holds_owned [OF h, of "unview_core v c"] cores True by simp
      then have "b \<in># owners (AList.delete x (w_views w)) (vw_core v) c" using True by (auto simp: owners_def w')
      from u(2) [OF this] show ?thesis using True z c cores by simp
    next
      case False
      have "pool_refs (co_staging_pool z) b > 0" using holds_refs [OF ok h0 z] by simp
      with False z cores show ?thesis by (simp add: kept_refl)
    qed
    with h0 z cores show ?thesis by (auto simp: pools_kept_def)
  qed
  then have "safe w w'" by (auto simp: safe_def w')
  ultimately show ?thesis
    using unview_table [OF ok v c w'] release_view_world(1) [OF v c e] by (simp add: good_def world_ok_def)
qed


section \<open>Opening and finalizing\<close>

lemma good_release_tokens:
  "world_ok w \<Longrightarrow> good w (w\<lparr>w_table := release_datasets ds (w_table w)\<rparr>)"
proof (induction ds arbitrary: w)
  case Nil
  then show ?case by (simp add: release_datasets_def good_refl)
next
  case (Cons d ds)
  let ?w1 = "if ds_token d \<noteq> 0 then w\<lparr>w_table := snd (ht_release (ds_token d) Dataset (w_table w))\<rparr> else w"
  have g: "good w ?w1" using good_release_token [OF Cons.prems] good_refl [OF Cons.prems] by simp
  have "?w1\<lparr>w_table := release_datasets ds (w_table ?w1)\<rparr> = w\<lparr>w_table := release_datasets (d # ds) (w_table w)\<rparr>"
    by (simp add: release_datasets_def)
  with good_trans [OF g Cons.IH [OF good_ok [OF g]]] show ?case by simp
qed

lemma release_datasets_sub:
  assumes "ht_inv t"
  shows "ht_inv (release_datasets ds t) \<and>
    (ht_abs (release_datasets ds t) x = Some e \<longrightarrow> ht_abs t x = Some e \<and> (fst e = Dataset \<longrightarrow> x \<notin> ds_token ` set ds))"
  using assms
proof (induction ds arbitrary: t)
  case Nil
  then show ?case by (simp add: release_datasets_def)
next
  case (Cons d ds)
  let ?t = "if ds_token d \<noteq> 0 then snd (ht_release (ds_token d) Dataset t) else t"
  have inv: "ht_inv ?t" using ht_release_sub(1) [OF Cons.prems] Cons.prems by simp
  have r: "release_datasets (d # ds) t = release_datasets ds ?t" by (simp add: release_datasets_def)
  have "ht_abs t x = Some e \<and> (fst e = Dataset \<longrightarrow> x \<noteq> ds_token d)" if "ht_abs ?t x = Some e"
  proof (cases "ds_token d = 0")
    case True
    then show ?thesis using that ht_abs_zero [OF Cons.prems] by auto
  next
    case False
    then have "ht_abs (snd (ht_release (ds_token d) Dataset t)) x = Some e" using that by simp
    from ht_release_sub(2) [OF Cons.prems this] show ?thesis by auto
  qed
  with Cons.IH [OF inv] show ?case unfolding r by auto
qed

text \<open>A context without live tokens of its own is destroyed.\<close>

lemma good_drop_core:
  assumes ok: "world_ok w" and c: "w_cores w a = Some c"
    and t: "ht_inv t'" "\<And>x e. ht_abs t' x = Some e \<Longrightarrow> ht_abs (w_table w) x = Some e
      \<and> (fst e = Dataset \<longrightarrow> x \<notin> ds_token ` set (map snd (co_datasets c))) \<and> (fst e = Core \<longrightarrow> x \<noteq> co_token c)"
    and w': "w' = w\<lparr>w_table := t', w_cores := (w_cores w)(a := None)\<rparr>"
  shows "good w w'"
proof -
  have "token_ok w' x e" if x: "ht_abs t' x = Some e" for x e
  proof -
    have "token_ok w x e" using t(2) [OF x] ok unfolding world_ok_def table_ok_def by blast
    moreover have "ds_at w' y j = (if y = a then None else ds_at w y j)" for y j by (simp add: w' ds_at_def)
    moreover have "ds_token d \<in> ds_token ` set (map snd (co_datasets c))" if "ds_at w a j = Some d" for j d
    proof -
      have "(j, d) \<in> set (co_datasets c)" using that c by (simp add: ds_at_def map_of_SomeD)
      then show ?thesis by force
    qed
    ultimately show ?thesis using t(2) [OF x] c
      by (cases "fst e"; cases "snd e"; cases "the (snd e)"; cases e) (auto simp: token_ok_def w')
  qed
  then have "table_ok w'" using t(1) by (simp add: table_ok_def w')
  moreover have "heap_ok w'" using ok by (auto simp: w' world_ok_def heap_ok_def)
  moreover have "core_ok (w_views w') (w_next w') y z" if "w_cores w' y = Some z" for y z
    using world_ok_core [OF ok, of y z] that by (simp add: w' split: if_splits)
  moreover have "safe w w'"
  proof -
    have "holds w h y b \<and> pools_kept w w' y b" if h: "holds w' h y b" for h y b
    proof -
      have "y \<noteq> a" using holds_core [OF h] by (auto simp: w')
      moreover have h0: "holds w h y b" using h by (cases h) (auto simp: w' split: if_splits)
      moreover obtain z where z: "w_cores w y = Some z" using holds_core [OF h0] by auto
      moreover have "pool_refs (co_staging_pool z) b > 0" using holds_refs [OF ok h0 z] by simp
      ultimately show ?thesis by (simp add: pools_kept_def w' kept_refl)
    qed
    then show ?thesis by (auto simp: safe_def w')
  qed
  ultimately show ?thesis by (simp add: good_def world_ok_def)
qed

lemma good_shutdown: "world_ok w \<Longrightarrow> good w (upd_workers a shutdown w)"
  unfolding upd_workers_def
  by (rule good_upd_still) (simp_all add: jobs_def queue_held_def wp_jobs_def shutdown_def split: option.split)

lemma finalize_good:
  assumes ok: "world_ok w" and c: "w_cores w a \<noteq> None" and e: "finalize env a dr jo w = (r, out, w')"
  shows "good w w' \<and> r \<noteq> Undef"
proof -
  obtain c0 where c0: "w_cores w a = Some c0" using c by auto
  define w1 where "w1 = (if co_worker_pool c0 = None then w
    else core_run env jo (upd_workers a shutdown (core_run env dr w)))"
  have "good w (core_run env jo (upd_workers a shutdown (core_run env dr w)))"
  proof -
    have g: "good w (core_run env dr w)" by (rule core_run_good [OF ok])
    note g' = good_trans [OF g good_shutdown [OF good_ok [OF g]]]
    show ?thesis by (rule good_trans [OF g' core_run_good [OF good_ok [OF g']]])
  qed
  then have g1: "good w w1" unfolding w1_def using good_refl [OF ok] by simp
  have "shape_same w (core_run env jo (upd_workers a shutdown (core_run env dr w)))"
    by (rule shape_trans [OF shape_trans [OF shape_run shape_upd_workers] shape_run])
  then have "shape_same w w1" unfolding w1_def by (cases "co_worker_pool c0") (simp_all add: shape_cores)
  then obtain c1 where c1: "w_cores w1 a = Some c1" using c0 shape_core by blast
  show ?thesis
  proof (cases "all_idle c1")
    case False
    with e c0 c1 g1 show ?thesis by (auto simp: finalize_def Let_def w1_def)
  next
    case True
    let ?t1 = "release_datasets (map snd (co_datasets c1)) (w_table w1)"
    let ?t2 = "snd (ht_release (co_token c1) Core ?t1)"
    have w': "r = Rc AMIO_OK" "w' = w1\<lparr>w_table := ?t2, w_cores := (w_cores w1)(a := None)\<rparr>"
      using e c0 c1 True by (auto simp: finalize_def Let_def w1_def)
    have inv: "ht_inv (w_table w1)" using good_ok [OF g1] by (simp add: world_ok_def table_ok_def)
    have inv1: "ht_inv ?t1" using release_datasets_sub [OF inv] by blast
    have "good w1 w'"
    proof (rule good_drop_core [OF good_ok [OF g1] c1 _ _ w'(2)])
      show "ht_inv ?t2" by (rule ht_release_sub(1) [OF inv1])
      show "ht_abs (w_table w1) x = Some k \<and> (fst k = Dataset \<longrightarrow> x \<notin> ds_token ` set (map snd (co_datasets c1)))
          \<and> (fst k = Core \<longrightarrow> x \<noteq> co_token c1)" if "ht_abs ?t2 x = Some k" for x k
      proof -
        have "ht_abs ?t1 x = Some k" "x \<noteq> co_token c1 \<or> fst k \<noteq> Core" using ht_release_sub(2) [OF inv1 that] by auto
        then show ?thesis using release_datasets_sub [OF inv] by blast
      qed
    qed
    with g1 w' show ?thesis using good_trans by blast
  qed
qed


text \<open>A new context.\<close>

lemma refs_new_pool [simp]: "pool_refs (StagingPool n cp t mx g) b = 0"
  by (simp add: pool_refs_def StagingPool_def lazy_slot_def)

lemma no_views_fresh: "heap_ok w \<Longrightarrow> view_held (w_views w) (w_next w) = {#}"
  by (auto simp: view_held_def heap_ok_def filter_empty_conv)

lemma init_from_config_good:
  assumes ok: "world_ok w" and cf: "config_ok cfg" and e: "init_from_config env cfg w = (r, tok, w')"
  shows "good w w' \<and> r \<noteq> Undef"
proof (cases "en_pools_built env cfg")
  case False
  with e ok show ?thesis by (auto simp: init_from_config_def good_refl)
next
  case True
  let ?a = "w_next w"
  obtain tk t' where i: "ht_insert Core (Some (At_Core ?a)) (w_table w) = (tk, t')"
    by (cases "ht_insert Core (Some (At_Core ?a)) (w_table w)")
  obtain c where w': "r = Rc AMIO_OK" "w' = w\<lparr>w_table := t', w_cores := (w_cores w)(?a \<mapsto> c), w_next := ?a + 1\<rparr>"
    and c: "co_token c = tk" "co_datasets c = []" "jobs c = []"
      "co_staging_pool c = StagingPool (spc_buffer_count (cf_staging_pool cfg)) (spc_buffer_capacity_bytes (cf_staging_pool cfg))
         (int (cf_staging_timeout_ms cfg)) (spc_max_buffer_count (cf_staging_pool cfg)) Grow"
    using e True i by (auto simp: init_from_config_def Let_def jobs_def wp_jobs_def WorkerPool_def)
  have heap: "heap_ok w" and none: "w_cores w ?a = None" using ok by (auto simp: world_ok_def heap_ok_def)
  have "pool_inv (co_staging_pool c)"
    unfolding c(4) using cf by (intro pool_inv_init) (simp_all add: config_ok_def pool_args_ok_def)
  then have co: "core_ok (w_views w') (w_next w') ?a c"
    using c no_views_fresh [OF heap] by (simp add: core_ok_def own_ok_def owners_def job_held_def queue_held_def w')
  have "table_ok w'"
  proof (rule table_ok_insert [OF _ i])
    show "table_ok w" using ok by (simp add: world_ok_def)
    show "token_ok w' x k" if "token_ok w x k" for x k
      using that none
      by (cases "fst k"; cases "snd k"; cases "the (snd k)"; cases k) (auto simp: token_ok_def ds_at_def w')
  qed (simp_all add: w' token_ok_def c)
  moreover have "heap_ok w'" using heap by (auto simp: w' heap_ok_def)
  moreover have "core_ok (w_views w') (w_next w') y z" if "w_cores w' y = Some z" for y z
    using that co core_ok_mono [OF world_ok_core [OF ok], of y z] by (simp add: w' split: if_splits)
  moreover have "safe w w'"
  proof (rule safe_grow [OF ok])
    show "holds w h y b" if h: "holds w' h y b" "addr h < w_next w" for h y b
      using h c heap by (cases h) (auto simp: w' heap_ok_def split: if_splits)
  qed (use none in \<open>auto simp: w'\<close>)
  ultimately show ?thesis using w'(1) by (simp add: good_def world_ok_def)
qed

lemma init_good: "world_ok w \<Longrightarrow> init env path w = (r, tok, w') \<Longrightarrow> good w w' \<and> r \<noteq> Undef"
  by (auto simp: init_def parse_def good_refl split: prod.splits if_splits)
    (metis init_from_config_good parse_with_ok)+

lemma init_from_string_good: "world_ok w \<Longrightarrow> init_from_string env s f w = (r, tok, w') \<Longrightarrow> good w w' \<and> r \<noteq> Undef"
  by (auto simp: init_from_string_def parse_string_def good_refl split: prod.splits if_splits)
    (metis init_from_config_good parse_with_ok)+

text \<open>A new dataset.\<close>

lemma good_new_dataset:
  assumes ok: "world_ok w" and c: "w_cores w a = Some c" and n: "i = co_next_dataset_id c"
    and ins: "ht_insert Dataset (Some (At_Dataset a i)) (w_table w) = (tok, t')" and d: "ds_token d = tok" "ds_variables d = []"
    and w': "w' = upd_core a (\<lambda>c. c\<lparr>co_next_dataset_id := i + 1, co_datasets := AList.update i d (co_datasets c)\<rparr>) (w\<lparr>w_table := t'\<rparr>)"
  shows "good w w'"
proof -
  let ?c = "c\<lparr>co_next_dataset_id := i + 1, co_datasets := AList.update i d (co_datasets c)\<rparr>"
  have co: "core_ok (w_views w) (w_next w) a c" by (rule world_ok_core [OF ok c])
  then have "i \<notin> fst ` set (co_datasets c)" by (auto simp: core_ok_def n)
  then have ds: "co_datasets ?c = co_datasets c @ [(i, d)]" by (simp add: update_new)
  have same: "jobs ?c = jobs c" "job_held ?c = job_held c" by (simp_all add: jobs_def job_held_def)
  have "queue_held ?c = queue_held c" unfolding queue_held_def ds using d by (simp add: ds_held_def)
  then have H: "owners vs a ?c = owners vs a c" for vs using same by (simp add: owners_def)
  have co': "core_ok (w_views w) (w_next w) a ?c"
    using co \<open>i \<notin> _\<close> d n unfolding core_ok_def ds same H by (auto simp: ds_ok_def)
  have cores: "w_cores w' y = (if y = a then Some ?c else w_cores w y)" for y using c by (simp add: w')
  have none: "map_of (co_datasets c) i = None" using \<open>i \<notin> _\<close> by (simp add: map_of_eq_None_iff)
  have "table_ok w'"
  proof (rule table_ok_insert [OF _ ins])
    show "table_ok w" using ok by (simp add: world_ok_def)
    have "map_option ds_token (ds_at w' y j) = Some x" if "map_option ds_token (ds_at w y j) = Some x" for y j x
      using that c none cores by (auto simp: ds_at_def update_conv' split: if_splits)
    moreover have "map_option co_token (w_cores w' y) = map_option co_token (w_cores w y)" for y using c cores by simp
    moreover have "w_ios w' = w_ios w" "w_views w' = w_views w" by (simp_all add: w')
    ultimately show "token_ok w' x k" if "token_ok w x k" for x k
      using that by (cases "fst k"; cases "snd k"; cases "the (snd k)"; cases k) (simp_all add: token_ok_def)
    show "token_ok w' tok (Dataset, Some (At_Dataset a i))" using d cores by (simp add: token_ok_def ds_at_def update_conv')
  qed (simp add: w')
  moreover have "heap_ok w'" using ok c by (auto simp: w' world_ok_def heap_ok_def)
  moreover have "core_ok (w_views w') (w_next w') y z" if "w_cores w' y = Some z" for y z
    using that co' world_ok_core [OF ok, of y z] cores by (simp add: w' split: if_splits)
  moreover have "safe w w'"
  proof (rule safe_grow [OF ok])
    show "holds w h y b" if h: "holds w' h y b" for h y b
      by (rule holds_back [OF h]) (use c same cores in \<open>auto simp: w' split: if_splits\<close>)
  qed (use c in \<open>auto simp: w'\<close>)
  ultimately show ?thesis by (simp add: good_def world_ok_def)
qed

lemma open_from_config_good:
  assumes ok: "world_ok w" and c: "w_cores w a \<noteq> None" and e: "open_dataset_from_config env a cfg m mode w = (r, tok, w')"
  shows "good w w' \<and> r \<noteq> Undef"
proof -
  obtain c where c: "w_cores w a = Some c" using c by auto
  show ?thesis
  proof (cases "open_driver env c cfg m mode")
    case (Inl x)
    with e c ok show ?thesis by (auto simp: open_dataset_from_config_def good_refl)
  next
    case (Inr dr)
    obtain tk t' where i: "ht_insert Dataset (Some (At_Dataset a (co_next_dataset_id c))) (w_table w) = (tk, t')"
      by (cases "ht_insert Dataset (Some (At_Dataset a (co_next_dataset_id c))) (w_table w)")
    define d where "d = \<lparr>ds_manifest_config = m, ds_driver = dr, ds_mode = mode, ds_token = tk, ds_id = co_next_dataset_id c,
      ds_pending_writes = 0, ds_has_failure = False, ds_first_failure_code = AMIO_OK,
      ds_config = (if mode = AMIO_MODE_READ then cfg else Config), ds_variables = [],
      ds_read_timeout_s = (if mode = AMIO_MODE_READ then int (pfc_read_timeout_s (cf_prefetch cfg)) else 60),
      ds_prefetch_depth = (if mode = AMIO_MODE_READ then pfc_depth (cf_prefetch cfg) else 4), ds_outstanding_views = 0\<rparr>"
    have "r = Rc AMIO_OK" "ds_token d = tk" "ds_variables d = []"
      "w' = upd_core a (\<lambda>c'. c'\<lparr>co_next_dataset_id := co_next_dataset_id c + 1,
          co_datasets := AList.update (co_next_dataset_id c) d (co_datasets c')\<rparr>) (w\<lparr>w_table := t'\<rparr>)"
      using e c Inr i by (auto simp: open_dataset_from_config_def Let_def d_def)
    then show ?thesis using good_new_dataset [OF ok c refl i] by simp
  qed
qed

lemma open_good:
  assumes "world_ok w" and "w_cores w a \<noteq> None"
  shows "open_dataset env a path mode w = (r, tok, w') \<Longrightarrow> good w w' \<and> r \<noteq> Undef"
    and "open_dataset_from_string env a s f mode w = (r, tok, w') \<Longrightarrow> good w w' \<and> r \<noteq> Undef"
  using open_from_config_good [OF assms] good_refl [OF assms(1)]
  by (auto simp: open_dataset_def open_dataset_from_string_def split: prod.splits if_splits sum.splits)

end
