(* ===== verification/Api_Safety.thy ===== *)
theory Api_Safety
  imports Core_Lifecycle
begin

text \<open>
  Histories of calls through the C interface, with the steps of the worker threads between them, and
  what holds in every history: handles never lead to a freed object, no exception crosses the
  interface, the payload of a write and the data of a view stay what they were, and a dataset is
  closed only when none of its views is outstanding.
\<close>


section \<open>Histories\<close>

datatype api_op =
    CInit "string option" bool
  | CInitString "string option" "string option" bool
  | CFinalize token "core_act list" "core_act list"
  | COpen token "string option" int bool
  | COpenString token "string option" "string option" int bool
  | CClose token "poll list"
  | CFlush token int "poll list"
  | CWait token int "poll list"
  | CWrite token "string option" "byte list option" amio_dtype "amio_shape option" bool "core_wake list" "core_act list"
  | CRead token "string option" int "amio_bbox option" bool "core_wake list"
  | CDescribe token "string option" bool
  | CTextAttribute token "string option" "string option" "nat option" bool
  | CDoubleAttribute token "string option" "string option" bool
  | CReleaseView token
  | CViewData token bool
  | CViewShape token bool
  | CViewDtype token bool
  | CWorker core_act \<comment> \<open>not a call: a step of a worker thread\<close>

definition outcome :: "call \<times> 'o \<times> ('d, 'c) world \<Rightarrow> call \<times> ('d, 'c) world" where
  "outcome r = (fst r, snd (snd r))"

fun api_step :: "('d, 'c) amio_env \<Rightarrow> api_op \<Rightarrow> ('d, 'c) world \<Rightarrow> call \<times> ('d, 'c) world" where
  "api_step env (CInit path out) w = outcome (amio_init env path out w)"
| "api_step env (CInitString s f out) w = outcome (amio_init_from_string env s f out w)"
| "api_step env (CFinalize h dr jo) w = outcome (amio_finalize env h dr jo w)"
| "api_step env (COpen h path mode out) w = outcome (amio_open_dataset env h path mode out w)"
| "api_step env (COpenString h s f mode out) w = outcome (amio_open_dataset_from_string env h s f mode out w)"
| "api_step env (CClose h ps) w = outcome (amio_close_dataset env h ps w)"
| "api_step env (CFlush h n ps) w = outcome (amio_flush env h n ps w)"
| "api_step env (CWait h n ps) w = outcome (amio_wait env h n ps w)"
| "api_step env (CWrite h name host dtype shape out waits race) w =
     outcome (amio_write env h name host dtype shape out waits race w)"
| "api_step env (CRead h name t bbox out ks) w = outcome (amio_read env h name t bbox out ks w)"
| "api_step env (CDescribe h name out) w = outcome (amio_describe env h name out w)"
| "api_step env (CTextAttribute h name attr cp out) w = outcome (amio_get_var_attribute_text env h name attr cp out w)"
| "api_step env (CDoubleAttribute h name attr out) w = outcome (amio_get_var_attribute_double env h name attr out w)"
| "api_step env (CReleaseView h) w = outcome (amio_release_view h w)"
| "api_step env (CViewData h out) w = outcome (amio_view_data h out w)"
| "api_step env (CViewShape h out) w = outcome (amio_view_shape h out w)"
| "api_step env (CViewDtype h out) w = outcome (amio_view_dtype h out w)"
| "api_step env (CWorker act) w = (Rc AMIO_OK, core_step env act w)"

text \<open>
  What the interface asks of the host: the memory of a write is as large as its shape says, and no
  view is used after the context it came from was finalized.
\<close>

definition view_alive :: "token \<Rightarrow> ('d, 'c) world \<Rightarrow> bool" where
  "view_alive h w \<longleftrightarrow>
     (case ht_lookup h View True (w_table w) of
        (AMIO_OK, Some (At_View x)) \<Rightarrow>
          (case map_of (w_views w) x of Some v \<Rightarrow> w_cores w (vw_core v) \<noteq> None | None \<Rightarrow> True)
      | _ \<Rightarrow> True)"

fun lawful :: "api_op \<Rightarrow> ('d, 'c) world \<Rightarrow> bool" where
  "lawful (CWrite h name host dtype shape out waits race) w \<longleftrightarrow>
     (case (host, shape) of (Some m, Some s) \<Rightarrow> payload_bytes dtype s \<le> length m | _ \<Rightarrow> True)"
| "lawful (CReleaseView h) w \<longleftrightarrow> view_alive h w"
| "lawful (CViewData h out) w \<longleftrightarrow> view_alive h w"
| "lawful _ w \<longleftrightarrow> True"

definition empty_world :: "('d, 'c) world" where
  "empty_world = \<lparr>w_table = ht_empty, w_cores = (\<lambda>_. None), w_ios = (\<lambda>_. None), w_views = [], w_next = 0\<rparr>"

inductive history :: "('d, 'c) amio_env \<Rightarrow> ('d, 'c) world \<Rightarrow> ('d, 'c) world \<Rightarrow> bool"
  for env :: "('d, 'c) amio_env" where
  start: "history env w w"
| step: "history env w w1 \<Longrightarrow> lawful op w1 \<Longrightarrow> api_step env op w1 = (r, w2) \<Longrightarrow> history env w w2"

inductive_cases history_cases: "history env w w'"


section \<open>Every call is good\<close>

text \<open>What an operation behind the interface gives, and what a call through the interface gives.\<close>

definition fine :: "('d, 'c) world \<Rightarrow> call \<times> 'o \<times> ('d, 'c) world \<Rightarrow> bool" where
  "fine w r \<longleftrightarrow> good w (snd (snd r)) \<and> fst r \<noteq> Undef"

definition sound :: "('d, 'c) world \<Rightarrow> call \<times> 'o \<times> ('d, 'c) world \<Rightarrow> bool" where
  "sound w r \<longleftrightarrow> fine w r \<and> fst r \<noteq> Raised"

lemma fineI: "(\<And>r x w'. res = (r, x, w') \<Longrightarrow> good w w' \<and> r \<noteq> Undef) \<Longrightarrow> fine w res"
  by (cases res) (simp add: fine_def)

lemma sound_refused [simp]: "world_ok w \<Longrightarrow> sound w (Rc e, x, w)"
  by (simp add: sound_def fine_def good_refl)

lemma dispatch_sound:
  assumes ok: "world_ok w"
    and op: "\<And>p. ht_lookup h k True (w_table w) = (AMIO_OK, Some p) \<Longrightarrow> token_ok w h (k, Some p) \<Longrightarrow> fine w (op p w)"
  shows "sound w (kind_dispatch h k z op w)"
proof -
  have inv: "ht_inv (w_table w)" using ok by (simp add: world_ok_def table_ok_def)
  have tok: "token_ok w h (k, p)" if "ht_abs (w_table w) h = Some (k, p)" for p
    using ok that unfolding world_ok_def table_ok_def by blast
  have nn: "ht_abs (w_table w) h \<noteq> Some (k, None)" using tok by (cases k) (auto simp: token_ok_def)
  show ?thesis
  proof (cases "\<exists>p. h \<noteq> 0 \<and> ht_abs (w_table w) h = Some (k, Some p)")
    case True
    then obtain p where p: "h \<noteq> 0" "ht_abs (w_table w) h = Some (k, Some p)" by blast
    obtain r1 x1 w1 where o: "op p w = (r1, x1, w1)" by (cases "op p w")
    have "fine w (op p w)" by (rule op [OF _ tok [OF p(2)]]) (simp add: p ht_lookup_abs [OF inv])
    with p o show ?thesis
      by (cases r1) (simp_all add: kind_dispatch_def ht_lookup_abs [OF inv] sound_def fine_def)
  next
    case False
    then have "\<exists>e. kind_dispatch h k z op w = (Rc e, z, w)"
      using nn by (cases "ht_abs (w_table w) h") (auto simp: kind_dispatch_def ht_lookup_abs [OF inv])
    with ok show ?thesis by auto
  qed
qed

lemma token_ok_cases:
  "token_ok w h (Core, Some p) \<Longrightarrow> \<exists>a. p = At_Core a \<and> w_cores w a \<noteq> None"
  "token_ok w h (Dataset, Some p) \<Longrightarrow> \<exists>a i. p = At_Dataset a i \<and> ds_at w a i \<noteq> None"
  "token_ok w h (Io, Some p) \<Longrightarrow> \<exists>x. p = At_Io x \<and> w_ios w x \<noteq> None"
  "token_ok w h (View, Some p) \<Longrightarrow> \<exists>x. p = At_View x \<and> map_of (w_views w) x \<noteq> None"
  by (cases p; auto simp: token_ok_def)+

lemma on_core_sound:
  assumes "world_ok w" and f: "\<And>a. w_cores w a \<noteq> None \<Longrightarrow> fine w (f a w)"
  shows "sound w (kind_dispatch h Core z (on_core z f) w)"
proof (rule dispatch_sound [OF assms(1)])
  fix p assume "token_ok w h (Core, Some p)"
  then obtain a where "p = At_Core a" "w_cores w a \<noteq> None" by (blast dest: token_ok_cases(1))
  then show "fine w (on_core z f p w)" using f [of a] by simp
qed

lemma on_dataset_sound:
  assumes "world_ok w" and f: "\<And>a i. ds_at w a i \<noteq> None \<Longrightarrow> fine w (f a i w)"
  shows "sound w (kind_dispatch h Dataset z (on_dataset z f) w)"
proof (rule dispatch_sound [OF assms(1)])
  fix p assume "token_ok w h (Dataset, Some p)"
  then obtain a i where "p = At_Dataset a i" "ds_at w a i \<noteq> None" by (blast dest: token_ok_cases(2))
  then show "fine w (on_dataset z f p w)" using f [of a i] by simp
qed

lemma on_io_sound:
  assumes "world_ok w" and f: "\<And>x. w_ios w x \<noteq> None \<Longrightarrow> fine w (f x w)"
  shows "sound w (kind_dispatch h Io z (on_io z f) w)"
proof (rule dispatch_sound [OF assms(1)])
  fix p assume "token_ok w h (Io, Some p)"
  then obtain x where "p = At_Io x" "w_ios w x \<noteq> None" by (blast dest: token_ok_cases(3))
  then show "fine w (on_io z f p w)" using f [of x] by simp
qed

lemma on_view_sound:
  assumes "world_ok w"
    and f: "\<And>x v. map_of (w_views w) x = Some v \<Longrightarrow> (view_alive h w \<Longrightarrow> w_cores w (vw_core v) \<noteq> None) \<Longrightarrow> fine w (f x w)"
  shows "sound w (kind_dispatch h View z (on_view z f) w)"
proof (rule dispatch_sound [OF assms(1)])
  fix p assume l: "ht_lookup h View True (w_table w) = (AMIO_OK, Some p)" and "token_ok w h (View, Some p)"
  then obtain x v where p: "p = At_View x" "map_of (w_views w) x = Some v" by (blast dest: token_ok_cases(4))
  have "w_cores w (vw_core v) \<noteq> None" if "view_alive h w" using that l p by (simp add: view_alive_def)
  from f [OF p(2) this] show "fine w (on_view z f p w)" using p by simp
qed

lemma cordon_sound: "fine w r \<Longrightarrow> sound w (cordon r)"
  by (cases r; cases "fst r") (auto simp: cordon_def sound_def fine_def)

text \<open>The operations behind the interface, as \<open>fine\<close> results.\<close>

lemma fine_pair: "good w (snd r) \<and> fst r \<noteq> Undef \<Longrightarrow> fine w (case r of (c, w1) \<Rightarrow> (c, (), w1))"
  by (cases r) (simp add: fine_def)

lemma core_ops_fine:
  assumes "world_ok w"
  shows "fine w (init env pth w)" and "fine w (init_from_string env s f w)"
    and "w_cores w a \<noteq> None \<Longrightarrow> fine w (finalize env a dr jo w)"
    and "w_cores w a \<noteq> None \<Longrightarrow> fine w (open_dataset env a pth mode w)"
    and "w_cores w a \<noteq> None \<Longrightarrow> fine w (open_dataset_from_string env a s f mode w)"
  by (rule fineI, erule init_good [OF assms] init_from_string_good [OF assms] finalize_good [OF assms]
      open_good [OF assms], assumption?)+

lemma ds_ops_fine:
  assumes "world_ok w" and "ds_at w a i \<noteq> None"
  shows "fine w (case close_dataset env a i ps w of (c, w1) \<Rightarrow> (c, (), w1))"
    and "fine w (case flush env a i n ps w of (c, w1) \<Rightarrow> (c, (), w1))"
    and "fine w (core_read env a i name t bbox ks w)"
    and "fine w (describe env a i name w)"
    and "payload_bytes dtype shape \<le> length host \<Longrightarrow> fine w (core_write env a i name host dtype shape waits race w)"
proof -
  show "fine w (case close_dataset env a i ps w of (c, w1) \<Rightarrow> (c, (), w1))"
    using close_dataset_good [OF assms, of env ps] by (intro fine_pair) (metis prod.collapse)
  show "fine w (case flush env a i n ps w of (c, w1) \<Rightarrow> (c, (), w1))"
    using flush_good [OF assms, of env n ps] by (intro fine_pair) (metis prod.collapse)
  show "fine w (core_read env a i name t bbox ks w)"
    by (rule fineI) (erule core_read_good [OF assms])
  show "fine w (describe env a i name w)"
    by (rule fineI) (erule describe_good [OF assms])
  show "fine w (core_write env a i name host dtype shape waits race w)" if "payload_bytes dtype shape \<le> length host"
    by (rule fineI) (use core_write_good [OF assms] that in blast)
qed

lemma io_ops_fine:
  assumes "world_ok w" and "w_ios w x \<noteq> None"
  shows "fine w (case wait env x n ps w of (c, w1) \<Rightarrow> (c, (), w1))"
  using wait_good [OF assms, of env n ps] by (intro fine_pair) (metis prod.collapse)

lemma view_ops_fine:
  assumes ok: "world_ok w" and v: "map_of (w_views w) x = Some v"
  shows "w_cores w (vw_core v) \<noteq> None \<Longrightarrow> fine w (case release_view x w of (c, w1) \<Rightarrow> (c, (), w1))"
    and "w_cores w (vw_core v) \<noteq> None \<Longrightarrow> fine w (case view_data x w of (c, r) \<Rightarrow> (c, r, w))"
proof -
  assume c: "w_cores w (vw_core v) \<noteq> None"
  then obtain c where c: "w_cores w (vw_core v) = Some c" by auto
  show "fine w (case release_view x w of (c, w1) \<Rightarrow> (c, (), w1))"
    using release_view_good [OF ok v c prod.collapse [symmetric]] by (intro fine_pair) simp
  show "fine w (case view_data x w of (c, r) \<Rightarrow> (c, r, w))"
    using v c good_refl [OF ok] by (simp add: view_data_def fine_def Let_def)
qed

lemma attribute_ops_fine:
  assumes "world_ok w" and "ds_at w a i \<noteq> None"
  shows "fine w (case get_var_attribute_text env a i name attr cp w of
      (c, Some r) \<Rightarrow> (c, r, w) | (c, None) \<Rightarrow> (c, z, w))"
    and "fine w (case get_var_attribute_double env a i name attr w of
      (c, Some r') \<Rightarrow> (c, r', w) | (c, None) \<Rightarrow> (c, z', w))"
  using assms good_refl [OF assms(1)]
  by (auto simp: get_var_attribute_text_def get_var_attribute_double_def fine_def split: option.split sum.split)

text \<open>The calls.\<close>

lemma core_calls_sound:
  assumes "world_ok w"
  shows "sound w (amio_init env path out w)" and "sound w (amio_init_from_string env s f out w)"
    and "sound w (amio_finalize env h dr jo w)" and "sound w (amio_open_dataset env h path mode out w)"
    and "sound w (amio_open_dataset_from_string env h s f mode out w)"
  using assms unfolding amio_init_def amio_init_from_string_def amio_finalize_def amio_open_dataset_def
    amio_open_dataset_from_string_def
  by (simp_all add: cordon_sound on_core_sound core_ops_fine split: option.split)

lemma dataset_calls_sound:
  assumes ok: "world_ok w"
  shows "sound w (amio_close_dataset env h ps w)" and "sound w (amio_flush env h n ps w)"
    and "sound w (amio_read env h name t bbox out ks w)" and "sound w (amio_describe env h name out w)"
    and "sound w (amio_get_var_attribute_text env h name attr cp out w)"
    and "sound w (amio_get_var_attribute_double env h name attr out w)"
proof -
  have d: "fine w (case r of (c, Some s, w1) \<Rightarrow> (c, s, w1) | (c, None, w1) \<Rightarrow> (c, z, w1))"
    if "fine w r" for r and z :: "amio_shape \<times> int"
    using that by (cases r) (auto simp: fine_def split: option.split)
  show "sound w (amio_close_dataset env h ps w)" and "sound w (amio_flush env h n ps w)"
    and "sound w (amio_read env h name t bbox out ks w)" and "sound w (amio_describe env h name out w)"
    and "sound w (amio_get_var_attribute_text env h name attr cp out w)"
    and "sound w (amio_get_var_attribute_double env h name attr out w)"
    using ok unfolding amio_close_dataset_def amio_flush_def amio_read_def amio_describe_def
      amio_get_var_attribute_text_def amio_get_var_attribute_double_def
    by (simp_all add: on_dataset_sound ds_ops_fine attribute_ops_fine d split: option.split)
qed

lemma write_sound:
  assumes "world_ok w" and "lawful (CWrite h name host dtype shape out waits race) w"
  shows "sound w (amio_write env h name host dtype shape out waits race w)"
  using assms unfolding amio_write_def by (auto split: option.split intro!: on_dataset_sound ds_ops_fine)

lemma view_calls_sound:
  assumes ok: "world_ok w"
  shows "view_alive h w \<Longrightarrow> sound w (amio_release_view h w)" and "view_alive h w \<Longrightarrow> sound w (amio_view_data h out w)"
    and "sound w (amio_view_shape h out w)" and "sound w (amio_view_dtype h out w)"
    and "sound w (amio_wait env h n ps w)"
  using ok good_refl [OF ok]
  unfolding amio_release_view_def amio_view_data_def amio_view_shape_def amio_view_dtype_def amio_wait_def
  by (auto simp: view_shape_def view_dtype_def fine_def [of _ "(_, _)"]
      intro!: on_view_sound on_io_sound view_ops_fine io_ops_fine)

lemma outcome_sound: "sound w res \<Longrightarrow> outcome res = (r, w') \<Longrightarrow> good w w' \<and> r \<noteq> Undef \<and> r \<noteq> Raised"
  by (auto simp: outcome_def sound_def fine_def)

lemma api_step_sound:
  assumes ok: "world_ok w" and l: "lawful op w" and e: "api_step env op w = (r, w')"
  shows "good w w' \<and> r \<noteq> Undef \<and> r \<noteq> Raised"
proof (cases op)
  case (CWorker act)
  then show ?thesis using core_step_good [OF ok, of env act] e by auto
qed (use l e in \<open>simp, elim outcome_sound [rotated], simp add: core_calls_sound [OF ok] dataset_calls_sound [OF ok]
      view_calls_sound [OF ok] write_sound [OF ok]\<close>)+

lemma empty_world_ok: "world_ok empty_world"
proof -
  have "ht_abs (ht_empty :: payload handle_table) h = None" for h by (simp add: ht_abs_def ht_empty_def)
  then show ?thesis by (simp add: world_ok_def table_ok_def heap_ok_def empty_world_def ht_inv_empty)
qed

lemma history_good: "history env w w' \<Longrightarrow> world_ok w \<Longrightarrow> good w w'"
proof (induction rule: history.induct)
  case (start w)
  then show ?case by (rule good_refl)
next
  case (step w w1 op r w2)
  then have g: "good w w1" by simp
  from api_step_sound [OF good_ok [OF g] step.hyps(2,3)] have "good w1 w2" by simp
  with g show ?case by (rule good_trans)
qed

end
