(* ===== verification/Api_Invariants.thy ===== *)
theory Api_Invariants
  imports Api_Safety
begin

text \<open>
  Two interfaces for invariants of the runtime.  A predicate with the laws of \<open>kept_inside\<close> survives every
  wait of a call and every step of a worker; with those of \<open>kept_by_calls\<close> it holds in every history.  The
  accounts of the theory \<open>Api_Accounts\<close> are its instances.
\<close>


section \<open>Inside a call\<close>

locale kept_inside =
  fixes env :: "('d, 'c) amio_env" and P :: "('d, 'c) world \<Rightarrow> bool"
  assumes polled: "P w \<Longrightarrow> P (core_step env (ActPoll a) w)"
    and written: "P w \<Longrightarrow> P (core_step env (ActDone a n) w)"
    and pool: "P w \<Longrightarrow> P (upd_pool a f w)"
    and ds: "(\<And>d. ds_outstanding_views (g d) = ds_outstanding_views d \<and> ds_has_failure (g d) = ds_has_failure d
      \<and> ds_first_failure_code (g d) = ds_first_failure_code d \<and> ds_driver (g d) = ds_driver d) \<Longrightarrow> P w \<Longrightarrow> P (upd_ds a i g w)"
    and shut: "ds_at w a i = Some d \<Longrightarrow> P w \<Longrightarrow>
      P (upd_ds a i (\<lambda>d'. d'\<lparr>ds_driver := snd (drv_close (en_ops env) (snd (drv_flush (en_ops env) (ds_driver d))))\<rparr>) w)"
    and table: "P w \<Longrightarrow> P (w\<lparr>w_table := t\<rparr>)"
begin

lemma put: "P w \<Longrightarrow> P (put_pq a i name p w)"
  by (simp add: put_pq_def pool ds)

lemma step: "P w \<Longrightarrow> P (core_step env act w)"
  using polled written by (cases act) (auto simp: fetch_step_def put split: option.split)

lemma run: "P w \<Longrightarrow> P (core_run env acts w)"
  by (induction acts arbitrary: w) (simp_all add: step)

lemma queue: "on_queue f env a i name w = Some (r, w') \<Longrightarrow> P w \<Longrightarrow> P w'"
  by (auto simp: on_queue_def put split: option.splits prod.splits)

lemma more: "P w \<Longrightarrow> P (snd (get_more env a i name t req ks w))"
proof (induction ks arbitrary: w)
  case (Cons k ks)
  have r: "P (core_run env (ck_others k) w)" by (rule run [OF Cons.prems])
  have q: "P w2" if "on_queue f env a i name (core_run env (ck_others k) w) = Some (x, w2)" for f x w2
    by (rule queue [OF that r])
  show ?case using r
    by (auto simp: Let_def intro: q Cons.IH split: option.split prod.split get_result.split)
qed simp

lemma get: "P w \<Longrightarrow> P (snd (core_get_buffer env a i name t req ks w))"
  by (auto simp: core_get_buffer_def intro: queue more [OF queue] split: option.split prod.split get_result.split)

lemma tries: "pool_try f a w = Some (r, w') \<Longrightarrow> P w \<Longrightarrow> P w'"
  by (auto simp: pool_try_def pool split: option.splits)

lemma acquire: "P w \<Longrightarrow> P (snd (core_acquire env a n ks w))"
proof (induction ks arbitrary: w)
  case Nil
  then show ?case by (subst core_acquire.simps) (auto intro: tries split: option.split)
next
  case (Cons k ks)
  then show ?case
    by (subst core_acquire.simps) (auto simp: Let_def run intro: tries [OF _ run] tries split: option.split)
qed

lemma until: "P w \<Longrightarrow> P (snd (poll_until env fin limit ps w))"
  by (induction ps arbitrary: w) (simp_all add: run)

lemma cancel: "P w \<Longrightarrow> P (cancel_variables a i w)"
proof -
  have "P (foldl (\<lambda>w (name, v). case w_cores w a of
      Some c \<Rightarrow> put_pq a i name (cancel_pending (pq_world_of c v)) w | None \<Rightarrow> w) w xs)" if "P w" for w xs
    using that by (induction xs arbitrary: w) (auto simp: put split: option.split)
  then show "P w \<Longrightarrow> P (cancel_variables a i w)" by (simp add: cancel_variables_def split: option.split)
qed

lemma resolve: "P w \<Longrightarrow> P (snd (resolve_variable env a i name w))"
  by (simp add: resolve_variable_def Let_def ds split: option.split sum.split)

lemma close: "P w \<Longrightarrow> P (snd (close_dataset env a i ps w))"
proof -
  assume "P w"
  have "P (upd_ds a i (\<lambda>d'. d'\<lparr>ds_driver := dr2\<rparr>) w1)"
    if "P w1" "ds_at w1 a i = Some d" "drv_flush (en_ops env) (ds_driver d) = (x1, dr1)" "drv_close (en_ops env) dr1 = (x2, dr2)"
    for w1 d x1 x2 dr1 dr2
    using shut [OF that(2,1)] that(3,4) by simp
  with \<open>P w\<close> until [OF cancel, of w "no_pending a i" 30000 ps a i] show ?thesis
    by (auto simp: close_dataset_def Let_def table split: option.split prod.split poll_end.split)
qed

lemma flush: "P w \<Longrightarrow> P (snd (flush env a i n ps w))"
  using until [of w "no_pending a i" "poll_limit n" ps]
  by (auto simp: flush_def split: option.split prod.split poll_end.split)

lemma wait: "P w \<Longrightarrow> P (snd (wait env x n ps w))"
  using until [of w "io_done x" "poll_limit n" ps]
  by (auto simp: wait_def split: option.split prod.split poll_end.split)

lemma describe: "P w \<Longrightarrow> P (snd (snd (describe env a i name w)))"
  using resolve [of w a i name] by (auto simp: describe_def split: option.split prod.split resolved.split)

end


section \<open>Across calls\<close>

lemma upd_ds_exists: "ds_at (upd_ds a i f w) a' i' = None \<longleftrightarrow> ds_at w a' i' = None"
  by (auto simp: upd_ds_def ds_at_upd_core ds_at_def map_of_put split: option.splits if_splits)

lemma resolve_exists: "ds_at (snd (resolve_variable env a i name w)) a' i' = None \<longleftrightarrow> ds_at w a' i' = None"
  by (simp add: resolve_variable_def Let_def upd_ds_exists split: option.split sum.split)

lemma shape_exists: "shape_same w w' \<Longrightarrow> ds_at w a i \<noteq> None \<Longrightarrow> ds_at w' a i \<noteq> None"
  using shape_ds by fastforce

locale kept_by_calls = kept_inside +
  assumes queued: "P w \<Longrightarrow> P (snd (snd (enqueue_io env a i meta b race w)))"
    and viewed: "P w \<Longrightarrow> ds_at w a i \<noteq> None \<Longrightarrow> vw_core r = a \<Longrightarrow> vw_dataset_id r = i \<Longrightarrow>
      P (upd_ds a i (\<lambda>d. d\<lparr>ds_outstanding_views := ds_outstanding_views d + 1\<rparr>)
          (w\<lparr>w_table := t, w_views := w_views w @ [(w_next w, r)], w_next := Suc (w_next w)\<rparr>))"
    and unviewed: "P w \<Longrightarrow> P (snd (release_view x w))"
    and stopped: "P w \<Longrightarrow> P (upd_workers a shutdown w)"
    and dropped: "P w \<Longrightarrow> P (w\<lparr>w_table := t, w_cores := (w_cores w)(a := None)\<rparr>)"
    and created: "P w \<Longrightarrow> config_ok cfg \<Longrightarrow> P (snd (snd (init_from_config env cfg w)))"
    and opened: "P w \<Longrightarrow> P (snd (snd (open_dataset_from_config env a cfg m mode w)))"
begin

lemma writes: "P w \<Longrightarrow> P (snd (snd (core_write env a i name host dtype shape waits race w)))"
  using acquire [of w a "payload_bytes dtype shape" waits]
  by (auto simp: core_write_def Let_def queued pool split: prod.split acquire_result.split)

lemma view: "P w \<Longrightarrow> ds_at w a i \<noteq> None \<Longrightarrow> P (snd (snd (make_view env a i v t bbox b w)))"
  by (auto simp: make_view_def Let_def viewed split: prod.split option.split fetch_begun.split intro: queue [OF _ viewed])

lemma reads: "P w \<Longrightarrow> P (snd (snd (core_read env a i name t bbox ks w)))"
proof -
  assume p: "P w"
  obtain res w1 where r: "resolve_variable env a i name w = (res, w1)" by (cases "resolve_variable env a i name w")
  obtain g w2 where g: "core_get_buffer env a i name t bbox ks w1 = (g, w2)" by (cases "core_get_buffer env a i name t bbox ks w1")
  have p1: "P w1" using resolve [OF p, of a i name] r by simp
  have p2: "P w2" using get [OF p1, of a i name t bbox ks] g by simp
  have "ds_at w2 a i \<noteq> None" if "ds_at w a i \<noteq> None"
    using shape_exists [OF shape_get_buffer [OF g]] resolve_exists [of env a i name w a i] r that by simp
  with p p1 p2 r g view [OF p2] show ?thesis
    by (auto simp: core_read_def split: option.split resolved.split get_result.split)
qed

lemma finals: "P w \<Longrightarrow> P (snd (snd (finalize env a dr jo w)))"
  by (auto simp: finalize_def Let_def run stopped dropped split: option.split)

lemma inits: "P w \<Longrightarrow> P (snd (snd (init env path w)))" "P w \<Longrightarrow> P (snd (snd (init_from_string env s f w)))"
  by (auto simp: init_def init_from_string_def parse_def parse_string_def dest: parse_with_ok intro: created split: prod.split)

lemma opens: "P w \<Longrightarrow> P (snd (snd (open_dataset env a path mode w)))"
  "P w \<Longrightarrow> P (snd (snd (open_dataset_from_string env a s f mode w)))"
  by (auto simp: open_dataset_def open_dataset_from_string_def opened split: prod.split sum.split)

lemma dispatch: "P w \<Longrightarrow> (\<And>p. P (snd (snd (op p w)))) \<Longrightarrow> P (snd (snd (kind_dispatch h k z op w)))"
proof -
  assume p: "P w" and "\<And>p. P (snd (snd (op p w)))"
  then have "P w1" if "op p w = (r, x, w1)" for p r x w1 using that by (metis snd_conv)
  with p show ?thesis by (auto simp: kind_dispatch_def split: prod.split amio_err.split option.split call.split)
qed

lemma casts: "P w \<Longrightarrow> (\<And>a. P (snd (snd (f a w)))) \<Longrightarrow> P (snd (snd (on_core z f p w)))"
  "P w \<Longrightarrow> (\<And>a i. P (snd (snd (g a i w)))) \<Longrightarrow> P (snd (snd (on_dataset z g p w)))"
  "P w \<Longrightarrow> (\<And>x. P (snd (snd (f x w)))) \<Longrightarrow> P (snd (snd (on_io z f p w)))"
  "P w \<Longrightarrow> (\<And>x. P (snd (snd (f x w)))) \<Longrightarrow> P (snd (snd (on_view z f p w)))"
  by (cases p; simp)+

lemma cordon: "P (snd (snd r)) \<Longrightarrow> P (snd (snd (cordon r)))"
  by (auto simp: cordon_def split: prod.split call.split)

lemma unit_result: "P (snd r) \<Longrightarrow> P (snd (snd (case r of (c, w1) \<Rightarrow> (c, (), w1))))"
  by (cases r) simp

lemma api: "P w \<Longrightarrow> P (snd (api_step env op w))"
proof (cases op)
  case (CDescribe h name out)
  assume "P w"
  then have "P (snd (snd (case describe env a i n w of
      (c, Some r, w1) \<Rightarrow> (c, r, w1) | (c, None, w1) \<Rightarrow> (c, (empty_shape, 0), w1))))" for a i n
    using describe [of w a i n] by (auto split: prod.split option.split)
  with CDescribe \<open>P w\<close> show ?thesis
    by (auto simp: outcome_def amio_describe_def dispatch casts split: option.split)
qed (auto simp: outcome_def amio_init_def amio_init_from_string_def amio_finalize_def amio_open_dataset_def
    amio_open_dataset_from_string_def amio_close_dataset_def amio_flush_def amio_wait_def amio_write_def amio_read_def
    amio_get_var_attribute_text_def amio_get_var_attribute_double_def amio_release_view_def amio_view_data_def
    amio_view_shape_def amio_view_dtype_def inits opens finals writes reads step close flush wait unviewed
    split: option.split prod.split intro!: cordon dispatch casts unit_result)

lemma history: "history env w w' \<Longrightarrow> P w \<Longrightarrow> P w'"
proof (induction rule: history.induct)
  case (step w w1 op r w2)
  then show ?case using api [of w1 op] by simp
qed

end

end
