(* ===== verification/Api_Accounts.thy ===== *)
theory Api_Accounts
  imports Api_Invariants
begin

text \<open>
  The two accounts of the runtime as instances of the interface for invariants: the number of
  outstanding views of every dataset, and the tracking record of every write.
\<close>


section \<open>Outstanding views\<close>

definition views_of :: "nat \<Rightarrow> nat \<Rightarrow> (nat \<times> view_record) list \<Rightarrow> nat" where
  "views_of a i vs = length (filter (\<lambda>(x, v). vw_core v = a \<and> vw_dataset_id v = i) vs)"

definition core_counted :: "(nat \<times> view_record) list \<Rightarrow> nat \<Rightarrow> ('d, 'c) amio_core \<Rightarrow> bool" where
  "core_counted vs a c \<longleftrightarrow>
     (\<forall>i d. (i, d) \<in> set (co_datasets c) \<longrightarrow>
        i < co_next_dataset_id c \<and> ds_outstanding_views d = of_nat (views_of a i vs))
     \<and> (\<forall>x v. (x, v) \<in> set vs \<and> vw_core v = a \<longrightarrow> vw_dataset_id v < co_next_dataset_id c)"

definition views_counted :: "('d, 'c) world \<Rightarrow> bool" where
  "views_counted w \<longleftrightarrow> heap_ok w \<and> (\<forall>a c. w_cores w a = Some c \<longrightarrow> core_counted (w_views w) a c)"

lemma views_counted_core: "views_counted w \<Longrightarrow> w_cores w a = Some c \<Longrightarrow> core_counted (w_views w) a c"
  by (simp add: views_counted_def)

lemma heap_upd_core: "heap_ok w \<Longrightarrow> heap_ok (upd_core a f w)"
  by (auto simp: heap_ok_def)

lemma counted_upd_core:
  assumes "views_counted w" and "\<And>c. core_counted (w_views w) a c \<Longrightarrow> core_counted (w_views w) a (f c)"
  shows "views_counted (upd_core a f w)"
  using assms heap_upd_core by (auto simp: views_counted_def)

lemma counted_upd_workers: "views_counted w \<Longrightarrow> views_counted (upd_workers a f w)"
  unfolding upd_workers_def by (rule counted_upd_core) (auto simp: core_counted_def)

lemma counted_upd_pool: "views_counted w \<Longrightarrow> views_counted (upd_pool a f w)"
  unfolding upd_pool_def by (rule counted_upd_core) (auto simp: core_counted_def)

lemma counted_upd_ds:
  assumes "\<And>d. ds_outstanding_views (f d) = ds_outstanding_views d" and "views_counted w"
  shows "views_counted (upd_ds a i f w)"
  unfolding upd_ds_def using assms by (intro counted_upd_core) (auto simp: core_counted_def)

lemma counted_upd_io: "views_counted w \<Longrightarrow> views_counted (upd_io x f w)"
  by (auto simp: views_counted_def heap_ok_def)

lemma counted_callback: "views_counted w \<Longrightarrow> views_counted (write_callback env j w)"
  by (auto simp: write_callback_def note_failure_def split: option.split prod.split
      intro!: counted_upd_ds counted_upd_pool counted_upd_io)

interpretation vc: kept_inside env views_counted for env :: "('d, 'c) amio_env"
proof unfold_locales
  fix w :: "('d, 'c) world" and a n t
  assume w: "views_counted w"
  show "views_counted (core_step env (ActPoll a) w)" using w by (simp add: counted_upd_workers)
  show "views_counted (core_step env (ActDone a n) w)" using w
    by (auto split: option.split running.split intro!: counted_upd_workers counted_callback)
  show "views_counted (w\<lparr>w_table := t\<rparr>)" using w by (simp add: views_counted_def heap_ok_def)
qed (simp_all add: counted_upd_pool counted_upd_ds)

lemma views_of_append [simp]:
  "views_of a i (vs @ [(x, v)]) = views_of a i vs + (if vw_core v = a \<and> vw_dataset_id v = i then 1 else 0)"
  by (simp add: views_of_def)

lemma views_of_delete:
  assumes "distinct (map fst vs)" and "map_of vs x = Some v"
  shows "views_of a i vs = views_of a i (AList.delete x vs) + (if vw_core v = a \<and> vw_dataset_id v = i then 1 else 0)"
  using assms
proof (induction vs)
  case (Cons y vs)
  obtain z u where y: "y = (z, u)" by (cases y)
  show ?case
  proof (cases "z = x")
    case True
    then have "x \<notin> fst ` set vs" using Cons.prems(1) y by auto
    then have "AList.delete x vs = vs" by (simp add: AList.delete_id)
    with True Cons.prems y show ?thesis by (simp add: views_of_def)
  next
    case False
    with Cons y show ?thesis by (simp add: views_of_def)
  qed
qed simp

lemma counted_enqueue:
  assumes w: "views_counted w"
  shows "views_counted (snd (snd (enqueue_io env a i meta b race w)))"
proof -
  have n: "views_counted (w\<lparr>w_table := t, w_ios := (w_ios w)(w_next w \<mapsto> r), w_next := Suc (w_next w)\<rparr>)" for t r
    using w by (auto simp: views_counted_def heap_ok_def less_Suc_eq split: if_splits)
  then show ?thesis using w
    by (auto simp: enqueue_io_def Let_def split: prod.split option.split submit_result.split
        intro!: counted_upd_ds counted_upd_io counted_upd_pool counted_upd_workers vc.run)
qed

lemma counted_new_view:
  assumes w: "views_counted w" and d: "ds_at w a i \<noteq> None" and r: "vw_core r = a" "vw_dataset_id r = i"
  shows "views_counted (upd_ds a i (\<lambda>d. d\<lparr>ds_outstanding_views := ds_outstanding_views d + 1\<rparr>)
    (w\<lparr>w_table := t, w_views := w_views w @ [(w_next w, r)], w_next := Suc (w_next w)\<rparr>))" (is "views_counted ?w")
proof -
  obtain c d where c: "w_cores w a = Some c" "map_of (co_datasets c) i = Some d"
    using d by (auto simp: ds_at_def split: option.splits)
  have heap: "heap_ok w" using w by (simp add: views_counted_def)
  have "a < w_next w" using heap c by (simp add: heap_ok_def)
  with heap r have "heap_ok ?w" by (auto simp: heap_ok_def upd_ds_def less_Suc_eq split: if_splits)
  moreover have "core_counted (w_views ?w) y z" if z: "w_cores ?w y = Some z" for y z
  proof (cases "y = a")
    case True
    have "i < co_next_dataset_id c"
      using views_counted_core [OF w c(1)] map_of_SomeD [OF c(2)] by (auto simp: core_counted_def)
    with True z c r views_counted_core [OF w c(1)] show ?thesis by (auto simp: core_counted_def upd_ds_def)
  next
    case False
    then have "w_cores w y = Some z" using z by (simp add: upd_ds_def)
    from views_counted_core [OF w this] False r show ?thesis by (auto simp: core_counted_def upd_ds_def)
  qed
  ultimately show ?thesis by (simp add: views_counted_def)
qed

lemma counted_release:
  assumes w: "views_counted w"
  shows "views_counted (snd (release_view x w))"
proof (cases "\<exists>v c. map_of (w_views w) x = Some v \<and> w_cores w (vw_core v) = Some c")
  case False
  with w show ?thesis by (auto simp: release_view_def split: option.split)
next
  case True
  then obtain v c where v: "map_of (w_views w) x = Some v" and c: "w_cores w (vw_core v) = Some c" by blast
  note w' = release_view_world(2) [OF v c prod.collapse [symmetric]]
  have heap: "heap_ok w" using w by (simp add: views_counted_def)
  then have dist: "distinct (map fst (w_views w))" by (simp add: heap_ok_def)
  have "heap_ok (snd (release_view x w))"
    unfolding w' using heap c by (auto simp: heap_ok_def in_delete distinct_delete split: if_splits)
  moreover have "core_counted (AList.delete x (w_views w)) y z" if z: "w_cores (snd (release_view x w)) y = Some z" for y z
  proof (cases "y = vw_core v")
    case True
    with z w' have "z = unview_core v c" by simp
    with True views_counted_core [OF w c] views_of_delete [OF dist v] show ?thesis
      by (auto simp: core_counted_def unview_core_def in_delete)
  next
    case False
    then have "w_cores w y = Some z" using z w' by simp
    from views_counted_core [OF w this] False views_of_delete [OF dist v, of y] show ?thesis
      by (auto simp: core_counted_def in_delete)
  qed
  ultimately show ?thesis unfolding views_counted_def by (simp add: w')
qed

lemma counted_init: "views_counted w \<Longrightarrow> views_counted (snd (snd (init_from_config env cfg w)))"
  by (auto simp: init_from_config_def Let_def views_counted_def heap_ok_def core_counted_def less_Suc_eq
      split: prod.split if_splits)

lemma counted_open:
  assumes w: "views_counted w"
  shows "views_counted (snd (snd (open_dataset_from_config env a cfg m mode w)))"
proof -
  have none: "views_of a (co_next_dataset_id c) (w_views w) = 0" if "w_cores w a = Some c" for c
    using views_counted_core [OF w that] by (fastforce simp: core_counted_def views_of_def filter_empty_conv)
  have "views_counted (upd_core a (\<lambda>c. c\<lparr>co_next_dataset_id := Suc (co_next_dataset_id c0),
      co_datasets := AList.update (co_next_dataset_id c0) d (co_datasets c)\<rparr>) (w\<lparr>w_table := t\<rparr>))"
    if c0: "w_cores w a = Some c0" and d: "ds_outstanding_views d = 0" for c0 d t
  proof -
    note cc = views_counted_core [OF w c0]
    then have "co_next_dataset_id c0 \<notin> fst ` set (co_datasets c0)" by (fastforce simp: core_counted_def)
    then have "AList.update (co_next_dataset_id c0) d (co_datasets c0) = co_datasets c0 @ [(co_next_dataset_id c0, d)]"
      by (rule update_new)
    with cc d none [OF c0] have "core_counted (w_views w) a (c0\<lparr>co_next_dataset_id := Suc (co_next_dataset_id c0),
        co_datasets := AList.update (co_next_dataset_id c0) d (co_datasets c0)\<rparr>)"
      by (auto simp: core_counted_def less_Suc_eq)
    with w c0 show ?thesis by (auto simp: views_counted_def heap_ok_def split: if_splits)
  qed
  with w show ?thesis
    by (auto simp: open_dataset_from_config_def Let_def split: option.split sum.split prod.split)
qed

interpretation vc: kept_by_calls env views_counted for env :: "('d, 'c) amio_env"
proof unfold_locales
  fix w :: "('d, 'c) world" and a t
  assume w: "views_counted w"
  then show "views_counted (w\<lparr>w_table := t, w_cores := (w_cores w)(a := None)\<rparr>)"
    by (auto simp: views_counted_def heap_ok_def)
qed (simp_all add: counted_enqueue counted_new_view counted_release counted_upd_workers counted_init counted_open)

lemma views_counted_empty: "views_counted empty_world"
  by (simp add: views_counted_def empty_world_def heap_ok_def)


section \<open>Tracking records\<close>

text \<open>The record of a write that is queued, executing or blocked is open: neither completed nor failed.\<close>

definition open_record :: "('d, 'c) world \<Rightarrow> nat \<Rightarrow> nat \<Rightarrow> bool" where
  "open_record w a x \<longleftrightarrow> (\<exists>r. w_ios w x = Some r \<and> io_core r = a \<and> \<not> io_completed r \<and> \<not> io_failed r)"

definition core_tracked :: "('d, 'c) world \<Rightarrow> nat \<Rightarrow> ('d, 'c) amio_core \<Rightarrow> bool" where
  "core_tracked w a c \<longleftrightarrow> distinct (map wj_io (jobs c)) \<and> (\<forall>x \<in> wj_io ` set (jobs c). open_record w a x)"

definition ios_tracked :: "('d, 'c) world \<Rightarrow> bool" where
  "ios_tracked w \<longleftrightarrow>
     heap_ok w \<and> (\<forall>x r. w_ios w x = Some r \<longrightarrow> \<not> (io_completed r \<and> io_failed r))
     \<and> (\<forall>a c. w_cores w a = Some c \<longrightarrow> core_tracked w a c)"

lemma tracked_core: "ios_tracked w \<Longrightarrow> w_cores w a = Some c \<Longrightarrow> core_tracked w a c"
  by (simp add: ios_tracked_def)

lemma core_tracked_mset:
  assumes "mset (jobs c') = mset (jobs c)"
  shows "core_tracked w a c' = core_tracked w a c"
proof -
  have "mset (map wj_io (jobs c')) = mset (map wj_io (jobs c))" using assms by simp
  then have "distinct (map wj_io (jobs c')) = distinct (map wj_io (jobs c))" by (rule mset_eq_imp_distinct_iff)
  with mset_eq_setD [OF assms] show ?thesis by (simp add: core_tracked_def)
qed

lemma core_tracked_add:
  assumes "mset (jobs c') = add_mset j (mset (jobs c))"
  shows "core_tracked w a c' \<longleftrightarrow> core_tracked w a c \<and> wj_io j \<notin> wj_io ` set (jobs c) \<and> open_record w a (wj_io j)"
proof -
  have m: "mset (jobs c') = mset (j # jobs c)" using assms by simp
  have "mset (map wj_io (jobs c')) = mset (map wj_io (j # jobs c))" using assms by simp
  then have "distinct (map wj_io (jobs c')) = distinct (map wj_io (j # jobs c))" by (rule mset_eq_imp_distinct_iff)
  with mset_eq_setD [OF m] show ?thesis by (auto simp: core_tracked_def)
qed

lemma open_record_ios: "w_ios w' = w_ios w \<Longrightarrow> open_record w' a x = open_record w a x"
  by (simp add: open_record_def)

lemma core_tracked_ios: "w_ios w' = w_ios w \<Longrightarrow> core_tracked w' a c = core_tracked w a c"
  by (simp add: core_tracked_def open_record_ios [of w'])

lemma tracked_upd_core:
  assumes "ios_tracked w" and "\<And>c. w_cores w a = Some c \<Longrightarrow> core_tracked w a c \<Longrightarrow> core_tracked w a (f c)"
  shows "ios_tracked (upd_core a f w)"
proof -
  have "core_tracked (upd_core a f w) x c = core_tracked w x c" for x c by (rule core_tracked_ios) simp
  then show ?thesis using assms heap_upd_core by (auto simp: ios_tracked_def)
qed

lemma tracked_upd_same:
  "ios_tracked w \<Longrightarrow> (\<And>c. mset (jobs (f c)) = mset (jobs c)) \<Longrightarrow> ios_tracked (upd_core a f w)"
  by (rule tracked_upd_core) (blast intro: core_tracked_mset [THEN iffD2])+

lemma tracked_upd_pool: "ios_tracked w \<Longrightarrow> ios_tracked (upd_pool a f w)"
  unfolding upd_pool_def by (rule tracked_upd_same) (simp_all add: jobs_def)

lemma tracked_upd_ds: "ios_tracked w \<Longrightarrow> ios_tracked (upd_ds a i f w)"
  unfolding upd_ds_def by (rule tracked_upd_same) (simp_all add: jobs_def)

lemma tracked_table: "ios_tracked w \<Longrightarrow> ios_tracked (w\<lparr>w_table := t\<rparr>)"
  by (simp add: ios_tracked_def heap_ok_def core_tracked_def open_record_def)

text \<open>Changes of a record that leave its fate alone.\<close>

lemma tracked_upd_io:
  assumes "ios_tracked w"
    and "\<And>r. io_core (f r) = io_core r \<and> io_completed (f r) = io_completed r \<and> io_failed (f r) = io_failed r"
  shows "ios_tracked (upd_io x f w)"
proof -
  have "open_record (upd_io x f w) a y = open_record w a y" for a y
    using assms(2) by (auto simp: open_record_def)
  with assms show ?thesis by (auto simp: ios_tracked_def heap_ok_def core_tracked_def split: if_splits)
qed

text \<open>The end of a write closes its record.\<close>

lemma tracked_finish:
  assumes w: "ios_tracked w" and c: "w_cores w a = Some c" and wp: "co_worker_pool c = Some wp"
    and n: "n < length (wp_running wp)" "wp_running wp ! n = RunWrite t"
  shows "ios_tracked (upd_io (wj_io (wt_callback t)) (note_outcome x) (upd_workers a (finish_write tr n t None) w))"
proof -
  let ?j = "wt_callback t" and ?c = "c\<lparr>co_worker_pool := Some (finish_write tr n t None wp)\<rparr>"
  let ?w = "upd_io (wj_io ?j) (note_outcome x) (upd_workers a (finish_write tr n t None) w)"
  have "mset (jobs c) = add_mset ?j (mset (jobs ?c))"
    using finish_write_jobs [OF n, of tr None] wp by (simp add: jobs_def)
  with tracked_core [OF w c] have j: "core_tracked w a ?c" "wj_io ?j \<notin> wj_io ` set (jobs ?c)" "open_record w a (wj_io ?j)"
    by (simp_all add: core_tracked_add)
  have cores: "w_cores ?w y = (if y = a then Some ?c else w_cores w y)" for y
    using c wp by (simp add: upd_workers_def)
  have keep: "open_record ?w y z" if "open_record w y z" "z \<noteq> wj_io ?j" for y z
    using that by (simp add: open_record_def upd_workers_def)
  have other: "z \<noteq> wj_io ?j" if "open_record w y z" "y \<noteq> a" for y z using that j(3) by (auto simp: open_record_def)
  have "core_tracked ?w y d" if d: "w_cores ?w y = Some d" for y d
  proof (cases "y = a")
    case True
    with d cores have "d = ?c" by simp
    moreover have "open_record ?w a z" if z: "z \<in> wj_io ` set (jobs ?c)" for z
    proof (rule keep)
      show "open_record w a z" using z j(1) unfolding core_tracked_def by blast
      show "z \<noteq> wj_io ?j" using z j(2) by blast
    qed
    ultimately show ?thesis using True j(1) by (simp add: core_tracked_def)
  next
    case False
    with d cores have "core_tracked w y d" using tracked_core [OF w] by simp
    with False other keep show ?thesis unfolding core_tracked_def by blast
  qed
  moreover have "heap_ok ?w" using w by (auto simp: ios_tracked_def heap_ok_def upd_workers_def)
  moreover have "\<not> (io_completed r \<and> io_failed r)" if "w_ios ?w y = Some r" for y r
    using that w j(3)
    by (auto simp: ios_tracked_def upd_workers_def open_record_def note_outcome_def split: if_splits option.splits)
  ultimately show ?thesis by (auto simp: ios_tracked_def)
qed

lemma upd_core_commute:
  "(\<And>c. f (g c) = g (f c)) \<Longrightarrow> upd_core a f (upd_core b g w) = upd_core b g (upd_core a f w)"
  by (cases "w_cores w a"; cases "w_cores w b") (auto simp: upd_core_def fun_upd_twist)

lemma upd_io_core_commute: "upd_core a f (upd_io x g w) = upd_io x g (upd_core a f w)"
  by (simp add: upd_core_def upd_io_def)

lemma upd_workers_commute:
  "upd_workers a f (upd_ds b i g w) = upd_ds b i g (upd_workers a f w)"
  "upd_workers a f (upd_pool b h w) = upd_pool b h (upd_workers a f w)"
  "upd_workers a f (upd_io x k w) = upd_io x k (upd_workers a f w)"
  unfolding upd_workers_def upd_ds_def upd_pool_def
  by (rule upd_core_commute, simp, rule upd_core_commute, simp, rule upd_io_core_commute)

lemma tracked_done: "ios_tracked w \<Longrightarrow> ios_tracked (core_step env (ActDone a n) w)"
proof -
  assume w: "ios_tracked w"
  show ?thesis
  proof (cases "\<exists>c wp t. w_cores w a = Some c \<and> co_worker_pool c = Some wp \<and> n < length (wp_running wp) \<and> wp_running wp ! n = RunWrite t")
    case False
    then have "core_step env (ActDone a n) w = w" by (auto split: option.splits running.splits)
    with w show ?thesis by simp
  next
    case True
    then obtain c wp t where c: "w_cores w a = Some c" "co_worker_pool c = Some wp"
      and n: "n < length (wp_running wp)" "wp_running wp ! n = RunWrite t" by blast
    let ?c = "c\<lparr>co_worker_pool := Some (finish_write (en_trace env) n t None wp)\<rparr>"
    have "mset (jobs c) = add_mset (wt_callback t) (mset (jobs ?c))"
      using finish_write_jobs [OF n, of "en_trace env" None] c(2) by (simp add: jobs_def)
    from core_tracked_add [OF this, of w a] tracked_core [OF w c(1)] have "core_tracked w a ?c" by simp
    then have "ios_tracked (upd_workers a (finish_write (en_trace env) n t None) w)"
      unfolding upd_workers_def using w c by (intro tracked_upd_core) auto
    with c n show ?thesis
      by (auto simp: write_callback_def upd_workers_commute split: option.split prod.split
          intro!: tracked_upd_ds tracked_upd_pool tracked_finish [OF w c n])
  qed
qed

lemma jobs_polled: "mset (jobs (c\<lparr>co_worker_pool := map_option (\<lambda>wp. snd (try_execute_one 0 wp)) (co_worker_pool c)\<rparr>)) = mset (jobs c)"
  by (simp add: jobs_def try_execute_jobs split: option.split)

interpretation tr: kept_inside env ios_tracked for env :: "('d, 'c) amio_env"
proof unfold_locales
  fix w :: "('d, 'c) world" and a
  assume w: "ios_tracked w"
  then show "ios_tracked (core_step env (ActPoll a) w)"
    unfolding core_step.simps upd_workers_def by (rule tracked_upd_same) (simp add: jobs_polled)
qed (simp_all add: tracked_upd_pool tracked_upd_ds tracked_table tracked_done del: core_step.simps)

text \<open>A new record, open, and the job that belongs to it.\<close>

lemma tracked_new_record:
  assumes w: "ios_tracked w" and r: "io_core r = a" "\<not> io_completed r" "\<not> io_failed r"
  shows "ios_tracked (w\<lparr>w_table := t, w_ios := (w_ios w)(w_next w \<mapsto> r), w_next := Suc (w_next w)\<rparr>)" (is "ios_tracked ?w")
    and "open_record (w\<lparr>w_table := t, w_ios := (w_ios w)(w_next w \<mapsto> r), w_next := Suc (w_next w)\<rparr>) a (w_next w)"
    and "w_cores w b = Some c \<Longrightarrow> w_next w \<notin> wj_io ` set (jobs c)"
proof -
  have heap: "heap_ok w" using w by (simp add: ios_tracked_def)
  have old: "x < w_next w" if "open_record w y x" for x y using that heap by (auto simp: open_record_def heap_ok_def)
  then have "open_record ?w y x" if "open_record w y x" for x y
    using that [unfolded open_record_def] that by (fastforce simp: open_record_def)
  then have "core_tracked ?w y c" if "core_tracked w y c" for y c using that by (simp add: core_tracked_def)
  with w r heap show "ios_tracked ?w"
    by (auto simp: ios_tracked_def heap_ok_def less_Suc_eq split: if_splits)
  show "open_record ?w a (w_next w)" using r by (simp add: open_record_def)
  show "w_next w \<notin> wj_io ` set (jobs c)" if "w_cores w b = Some c"
    using tracked_core [OF w that] old unfolding core_tracked_def by blast
qed

lemma tracked_submit:
  assumes w: "ios_tracked w" and c: "w_cores w a = Some c" "co_worker_pool c = Some wp"
    and s: "submit_write_core k h j wp = (res, wp1)" and x: "open_record w a (wj_io j)" "wj_io j \<notin> wj_io ` set (jobs c)"
  shows "ios_tracked (upd_workers a (\<lambda>_. wp1) w)"
  unfolding upd_workers_def
proof (rule tracked_upd_core [OF w])
  fix d assume "w_cores w a = Some d" and t: "core_tracked w a d"
  then have d: "d = c" using c by simp
  let ?d = "d\<lparr>co_worker_pool := map_option (\<lambda>_. wp1) (co_worker_pool d)\<rparr>"
  from submit_write_jobs [OF s] c d
  consider "mset (jobs ?d) = mset (jobs d)" | "mset (jobs ?d) = add_mset j (mset (jobs d))"
    by (auto simp: jobs_def)
  then show "core_tracked w a ?d"
  proof cases
    case 1
    from core_tracked_mset [OF this] t show ?thesis by simp
  next
    case 2
    from core_tracked_add [OF this] t x d show ?thesis by simp
  qed
qed

lemma tracked_enqueue:
  assumes w: "ios_tracked w"
  shows "ios_tracked (snd (snd (enqueue_io env a i meta b race w)))"
proof (cases "w_cores w a")
  case None
  with w show ?thesis by (simp add: enqueue_io_def Let_def split: prod.split)
next
  case (Some c)
  obtain tk t where ins: "ht_insert Io (Some (At_Io (w_next w))) (w_table w) = (tk, t)"
    by (cases "ht_insert Io (Some (At_Io (w_next w))) (w_table w)")
  define r where "r = \<lparr>io_dataset_id = i, io_dv_seq = 0, io_token = tk, io_staging_buf = b, io_core = a,
    io_completed = False, io_failed = False, io_failure_code = AMIO_OK\<rparr>"
  define w1 where "w1 = w\<lparr>w_table := t, w_ios := (w_ios w)(w_next w \<mapsto> r), w_next := Suc (w_next w)\<rparr>"
  have n: "io_core r = a" "\<not> io_completed r" "\<not> io_failed r" by (simp_all add: r_def)
  note new = tracked_new_record(1,2) [OF w n, where t = t, folded w1_def]
  show ?thesis
  proof (cases "co_worker_pool c")
    case None
    have "ios_tracked (upd_io (w_next w) (\<lambda>r. r\<lparr>io_completed := True\<rparr>) w1)"
    proof -
      have "open_record (upd_io (w_next w) f w1) y x" if "open_record w y x" for x y f
        using that w by (auto simp: open_record_def w1_def ios_tracked_def heap_ok_def)
      then have "core_tracked (upd_io (w_next w) (\<lambda>r. r\<lparr>io_completed := True\<rparr>) w1) y d" if "core_tracked w y d" for y d
        using that by (simp add: core_tracked_def)
      with new(1) w n show ?thesis
        by (auto simp: ios_tracked_def heap_ok_def w1_def r_def split: if_splits)
    qed
    with Some None ins show ?thesis
      by (simp add: enqueue_io_def Let_def r_def [symmetric] w1_def [symmetric] tracked_upd_pool)
  next
    case wp: (Some wp)
    define j where "j = \<lparr>wj_buf = b, wj_core = a, wj_dataset = i, wj_io = w_next w, wj_meta = meta\<rparr>"
    obtain res wp1 where s: "submit_write_core \<lparr>dataset_id = i, variable_id = vm_variable_id meta\<rparr> tk j wp = (res, wp1)"
      by (cases "submit_write_core \<lparr>dataset_id = i, variable_id = vm_variable_id meta\<rparr> tk j wp")
    have "ios_tracked (upd_workers a (\<lambda>_. wp1) w1)"
      by (rule tracked_submit [OF new(1) _ wp s])
        (use Some new(2) tracked_new_record(3) [OF w n Some] in \<open>simp_all add: w1_def j_def\<close>)
    with Some wp ins s show ?thesis
      by (auto simp: enqueue_io_def Let_def r_def [symmetric] w1_def [symmetric] j_def [symmetric]
          split: submit_result.split intro!: tracked_upd_ds tracked_upd_io tr.run)
  qed
qed

text \<open>Changes of the other parts of the heap.\<close>

lemma tracked_cong:
  assumes w: "ios_tracked w" and ios: "w_ios w' = w_ios w" and "heap_ok w'"
    and c: "\<And>y c'. w_cores w' y = Some c' \<Longrightarrow> jobs c' = [] \<or> (\<exists>c. w_cores w y = Some c \<and> jobs c' = jobs c)"
  shows "ios_tracked w'"
proof -
  have "core_tracked w' y c'" if y: "w_cores w' y = Some c'" for y c'
    using c [OF y]
  proof
    assume "\<exists>c. w_cores w y = Some c \<and> jobs c' = jobs c"
    then obtain d where d: "w_cores w y = Some d" "jobs c' = jobs d" by blast
    from tracked_core [OF w d(1)] d(2) open_record_ios [OF ios] show ?thesis by (simp add: core_tracked_def)
  qed (simp add: core_tracked_def)
  with assms show ?thesis by (simp add: ios_tracked_def)
qed

interpretation tr: kept_by_calls env ios_tracked for env :: "('d, 'c) amio_env"
proof unfold_locales
  fix w :: "('d, 'c) world" and a i r t x cfg m mode
  assume w: "ios_tracked w"
  then have heap: "heap_ok w" by (simp add: ios_tracked_def)
  show "ios_tracked (w\<lparr>w_table := t, w_cores := (w_cores w)(a := None)\<rparr>)"
    using heap by (intro tracked_cong [OF w]) (auto simp: heap_ok_def split: if_splits)
  show "ios_tracked (upd_workers a shutdown w)"
    unfolding upd_workers_def
    by (rule tracked_upd_same [OF w]) (simp add: jobs_def wp_jobs_def shutdown_def split: option.split)
  show "ios_tracked (snd (snd (init_from_config env cfg w)))"
    using heap w
    by (auto simp: init_from_config_def Let_def jobs_def wp_jobs_def WorkerPool_def heap_ok_def less_Suc_eq
        split: prod.split if_splits intro!: tracked_cong [OF w])
  show "ios_tracked (snd (release_view x w))"
  proof -
    let ?w = "w\<lparr>w_views := AList.delete x (w_views w)\<rparr>"
    have "ios_tracked ?w"
      using heap by (intro tracked_cong [OF w]) (auto simp: heap_ok_def in_delete distinct_delete)
    then have t: "ios_tracked (upd_ds a i g (upd_pool a f ?w))" for a i g f
      by (intro tracked_upd_ds tracked_upd_pool)
    have e: "(upd_ds a i g (upd_pool a f w))\<lparr>w_table := t, w_views := AList.delete x vs\<rparr>
        = (upd_ds a i g (upd_pool a f (w\<lparr>w_views := AList.delete x vs\<rparr>)))\<lparr>w_table := t\<rparr>" for a i g f t vs
      by (simp add: upd_ds_def upd_pool_def upd_core_def)
    have "w_views (upd_ds a i g (upd_pool a f w)) = w_views w" for a i g f by (simp add: upd_ds_def upd_pool_def)
    with w e t show ?thesis by (auto simp: release_view_def Let_def tracked_table split: option.split)
  qed
  show "ios_tracked (snd (snd (open_dataset_from_config env a cfg m mode w)))"
    using w by (auto simp: open_dataset_from_config_def Let_def split: option.split sum.split prod.split
        intro!: tracked_upd_same tracked_table) (simp_all add: jobs_def)
  show "ios_tracked (upd_ds a i (\<lambda>d. d\<lparr>ds_outstanding_views := ds_outstanding_views d + 1\<rparr>)
      (w\<lparr>w_table := t, w_views := w_views w @ [(w_next w, r)], w_next := Suc (w_next w)\<rparr>))"
    if "ds_at w a i \<noteq> None" "vw_core r = a"
  proof (rule tracked_upd_ds)
    have "a < w_next w" using that heap by (auto simp: ds_at_def heap_ok_def split: option.splits)
    with heap that show "ios_tracked (w\<lparr>w_table := t, w_views := w_views w @ [(w_next w, r)], w_next := Suc (w_next w)\<rparr>)"
      by (intro tracked_cong [OF w]) (auto simp: heap_ok_def less_Suc_eq)
  qed
qed (simp_all add: tracked_enqueue)

lemma ios_tracked_empty: "ios_tracked empty_world"
  by (simp add: ios_tracked_def empty_world_def heap_ok_def)


section \<open>Failures of writes\<close>

lemma in_update: "(k, v) \<in> set (AList.update k' v' xs) \<Longrightarrow> k \<noteq> k' \<Longrightarrow> (k, v) \<in> set xs"
  by (induction xs) (auto split: if_splits)

text \<open>Once a write of a dataset has failed, the dataset carries the failure until it is destroyed.\<close>

definition failure_kept :: "nat \<Rightarrow> nat \<Rightarrow> ('d, 'c) world \<Rightarrow> bool" where
  "failure_kept a i w \<longleftrightarrow>
     a < w_next w
     \<and> (\<forall>c. w_cores w a = Some c \<longrightarrow> i < co_next_dataset_id c
          \<and> (\<forall>d. (i, d) \<in> set (co_datasets c) \<longrightarrow> surface d = AMIO_ERR_BACKEND_FAILURE))"

lemma kept_upd_core:
  assumes "failure_kept a i w"
    and "\<And>c. w_cores w b = Some c \<Longrightarrow> co_next_dataset_id c \<le> co_next_dataset_id (f c)"
    and "\<And>c d. w_cores w b = Some c \<Longrightarrow> i < co_next_dataset_id c \<Longrightarrow> (i, d) \<in> set (co_datasets (f c)) \<Longrightarrow>
      \<exists>d'. (i, d') \<in> set (co_datasets c) \<and> (surface d' = AMIO_ERR_BACKEND_FAILURE \<longrightarrow> surface d = AMIO_ERR_BACKEND_FAILURE)"
  shows "failure_kept a i (upd_core b f w)"
  using assms(1) order_less_le_trans [OF _ assms(2)] assms(3) unfolding failure_kept_def by (auto split: if_splits) blast

lemma surface_upd [simp]:
  "surface (d\<lparr>ds_pending_writes := n\<rparr>) = surface d" "surface (d\<lparr>ds_outstanding_views := n\<rparr>) = surface d"
  by (simp_all add: surface_def)

lemma kept_upd_workers: "failure_kept a i w \<Longrightarrow> failure_kept a i (upd_workers b f w)"
  unfolding upd_workers_def by (rule kept_upd_core) auto

lemma kept_upd_pool: "failure_kept a i w \<Longrightarrow> failure_kept a i (upd_pool b f w)"
  unfolding upd_pool_def by (rule kept_upd_core) auto

lemma kept_upd_ds:
  "failure_kept a i w \<Longrightarrow> (\<And>d. surface d = AMIO_ERR_BACKEND_FAILURE \<Longrightarrow> surface (f d) = AMIO_ERR_BACKEND_FAILURE) \<Longrightarrow>
   failure_kept a i (upd_ds b j f w)"
  unfolding upd_ds_def by (rule kept_upd_core) auto

lemma kept_cong:
  "failure_kept a i w \<Longrightarrow> w_cores w' a = w_cores w a \<or> w_cores w' a = None \<Longrightarrow> w_next w \<le> w_next w' \<Longrightarrow> failure_kept a i w'"
  by (auto simp: failure_kept_def)

lemma surface_note_failure:
  "surface d = AMIO_ERR_BACKEND_FAILURE \<Longrightarrow>
   surface ((note_failure x d)\<lparr>ds_driver := dr, ds_pending_writes := n\<rparr>) = AMIO_ERR_BACKEND_FAILURE"
  by (auto simp: surface_def note_failure_def split: option.split if_splits)

lemma kept_callback: "failure_kept a i w \<Longrightarrow> failure_kept a i (write_callback env j w)"
proof -
  assume "failure_kept a i w"
  then have "failure_kept a i (upd_io x f w)" for x f by (rule kept_cong) simp_all
  then show ?thesis using \<open>failure_kept a i w\<close>
    by (auto simp: write_callback_def split: option.split prod.split intro!: kept_upd_ds kept_upd_pool surface_note_failure)
qed

lemma kept_driver: "failure_kept a i w \<Longrightarrow> failure_kept a i (upd_ds b j (\<lambda>d. d\<lparr>ds_driver := dr\<rparr>) w)"
  by (rule kept_upd_ds) (auto simp: surface_def split: if_splits)

interpretation fk: kept_inside env "failure_kept a i" for env :: "('d, 'c) amio_env" and a i
proof unfold_locales
  fix w :: "('d, 'c) world" and b n t j g
  assume w: "failure_kept a i w"
  show "failure_kept a i (core_step env (ActPoll b) w)" using w by (simp add: kept_upd_workers)
  show "failure_kept a i (core_step env (ActDone b n) w)" using w
    by (auto split: option.split running.split intro!: kept_upd_workers kept_callback)
  show "failure_kept a i (w\<lparr>w_table := t\<rparr>)" by (rule kept_cong [OF w]) simp_all
  show "failure_kept a i (upd_ds b j g w)" if "\<And>d. ds_outstanding_views (g d) = ds_outstanding_views d
      \<and> ds_has_failure (g d) = ds_has_failure d \<and> ds_first_failure_code (g d) = ds_first_failure_code d
      \<and> ds_driver (g d) = ds_driver d"
    using w that by (intro kept_upd_ds) (auto simp: surface_def split: if_splits)
qed (simp_all add: kept_upd_pool kept_driver)

interpretation fk: kept_by_calls env "failure_kept a i" for env :: "('d, 'c) amio_env" and a i
proof unfold_locales
  fix w :: "('d, 'c) world" and b n t j k r meta buf race x cfg m mode
  assume w: "failure_kept a i w"
  have io: "failure_kept a i (upd_io x f w')" if "failure_kept a i w'" for x f and w' :: "('d, 'c) world"
    by (rule kept_cong [OF that]) simp_all
  show "failure_kept a i (snd (snd (enqueue_io env b j meta k race w)))"
  proof -
    have "failure_kept a i (w\<lparr>w_table := t, w_ios := ios, w_next := Suc (w_next w)\<rparr>)" for t ios
      by (rule kept_cong [OF w]) simp_all
    with w show ?thesis
      by (auto simp: enqueue_io_def Let_def split: prod.split option.split submit_result.split
          intro!: kept_upd_ds io kept_upd_pool kept_upd_workers fk.run)
  qed
  show "failure_kept a i (upd_workers b shutdown w)" by (rule kept_upd_workers [OF w])
  show "failure_kept a i (w\<lparr>w_table := t, w_cores := (w_cores w)(b := None)\<rparr>)" by (rule kept_cong [OF w]) auto
  show "failure_kept a i (upd_ds b j (\<lambda>d. d\<lparr>ds_outstanding_views := ds_outstanding_views d + 1\<rparr>)
      (w\<lparr>w_table := t, w_views := w_views w @ [(w_next w, r)], w_next := Suc (w_next w)\<rparr>))"
  proof (rule kept_upd_ds)
    show "failure_kept a i (w\<lparr>w_table := t, w_views := w_views w @ [(w_next w, r)], w_next := Suc (w_next w)\<rparr>)"
      by (rule kept_cong [OF w]) simp_all
  qed simp
  show "failure_kept a i (snd (release_view x w))"
  proof -
    have v: "failure_kept a i (w'\<lparr>w_table := t, w_views := vs\<rparr>)" if "failure_kept a i w'" for t vs and w' :: "('d, 'c) world"
      by (rule kept_cong [OF that]) simp_all
    show ?thesis using w
      by (auto simp: release_view_def Let_def split: option.split intro!: v kept_upd_ds kept_upd_pool)
  qed
  show "failure_kept a i (snd (snd (init_from_config env cfg w)))"
    using w by (auto simp: init_from_config_def Let_def failure_kept_def split: prod.split)
  have "failure_kept a i (upd_core b (\<lambda>c. c\<lparr>co_next_dataset_id := Suc (co_next_dataset_id c0),
      co_datasets := AList.update (co_next_dataset_id c0) d (co_datasets c)\<rparr>) (w\<lparr>w_table := t\<rparr>))"
    if "w_cores w b = Some c0" for c0 d t
  proof (rule kept_upd_core)
    show "failure_kept a i (w\<lparr>w_table := t\<rparr>)" by (rule fk.table [OF w])
  qed (use that in \<open>auto simp: AList.update_conv' dest!: in_update\<close>)
  with w show "failure_kept a i (snd (snd (open_dataset_from_config env b cfg m mode w)))"
    by (auto simp: open_dataset_from_config_def Let_def split: option.split sum.split prod.split)
qed

end
