(* ===== verification/Api_Log.thy ===== *)
theory Api_Log
  imports Api_Accounts
begin

text \<open>
  What the driver answered, and what the runtime made of it.  The drivers are a parameter of the runtime;
  a driver whose state remembers every write it was asked for, with its outcome, makes the calls on it
  observable wherever they happen, between the calls of the host or inside a waiting one.  Every driver
  can be extended to such a one.  Three accounts relate the log to the runtime: a dataset whose driver
  ended a write with an exception carries the failure; a record is completed only by a write the driver
  accepted; and a record that is completed or failed stays as it is.
\<close>


section \<open>Drivers that log their writes\<close>

type_synonym write_log = "(var_meta \<times> exn option) list"

definition logs_writes :: "('d, 'c) amio_env \<Rightarrow> ('d \<Rightarrow> write_log) \<Rightarrow> bool" where
  "logs_writes env log \<longleftrightarrow>
     (\<forall>b m d. log (snd (drv_write (en_ops env) b m d)) = log d @ [(m, fst (drv_write (en_ops env) b m d))])
     \<and> (\<forall>d. log (snd (drv_flush (en_ops env) d)) = log d) \<and> (\<forall>d. log (snd (drv_close (en_ops env) d)) = log d)
     \<and> (\<forall>c d d'. drv_set_communicator (en_ops env) c d = Inr d' \<longrightarrow> log d' = log d)
     \<and> (\<forall>m d d'. drv_open_write (en_ops env) m d = Inr d' \<longrightarrow> log d' = log d)
     \<and> (\<forall>m d d'. drv_open_read (en_ops env) m d = Inr d' \<longrightarrow> log d' = log d)
     \<and> (\<forall>(k, d) \<in> set (en_factory env). log d = [])"

text \<open>Any driver, with a log beside its state.\<close>

definition observed_ops :: "'d driver_ops \<Rightarrow> ('d \<times> write_log) driver_ops" where
  "observed_ops ops =
     \<lparr>drv_set_communicator = (\<lambda>c (d, l). map_sum id (\<lambda>d'. (d', l)) (drv_set_communicator ops c d)),
      drv_open_write = (\<lambda>m (d, l). map_sum id (\<lambda>d'. (d', l)) (drv_open_write ops m d)),
      drv_open_read = (\<lambda>m (d, l). map_sum id (\<lambda>d'. (d', l)) (drv_open_read ops m d)),
      drv_write = (\<lambda>b m (d, l). let (x, d') = drv_write ops b m d in (x, d', l @ [(m, x)])),
      drv_read = drv_read ops \<circ> fst,
      drv_describe = (\<lambda>n. drv_describe ops n \<circ> fst),
      drv_text_attribute = (\<lambda>v n. drv_text_attribute ops v n \<circ> fst),
      drv_numeric_attribute = (\<lambda>v n. drv_numeric_attribute ops v n \<circ> fst),
      drv_flush = (\<lambda>(d, l). let (x, d') = drv_flush ops d in (x, d', l)),
      drv_close = (\<lambda>(d, l). let (x, d') = drv_close ops d in (x, d', l))\<rparr>"

definition observed :: "('d, 'c) amio_env \<Rightarrow> ('d \<times> write_log, 'c) amio_env" where
  "observed env =
     \<lparr>en_alloc = en_alloc env, en_from_file = en_from_file env, en_from_string = en_from_string env,
      en_ops = observed_ops (en_ops env), en_factory = map (\<lambda>(k, d). (k, d, [])) (en_factory env),
      en_pools_built = en_pools_built env, en_has_mpi = en_has_mpi env, en_comm = en_comm env, en_trace = en_trace env\<rparr>"

lemma observed_logs: "logs_writes (observed env) snd"
proof -
  have s: "map_sum id (\<lambda>d'. (d', l)) r = Inr p \<Longrightarrow> snd p = l" for r :: "exn + 'a" and l :: write_log and p
    by (cases r) auto
  show ?thesis
    unfolding logs_writes_def observed_def observed_ops_def
    by (auto simp: Let_def dest: s split: prod.split)
qed

locale logged =
  fixes env :: "('d, 'c) amio_env" and log :: "'d \<Rightarrow> write_log"
  assumes logs: "logs_writes env log"
begin

lemma log_write: "drv_write (en_ops env) b m d = (x, d') \<Longrightarrow> log d' = log d @ [(m, x)]"
  using logs unfolding logs_writes_def by (metis fst_conv snd_conv)

lemma log_shut: "log (snd (drv_close (en_ops env) (snd (drv_flush (en_ops env) d)))) = log d"
  using logs unfolding logs_writes_def by simp

lemma log_built: "factory_build k (en_factory env) = (e, Some d) \<Longrightarrow> log d = []"
  using logs unfolding logs_writes_def by (fastforce simp: factory_build_def split: if_splits option.splits dest: map_of_SomeD)

lemma log_opened: "open_driver env c cfg m mode = Inr d \<Longrightarrow> log d = []"
  using logs unfolding logs_writes_def
  by (auto simp: open_driver_def dest!: log_built split: prod.splits option.splits sum.splits if_splits)

end

interpretation ob: logged "observed env" snd for env :: "('d, 'c) amio_env"
  by unfold_locales (rule observed_logs)


section \<open>Failures are noted\<close>

lemma ds_at_upd_ds: "ds_at (upd_ds a i f w) b j = (if b = a \<and> j = i then map_option f (ds_at w a i) else ds_at w b j)"
  by (auto simp: upd_ds_def ds_at_upd_core ds_at_def map_of_put split: option.split)

lemma ds_at_same:
  "ds_at (upd_pool a f w) b j = ds_at w b j" "ds_at (upd_workers a g w) b j = ds_at w b j" "ds_at (upd_io x h w) b j = ds_at w b j"
  by (simp_all add: upd_pool_def upd_workers_def ds_at_upd_core ds_at_def split: option.split)

lemma ds_at_opened:
  "w_cores w a = Some c \<Longrightarrow>
   ds_at (upd_core a (\<lambda>c. c\<lparr>co_next_dataset_id := n, co_datasets := AList.update k d (co_datasets c)\<rparr>) (w\<lparr>w_table := t\<rparr>)) b j
     = (if b = a \<and> j = k then Some d else ds_at w b j)"
  by (simp add: ds_at_def AList.update_conv' split: option.split)

text \<open>A condition on every dataset.\<close>

definition all_ds :: "('d dataset_record \<Rightarrow> bool) \<Rightarrow> ('d, 'c) world \<Rightarrow> bool" where
  "all_ds q w \<longleftrightarrow> (\<forall>a i d. ds_at w a i = Some d \<longrightarrow> q d)"

lemma all_ds_upd: "all_ds q w \<Longrightarrow> (\<And>d. ds_at w a i = Some d \<Longrightarrow> q d \<Longrightarrow> q (f d)) \<Longrightarrow> all_ds q (upd_ds a i f w)"
  by (auto simp: all_ds_def ds_at_upd_ds)

lemma all_ds_same [simp]:
  "all_ds q (upd_pool a f w) = all_ds q w" "all_ds q (upd_workers a g w) = all_ds q w" "all_ds q (upd_io x h w) = all_ds q w"
  by (simp_all add: all_ds_def ds_at_same)

lemma all_ds_cores: "all_ds q w \<Longrightarrow> w_cores w' = w_cores w \<Longrightarrow> all_ds q w'"
  by (simp add: all_ds_def ds_at_def)

text \<open>The failure fields of a dataset agree with the log of its driver.\<close>

definition noted :: "('d \<Rightarrow> write_log) \<Rightarrow> 'd dataset_record \<Rightarrow> bool" where
  "noted log d \<longleftrightarrow>
     ds_first_failure_code d \<in> {AMIO_OK, AMIO_ERR_BACKEND_FAILURE}
     \<and> (ds_has_failure d \<longrightarrow> ds_first_failure_code d = AMIO_ERR_BACKEND_FAILURE)
     \<and> ((\<exists>m x. (m, Some x) \<in> set (log (ds_driver d))) \<longrightarrow> ds_has_failure d)"

context logged
begin

lemma noted_callback: "all_ds (noted log) w \<Longrightarrow> all_ds (noted log) (write_callback env j w)"
proof -
  assume w: "all_ds (noted log) w"
  have n: "noted log ((note_failure x d)\<lparr>ds_driver := dr, ds_pending_writes := n\<rparr>)"
    if "noted log d" "drv_write (en_ops env) b m (ds_driver d) = (x, dr)" for d x dr b m n
    using that(1) log_write [OF that(2)] by (auto simp: noted_def note_failure_def split: option.split)
  show ?thesis
  proof (cases "\<exists>c d. w_cores w (wj_core j) = Some c \<and> ds_at w (wj_core j) (wj_dataset j) = Some d")
    case True
    then obtain c d where c: "w_cores w (wj_core j) = Some c" "ds_at w (wj_core j) (wj_dataset j) = Some d" by blast
    obtain x dr where x: "drv_write (en_ops env) (buf (co_staging_pool c) (wj_buf j)) (wj_meta j) (ds_driver d) = (x, dr)"
      by (cases "drv_write (en_ops env) (buf (co_staging_pool c) (wj_buf j)) (wj_meta j) (ds_driver d)")
    have "noted log d" using w c(2) by (auto simp: all_ds_def)
    from n [OF this x] w c x show ?thesis
      by (simp add: write_callback_def) (rule all_ds_upd, simp_all add: ds_at_same)
  next
    case False
    with w show ?thesis by (auto simp: write_callback_def split: option.split)
  qed
qed

lemma noted_kept: "kept_inside env (all_ds (noted log))"
proof unfold_locales
  fix w :: "('d, 'c) world" and a n t i d g
  assume w: "all_ds (noted log) w"
  show "all_ds (noted log) (core_step env (ActPoll a) w)" using w by simp
  show "all_ds (noted log) (core_step env (ActDone a n) w)"
    using w by (auto split: option.split running.split intro: noted_callback)
  show "all_ds (noted log) (w\<lparr>w_table := t\<rparr>)" by (rule all_ds_cores [OF w]) simp
  show "all_ds (noted log) (upd_ds a i g w)" if "\<And>d. ds_outstanding_views (g d) = ds_outstanding_views d
      \<and> ds_has_failure (g d) = ds_has_failure d \<and> ds_first_failure_code (g d) = ds_first_failure_code d
      \<and> ds_driver (g d) = ds_driver d"
    using that by (intro all_ds_upd [OF w]) (simp add: noted_def)
  show "all_ds (noted log) (upd_ds a i (\<lambda>d'. d'\<lparr>ds_driver := snd (drv_close (en_ops env) (snd (drv_flush (en_ops env) (ds_driver d))))\<rparr>) w)"
    if "ds_at w a i = Some d"
    using that by (intro all_ds_upd [OF w]) (simp add: noted_def log_shut)
qed simp

end

sublocale logged \<subseteq> nt: kept_inside env "all_ds (noted log)"
  by (rule noted_kept)

context logged
begin

lemma noted_kept_calls: "kept_by_calls env (all_ds (noted log))"
proof unfold_locales
  fix w :: "('d, 'c) world" and a i meta b race r t x cfg m mode
  assume w: "all_ds (noted log) w"
  have cores: "all_ds (noted log) w'" if "w_cores w' = w_cores w" for w' :: "('d, 'c) world" by (rule all_ds_cores [OF w that])
  have rec: "all_ds (noted log) (w\<lparr>w_table := t, w_ios := ios, w_next := n\<rparr>)" for t ios n by (rule cores) simp
  show "all_ds (noted log) (snd (snd (enqueue_io env a i meta b race w)))"
    using w by (auto simp: enqueue_io_def Let_def split: prod.split option.split submit_result.split
        intro!: nt.ds nt.run rec)
  show "all_ds (noted log) (upd_ds a i (\<lambda>d. d\<lparr>ds_outstanding_views := ds_outstanding_views d + 1\<rparr>)
      (w\<lparr>w_table := t, w_views := w_views w @ [(w_next w, r)], w_next := Suc (w_next w)\<rparr>))"
    by (rule all_ds_upd [OF cores]) (simp_all add: noted_def)
  show "all_ds (noted log) (snd (release_view x w))"
  proof -
    have v: "all_ds (noted log) (w'\<lparr>w_table := t, w_views := vs\<rparr>)" if "all_ds (noted log) w'" for t vs and w' :: "('d, 'c) world"
      by (rule all_ds_cores [OF that]) simp
    from w show ?thesis
      by (auto simp: release_view_def Let_def noted_def split: option.split intro!: v all_ds_upd)
  qed
  show "all_ds (noted log) (upd_workers a shutdown w)" using w by simp
  show "all_ds (noted log) (w\<lparr>w_table := t, w_cores := (w_cores w)(a := None)\<rparr>)"
    using w by (auto simp: all_ds_def ds_at_def split: option.splits)
  show "all_ds (noted log) (snd (snd (init_from_config env cfg w)))"
    using w by (auto simp: init_from_config_def Let_def all_ds_def ds_at_def split: prod.split option.splits if_splits)
  show "all_ds (noted log) (snd (snd (open_dataset_from_config env a cfg m mode w)))"
    using w by (auto simp: open_dataset_from_config_def Let_def all_ds_def ds_at_opened noted_def dest: log_opened
        split: option.split sum.split prod.split if_splits)
qed

end

sublocale logged \<subseteq> nt: kept_by_calls env "all_ds (noted log)"
  by (rule noted_kept_calls)


section \<open>A completed write was accepted by the driver\<close>

text \<open>
  Record \<open>x\<close> belongs to a write of dataset \<open>i\<close> of context \<open>a\<close> with metadata \<open>m\<close>: so say its tasks, and when the record
  is completed, the driver of the dataset has accepted a write with these metadata.
\<close>

definition accepted :: "('d \<Rightarrow> write_log) \<Rightarrow> nat \<Rightarrow> nat \<Rightarrow> nat \<Rightarrow> var_meta \<Rightarrow> ('d, 'c) world \<Rightarrow> bool" where
  "accepted log a i x m w \<longleftrightarrow>
     a < w_next w \<and> x < w_next w \<and> (\<forall>c. w_cores w a = Some c \<longrightarrow> i < co_next_dataset_id c)
     \<and> (\<forall>b c j. w_cores w b = Some c \<longrightarrow> j \<in> set (jobs c) \<longrightarrow> wj_io j = x \<longrightarrow> wj_core j = a \<and> wj_dataset j = i \<and> wj_meta j = m)
     \<and> (\<forall>r. w_ios w x = Some r \<longrightarrow> io_completed r \<longrightarrow>
          w_cores w a = None \<or> (\<exists>d. ds_at w a i = Some d \<and> (m, None) \<in> set (log (ds_driver d))))"

lemma accepted_mono:
  assumes acc: "accepted log a i x m w" and nx: "w_next w \<le> w_next w'"
    and cores: "\<And>b c'. w_cores w' b = Some c' \<Longrightarrow> b \<noteq> a \<and> jobs c' = []
      \<or> (\<exists>c. w_cores w b = Some c \<and> {j \<in> set (jobs c'). wj_io j = x} \<subseteq> set (jobs c) \<and> co_next_dataset_id c \<le> co_next_dataset_id c')"
    and ios: "\<And>r'. w_ios w' x = Some r' \<Longrightarrow> io_completed r' \<Longrightarrow> \<exists>r. w_ios w x = Some r \<and> io_completed r"
    and ds: "\<And>d. ds_at w a i = Some d \<Longrightarrow> w_cores w' a \<noteq> None \<Longrightarrow>
      \<exists>d'. ds_at w' a i = Some d' \<and> set (log (ds_driver d)) \<subseteq> set (log (ds_driver d'))"
  shows "accepted log a i x m w'"
proof -
  have n: "i < co_next_dataset_id c'" if "w_cores w' a = Some c'" for c'
    using cores [OF that] acc by (auto simp: accepted_def intro: order_less_le_trans)
  have j: "wj_core j = a \<and> wj_dataset j = i \<and> wj_meta j = m" if "w_cores w' b = Some c'" "j \<in> set (jobs c')" "wj_io j = x" for b c' j
    using cores [OF that(1)] that(2,3) acc unfolding accepted_def by fastforce
  have d: "w_cores w' a = None \<or> (\<exists>d. ds_at w' a i = Some d \<and> (m, None) \<in> set (log (ds_driver d)))"
    if r: "w_ios w' x = Some r" "io_completed r" for r
  proof (cases "w_cores w' a")
    case (Some c')
    have "w_cores w a \<noteq> None" using cores [OF Some] by auto
    moreover obtain r0 where "w_ios w x = Some r0" "io_completed r0" using ios [OF r] by auto
    ultimately obtain d where "ds_at w a i = Some d" "(m, None) \<in> set (log (ds_driver d))"
      using acc by (auto simp: accepted_def)
    with ds [of d] Some show ?thesis by auto
  qed simp
  have "a < w_next w'" "x < w_next w'" using acc nx by (simp_all add: accepted_def)
  then show ?thesis
    unfolding accepted_def by (intro conjI allI impI) (simp_all add: n j d del: not_None_eq)
qed

lemma ds_at_keep: "w_cores w' = w_cores w \<Longrightarrow> ds_at w' a i = ds_at w a i"
  by (simp add: ds_at_def)

text \<open>Steps that leave the record, the tasks and the drivers alone.\<close>

lemma accepted_cores:
  assumes acc: "accepted log a i x m w" and "w_cores w' = w_cores w" and x: "w_ios w' x = w_ios w x" and "w_next w \<le> w_next w'"
  shows "accepted log a i x m w'"
proof (rule accepted_mono [OF acc])
  show "\<exists>r. w_ios w x = Some r \<and> io_completed r" if "w_ios w' x = Some r'" "io_completed r'" for r'
    using that x by metis
qed (use assms in \<open>simp_all add: ds_at_keep [of w' w]\<close>)

lemma accepted_pool:
  assumes acc: "accepted log a i x m w"
  shows "accepted log a i x m (upd_pool b f w)"
proof (rule accepted_mono [OF acc])
  fix b' c' assume "w_cores (upd_pool b f w) b' = Some c'"
  then obtain c where "w_cores w b' = Some c" "jobs c' = jobs c" "co_next_dataset_id c' = co_next_dataset_id c"
    by (auto simp: upd_pool_def jobs_def split: if_splits)
  then show "b' \<noteq> a \<and> jobs c' = [] \<or> (\<exists>c. w_cores w b' = Some c
      \<and> {j \<in> set (jobs c'). wj_io j = x} \<subseteq> set (jobs c) \<and> co_next_dataset_id c \<le> co_next_dataset_id c')"
    by auto
qed (auto simp: ds_at_same, auto simp: upd_pool_def)

lemma accepted_ds:
  assumes acc: "accepted log a i x m w" and g: "\<And>d. ds_at w b k = Some d \<Longrightarrow> set (log (ds_driver d)) \<subseteq> set (log (ds_driver (g d)))"
  shows "accepted log a i x m (upd_ds b k g w)"
proof (rule accepted_mono [OF acc])
  show "\<exists>d'. ds_at (upd_ds b k g w) a i = Some d' \<and> set (log (ds_driver d)) \<subseteq> set (log (ds_driver d'))"
    if "ds_at w a i = Some d" for d
    using that g by (auto simp: ds_at_upd_ds)
qed (auto simp: upd_ds_def jobs_def split: if_splits)

lemma accepted_workers:
  assumes acc: "accepted log a i x m w"
    and "\<And>c wp. w_cores w b = Some c \<Longrightarrow> co_worker_pool c = Some wp \<Longrightarrow> {j \<in> set (wp_jobs (f wp)). wj_io j = x} \<subseteq> set (wp_jobs wp)"
  shows "accepted log a i x m (upd_workers b f w)"
proof (rule accepted_mono [OF acc])
  fix b' c' assume "w_cores (upd_workers b f w) b' = Some c'"
  then obtain c where "w_cores w b' = Some c" "c' = (if b' = b then c\<lparr>co_worker_pool := map_option f (co_worker_pool c)\<rparr> else c)"
    by (auto simp: upd_workers_def split: if_splits)
  with assms(2) [of c] show "b' \<noteq> a \<and> jobs c' = [] \<or> (\<exists>c. w_cores w b' = Some c
      \<and> {j \<in> set (jobs c'). wj_io j = x} \<subseteq> set (jobs c) \<and> co_next_dataset_id c \<le> co_next_dataset_id c')"
    by (auto simp: jobs_def split: option.splits)
qed (auto simp: ds_at_same, auto simp: upd_workers_def)

lemma workers_callback: "upd_workers a f (write_callback env j w) = write_callback env j (upd_workers a f w)"
proof -
  have n: "w_cores (upd_workers a f w) b = None \<longleftrightarrow> w_cores w b = None" for b by (simp add: upd_workers_def)
  have p: "co_staging_pool c' = co_staging_pool c" if "w_cores (upd_workers a f w) b = Some c'" "w_cores w b = Some c" for b c c'
    using that by (auto simp: upd_workers_def split: if_splits)
  show ?thesis
  proof (cases "w_cores w (wj_core j)")
    case (Some c)
    then obtain c' where "w_cores (upd_workers a f w) (wj_core j) = Some c'" using n by (metis not_Some_eq)
    with Some p [OF this Some] show ?thesis
      by (simp add: write_callback_def ds_at_same upd_workers_commute split: option.split prod.split)
  qed (simp add: write_callback_def n [THEN iffD2])
qed

lemma accepted_new_core:
  assumes w: "accepted log a i x m w" and "jobs c = []"
  shows "accepted log a i x m (w\<lparr>w_table := t, w_cores := (w_cores w)(w_next w \<mapsto> c), w_next := Suc (w_next w)\<rparr>)"
proof (rule accepted_mono [OF w])
  have a: "a < w_next w" using w by (simp add: accepted_def)
  let ?w = "w\<lparr>w_table := t, w_cores := (w_cores w)(w_next w \<mapsto> c), w_next := Suc (w_next w)\<rparr>"
  show "b \<noteq> a \<and> jobs c' = [] \<or> (\<exists>c. w_cores w b = Some c \<and> {j \<in> set (jobs c'). wj_io j = x} \<subseteq> set (jobs c)
      \<and> co_next_dataset_id c \<le> co_next_dataset_id c')" if "w_cores ?w b = Some c'" for b c'
    using that a assms(2) by (cases "b = w_next w") auto
  show "\<exists>d'. ds_at ?w a i = Some d' \<and> set (log (ds_driver d)) \<subseteq> set (log (ds_driver d'))" if "ds_at w a i = Some d" for d
    using that a by (auto simp: ds_at_def)
qed auto

lemma accepted_now:
  assumes "\<exists>d. ds_at w' a i = Some d \<and> (m, None) \<in> set (log (ds_driver d))" and acc: "accepted log a i x m w"
    and c: "w_cores w' = w_cores w" and n: "w_next w' = w_next w"
  shows "accepted log a i x m w'"
  unfolding accepted_def c n using acc [unfolded accepted_def] assms(1) by (intro conjI allI impI) metis+

lemma accepted_io:
  assumes acc: "accepted log a i x m w" and "y = x \<Longrightarrow> (\<And>r. io_completed (f r) \<Longrightarrow> io_completed r)"
  shows "accepted log a i x m (upd_io y f w)"
proof (rule accepted_mono [OF acc])
  show "\<exists>r. w_ios w x = Some r \<and> io_completed r" if "w_ios (upd_io y f w) x = Some r'" "io_completed r'" for r'
    using that assms(2) by (auto split: if_splits)
qed (auto simp: ds_at_same)

context logged
begin

lemma accepted_callback:
  assumes acc: "accepted log a i x m w" and j: "wj_io j = x \<Longrightarrow> wj_core j = a \<and> wj_dataset j = i \<and> wj_meta j = m"
  shows "accepted log a i x m (write_callback env j w)"
proof (cases "\<exists>c d. w_cores w (wj_core j) = Some c \<and> ds_at w (wj_core j) (wj_dataset j) = Some d")
  case True
  then obtain c d where c: "w_cores w (wj_core j) = Some c" "ds_at w (wj_core j) (wj_dataset j) = Some d" by blast
  obtain y dr where y: "drv_write (en_ops env) (buf (co_staging_pool c) (wj_buf j)) (wj_meta j) (ds_driver d) = (y, dr)"
    by (cases "drv_write (en_ops env) (buf (co_staging_pool c) (wj_buf j)) (wj_meta j) (ds_driver d)")
  let ?f = "\<lambda>d. (note_failure y d)\<lparr>ds_driver := dr, ds_pending_writes := ds_pending_writes d - 1\<rparr>"
  let ?g = "\<lambda>w. upd_ds (wj_core j) (wj_dataset j) ?f (upd_pool (wj_core j) (pool_release (wj_buf j)) w)"
  have e: "write_callback env j w = ?g (upd_io (wj_io j) (note_outcome y) w)" using c y by (simp add: write_callback_def)
  have g: "accepted log a i x m (?g w')" if "accepted log a i x m w'" "ds_at w' (wj_core j) (wj_dataset j) = Some d" for w'
    using log_write [OF y] that(2) by (intro accepted_ds accepted_pool that(1)) (auto simp: ds_at_same)
  show ?thesis
  proof (cases "wj_io j = x \<and> y = None")
    case False
    then have "accepted log a i x m (upd_io (wj_io j) (note_outcome y) w)"
      by (intro accepted_io [OF acc]) (auto simp: note_outcome_def split: option.splits)
    then show ?thesis unfolding e by (rule g) (simp add: ds_at_same c(2))
  next
    case True
    with j y have m: "wj_core j = a" "wj_dataset j = i" "log dr = log (ds_driver d) @ [(m, None)]" using log_write [OF y] by auto
    have "\<exists>d. ds_at (write_callback env j w) a i = Some d \<and> (m, None) \<in> set (log (ds_driver d))"
      using c m by (simp add: e ds_at_upd_ds ds_at_same)
    moreover have "accepted log a i x m (?g w)" by (rule g [OF acc c(2)])
    moreover have "w_cores (write_callback env j w) = w_cores (?g w)" "w_next (write_callback env j w) = w_next (?g w)"
      by (simp_all add: e upd_ds_def upd_pool_def upd_core_def upd_io_def)
    ultimately show ?thesis by (rule accepted_now)
  qed
next
  case False
  with acc show ?thesis by (auto simp: write_callback_def split: option.split)
qed

lemma accepted_done: "accepted log a i x m w \<Longrightarrow> accepted log a i x m (core_step env (ActDone b n) w)"
proof -
  assume acc: "accepted log a i x m w"
  show ?thesis
  proof (cases "\<exists>c wp t. w_cores w b = Some c \<and> co_worker_pool c = Some wp \<and> n < length (wp_running wp) \<and> wp_running wp ! n = RunWrite t")
    case False
    then have "core_step env (ActDone b n) w = w" by (auto split: option.splits running.splits)
    with acc show ?thesis by simp
  next
    case True
    then obtain c wp t where c: "w_cores w b = Some c" "co_worker_pool c = Some wp"
      and n: "n < length (wp_running wp)" "wp_running wp ! n = RunWrite t" by blast
    have m: "set (wp_jobs wp) = insert (wt_callback t) (set (wp_jobs (finish_write (en_trace env) n t None wp)))"
      using arg_cong [OF finish_write_jobs [OF n, of "en_trace env" None], of set_mset] by simp
    have "accepted log a i x m (upd_workers b (finish_write (en_trace env) n t None) w)"
      using m c by (intro accepted_workers [OF acc]) auto
    moreover have "wj_core (wt_callback t) = a \<and> wj_dataset (wt_callback t) = i \<and> wj_meta (wt_callback t) = m"
      if "wj_io (wt_callback t) = x"
      using acc c m that unfolding accepted_def jobs_def by fastforce
    ultimately have "accepted log a i x m (write_callback env (wt_callback t) (upd_workers b (finish_write (en_trace env) n t None) w))"
      by (rule accepted_callback)
    with c n show ?thesis by (simp add: workers_callback)
  qed
qed

lemma accepted_kept: "kept_inside env (accepted log a i x m)"
proof unfold_locales
  fix w :: "('d, 'c) world" and b n t k d g
  assume w: "accepted log a i x m w"
  have "set (wp_jobs (snd (try_execute_one 0 wp))) = set (wp_jobs wp)" for wp :: "(write_job, 'c) worker_pool"
    using arg_cong [OF try_execute_jobs, of set_mset] by simp
  then show "accepted log a i x m (core_step env (ActPoll b) w)" by (simp add: accepted_workers [OF w] Collect_conv_if)
  show "accepted log a i x m (core_step env (ActDone b n) w)" by (rule accepted_done [OF w])
  show "accepted log a i x m (w\<lparr>w_table := t\<rparr>)" by (rule accepted_cores [OF w]) simp_all
  show "accepted log a i x m (upd_ds b k g w)" if "\<And>d. ds_outstanding_views (g d) = ds_outstanding_views d
      \<and> ds_has_failure (g d) = ds_has_failure d \<and> ds_first_failure_code (g d) = ds_first_failure_code d
      \<and> ds_driver (g d) = ds_driver d"
    using that by (intro accepted_ds [OF w]) simp
  show "accepted log a i x m (upd_ds b k (\<lambda>d'. d'\<lparr>ds_driver := snd (drv_close (en_ops env) (snd (drv_flush (en_ops env) (ds_driver d))))\<rparr>) w)"
    if "ds_at w b k = Some d"
    using that by (intro accepted_ds [OF w]) (simp add: log_shut)
qed (rule accepted_pool)

end

sublocale logged \<subseteq> ac: kept_inside env "accepted log a i x m"
  by (rule accepted_kept)

context logged
begin

lemma accepted_enqueue:
  assumes w: "accepted log a i x m w"
  shows "accepted log a i x m (snd (snd (enqueue_io env b k meta f race w)))"
proof -
  have x: "x \<noteq> w_next w" using w by (simp add: accepted_def)
  have rec: "accepted log a i x m (w\<lparr>w_table := t, w_ios := (w_ios w)(w_next w \<mapsto> r), w_next := Suc (w_next w)\<rparr>)" for t r
    by (rule accepted_cores [OF w]) (simp_all add: x)
  have sub: "accepted log a i x m (upd_workers b (\<lambda>_. wp1) (w\<lparr>w_table := t, w_ios := (w_ios w)(w_next w \<mapsto> r), w_next := Suc (w_next w)\<rparr>))"
    if s: "submit_write_core key h j wp = (res, wp1)" and j: "wj_io j = w_next w" and c: "w_cores w b = Some c" "co_worker_pool c = Some wp"
    for key h j wp res wp1 t r c
  proof (rule accepted_workers [OF rec])
    have "set (wp_jobs wp1) \<subseteq> insert j (set (wp_jobs wp))"
      using submit_write_jobs [OF s] by (auto dest: arg_cong [of _ _ set_mset])
    with c x j show "{j \<in> set (wp_jobs wp1). wj_io j = x} \<subseteq> set (wp_jobs wp')"
      if "w_cores (w\<lparr>w_table := t, w_ios := (w_ios w)(w_next w \<mapsto> r), w_next := Suc (w_next w)\<rparr>) b = Some c'"
        "co_worker_pool c' = Some wp'" for c' wp'
      using that by auto
  qed
  have io: "accepted log a i x m (upd_io (w_next w) g w')" if "accepted log a i x m w'" for g w'
    using x by (intro accepted_io [OF that]) simp
  show ?thesis using w
    by (auto simp: enqueue_io_def Let_def split: prod.split option.split submit_result.split
        intro!: accepted_pool ac.ds io rec ac.run sub)
qed

lemma accepted_kept_calls: "kept_by_calls env (accepted log a i x m)"
proof unfold_locales
  fix w :: "('d, 'c) world" and b k meta f race r t y cfg mf mode
  assume w: "accepted log a i x m w"
  show "accepted log a i x m (snd (snd (enqueue_io env b k meta f race w)))" by (rule accepted_enqueue [OF w])
  show "accepted log a i x m (upd_ds b k (\<lambda>d. d\<lparr>ds_outstanding_views := ds_outstanding_views d + 1\<rparr>)
      (w\<lparr>w_table := t, w_views := w_views w @ [(w_next w, r)], w_next := Suc (w_next w)\<rparr>))"
    by (rule accepted_ds [OF accepted_cores [OF w]]) simp_all
  show "accepted log a i x m (snd (release_view y w))"
  proof -
    have v: "accepted log a i x m (w'\<lparr>w_table := t, w_views := vs\<rparr>)" if "accepted log a i x m w'" for t vs w'
      by (rule accepted_cores [OF that]) simp_all
    from w show ?thesis
      by (auto simp: release_view_def Let_def split: option.split intro!: v accepted_ds accepted_pool)
  qed
  have "{j \<in> set (wp_jobs (shutdown wp)). wj_io j = x} \<subseteq> set (wp_jobs wp)" for wp :: "(write_job, 'c) worker_pool"
    by (auto simp: wp_jobs_def shutdown_def)
  then show "accepted log a i x m (upd_workers b shutdown w)" by (intro accepted_workers [OF w])
  show "accepted log a i x m (w\<lparr>w_table := t, w_cores := (w_cores w)(b := None)\<rparr>)"
    by (rule accepted_mono [OF w]) (auto simp: ds_at_def split: if_splits)
  show "accepted log a i x m (snd (snd (init_from_config env cfg w)))"
    using w by (auto simp: init_from_config_def Let_def split: prod.split intro!: accepted_new_core [OF w])
      (simp_all add: jobs_def wp_jobs_def WorkerPool_def)
  have "accepted log a i x m (upd_core b (\<lambda>c. c\<lparr>co_next_dataset_id := Suc (co_next_dataset_id c0),
      co_datasets := AList.update (co_next_dataset_id c0) d (co_datasets c)\<rparr>) (w\<lparr>w_table := t\<rparr>))"
    if c: "w_cores w b = Some c0" for c0 d t
  proof (rule accepted_mono [OF w])
    show "\<exists>d''. ds_at (upd_core b (\<lambda>c. c\<lparr>co_next_dataset_id := Suc (co_next_dataset_id c0),
        co_datasets := AList.update (co_next_dataset_id c0) d (co_datasets c)\<rparr>) (w\<lparr>w_table := t\<rparr>)) a i = Some d''
      \<and> set (log (ds_driver d')) \<subseteq> set (log (ds_driver d''))" if "ds_at w a i = Some d'" for d'
      using that w c by (auto simp: ds_at_opened [OF c] accepted_def)
  qed (use c in \<open>auto simp: jobs_def split: if_splits\<close>)
  with w show "accepted log a i x m (snd (snd (open_dataset_from_config env b cfg mf mode w)))"
    by (auto simp: open_dataset_from_config_def Let_def split: option.split sum.split prod.split)
qed

end

sublocale logged \<subseteq> ac: kept_by_calls env "accepted log a i x m"
  by (rule accepted_kept_calls)


section \<open>Settled records and staffed contexts\<close>

text \<open>A record that is completed or failed does not change any more: no task refers to it.\<close>

definition settled :: "nat \<Rightarrow> io_record \<Rightarrow> ('d, 'c) world \<Rightarrow> bool" where
  "settled x r w \<longleftrightarrow> ios_tracked w \<and> w_ios w x = Some r \<and> (io_completed r \<or> io_failed r)"

lemma ios_upd [simp]:
  "w_ios (upd_pool a f w) = w_ios w" "w_ios (upd_ds a i g w) = w_ios w" "w_ios (upd_workers a k w) = w_ios w"
  by (simp_all add: upd_pool_def upd_ds_def upd_workers_def)

lemma settled_done:
  assumes s: "settled x r w"
  shows "w_ios (core_step env (ActDone a n) w) x = Some r"
proof (cases "\<exists>c wp t. w_cores w a = Some c \<and> co_worker_pool c = Some wp \<and> n < length (wp_running wp) \<and> wp_running wp ! n = RunWrite t")
  case False
  then have "core_step env (ActDone a n) w = w" by (auto split: option.splits running.splits)
  with s show ?thesis by (simp add: settled_def)
next
  case True
  then obtain c wp t where c: "w_cores w a = Some c" "co_worker_pool c = Some wp"
    and n: "n < length (wp_running wp)" "wp_running wp ! n = RunWrite t" by blast
  have "wt_callback t \<in> set (jobs c)"
    using arg_cong [OF finish_write_jobs [OF n, of "en_trace env" None], of set_mset] c(2) by (simp add: jobs_def)
  moreover have "core_tracked w a c" using s c(1) by (auto simp: settled_def intro: tracked_core)
  ultimately have "open_record w a (wj_io (wt_callback t))" by (auto simp: core_tracked_def)
  with s have "wj_io (wt_callback t) \<noteq> x" by (auto simp: settled_def open_record_def)
  with s c n show ?thesis by (auto simp: settled_def write_callback_def split: option.split prod.split)
qed

interpretation st: kept_inside env "settled x r" for env :: "('d, 'c) amio_env" and x r
proof unfold_locales
  fix w :: "('d, 'c) world" and a n
  assume w: "settled x r w"
  show "settled x r (core_step env (ActDone a n) w)"
    using w settled_done [OF w, of env a n] tr.written [of w env a n] by (simp add: settled_def del: core_step.simps)
  show "settled x r (core_step env (ActPoll a) w)" using w tr.polled [of w env a] by (simp add: settled_def)
qed (auto simp: settled_def tracked_upd_pool tracked_upd_ds tracked_table)

lemma tracked_submitted:
  assumes w: "ios_tracked w" and c: "w_cores w a = Some c" "co_worker_pool c = Some wp"
    and s: "submit_write_core k tk (new_job a i meta b (w_next w)) wp = (res, wp1)"
  shows "ios_tracked (upd_workers a (\<lambda>_. wp1) (with_record (new_record a i b tk) t w))"
proof -
  have r: "io_core (new_record a i b tk) = a" "\<not> io_completed (new_record a i b tk)" "\<not> io_failed (new_record a i b tk)"
    by (simp_all add: new_record_def)
  note new = tracked_new_record(1,2) [OF w r, where t = t]
  have e: "w\<lparr>w_table := t, w_ios := (w_ios w)(w_next w \<mapsto> new_record a i b tk), w_next := Suc (w_next w)\<rparr>
    = with_record (new_record a i b tk) t w" by (simp add: with_record_def)
  show ?thesis
    by (rule tracked_submit [OF new(1) [unfolded e] _ c(2) s])
      (use c(1) new(2) [unfolded e] tracked_new_record(3) [OF w r c(1)] in \<open>simp_all add: new_job_def\<close>)
qed

lemma settled_enqueue:
  assumes w: "settled x r w"
  shows "settled x r (snd (snd (enqueue_io env a i meta b race w)))"
proof (cases "w_cores w a")
  case None
  with w show ?thesis by (simp add: enqueue_io_def Let_def split: prod.split)
next
  case (Some c)
  have x: "x \<noteq> w_next w" using w by (auto simp: settled_def ios_tracked_def heap_ok_def)
  have t: "ios_tracked (snd (snd (enqueue_io env a i meta b race w)))" using w by (simp add: settled_def tracked_enqueue)
  obtain tk t' where ins: "ht_insert Io (Some (At_Io (w_next w))) (w_table w) = (tk, t')"
    by (cases "ht_insert Io (Some (At_Io (w_next w))) (w_table w)")
  obtain rc tok w' where e: "enqueue_io env a i meta b race w = (rc, tok, w')" by (cases "enqueue_io env a i meta b race w")
  from e Some ins have "w_ios w' x = Some r"
  proof (cases rule: enqueue_io_cases)
    case no_workers
    with w x show ?thesis by (simp add: settled_def)
  next
    case (submitted wp res wp1)
    let ?w2 = "upd_workers a (\<lambda>_. wp1) (with_record (new_record a i b tk) t' w)"
    have "settled x r ?w2"
      using w x tracked_submitted [OF _ Some submitted(1,2), of t'] by (simp add: settled_def)
    with st.run [OF this, of env race] submitted(3) x show ?thesis by (auto simp: settled_def)
  qed
  with t e w show ?thesis by (simp add: settled_def)
qed

interpretation st: kept_by_calls env "settled x r" for env :: "('d, 'c) amio_env" and x r
proof unfold_locales
  fix w :: "('d, 'c) world" and a i meta b race v t y cfg m mode
  assume w: "settled x r w"
  then have s: "ios_tracked w" "w_ios w x = Some r" "io_completed r \<or> io_failed r" "x \<noteq> w_next w"
    by (auto simp: settled_def ios_tracked_def heap_ok_def)
  show "settled x r (snd (snd (enqueue_io env a i meta b race w)))" by (rule settled_enqueue [OF w])
  show "settled x r (upd_ds a i (\<lambda>d. d\<lparr>ds_outstanding_views := ds_outstanding_views d + 1\<rparr>)
      (w\<lparr>w_table := t, w_views := w_views w @ [(w_next w, v)], w_next := Suc (w_next w)\<rparr>))"
    if "ds_at w a i \<noteq> None" "vw_core v = a" "vw_dataset_id v = i"
    using s tr.viewed [OF s(1) that] by (simp add: settled_def)
  show "settled x r (snd (release_view y w))"
    using s tr.unviewed [OF s(1), of y] by (auto simp: settled_def release_view_def Let_def split: option.split)
  show "settled x r (upd_workers a shutdown w)" using s tr.stopped [OF s(1)] by (simp add: settled_def)
  show "settled x r (w\<lparr>w_table := t, w_cores := (w_cores w)(a := None)\<rparr>)" using s tr.dropped [OF s(1)] by (simp add: settled_def)
  show "settled x r (snd (snd (init_from_config env cfg w)))" if "config_ok cfg"
    using s tr.created [OF s(1) that] by (auto simp: settled_def init_from_config_def Let_def split: prod.split)
  show "settled x r (snd (snd (open_dataset_from_config env a cfg m mode w)))"
    using s tr.opened [OF s(1), of env a cfg m mode]
    by (auto simp: settled_def open_dataset_from_config_def Let_def split: option.split sum.split prod.split)
qed

text \<open>Every context has worker threads: a configuration without any does not pass validation.\<close>

definition staffed :: "('d, 'c) world \<Rightarrow> bool" where
  "staffed w \<longleftrightarrow> (\<forall>a c. w_cores w a = Some c \<longrightarrow> co_worker_pool c \<noteq> None)"

lemma staffed_upd_core: "staffed w \<Longrightarrow> (\<And>c. co_worker_pool (f c) = None \<longleftrightarrow> co_worker_pool c = None) \<Longrightarrow> staffed (upd_core a f w)"
  unfolding staffed_def by (simp add: not_None_eq [symmetric] split: if_splits del: not_None_eq) blast

lemma staffed_upd [simp]:
  "staffed w \<Longrightarrow> staffed (upd_pool a f w)" "staffed w \<Longrightarrow> staffed (upd_ds a i g w)" "staffed w \<Longrightarrow> staffed (upd_workers a h w)"
  unfolding upd_pool_def upd_ds_def upd_workers_def by (rule staffed_upd_core; simp)+

lemma staffed_cores: "staffed w \<Longrightarrow> w_cores w' = w_cores w \<Longrightarrow> staffed w'"
  by (simp add: staffed_def)

lemma staffed_io [simp]: "staffed (upd_io x f w) = staffed w"
  by (simp add: staffed_def)

interpretation sf: kept_inside env staffed for env :: "('d, 'c) amio_env"
  by unfold_locales (auto simp: write_callback_def intro: staffed_cores split: option.split running.split prod.split)

interpretation sf: kept_by_calls env staffed for env :: "('d, 'c) amio_env"
proof unfold_locales
  fix w :: "('d, 'c) world" and a i meta b race v t y cfg m mode
  assume w: "staffed w"
  have rec: "staffed (w\<lparr>w_table := t, w_ios := ios, w_next := n\<rparr>)" for t ios n by (rule staffed_cores [OF w]) simp
  show "staffed (snd (snd (enqueue_io env a i meta b race w)))"
    using w by (auto simp: enqueue_io_def Let_def split: prod.split option.split submit_result.split intro!: sf.run staffed_upd rec)
  show "staffed (upd_ds a i (\<lambda>d. d\<lparr>ds_outstanding_views := ds_outstanding_views d + 1\<rparr>)
      (w\<lparr>w_table := t, w_views := w_views w @ [(w_next w, v)], w_next := Suc (w_next w)\<rparr>))"
    by (intro staffed_upd(2) staffed_cores [OF w]) simp
  have vw: "staffed (w'\<lparr>w_table := t, w_views := vs\<rparr>)" if "staffed w'" for t vs and w' :: "('d, 'c) world"
    by (rule staffed_cores [OF that]) simp
  have tb: "staffed (w\<lparr>w_table := t\<rparr>)" for t by (rule staffed_cores [OF w]) simp
  show "staffed (snd (release_view y w))"
    using w by (auto simp: release_view_def Let_def split: option.split intro!: vw staffed_upd)
  show "staffed (w\<lparr>w_table := t, w_cores := (w_cores w)(a := None)\<rparr>)" using w by (auto simp: staffed_def)
  show "staffed (snd (snd (init_from_config env cfg w)))" if "config_ok cfg"
    using w that by (auto simp: init_from_config_def Let_def staffed_def config_ok_def split: prod.split)
  show "staffed (snd (snd (open_dataset_from_config env a cfg m mode w)))"
    using w tb by (auto simp: open_dataset_from_config_def Let_def split: option.split sum.split prod.split
        intro!: staffed_upd_core)
qed simp

lemma staffed_empty: "staffed empty_world"
  by (simp add: staffed_def empty_world_def)

lemma all_ds_empty: "all_ds q empty_world"
  by (simp add: all_ds_def ds_at_def empty_world_def)

end
