(* ===== verification/Api_Demo.thy ===== *)
theory Api_Demo
  imports Api_Log
begin

text \<open>
  A small concrete instance of the runtime's parameters, with two staging buffers of four bytes, one
  worker thread, and a driver that logs its writes and refuses the byte 255 with an exception that is not
  a \<^verbatim>\<open>std::exception\<close>.  The histories below lead to the states at which the properties are evaluated.
\<close>

definition demo_manifest :: manifest where
  "demo_manifest =
     \<lparr>mf_has = (\<lambda>k. k \<in> {''staging_pool.buffer_count'', ''staging_pool.buffer_capacity_bytes'', ''staging_pool.max_buffer_count'', ''backend''}),
      mf_int = (\<lambda>k. Inr (if k = ''staging_pool.buffer_capacity_bytes'' then 4 else 2)),
      mf_int_list = (\<lambda>k. Inr []), mf_string = (\<lambda>k. Inr ''log''), mf_string_list = (\<lambda>k. Inr [])\<rparr>"

definition demo_info :: variable_info where
  "demo_info = \<lparr>vi_found = True, vi_dtype = AMIO_DTYPE_OTHER 99, vi_shape = empty_shape, vi_total_timesteps = 3\<rparr>"

definition demo_outcome :: "byte list \<Rightarrow> exn option" where
  "demo_outcome bytes = (if 255 \<in> set bytes then Some Foreign else None)"

definition demo_ops :: "write_log driver_ops" where
  "demo_ops =
     \<lparr>drv_set_communicator = (\<lambda>_ d. Inr d), drv_open_write = (\<lambda>_ d. Inr d), drv_open_read = (\<lambda>_ d. Inr d),
      drv_write = (\<lambda>b m d. let x = demo_outcome (case sb_data b of None \<Rightarrow> [] | Some bytes \<Rightarrow> bytes) in (x, d @ [(m, x)])),
      drv_read = (\<lambda>d c m t sel. Inr ([word_of_int t, 1, 2, 3], 4)),
      drv_describe = (\<lambda>n d. Inr demo_info), drv_text_attribute = (\<lambda>_ _ _. Inr None),
      drv_numeric_attribute = (\<lambda>_ _ _. Inr None), drv_flush = (\<lambda>d. (None, d)), drv_close = (\<lambda>d. (None, d))\<rparr>"

definition demo_api :: "(write_log, nat) amio_env" where
  "demo_api =
     \<lparr>en_alloc = (\<lambda>_. True), en_from_file = (\<lambda>_. Inr demo_manifest), en_from_string = (\<lambda>_. Inr demo_manifest),
      en_ops = demo_ops, en_factory = [(''log'', [])], en_pools_built = (\<lambda>_. True), en_has_mpi = False,
      en_comm = (\<lambda>_. 0), en_trace = demo_env\<rparr>"

lemma demo_logs: "logs_writes demo_api (\<lambda>d. d)"
  by (simp add: logs_writes_def demo_api_def demo_ops_def Let_def)

definition demo_config :: config where
  "demo_config = Config\<lparr>cf_staging_pool := \<lparr>spc_buffer_count = 2, spc_buffer_capacity_bytes = 4, spc_max_buffer_count = 2\<rparr>,
     cf_backend := ''log''\<rparr>"

lemma demo_populate: "populate_fields demo_manifest = (demo_config, None)"
  by (simp add: populate_fields_def demo_manifest_def demo_config_def Config_def Let_def read_key_def to_size_t_def)

lemma demo_config_ok: "config_ok demo_config"
  by (simp add: config_ok_def demo_config_def Config_def pool_args_ok_def kMaxBufferCount_def kMaxBufferCapacity_def)

lemma demo_parse: "\<exists>ve. parse_with (Inr demo_manifest) Config no_error = (AMIO_OK, demo_config, ve)"
  using validate_OK [of demo_config no_error] demo_config_ok
  by (cases "validate demo_config no_error") (simp add: parse_with_def populate_from_conf_def demo_populate)

text \<open>The context after \<^verbatim>\<open>amio_init\<close>, and a dataset of it after \<^verbatim>\<open>amio_open_dataset\<close>.\<close>

definition demo_core :: "(write_log, nat) amio_core" where
  "demo_core =
     \<lparr>co_token = 1, co_datasets = [], co_next_dataset_id = 1, co_staging_pool = StagingPool 2 4 5000 2 Grow,
      co_staging_timeout_ms = 5000, co_worker_pool = Some (WorkerPool (default_worker_config 1)),
      co_logs_initialized = True\<rparr>"

definition demo_table :: "payload handle_table" where
  "demo_table = \<lparr>slots = [\<lparr>generation = 1, live = True, kind = Core, payload = Some (At_Core 0)\<rparr>], free_list = []\<rparr>"

definition demo_w1 :: "(write_log, nat) world" where
  "demo_w1 = \<lparr>w_table = demo_table, w_cores = (\<lambda>_. None)(0 := Some demo_core), w_ios = (\<lambda>_. None), w_views = [], w_next = 1\<rparr>"

lemma demo_init: "amio_init demo_api (Some path) True empty_world = (Rc AMIO_OK, 1, demo_w1)"
proof -
  obtain ve where "parse_with (Inr demo_manifest) Config no_error = (AMIO_OK, demo_config, ve)" using demo_parse by blast
  then show ?thesis
    by (simp add: amio_init_def init_def parse_def demo_api_def init_from_config_def demo_config_def Config_def Let_def
        ht_insert_def bind_slot_def fresh_slot_def empty_world_def ht_empty_def pack_def kMinGeneration_def cordon_def demo_w1_def
        demo_core_def demo_table_def)
qed

definition demo_ds :: "int \<Rightarrow> write_log dataset_record" where
  "demo_ds mode =
     \<lparr>ds_manifest_config = demo_manifest, ds_driver = [], ds_mode = mode, ds_token = 4294967297, ds_id = 1,
      ds_pending_writes = 0, ds_has_failure = False, ds_first_failure_code = AMIO_OK,
      ds_config = (if mode = AMIO_MODE_READ then demo_config else Config), ds_variables = [],
      ds_read_timeout_s = 60, ds_prefetch_depth = 4, ds_outstanding_views = 0\<rparr>"

definition demo_slots :: "payload slot list" where
  "demo_slots = [\<lparr>generation = 1, live = True, kind = Core, payload = Some (At_Core 0)\<rparr>,
     \<lparr>generation = 1, live = True, kind = Dataset, payload = Some (At_Dataset 0 1)\<rparr>]"

definition demo_w2 :: "int \<Rightarrow> (write_log, nat) world" where
  "demo_w2 mode =
     \<lparr>w_table = \<lparr>slots = demo_slots, free_list = []\<rparr>,
      w_cores = (\<lambda>_. None)(0 := Some (demo_core\<lparr>co_datasets := [(1, demo_ds mode)], co_next_dataset_id := 2\<rparr>)),
      w_ios = (\<lambda>_. None), w_views = [], w_next = 1\<rparr>"

lemma demo_opened:
  assumes "valid_mode mode"
  shows "amio_open_dataset demo_api 1 (Some path) mode True demo_w1 = (Rc AMIO_OK, 4294967297, demo_w2 mode)"
proof -
  obtain ve where p: "parse_with (Inr demo_manifest) Config no_error = (AMIO_OK, demo_config, ve)" using demo_parse by blast
  have "ht_lookup 1 Core True demo_table = (AMIO_OK, Some (At_Core 0))"
    by (simp add: ht_lookup_def demo_table_def unpack_slot_def unpack_generation_def)
  moreover have "open_driver demo_api demo_core demo_config demo_manifest mode = Inr []"
    by (simp add: open_driver_def demo_api_def demo_config_def Config_def factory_build_def demo_ops_def)
  moreover have "ht_insert Dataset (Some (At_Dataset 0 1)) demo_table = (4294967297, \<lparr>slots = demo_slots, free_list = []\<rparr>)"
    by (simp add: ht_insert_def bind_slot_def fresh_slot_def demo_table_def demo_slots_def pack_def kMinGeneration_def)
  moreover have "parse (en_from_file demo_api) path Config no_error = (AMIO_OK, demo_config, ve)"
    using p by (simp add: parse_def demo_api_def)
  ultimately show ?thesis using assms
    by (auto simp: amio_open_dataset_def kind_dispatch_def demo_w1_def open_dataset_def open_dataset_from_config_def
        demo_w2_def demo_core_def demo_ds_def upd_core_def demo_api_def demo_config_def Config_def)
qed

lemma demo_history: "valid_mode mode \<Longrightarrow> history demo_api empty_world (demo_w2 mode)"
proof -
  have 1: "history demo_api empty_world demo_w1"
    by (rule history.step [OF history.start, where op = "CInit (Some []) True" and r = "Rc AMIO_OK"])
      (simp_all add: outcome_def demo_init)
  show "history demo_api empty_world (demo_w2 mode)" if "valid_mode mode"
    by (rule history.step [OF 1, where op = "COpen 1 (Some []) mode True" and r = "Rc AMIO_OK"])
      (simp_all add: outcome_def demo_opened that)
qed

text \<open>A write of four bytes: the world it leaves.\<close>

definition demo_shape :: amio_shape where
  "demo_shape = \<lparr>sh_rank = 1, sh_extents = [1, 0, 0, 0, 0, 0, 0], sh_strides = [0, 0, 0, 0, 0, 0, 0]\<rparr>"

lemma demo_bytes: "write_input_ok AMIO_DTYPE_I32 demo_shape" "payload_bytes AMIO_DTYPE_I32 demo_shape = 4"
  by (simp_all add: write_input_ok_def payload_bytes_def demo_shape_def validate_shape_def compute_element_count_def
      size_t_def dims_def AMIO_MAX_RANK_def to_size_t_def)

definition demo_filled :: "byte list \<Rightarrow> staging_pool" where
  "demo_filled bytes =
     (StagingPool 2 4 5000 2 Grow)\<lparr>
       sp_buffers := [\<lparr>sb_data = Some bytes, sb_capacity = 4, sb_used = 4, sb_ref_count = 1, sb_seq = 1\<rparr>, lazy_slot],
       sp_free_list := [1]\<rparr>"

definition demo_job :: write_job where
  "demo_job = \<lparr>wj_buf = 0, wj_core = 0, wj_dataset = 1, wj_io = 1, wj_meta = write_meta 1 ''T'' AMIO_DTYPE_I32 demo_shape\<rparr>"

definition demo_queued :: "write_job write_task" where
  "demo_queued = \<lparr>wt_key = \<lparr>dataset_id = 1, variable_id = vm_variable_id (wj_meta demo_job)\<rparr>, wt_seq = 0,
     wt_handle = 8589934593, wt_callback = demo_job\<rparr>"

definition demo_workers :: "write_job write_task list \<Rightarrow> write_job running list \<Rightarrow> (write_job, nat) worker_pool" where
  "demo_workers q rs =
     (WorkerPool (default_worker_config 1))\<lparr>wp_write_queue := q, wp_running := rs, wp_in_flight := length rs,
       wp_dv_states := (\<lambda>_. None)(wt_key demo_queued := Some (fresh_dv\<lparr>next_seq := 1\<rparr>))\<rparr>"

definition demo_record :: io_record where
  "demo_record = \<lparr>io_dataset_id = 1, io_dv_seq = 0, io_token = 8589934593, io_staging_buf = 0, io_core = 0,
     io_completed = False, io_failed = False, io_failure_code = AMIO_OK\<rparr>"

definition demo_w3 :: "byte list \<Rightarrow> (write_log, nat) world" where
  "demo_w3 bytes =
     \<lparr>w_table = \<lparr>slots = demo_slots @ [\<lparr>generation = 1, live = True, kind = Io, payload = Some (At_Io 1)\<rparr>], free_list = []\<rparr>,
      w_cores = (\<lambda>_. None)(0 := Some (demo_core\<lparr>co_datasets := [(1, (demo_ds 0)\<lparr>ds_pending_writes := 1\<rparr>)],
        co_next_dataset_id := 2, co_staging_pool := demo_filled bytes, co_worker_pool := Some (demo_workers [demo_queued] [])\<rparr>)),
      w_ios = (\<lambda>_. None)(1 := Some demo_record), w_views = [], w_next = 2\<rparr>"

definition demo_write :: "byte list \<Rightarrow> (write_log, nat) world \<Rightarrow> call \<times> token \<times> (write_log, nat) world" where
  "demo_write bytes = amio_write demo_api 4294967297 (Some ''T'') (Some bytes) AMIO_DTYPE_I32 (Some demo_shape) True [] []"

lemma demo_slots_lookup:
  "ht_lookup 4294967297 Dataset True \<lparr>slots = demo_slots @ xs, free_list = fl\<rparr> = (AMIO_OK, Some (At_Dataset 0 1))"
  by (simp add: ht_lookup_def demo_slots_def unpack_slot_def unpack_generation_def)

lemma demo_acquire:
  "pool_try (acquire_pass (en_alloc demo_api) 4) 0 (demo_w2 m) = 
    Some (Acquired 0, upd_pool 0 (\<lambda>_. (demo_filled (replicate 4 0))\<lparr>sp_buffers := [\<lparr>sb_data = Some (replicate 4 0), sb_capacity = 4, sb_used = 0, sb_ref_count = 1, sb_seq = 1\<rparr>, lazy_slot]\<rparr>) (demo_w2 m))"
  by (simp add: pool_try_def demo_w2_def demo_core_def acquire_pass_def take_free_def StagingPool_def find_best_fit_def demo_api_def
    lazy_slot_def ensure_storage_def remove_from_free_list_def set_buf_def demo_filled_def numeral_2_eq_2 erase_at_def)

lemma demo_submit_job: "submit_write_core \<lparr>dataset_id = 1, variable_id = vm_variable_id (wj_meta demo_job)\<rparr> 8589934593 demo_job
    (WorkerPool (default_worker_config 1)) = (Submitted demo_queued, demo_workers [demo_queued] [])"
  by (simp add: submit_write_core_def submit_locked_def WorkerPool_def default_worker_config_def enqueue_write_def get_dv_state_def
     BackpressureConfig_def demo_workers_def demo_queued_def fresh_dv_def Let_def)

lemma demo_core_write:
  assumes "length bytes = 4"
  shows "core_write demo_api 0 1 ''T'' bytes AMIO_DTYPE_I32 demo_shape [] [] (demo_w2 0) = (Rc AMIO_OK, 8589934593, demo_w3 bytes)"
proof -
  have f: "overwrite bytes (replicate 4 0) = bytes" using assms by (simp add: overwrite_def)
  have ins: "ht_insert Io (Some (At_Io 1)) \<lparr>slots = demo_slots, free_list = []\<rparr>
    = (8589934593, \<lparr>slots = demo_slots @ [\<lparr>generation = 1, live = True, kind = Io, payload = Some (At_Io 1)\<rparr>], free_list = []\<rparr>)"
    by (simp add: ht_insert_def bind_slot_def fresh_slot_def demo_slots_def pack_def kMinGeneration_def)
  have "enqueue_io demo_api 0 1 (write_meta 1 ''T'' AMIO_DTYPE_I32 demo_shape) 0 [] (upd_pool 0 (\<lambda>_. demo_filled bytes) (demo_w2 0))
      = (Rc AMIO_OK, 8589934593, demo_w3 bytes)"
    using demo_submit_job ins
    by (simp add: enqueue_io_def Let_def demo_w2_def upd_pool_def upd_core_def demo_core_def demo_job_def demo_w3_def
        upd_workers_def upd_io_def upd_ds_def demo_ds_def demo_record_def demo_queued_def)
  moreover have "fill_buffer 0 (take 4 bytes) 4 (demo_filled (replicate 4 0)\<lparr>sp_buffers :=
      [\<lparr>sb_data = Some (replicate 4 0), sb_capacity = 4, sb_used = 0, sb_ref_count = 1, sb_seq = 1\<rparr>, lazy_slot]\<rparr>) = demo_filled bytes"
    using f assms by (simp add: fill_buffer_def demo_filled_def set_buf_def)
  moreover have "ds_at (demo_w2 0) 0 1 \<noteq> None" by (simp add: ds_at_def demo_w2_def)
  ultimately show ?thesis
    using assms
    by (simp add: core_write_def demo_bytes core_acquire.simps [of demo_api 0 4 "[]"] demo_acquire)
      (simp add: upd_pool_def upd_core_comp comp_def)
qed

lemma demo_written:
  assumes "length bytes = 4"
  shows "demo_write bytes (demo_w2 0) = (Rc AMIO_OK, 8589934593, demo_w3 bytes)"
  using demo_core_write [OF assms] demo_slots_lookup [of "[]"]
  by (simp add: demo_write_def amio_write_def kind_dispatch_def demo_w2_def)

text \<open>The worker takes the write and ends it.\<close>

definition demo_w4 :: "byte list \<Rightarrow> (write_log, nat) world" where
  "demo_w4 bytes = upd_workers 0 (\<lambda>_. demo_workers [] [RunWrite demo_queued]) (demo_w3 bytes)"

lemma demo_taken: "core_step demo_api (ActPoll 0) (demo_w3 bytes) = demo_w4 bytes"
  by (simp add: demo_w4_def demo_w3_def upd_workers_def upd_core_def demo_workers_def try_execute_one_def demo_queued_def
      WorkerPool_def get_dv_state_def fresh_dv_def Let_def)

definition demo_w5 :: "byte list \<Rightarrow> (write_log, nat) world" where
  "demo_w5 bytes = core_step demo_api (ActDone 0 0) (demo_w4 bytes)"

lemma demo_ended:
  "w_ios (demo_w5 bytes) 1 = Some (note_outcome (demo_outcome bytes) demo_record)"
  "w_table (demo_w5 bytes) = w_table (demo_w3 bytes)"
  by (simp_all add: demo_w5_def demo_w4_def demo_w3_def upd_workers_def demo_workers_def write_callback_def
      demo_queued_def demo_job_def ds_at_def demo_api_def demo_ops_def demo_filled_def upd_ds_def upd_pool_def demo_ds_def Let_def)

lemma demo_ended_ds:
  "ds_at (demo_w5 bytes) 0 1 = Some ((note_failure (demo_outcome bytes) ((demo_ds 0)\<lparr>ds_pending_writes := 1\<rparr>))
     \<lparr>ds_driver := [(wj_meta demo_job, demo_outcome bytes)], ds_pending_writes := 0\<rparr>)"
  by (simp add: demo_w5_def demo_w4_def demo_w3_def upd_workers_def demo_workers_def write_callback_def
      demo_queued_def demo_job_def ds_at_def demo_api_def demo_ops_def demo_filled_def upd_ds_def upd_pool_def demo_ds_def Let_def)

lemma demo_write_history:
  assumes "length bytes = 4"
  shows "history demo_api empty_world (demo_w3 bytes)" and "history demo_api (demo_w3 bytes) (demo_w4 bytes)"
    and "history demo_api empty_world (demo_w5 bytes)"
proof -
  show 3: "history demo_api empty_world (demo_w3 bytes)"
    by (rule history.step [OF demo_history [of 0], where r = "Rc AMIO_OK"
          and op = "CWrite 4294967297 (Some ''T'') (Some bytes) AMIO_DTYPE_I32 (Some demo_shape) True [] []"])
      (use demo_written [OF assms] in \<open>simp_all add: valid_mode_def AMIO_MODE_WRITE_def demo_bytes assms outcome_def demo_write_def\<close>)
  show "history demo_api (demo_w3 bytes) (demo_w4 bytes)"
    by (rule history.step [OF history.start, where r = "Rc AMIO_OK" and op = "CWorker (ActPoll 0)"])
      (simp_all add: demo_taken del: core_step.simps)
  have 4: "history demo_api empty_world (demo_w4 bytes)"
    by (rule history.step [OF 3, where r = "Rc AMIO_OK" and op = "CWorker (ActPoll 0)"])
      (simp_all add: demo_taken del: core_step.simps)
  show "history demo_api empty_world (demo_w5 bytes)"
    by (rule history.step [OF 4, where r = "Rc AMIO_OK" and op = "CWorker (ActDone 0 0)"])
      (simp_all add: demo_w5_def del: core_step.simps)
qed


text \<open>A read: the variable's queue is opened, the worker fetches, and the caller gets a view.\<close>

definition demo_var :: "pq_world \<Rightarrow> variable_read_state" where
  "demo_var p = \<lparr>vs_name = ''T'', vs_info = demo_info, vs_queue = pw_q p, vs_tasks = pw_tasks p, vs_running = pw_running p\<rparr>"

definition demo_rw :: "pq_world \<Rightarrow> payload slot list \<Rightarrow> (nat \<times> view_record) list \<Rightarrow> nat \<Rightarrow> (write_log, nat) world" where
  "demo_rw p extra vs k =
     \<lparr>w_table = \<lparr>slots = demo_slots @ extra, free_list = []\<rparr>,
      w_cores = (\<lambda>_. None)(0 := Some (demo_core\<lparr>
        co_datasets := [(1, (demo_ds 1)\<lparr>ds_variables := [(''T'', demo_var p)], ds_outstanding_views := of_nat (length vs)\<rparr>)],
        co_next_dataset_id := 2, co_staging_pool := pw_pool p\<rparr>)),
      w_ios = (\<lambda>_. None), w_views = vs, w_next = k\<rparr>"

definition demo_rd :: reader where
  "demo_rd = (\<lambda>c m t sel. Inr ([word_of_int t, 1, 2, 3], 4))"

lemma demo_pq_of:
  "pw_workers p \<Longrightarrow> pq_world_of (demo_core\<lparr>co_datasets := ds, co_next_dataset_id := n, co_staging_pool := pw_pool p\<rparr>) (demo_var p) = p"
  by (cases p) (simp add: pq_world_of_def demo_core_def demo_var_def)

lemma demo_put: "put_pq 0 1 ''T'' p' (demo_rw p extra vs k) = demo_rw p' extra vs k"
  by (simp add: put_pq_def demo_rw_def upd_ds_def upd_pool_def upd_core_def put_queue_def demo_var_def demo_ds_def demo_core_def)

lemma demo_on_queue:
  assumes "pw_workers p" and "f demo_rd p = (r, p')"
  shows "on_queue f demo_api 0 1 ''T'' (demo_rw p extra vs k) = Some (r, demo_rw p' extra vs k)"
proof -
  have "drv_read (en_ops demo_api) [] = demo_rd" by (simp add: demo_api_def demo_ops_def demo_rd_def)
  with assms demo_put [of p' p extra vs k] show ?thesis
    by (simp add: on_queue_def ds_at_def demo_rw_def demo_ds_def demo_pq_of)
qed

lemma demo_fetch:
  assumes "pw_workers p"
  shows "fetch_step demo_api 0 1 ''T'' act (demo_rw p extra vs k) = demo_rw (pq_step (\<lambda>_. True) demo_rd act p) extra vs k"
proof -
  have "drv_read (en_ops demo_api) [] = demo_rd" "en_alloc demo_api = (\<lambda>_. True)" by (simp_all add: demo_api_def demo_ops_def demo_rd_def)
  with assms demo_put [of "pq_step (\<lambda>_. True) demo_rd act p" p extra vs k] show ?thesis
    by (simp add: fetch_step_def ds_at_def demo_rw_def demo_ds_def demo_pq_of)
qed

definition demo_p0 :: pq_world where
  "demo_p0 = \<lparr>pw_q = PrefetchQueue 4 60 1 ''T'' demo_info 3, pw_pool = StagingPool 2 4 5000 2 Grow, pw_workers = True,
     pw_tasks = [], pw_running = []\<rparr>"

definition demo_p1 :: pq_world where
  "demo_p1 = snd (get_buffer (\<lambda>_. True) demo_rd expired 0 None [] demo_p0)"

definition demo_p2 :: pq_world where
  "demo_p2 = pq_step (\<lambda>_. True) demo_rd (ActFinish 0) (pq_step (\<lambda>_. True) demo_rd (ActBegin 0 []) demo_p1)"

definition demo_p3 :: pq_world where
  "demo_p3 = snd (get_loop (\<lambda>_. True) demo_rd expired 0 None [] demo_p2)"

definition demo_p4 :: pq_world where
  "demo_p4 = snd (schedule_next (\<lambda>_. True) demo_rd expired 0 demo_p3)"

lemma demo_p_steps:
  "get_buffer (\<lambda>_. True) demo_rd expired 0 None [] demo_p0 = (GetWaiting, demo_p1)"
  "get_loop (\<lambda>_. True) demo_rd expired 0 None [] demo_p2 = (GotStatus AMIO_OK (Some 0), demo_p3)"
  "schedule_next (\<lambda>_. True) demo_rd expired 0 demo_p3 = (FetchDone, demo_p4)"
  by (simp_all add: prod_eq_iff demo_p1_def demo_p3_def demo_p4_def) code_simp+

lemma demo_p_workers: "pw_workers demo_p0" "pw_workers demo_p1" "pw_workers (pq_step (\<lambda>_. True) demo_rd (ActBegin 0 []) demo_p1)"
  "pw_workers demo_p2" "pw_workers demo_p3" "pw_workers demo_p4"
  by code_simp+

definition demo_wakes :: "core_wake list" where
  "demo_wakes = [\<lparr>ck_others = [FetchBegin 0 1 ''T'' 0 False, FetchEnd 0 1 ''T'' 0], ck_timeout = False\<rparr>]"

lemma demo_get:
  "core_get_buffer demo_api 0 1 ''T'' 0 None demo_wakes (demo_rw demo_p0 extra vs k) = (GotStatus AMIO_OK (Some 0), demo_rw demo_p3 extra vs k)"
proof -
  have a: "en_alloc demo_api = (\<lambda>_. True)" by (simp add: demo_api_def)
  have 1: "on_queue (\<lambda>rd. get_buffer (en_alloc demo_api) rd expired 0 None []) demo_api 0 1 ''T'' (demo_rw demo_p0 extra vs k)
      = Some (GetWaiting, demo_rw demo_p1 extra vs k)"
    by (rule demo_on_queue [OF demo_p_workers(1)]) (simp add: a demo_p_steps)
  have 2: "core_run demo_api [FetchBegin 0 1 ''T'' 0 False, FetchEnd 0 1 ''T'' 0] (demo_rw demo_p1 extra vs k) = demo_rw demo_p2 extra vs k"
    by (simp add: demo_fetch demo_p_workers demo_p2_def del: pq_step.simps One_nat_def)
  have 3: "on_queue (\<lambda>rd. get_loop (en_alloc demo_api) rd expired 0 None []) demo_api 0 1 ''T'' (demo_rw demo_p2 extra vs k)
      = Some (GotStatus AMIO_OK (Some 0), demo_rw demo_p3 extra vs k)"
    by (rule demo_on_queue [OF demo_p_workers(4)]) (simp add: a demo_p_steps del: get_loop.simps)
  show ?thesis using 1 2 3
    by (simp add: core_get_buffer_def demo_wakes_def del: core_run.simps get_loop.simps One_nat_def)
qed

definition demo_view :: view_record where
  "demo_view = \<lparr>vw_staging_buf = 0, vw_token = 8589934593, vw_core = 0, vw_dataset_id = 1, vw_timestep = 0,
     vw_shape = empty_shape, vw_dtype = AMIO_DTYPE_OTHER 99\<rparr>"

definition demo_rv :: "(write_log, nat) world" where
  "demo_rv = demo_rw demo_p4 [\<lparr>generation = 1, live = True, kind = View, payload = Some (At_View 1)\<rparr>] [(1, demo_view)] 2"

lemma demo_make_view:
  "make_view demo_api 0 1 (demo_var demo_p0) 0 None 0 (demo_rw demo_p3 [] [] 1) = (Rc AMIO_OK, 8589934593, demo_rv)"
proof -
  let ?extra = "[\<lparr>generation = 1, live = True, kind = View, payload = Some (At_View 1)\<rparr>]"
  have ins: "ht_insert View (Some (At_View 1)) \<lparr>slots = demo_slots, free_list = []\<rparr>
    = (8589934593, \<lparr>slots = demo_slots @ ?extra, free_list = []\<rparr>)"
    by (simp add: ht_insert_def bind_slot_def fresh_slot_def demo_slots_def pack_def kMinGeneration_def)
  have w: "upd_ds 0 1 (\<lambda>d. d\<lparr>ds_outstanding_views := ds_outstanding_views d + 1\<rparr>)
      ((demo_rw demo_p3 [] [] 1)\<lparr>w_table := \<lparr>slots = demo_slots @ ?extra, free_list = []\<rparr>, w_views := [(1, demo_view)], w_next := 2\<rparr>)
      = demo_rw demo_p3 ?extra [(1, demo_view)] 2"
    by (simp add: upd_ds_def upd_core_def demo_rw_def demo_ds_def demo_core_def)
  have q: "on_queue (\<lambda>rd. schedule_next (en_alloc demo_api) rd expired 0) demo_api 0 1 ''T'' (demo_rw demo_p3 ?extra [(1, demo_view)] 2)
      = Some (FetchDone, demo_rv)"
    unfolding demo_rv_def by (rule demo_on_queue [OF demo_p_workers(5)]) (simp add: demo_api_def demo_p_steps)
  have v: "view_shape_of None demo_info = empty_shape" by (simp add: view_shape_of_def demo_info_def)
  show ?thesis using ins w q v
    by (simp add: make_view_def demo_rw_def [of demo_p3 "[]"] demo_var_def demo_view_def demo_info_def
        numeral_2_eq_2 Let_def)
qed

lemma demo_resolve:
  "resolve_variable demo_api 0 1 ''T'' (demo_w2 1) = (Resolved (demo_var demo_p0), demo_rw demo_p0 [] [] 1)"
  by (simp add: resolve_variable_def ds_at_def demo_w2_def demo_ds_def demo_api_def demo_ops_def demo_info_def Let_def
      upd_ds_def upd_core_def demo_var_def demo_p0_def demo_rw_def demo_core_def demo_config_def Config_def AMIO_MODE_READ_def)

lemma demo_core_read:
  "core_read demo_api 0 1 ''T'' 0 None demo_wakes (demo_w2 1) = (Rc AMIO_OK, 8589934593, demo_rv)"
proof -
  have "ds_at (demo_w2 1) 0 1 = Some (demo_ds 1)" by (simp add: ds_at_def demo_w2_def)
  moreover have "ds_mode (demo_ds 1) = AMIO_MODE_READ" by (simp add: demo_ds_def AMIO_MODE_READ_def)
  moreover have "vi_total_timesteps (vs_info (demo_var demo_p0)) = 3" by (simp add: demo_var_def demo_info_def)
  ultimately show ?thesis
    by (simp add: core_read_def demo_resolve demo_get demo_make_view validate_bbox_def del: One_nat_def)
qed

lemma demo_read:
  "amio_read demo_api 4294967297 (Some ''T'') 0 None True demo_wakes (demo_w2 1) = (Rc AMIO_OK, 8589934593, demo_rv)"
  using demo_core_read demo_slots_lookup [of "[]"]
  by (simp add: amio_read_def kind_dispatch_def demo_w2_def [of 1] del: One_nat_def)

lemma demo_read_history: "history demo_api empty_world demo_rv"
  by (rule history.step [OF demo_history [of 1], where r = "Rc AMIO_OK"
        and op = "CRead 4294967297 (Some ''T'') 0 None True demo_wakes"])
    (simp_all add: demo_read outcome_def valid_mode_def AMIO_MODE_READ_def)

lemma demo_view_lookup: "ht_lookup 8589934593 View True (w_table demo_rv) = (AMIO_OK, Some (At_View 1))"
  by (simp add: ht_lookup_def demo_rv_def demo_rw_def demo_slots_def unpack_slot_def unpack_generation_def)

end
