(* ===== verification/Api_Properties.thy ===== *)
theory Api_Properties
  imports Api_Demo
begin

text \<open>
  The properties of the runtime as the host sees it, in every history of calls and worker steps.
\<close>


section \<open>Calls\<close>

text \<open>
  C1.  In a history in which the host keeps two rules, no call ever reaches a freed object, and no exception
  crosses the C interface: from no context on, whatever the worker threads do between the calls and
  during them, the next call that keeps the rules returns a status code or is still waiting, and every
  task of a worker thread refers to a context and a dataset that exist.  The rules (\<open>lawful\<close>): the memory of
  a write is as large as its shape says, and \<^verbatim>\<open>amio_view_data\<close> and \<^verbatim>\<open>amio_release_view\<close> are not called on a view whose
  context was finalized (the header promises an error code there, see \<open>view_outlives_context\<close>).
\<close>

theorem api_calls_safe:
  assumes "history env empty_world w" and "lawful op w" and "api_step env op w = (r, w')"
  shows "r \<noteq> Undef \<and> r \<noteq> Raised
    \<and> (\<forall>a c j. w_cores w' a = Some c \<and> j \<in> set (jobs c) \<longrightarrow> wj_core j = a \<and> ds_at w' a (wj_dataset j) \<noteq> None)"
proof -
  have s: "good w w' \<and> r \<noteq> Undef \<and> r \<noteq> Raised"
    by (rule api_step_sound [OF good_ok [OF history_good [OF assms(1) empty_world_ok]] assms(2,3)])
  then have ok: "world_ok w'" by (simp add: good_def)
  have "wj_core j = a \<and> ds_at w' a (wj_dataset j) \<noteq> None" if "w_cores w' a = Some c" "j \<in> set (jobs c)" for a c j
    using world_ok_core [OF ok that(1)] that by (auto simp: core_ok_def ds_at_def map_of_eq_None_iff)
  with s show ?thesis by blast
qed

theorem api_calls_safe_witness:
  "\<exists>w c. history demo_api empty_world w
    \<and> api_step demo_api (CWrite 4294967297 (Some ''T'') (Some [1, 2, 3, 4]) AMIO_DTYPE_I32 (Some demo_shape) True [] []) w
        = (Rc AMIO_OK, demo_w3 [1, 2, 3, 4])
    \<and> Rc AMIO_OK \<noteq> Undef \<and> Rc AMIO_OK \<noteq> Raised
    \<and> w_cores (demo_w3 [1, 2, 3, 4]) 0 = Some c \<and> demo_job \<in> set (jobs c) \<and> ds_at (demo_w3 [1, 2, 3, 4]) 0 (wj_dataset demo_job) \<noteq> None"
proof -
  let ?op = "CWrite 4294967297 (Some ''T'') (Some [1, 2, 3, 4]) AMIO_DTYPE_I32 (Some demo_shape) True [] []"
  have h: "history demo_api empty_world (demo_w2 0)" by (rule demo_history) (simp add: valid_mode_def AMIO_MODE_WRITE_def)
  have l: "lawful ?op (demo_w2 0)" by (simp add: demo_bytes)
  have e: "api_step demo_api ?op (demo_w2 0) = (Rc AMIO_OK, demo_w3 [1, 2, 3, 4])"
    using demo_written [of "[1, 2, 3, 4]"] by (simp add: demo_write_def outcome_def)
  obtain c where c: "w_cores (demo_w3 [1, 2, 3, 4]) 0 = Some c" "demo_job \<in> set (jobs c)"
    by (simp add: demo_w3_def jobs_def wp_jobs_def demo_workers_def demo_queued_def WorkerPool_def)
  from api_calls_safe [OF h l e] h e c show ?thesis by blast
qed


section \<open>Views after the end of their context\<close>

lemma views_step [simp]: "w_views (core_step env act w) = w_views w"
proof (cases act)
  case (ActDone a n)
  have "w_views (write_callback env j w) = w_views w" for j
    by (auto simp: write_callback_def upd_ds_def upd_pool_def split: option.split prod.split)
  with ActDone show ?thesis by (auto simp: upd_workers_def split: option.split running.split)
qed (auto simp: fetch_step_def put_pq_def upd_ds_def upd_pool_def upd_workers_def split: option.split)

lemma views_run [simp]: "w_views (core_run env acts w) = w_views w"
  by (induction acts arbitrary: w) simp_all

lemma release_other_kind:
  assumes "ht_inv t" and "ht_abs t h = Some (View, p)" and "k \<noteq> View"
  shows "ht_inv (snd (ht_release tok k t)) \<and> ht_abs (snd (ht_release tok k t)) h = Some (View, p)"
proof -
  obtain e t' where r: "ht_release tok k t = (e, t')" by (cases "ht_release tok k t")
  note sp = ht_release_spec [OF assms(1) r]
  show ?thesis
  proof (cases "e = AMIO_OK")
    case True
    then have "tok \<noteq> h" using sp(1) assms(2,3) by auto
    with True sp(2,4) assms(2) r show ?thesis by simp
  next
    case False
    with sp(3,4) assms(2) r show ?thesis by simp
  qed
qed

lemma release_datasets_view:
  assumes "ht_inv t" and "ht_abs t h = Some (View, p)"
  shows "ht_inv (release_datasets ds t) \<and> ht_abs (release_datasets ds t) h = Some (View, p)"
  using assms
proof (induction ds arbitrary: t)
  case (Cons d ds)
  let ?t = "if ds_token d \<noteq> 0 then snd (ht_release (ds_token d) Dataset t) else t"
  have "release_datasets (d # ds) t = release_datasets ds ?t" by (simp add: release_datasets_def)
  with Cons.IH [of ?t] Cons.prems release_other_kind [OF Cons.prems, of Dataset "ds_token d"] show ?case by simp
qed (simp add: release_datasets_def)

section \<open>Writes\<close>

lemma table_step [simp]: "w_table (core_step env act w) = w_table w"
proof (cases act)
  case (ActDone a n)
  have "w_table (write_callback env j w) = w_table w" for j
    by (auto simp: write_callback_def upd_ds_def upd_pool_def split: option.split prod.split)
  with ActDone show ?thesis by (auto simp: upd_workers_def split: option.split running.split)
qed (auto simp: fetch_step_def put_pq_def upd_ds_def upd_pool_def upd_workers_def split: option.split)

lemma table_run [simp]: "w_table (core_run env acts w) = w_table w"
  by (induction acts arbitrary: w) simp_all

text \<open>
  Finalizing a context invalidates the handles of the context and of its datasets, but not those of its
  views: the handle of a view stays valid, and its record still refers to the freed context and pool.
\<close>

theorem view_outlives_context:
  assumes "history env empty_world w" and "ht_lookup hc Core True (w_table w) = (AMIO_OK, Some (At_Core a))"
    and "ht_lookup h View True (w_table w) = (AMIO_OK, Some (At_View x))" and "map_of (w_views w) x = Some v" and "vw_core v = a"
    and "amio_finalize env hc dr jo w = (Rc AMIO_OK, ds, w')"
  shows "fst (amio_view_data h True w') = Undef \<and> fst (amio_release_view h w') = Undef"
proof -
  have ok: "world_ok w" by (rule good_ok [OF history_good [OF assms(1) empty_world_ok]])
  have inv: "ht_inv (w_table w)" using ok by (simp add: world_ok_def table_ok_def)
  have h: "h \<noteq> 0" "hc \<noteq> 0" using assms(2,3) by (auto simp: ht_lookup_def)
  then have av: "ht_abs (w_table w) h = Some (View, Some (At_View x))"
    using assms(3) by (auto simp: ht_lookup_abs [OF inv] split: option.splits if_splits)
  have fin: "finalize env a dr jo w = (Rc AMIO_OK, ds, w')"
    using assms(2,6) h(2) by (auto simp: amio_finalize_def kind_dispatch_def split: prod.splits call.splits)
  obtain c0 where c0: "w_cores w a = Some c0" using fin by (auto simp: finalize_def split: option.splits)
  define w1 where "w1 = (if co_worker_pool c0 = None then w else core_run env jo (upd_workers a shutdown (core_run env dr w)))"
  have w1: "w_table w1 = w_table w" "w_views w1 = w_views w" by (simp_all add: w1_def upd_workers_def)
  obtain c where c: "w_cores w1 a = Some c"
    using fin c0 unfolding finalize_def by (auto simp: w1_def [symmetric] Let_def split: option.splits)
  have w': "w' = w1\<lparr>w_table := snd (ht_release (co_token c) Core (release_datasets (map snd (co_datasets c)) (w_table w1))),
      w_cores := (w_cores w1)(a := None)\<rparr>"
    using fin c0 c unfolding finalize_def by (auto simp: w1_def [symmetric] Let_def split: if_splits)
  let ?t = "release_datasets (map snd (co_datasets c)) (w_table w)"
  have t: "ht_inv ?t" "ht_abs ?t h = Some (View, Some (At_View x))" using release_datasets_view [OF inv av] by auto
  from release_other_kind [OF t, of Core] have "ht_lookup h View True (w_table w') = (AMIO_OK, Some (At_View x))"
    using w' w1 h(1) by (simp add: ht_lookup_abs)
  moreover have "w_views w' = w_views w" "w_cores w' a = None" using w' w1 by simp_all
  ultimately show ?thesis using assms(4,5) h(1)
    by (simp add: amio_view_data_def amio_release_view_def kind_dispatch_def view_data_def release_view_def)
qed

lemma old_jobs: "world_ok w \<Longrightarrow> w_cores w a = Some c \<Longrightarrow> j \<in> set (jobs c) \<Longrightarrow> wj_io j < w_next w"
  using world_ok_core [of w a c] by (auto simp: core_ok_def)

lemma good_holds:
  "good w w' \<Longrightarrow> holds w' h a b \<Longrightarrow> addr h < w_next w \<Longrightarrow> holds w h a b \<and> pools_kept w w' a b"
  by (simp add: good_def safe_def)

lemma enqueue_new_job:
  assumes ok: "world_ok w" and sp: "spare w a {#b#}" and d: "ds_at w a i \<noteq> None"
    and e: "enqueue_io env a i meta b race w = (Rc AMIO_OK, tok, w')"
    and h: "holds w' (Job j) a' b'" and io: "wj_io j = w_next w"
  shows "a' = a \<and> j = new_job a i meta b (w_next w) \<and> pools_kept w w' a b"
proof -
  obtain c where c: "w_cores w a = Some c" using sp by (auto simp: spare_def)
  obtain tk t' where i: "ht_insert Io (Some (At_Io (w_next w))) (w_table w) = (tk, t')"
    by (cases "ht_insert Io (Some (At_Io (w_next w))) (w_table w)")
  from e c i show ?thesis
  proof (cases rule: enqueue_io_cases)
    case no_workers
    obtain c' where c': "w_cores w' a' = Some c'" "j \<in> set (jobs c')" using h by auto
    obtain c0 where "w_cores w a' = Some c0" "jobs c' = jobs c0"
      using c' no_workers(4) c by (auto simp: upd_pool_def jobs_def split: if_splits)
    with old_jobs [OF ok, of a' c0 j] c' io show ?thesis by simp
  next
    case (submitted wp res wp1)
    let ?w2 = "upd_workers a (\<lambda>_. wp1) (with_record (new_record a i b tk) t' w)"
    have ok2: "world_ok ?w2" by (rule good_ok [OF enqueue_submit_good [OF ok sp d c submitted(1) i submitted(2)]])
    have "good ?w2 w'" using submitted(3) enqueue_tail_good [OF ok2] by auto
    then have h2: "holds ?w2 (Job j) a' b'" "pools_kept ?w2 w' a' b'"
      using good_holds [OF _ h] io by (auto simp: upd_workers_def simp del: holds.simps)
    obtain c2 where c2: "w_cores ?w2 a' = Some c2" "j \<in> set (jobs c2)" "wj_buf j = b'" using h2(1) by auto
    have a: "a' = a"
    proof (rule ccontr)
      assume "a' \<noteq> a"
      then have "w_cores w a' = Some c2" using c2(1) by (simp add: upd_workers_def)
      with old_jobs [OF ok _ c2(2)] io show False by simp
    qed
    then have "c2 = c\<lparr>co_worker_pool := Some wp1\<rparr>" using c2(1) c submitted(1) by (simp add: upd_workers_def)
    then have j: "j \<in># mset (wp_jobs wp1)" and pool: "co_staging_pool c2 = co_staging_pool c" using c2(2) by (simp_all add: jobs_def)
    have new: "j \<notin># mset (wp_jobs wp)" using old_jobs [OF ok c, of j] submitted(1) io by (auto simp: jobs_def)
    have m: "mset (wp_jobs wp1) = add_mset (new_job a i meta b (w_next w)) (mset (wp_jobs wp))"
      using submit_write_jobs [OF submitted(2)] j new by auto
    have "j \<in># add_mset (new_job a i meta b (w_next w)) (mset (wp_jobs wp))" using j unfolding m .
    with new have "j = new_job a i meta b (w_next w)" by simp
    moreover from this have "b' = b" using c2(3) by (simp add: new_job_def)
    ultimately show ?thesis using a h2(2) pool c c2(1) by (auto simp: pools_kept_def)
  qed
qed

lemma enqueue_table:
  assumes e: "enqueue_io env a i meta b race w = (Rc AMIO_OK, tok, w')" and c: "w_cores w a \<noteq> None"
    and inv: "ht_inv (w_table w)" and l: "ht_lookup tok Io True (w_table w') = (AMIO_OK, Some (At_Io x))"
  shows "x = w_next w"
proof -
  obtain c where c: "w_cores w a = Some c" using c by auto
  obtain tk t' where i: "ht_insert Io (Some (At_Io (w_next w))) (w_table w) = (tk, t')"
    by (cases "ht_insert Io (Some (At_Io (w_next w))) (w_table w)")
  from e c i have t: "w_table w' = t' \<and> tok = tk"
    by (cases rule: enqueue_io_cases) (auto simp: upd_pool_def upd_ds_def upd_workers_def)
  have "tok \<noteq> 0" using l by (auto simp: ht_lookup_def)
  then have "ht_inv t'" "ht_abs t' tk = Some (Io, Some (At_Io (w_next w)))"
    using ht_insert_spec [OF inv i] ht_insert_inv [OF inv i] t by auto
  with l t show ?thesis by (simp add: ht_lookup_abs split: if_splits)
qed

lemma dispatch_ok:
  assumes "kind_dispatch h k z op w = (Rc AMIO_OK, x, w')"
  shows "\<exists>p. ht_lookup h k True (w_table w) = (AMIO_OK, Some p) \<and> op p w = (Rc AMIO_OK, x, w')"
proof -
  obtain e po where l: "ht_lookup h k True (w_table w) = (e, po)" by (cases "ht_lookup h k True (w_table w)")
  with assms have "e = AMIO_OK" by (cases e) (auto simp: kind_dispatch_def split: if_splits)
  with l assms show ?thesis
    by (cases po) (auto simp: kind_dispatch_def split: if_splits prod.splits call.splits)
qed

lemma lookup_token:
  assumes "world_ok w" and "ht_lookup h k True (w_table w) = (AMIO_OK, p)"
  shows "token_ok w h (k, p)"
proof -
  have "ht_inv (w_table w)" using assms(1) by (simp add: world_ok_def table_ok_def)
  then have "ht_abs (w_table w) h = Some (k, p)"
    using assms(2) by (auto simp: ht_lookup_abs split: if_splits option.splits)
  then show ?thesis using assms(1) unfolding world_ok_def table_ok_def by blast
qed

lemma on_dataset_ok:
  assumes ok: "world_ok w" and e: "kind_dispatch h Dataset z (on_dataset z f) w = (Rc AMIO_OK, x, w')"
  shows "\<exists>a i. ds_at w a i \<noteq> None \<and> f a i w = (Rc AMIO_OK, x, w')"
proof -
  obtain p where p: "ht_lookup h Dataset True (w_table w) = (AMIO_OK, Some p)" "on_dataset z f p w = (Rc AMIO_OK, x, w')"
    using dispatch_ok [OF e] by blast
  from lookup_token [OF ok p(1)] obtain a i where "p = At_Dataset a i" "ds_at w a i \<noteq> None"
    by (blast dest: token_ok_cases(2))
  with p(2) show ?thesis by auto
qed

lemma filled_content:
  assumes "n \<le> length host" and "n \<le> cap p b" and "sb_data (buf p b) \<noteq> None" and "b < length (sp_buffers p)"
    and "\<And>d. sb_data (buf p b) = Some d \<Longrightarrow> length d = cap p b"
  shows "sb_used (buf (fill_buffer b (take n host) n p) b) = n
    \<and> (\<exists>data. sb_data (buf (fill_buffer b (take n host) n p) b) = Some data \<and> take n data = take n host)"
  using assms by (auto simp: fill_buffer_def set_buf_def overwrite_def)

lemma spare_storage:
  assumes "spare w a {#b#}" and "w_cores w a = Some c" and "sb_data (buf (co_staging_pool c) b) = Some d"
  shows "b < length (sp_buffers (co_staging_pool c))" and "length d = cap (co_staging_pool c) b"
proof -
  have o: "own_ok (co_staging_pool c) (owners (w_views w) a c + {#b#})" using assms by (simp add: spare_def)
  then have "pool_refs (co_staging_pool c) b > 0" using own_ok_held [OF o, of b] by simp
  then show b: "b < length (sp_buffers (co_staging_pool c))" by (simp add: pool_refs_def split: if_splits)
  have "buf_ok (sp_buffer_capacity (co_staging_pool c)) (buf (co_staging_pool c) b)"
    using o b by (simp add: own_ok_def pool_inv_def)
  then show "length d = cap (co_staging_pool c) b" using assms(3) by (simp add: buf_ok_def)
qed

text \<open>The task of a successful write, as long as it exists.\<close>

lemma core_write_job:
  assumes ok: "world_ok w" and d: "ds_at w a i \<noteq> None"
    and e: "core_write env a i name host dtype shape waits race w = (Rc AMIO_OK, tok, w1)"
    and l: "ht_lookup tok Io True (w_table w1) = (AMIO_OK, Some (At_Io (wj_io j)))"
    and h: "holds w1 (Job j) a' b'"
  defines "n \<equiv> payload_bytes dtype shape"
  shows "wj_meta j = write_meta i name dtype shape \<and> wj_dataset j = i \<and> n \<le> length host
    \<and> (\<exists>c data. w_cores w1 a' = Some c \<and> sb_used (buf (co_staging_pool c) b') = n
        \<and> sb_data (buf (co_staging_pool c) b') = Some data \<and> take n data = take n host)"
proof -
  obtain res wa where a: "core_acquire env a n waits w = (res, wa)" by (cases "core_acquire env a n waits w")
  obtain b where b: "res = Acquired b" and len: "n \<le> length host"
    and q: "enqueue_io env a i (write_meta i name dtype shape) b race (upd_pool a (fill_buffer b (take n host) n) wa) = (Rc AMIO_OK, tok, w1)"
    using e d a by (auto simp: core_write_def Let_def n_def split: if_splits acquire_result.splits)
  let ?w = "upd_pool a (fill_buffer b (take n host) n) wa"
  have g: "good w wa" "spare wa a {#b#}" using core_acquire_good [OF ok a] b by auto
  obtain c data0 where c: "w_cores wa a = Some c" "n \<le> cap (co_staging_pool c) b" "sb_data (buf (co_staging_pool c) b) = Some data0"
    using core_acquire_good [OF ok a] b by auto
  have g2: "good wa ?w" "spare ?w a {#b#}" using spare_fill [OF good_ok [OF g(1)] g(2)] by auto
  have "ds_at wa a i \<noteq> None" using shape_ds [OF shape_acquire [OF a]] d by fastforce
  then have d2: "ds_at ?w a i \<noteq> None" using shape_ds [OF shape_upd_pool] by fastforce
  have ok2: "world_ok ?w" by (rule good_ok [OF g2(1)])
  have c2: "w_cores ?w a = Some (c\<lparr>co_staging_pool := fill_buffer b (take n host) n (co_staging_pool c)\<rparr>)"
    using c by (simp add: upd_pool_def)
  have inv: "ht_inv (w_table ?w)" using ok2 by (simp add: world_ok_def table_ok_def)
  have "wj_io j = w_next ?w" by (rule enqueue_table [OF q _ inv l]) (simp add: c2)
  from enqueue_new_job [OF ok2 g2(2) d2 q h this]
  have j: "a' = a" "j = new_job a i (write_meta i name dtype shape) b (w_next ?w)" and k: "pools_kept ?w w1 a b" by auto
  have "b' = b" using h j by (auto simp: new_job_def)
  have "sb_used (buf (fill_buffer b (take n host) n (co_staging_pool c)) b) = n
    \<and> (\<exists>data. sb_data (buf (fill_buffer b (take n host) n (co_staging_pool c)) b) = Some data \<and> take n data = take n host)"
    using filled_content [OF len c(2)] spare_storage [OF g(2) c(1)] c(3) by auto
  with k c2 j len \<open>b' = b\<close> show ?thesis by (auto simp: pools_kept_def kept_def new_job_def)
qed

text \<open>
  C2.  A write is a snapshot: once \<^verbatim>\<open>amio_write\<close> has returned \<^verbatim>\<open>AMIO_OK\<close>, the host may reuse its memory.  For
  as long as the task of the write exists, in every later history of calls and worker steps, its
  staging buffer holds the bytes the host's memory held at the time of the call, \<^verbatim>\<open>used_bytes\<close> is the
  size of the payload, and the metadata the driver will be given carry the name, the element type and
  the shape of the call, the identifier of the dataset, and no time step.
\<close>

theorem write_is_snapshot:
  assumes "history env empty_world w"
    and "amio_write env h (Some name) (Some host) dtype (Some shape) True waits race w = (Rc AMIO_OK, tok, w1)"
    and "history env w1 w2" and "w_cores w2 a = Some c" and "j \<in> set (jobs c)"
    and "ht_lookup tok Io True (w_table w1) = (AMIO_OK, Some (At_Io (wj_io j)))"
  shows "vm_name (wj_meta j) = name \<and> vm_dtype (wj_meta j) = dtype \<and> vm_shape (wj_meta j) = shape
    \<and> vm_dataset_id (wj_meta j) = wj_dataset j \<and> vm_timestep (wj_meta j) = - 1
    \<and> sb_used (buf (co_staging_pool c) (wj_buf j)) = payload_bytes dtype shape
    \<and> (\<exists>data. sb_data (buf (co_staging_pool c) (wj_buf j)) = Some data
        \<and> take (payload_bytes dtype shape) data = take (payload_bytes dtype shape) host)"
proof -
  have ok: "world_ok w" by (rule good_ok [OF history_good [OF assms(1) empty_world_ok]])
  obtain a0 i where d: "ds_at w a0 i \<noteq> None" and e: "core_write env a0 i name host dtype shape waits race w = (Rc AMIO_OK, tok, w1)"
    using on_dataset_ok [OF ok, of h 0 "\<lambda>a i. core_write env a i name host dtype shape waits race" tok w1] assms(2)
    by (auto simp: amio_write_def)
  have ok1: "world_ok w1" using core_write_good [OF ok d e] good_ok by blast
  have "token_ok w1 tok (Io, Some (At_Io (wj_io j)))" by (rule lookup_token [OF ok1 assms(6)])
  then have "wj_io j < w_next w1" using ok1 by (auto simp: token_ok_def world_ok_def heap_ok_def)
  then have h: "holds w1 (Job j) a (wj_buf j)" "pools_kept w1 w2 a (wj_buf j)"
    using good_holds [OF history_good [OF assms(3) ok1], of "Job j" a "wj_buf j"] assms(4,5) by auto
  from core_write_job [OF ok d e assms(6) h(1)] h(2) assms(4) show ?thesis
    by (auto simp: pools_kept_def kept_def write_meta_def)
qed

theorem write_is_snapshot_witness:
  "\<exists>c. w_cores (demo_w4 [1, 2, 3, 4]) 0 = Some c \<and> demo_job \<in> set (jobs c) \<and> vm_shape (wj_meta demo_job) = demo_shape
    \<and> (\<exists>data. sb_data (buf (co_staging_pool c) (wj_buf demo_job)) = Some data \<and> take 4 data = [1, 2, 3, 4])"
proof -
  let ?b = "[1, 2, 3, 4] :: byte list"
  have h: "history demo_api empty_world (demo_w2 0)" by (rule demo_history) (simp add: valid_mode_def AMIO_MODE_WRITE_def)
  have e: "amio_write demo_api 4294967297 (Some ''T'') (Some ?b) AMIO_DTYPE_I32 (Some demo_shape) True [] [] (demo_w2 0)
      = (Rc AMIO_OK, 8589934593, demo_w3 ?b)"
    using demo_written [of ?b] by (simp add: demo_write_def)
  have l: "ht_lookup 8589934593 Io True (w_table (demo_w3 ?b)) = (AMIO_OK, Some (At_Io (wj_io demo_job)))"
    by (simp add: ht_lookup_def demo_w3_def demo_slots_def unpack_slot_def unpack_generation_def demo_job_def)
  obtain c where c: "w_cores (demo_w4 ?b) 0 = Some c" "demo_job \<in> set (jobs c)"
    by (simp add: demo_w4_def demo_w3_def upd_workers_def jobs_def wp_jobs_def demo_workers_def demo_queued_def WorkerPool_def)
  from write_is_snapshot [OF h e demo_write_history(2) c l] c show ?thesis by (simp add: demo_bytes)
qed


section \<open>Tracking records\<close>

text \<open>A wait by its outcome.\<close>

lemma wait_cases:
  assumes "wait env x n ps w = (c, w')" and "w_ios w x = Some r0"
  shows "c = Waits \<or> c = Rc AMIO_ERR_TIMEOUT \<or> (\<exists>r. w_ios w' x = Some r \<and> io_completed r \<and> c = Rc (io_status r)) \<or> c = Undef"
proof -
  have d: "fst (poll_until env fin limit ps w) = PollDone \<Longrightarrow> fin (snd (poll_until env fin limit ps w))" for fin limit ps w
    by (induction ps arbitrary: w) (auto split: if_splits)
  obtain pe w1 where p: "poll_until env (io_done x) (poll_limit n) ps w = (pe, w1)"
    by (cases "poll_until env (io_done x) (poll_limit n) ps w")
  have "io_done x w1" if "pe = PollDone" using d [of "io_done x" "poll_limit n" ps w] p that by simp
  with assms p show ?thesis
    by (auto simp: wait_def io_done_def split: if_splits poll_end.splits option.splits)
qed

lemma amio_wait_live:
  assumes "amio_wait env h n ps w = (c, u, w')" and ok: "world_ok w"
    and l: "ht_lookup h Io True (w_table w) = (AMIO_OK, Some (At_Io x))"
  shows "wait env x n ps w = (c, w') \<and> c \<noteq> Undef \<and> w_ios w x \<noteq> None"
proof -
  have x: "w_ios w x \<noteq> None" using lookup_token [OF ok l] by (simp add: token_ok_def)
  have nz: "h \<noteq> 0" using l by (auto simp: ht_lookup_def)
  obtain c1 w1 where wt: "wait env x n ps w = (c1, w1)" by (cases "wait env x n ps w")
  have "c1 \<noteq> Undef" using wait_good [OF ok x wt] by simp
  moreover have "c1 \<noteq> Raised" using wt by (auto simp: wait_def split: option.splits if_splits prod.splits poll_end.splits)
  ultimately show ?thesis using assms(1) l x wt nz
    by (cases c1) (auto simp: amio_wait_def kind_dispatch_def)
qed

text \<open>
  The step of a worker that ends a write: \<open>j\<close> is the task, and the driver's write ended with \<open>x\<close>, nothing or the
  exception it threw.
\<close>

definition ends_write :: "('d, 'c) amio_env \<Rightarrow> nat \<Rightarrow> nat \<Rightarrow> ('d, 'c) world \<Rightarrow> write_job \<Rightarrow> exn option \<Rightarrow> bool" where
  "ends_write env a n w j x \<longleftrightarrow>
     (\<exists>c wp t d dr. w_cores w a = Some c \<and> co_worker_pool c = Some wp \<and> n < length (wp_running wp)
        \<and> wp_running wp ! n = RunWrite t \<and> wt_callback t = j \<and> ds_at w a (wj_dataset j) = Some d
        \<and> drv_write (en_ops env) (buf (co_staging_pool c) (wj_buf j)) (wj_meta j) (ds_driver d) = (x, dr))"

lemma ends_write_record:
  assumes ok: "world_ok w" and t: "ios_tracked w" and e: "ends_write env a n w j x"
  shows "\<exists>r. settled (wj_io j) r (core_step env (ActDone a n) w) \<and> io_completed r = (x = None) \<and> io_failed r = (x \<noteq> None)"
proof -
  obtain c wp t d dr where c: "w_cores w a = Some c" "co_worker_pool c = Some wp"
    and n: "n < length (wp_running wp)" "wp_running wp ! n = RunWrite t" "wt_callback t = j"
    and d: "ds_at w a (wj_dataset j) = Some d"
    and x: "drv_write (en_ops env) (buf (co_staging_pool c) (wj_buf j)) (wj_meta j) (ds_driver d) = (x, dr)"
    using e by (auto simp: ends_write_def)
  have j: "j \<in> set (jobs c)"
    using arg_cong [OF finish_write_jobs [OF n(1,2), of "en_trace env" None], of set_mset] c(2) n(3) by (simp add: jobs_def)
  then have a: "wj_core j = a" using world_ok_core [OF ok c(1)] by (auto simp: core_ok_def)
  obtain r where r: "w_ios w (wj_io j) = Some r" "\<not> io_completed r" "\<not> io_failed r"
    using tracked_core [OF \<open>ios_tracked w\<close> c(1)] j by (auto simp: core_tracked_def open_record_def)
  have "w_ios (core_step env (ActDone a n) w) (wj_io j) = Some (note_outcome x r)"
    using c n d x a r(1) by (simp add: write_callback_def)
  with r tr.written [OF \<open>ios_tracked w\<close>, of env a n] show ?thesis
    by (cases x) (auto simp: settled_def note_outcome_def simp del: core_step.simps)
qed

lemma wait_settled:
  assumes s: "settled x r w" and e: "wait env x n ps w = (c, w')"
  shows "if io_completed r then c = Rc AMIO_OK \<and> w' = w else c = Rc AMIO_ERR_TIMEOUT \<or> c = Waits \<or> c = Undef"
proof (cases "io_completed r")
  case True
  moreover from this have "\<not> io_failed r" using s by (auto simp: settled_def ios_tracked_def)
  ultimately show ?thesis using s e by (simp add: settled_def wait_def io_status_def)
next
  case False
  have "w_ios w' x = Some r" using st.wait [OF s, of env x n ps] e by (simp add: settled_def)
  with False wait_cases [OF e, of r] s show ?thesis by (auto simp: settled_def)
qed

text \<open>
  C15.  \<^verbatim>\<open>amio_wait\<close> reflects what the driver did: when the worker step that ends a write finds that the driver has
  written it, every later \<^verbatim>\<open>amio_wait\<close> for its handle returns \<^verbatim>\<open>AMIO_OK\<close> at once and changes nothing; when the
  driver threw, whatever the exception, no later \<^verbatim>\<open>amio_wait\<close> for it returns \<^verbatim>\<open>AMIO_OK\<close>.
\<close>

theorem wait_reflects_driver:
  assumes "history env empty_world w" and "ends_write env a n w j x"
    and "history env (core_step env (ActDone a n) w) w1" and "ht_lookup h Io True (w_table w1) = (AMIO_OK, Some (At_Io (wj_io j)))"
    and "amio_wait env h ms ps w1 = (c, u, w2)"
  shows "(x = None \<longrightarrow> c = Rc AMIO_OK \<and> w2 = w1) \<and> (x \<noteq> None \<longrightarrow> c \<noteq> Rc AMIO_OK)"
proof -
  have ok: "world_ok w" by (rule good_ok [OF history_good [OF assms(1) empty_world_ok]])
  have ok1: "world_ok w1" by (rule good_ok [OF history_good [OF assms(3) good_ok [OF core_step_good [OF ok]]]])
  obtain r where r: "settled (wj_io j) r (core_step env (ActDone a n) w)" "io_completed r = (x = None)"
    using ends_write_record [OF ok tr.history [OF assms(1) ios_tracked_empty] assms(2)] by blast
  from wait_settled [OF st.history [OF assms(3) r(1)]] amio_wait_live [OF assms(5) ok1 assms(4)] r(2)
  show ?thesis by (fastforce split: if_splits)
qed

text \<open>
  In the second case \<^verbatim>\<open>amio_wait\<close> does not return the failure either, as its header says and as it is written to do:
  the record of a failed write is never completed, so that waiting for it ends in a timeout, or not at all.
\<close>

theorem failed_write_never_waited:
  assumes "history env empty_world w" and "ends_write env a n w j (Some x)"
    and "history env (core_step env (ActDone a n) w) w1" and "ht_lookup h Io True (w_table w1) = (AMIO_OK, Some (At_Io (wj_io j)))"
    and "amio_wait env h ms ps w1 = (c, u, w2)"
  shows "c = Rc AMIO_ERR_TIMEOUT \<or> c = Waits"
proof -
  have ok: "world_ok w" by (rule good_ok [OF history_good [OF assms(1) empty_world_ok]])
  have ok1: "world_ok w1" by (rule good_ok [OF history_good [OF assms(3) good_ok [OF core_step_good [OF ok]]]])
  obtain r where r: "settled (wj_io j) r (core_step env (ActDone a n) w)" "\<not> io_completed r"
    using ends_write_record [OF ok tr.history [OF assms(1) ios_tracked_empty] assms(2)] by auto
  from wait_settled [OF st.history [OF assms(3) r(1)]] amio_wait_live [OF assms(5) ok1 assms(4)] r(2)
  show ?thesis by fastforce
qed

lemma demo_ends:
  assumes "length bytes = 4"
  shows "ends_write demo_api 0 0 (demo_w4 bytes) demo_job (demo_outcome bytes)" and "history demo_api empty_world (demo_w4 bytes)"
    and "ht_lookup 8589934593 Io True (w_table (demo_w5 bytes)) = (AMIO_OK, Some (At_Io (wj_io demo_job)))"
proof -
  show "ends_write demo_api 0 0 (demo_w4 bytes) demo_job (demo_outcome bytes)"
    by (simp add: ends_write_def demo_w4_def demo_w3_def upd_workers_def demo_workers_def demo_queued_def demo_job_def
        ds_at_def demo_api_def demo_ops_def demo_filled_def Let_def)
  show "history demo_api empty_world (demo_w4 bytes)"
    by (rule history.step [OF demo_write_history(1) [OF assms], where r = "Rc AMIO_OK" and op = "CWorker (ActPoll 0)"])
      (simp_all add: demo_taken del: core_step.simps)
  show "ht_lookup 8589934593 Io True (w_table (demo_w5 bytes)) = (AMIO_OK, Some (At_Io (wj_io demo_job)))"
    by (simp add: demo_ended(2) ht_lookup_def demo_w3_def demo_slots_def unpack_slot_def unpack_generation_def demo_job_def)
qed

theorem wait_reflects_driver_witness:
  "\<exists>c u w2. amio_wait demo_api 8589934593 5 [\<lparr>pl_elapsed = 0, pl_others = []\<rparr>, \<lparr>pl_elapsed = 6, pl_others = []\<rparr>] (demo_w5 [1, 255, 0, 0])
      = (c, u, w2) \<and> c \<noteq> Rc AMIO_OK"
proof -
  let ?b = "[1, 255, 0, 0] :: byte list"
  let ?r = "amio_wait demo_api 8589934593 5 [\<lparr>pl_elapsed = 0, pl_others = []\<rparr>, \<lparr>pl_elapsed = 6, pl_others = []\<rparr>] (demo_w5 ?b)"
  obtain c u w2 where e: "?r = (c, u, w2)" by (cases ?r)
  have "history demo_api (core_step demo_api (ActDone 0 0) (demo_w4 ?b)) (demo_w5 ?b)"
    unfolding demo_w5_def by (rule history.start)
  from wait_reflects_driver [OF demo_ends(2,1) this demo_ends(3) e] e show ?thesis by (auto simp: demo_outcome_def)
qed

text \<open>A write that was submitted, its record and its task.\<close>

context logged
begin

lemma enqueue_accepted:
  assumes ok: "world_ok w" and st: "staffed w" and d: "ds_at w a i \<noteq> None"
    and e: "enqueue_io env a i meta b race w = (Rc AMIO_OK, tok, w')"
  shows "accepted log a i (w_next w) meta w'"
proof -
  obtain c where c: "w_cores w a = Some c" "i \<in> fst ` set (co_datasets c)"
    using d by (force simp: ds_at_def split: option.splits dest: map_of_SomeD)
  obtain tk t' where ins: "ht_insert Io (Some (At_Io (w_next w))) (w_table w) = (tk, t')"
    by (cases "ht_insert Io (Some (At_Io (w_next w))) (w_table w)")
  from e c(1) ins show ?thesis
  proof (cases rule: enqueue_io_cases)
    case no_workers
    with st c(1) have False unfolding staffed_def by blast
    then show ?thesis ..
  next
    case (submitted wp res wp1)
    let ?w1 = "with_record (new_record a i b tk) t' w" and ?j = "new_job a i meta b (w_next w)"
    have wp1: "set (wp_jobs wp1) \<subseteq> insert ?j (set (wp_jobs wp))"
      using submit_write_jobs [OF submitted(2)] by (auto dest: arg_cong [of _ _ set_mset])
    have new: "j = ?j" if y: "w_cores (upd_workers a (\<lambda>_. wp1) ?w1) y = Some c'" "j \<in> set (jobs c')" "wj_io j = w_next w" for y c' j
    proof (rule ccontr)
      assume "j \<noteq> ?j"
      then obtain c0 where "w_cores w y = Some c0" "j \<in> set (jobs c0)"
        using y(1,2) c(1) submitted(1) wp1 by (auto simp: upd_workers_def jobs_def split: if_splits)
      from old_jobs [OF ok this] y(3) show False by simp
    qed
    have "a < w_next w" using ok c(1) by (simp add: world_ok_def heap_ok_def)
    moreover have "i < co_next_dataset_id c" using world_ok_core [OF ok c(1)] c(2) by (auto simp: core_ok_def)
    ultimately have acc: "accepted log a i (w_next w) meta (upd_workers a (\<lambda>_. wp1) ?w1)"
      unfolding accepted_def
    proof (intro conjI allI impI)
      show "w_cores (upd_workers a (\<lambda>_. wp1) ?w1) a = None \<or> P" if "w_ios (upd_workers a (\<lambda>_. wp1) ?w1) (w_next w) = Some r" "io_completed r" for r P
        using that by (auto simp: new_record_def)
      show "wj_core j = a" "wj_dataset j = i" "wj_meta j = meta"
        if "w_cores (upd_workers a (\<lambda>_. wp1) ?w1) y = Some c'" "j \<in> set (jobs c')" "wj_io j = w_next w" for y c' j
        using new [OF that] by (simp_all add: new_job_def)
    qed (use c(1) in \<open>auto simp: upd_workers_def\<close>)
    show ?thesis using submitted(3)
      by (auto intro!: accepted_ds accepted_io ac.run acc)
  qed
qed

end

lemma core_write_accepted:
  assumes lg: "logged env log" and ok: "world_ok w" and st: "staffed w" and d: "ds_at w a i \<noteq> None"
    and e: "core_write env a i name host dtype shape waits race w = (Rc AMIO_OK, tok, w1)"
    and l: "ht_lookup tok Io True (w_table w1) = (AMIO_OK, Some (At_Io x))"
  shows "accepted log a i x (write_meta i name dtype shape) w1"
proof -
  let ?n = "payload_bytes dtype shape"
  obtain res wa where a: "core_acquire env a ?n waits w = (res, wa)" by (cases "core_acquire env a ?n waits w")
  obtain b where b: "res = Acquired b"
    and q: "enqueue_io env a i (write_meta i name dtype shape) b race (upd_pool a (fill_buffer b (take ?n host) ?n) wa) = (Rc AMIO_OK, tok, w1)"
    using e d a by (auto simp: core_write_def Let_def split: if_splits acquire_result.splits)
  let ?w = "upd_pool a (fill_buffer b (take ?n host) ?n) wa"
  have g: "good w wa" "spare wa a {#b#}" using core_acquire_good [OF ok a] b by auto
  have ok2: "world_ok ?w" using spare_fill [OF good_ok [OF g(1)] g(2)] good_ok by blast
  have "ds_at wa a i \<noteq> None" using shape_ds [OF shape_acquire [OF a]] d by fastforce
  then have d2: "ds_at ?w a i \<noteq> None" using shape_ds [OF shape_upd_pool] by fastforce
  have st2: "staffed ?w" using sf.acquire [OF st, of env a ?n waits] a by simp
  have inv: "ht_inv (w_table ?w)" using ok2 by (simp add: world_ok_def table_ok_def)
  have "w_cores ?w a \<noteq> None" using d2 by (auto simp: ds_at_def split: option.splits)
  then have "x = w_next ?w" by (rule enqueue_table [OF q _ inv l])
  with logged.enqueue_accepted [OF lg ok2 st2 d2 q] show ?thesis by simp
qed

text \<open>
  C14.  \<^verbatim>\<open>AMIO_OK\<close> from \<^verbatim>\<open>amio_wait\<close> for the handle \<^verbatim>\<open>amio_write\<close> gave means that the driver has written it: wherever the
  write was executed, between calls or inside one, the log of the dataset's driver holds a write with the
  name, element type and shape of the call that ended without an exception (as long as the context
  exists and the handle stands for the record it was given).  The driver is any that logs its writes.
\<close>

theorem wait_ok_means_accepted:
  assumes "logs_writes env log" and "history env empty_world w"
    and "ht_lookup h Dataset True (w_table w) = (AMIO_OK, Some (At_Dataset a i))"
    and "amio_write env h (Some name) (Some host) dtype (Some shape) True waits race w = (Rc AMIO_OK, tok, w1)"
    and "ht_lookup tok Io True (w_table w1) = (AMIO_OK, Some (At_Io x))"
    and "history env w1 w2" and "ht_lookup tok Io True (w_table w2) = (AMIO_OK, Some (At_Io x))"
    and "amio_wait env tok ms ps w2 = (Rc AMIO_OK, u, w3)" and "w_cores w3 a \<noteq> None"
  shows "\<exists>d m. ds_at w3 a i = Some d \<and> (m, None) \<in> set (log (ds_driver d))
    \<and> vm_name m = name \<and> vm_dtype m = dtype \<and> vm_shape m = shape \<and> vm_dataset_id m = i"
proof -
  have lg: "logged env log" by (rule logged.intro [OF assms(1)])
  have ok: "world_ok w" by (rule good_ok [OF history_good [OF assms(2) empty_world_ok]])
  have st: "staffed w" by (rule sf.history [OF assms(2) staffed_empty])
  have cw: "core_write env a i name host dtype shape waits race w = (Rc AMIO_OK, tok, w1)"
    using dispatch_ok [of h Dataset 0 "on_dataset 0 (\<lambda>a i. core_write env a i name host dtype shape waits race)" w tok w1] assms(3,4)
    by (auto simp: amio_write_def)
  have d: "ds_at w a i \<noteq> None" using lookup_token [OF ok assms(3)] by (auto simp: token_ok_def)
  have ok1: "world_ok w1" using core_write_good [OF ok d cw] good_ok by blast
  have ok2: "world_ok w2" by (rule good_ok [OF history_good [OF assms(6) ok1]])
  have "accepted log a i x (write_meta i name dtype shape) w1"
    by (rule core_write_accepted [OF lg ok st d cw assms(5)])
  then have acc2: "accepted log a i x (write_meta i name dtype shape) w2"
    by (rule kept_by_calls.history [OF logged.accepted_kept_calls [OF lg] assms(6)])
  have wt: "wait env x ms ps w2 = (Rc AMIO_OK, w3)" "w_ios w2 x \<noteq> None" using amio_wait_live [OF assms(8) ok2 assms(7)] by auto
  have acc: "accepted log a i x (write_meta i name dtype shape) w3"
    using kept_inside.wait [OF logged.accepted_kept [OF lg] acc2, of x ms ps] wt(1) by simp
  obtain r where "w_ios w3 x = Some r" "io_completed r" using wait_cases [OF wt(1)] wt(2) by auto
  with acc assms(9) obtain dd where "ds_at w3 a i = Some dd" "(write_meta i name dtype shape, None) \<in> set (log (ds_driver dd))"
    unfolding accepted_def by auto
  then show ?thesis by (intro exI [of _ dd] exI [of _ "write_meta i name dtype shape"]) (simp add: write_meta_def)
qed

theorem wait_ok_means_accepted_witness:
  "amio_wait demo_api 8589934593 5 [] (demo_w5 [1, 2, 3, 4]) = (Rc AMIO_OK, (), demo_w5 [1, 2, 3, 4])
    \<and> (\<exists>d m. ds_at (demo_w5 [1, 2, 3, 4]) 0 1 = Some d \<and> (m, None) \<in> set (ds_driver d) \<and> vm_name m = ''T'' \<and> vm_shape m = demo_shape)"
proof -
  let ?b = "[1, 2, 3, 4] :: byte list"
  have b: "length ?b = 4" by simp
  have l2: "ht_lookup 4294967297 Dataset True (w_table (demo_w2 0)) = (AMIO_OK, Some (At_Dataset 0 1))"
    using demo_slots_lookup [of "[]"] by (simp add: demo_w2_def)
  have l3: "ht_lookup 8589934593 Io True (w_table (demo_w3 ?b)) = (AMIO_OK, Some (At_Io (wj_io demo_job)))"
    using demo_ends(3) [OF b] by (simp add: demo_ended(2))
  have wr: "amio_write demo_api 4294967297 (Some ''T'') (Some ?b) AMIO_DTYPE_I32 (Some demo_shape) True [] [] (demo_w2 0)
      = (Rc AMIO_OK, 8589934593, demo_w3 ?b)"
    using demo_written [OF b] by (simp add: demo_write_def)
  have h0: "history demo_api empty_world (demo_w2 0)" by (rule demo_history) (simp add: valid_mode_def AMIO_MODE_WRITE_def)
  have h: "history demo_api (demo_w3 ?b) (demo_w5 ?b)"
    by (rule history.step [OF demo_write_history(2) [OF b], where r = "Rc AMIO_OK" and op = "CWorker (ActDone 0 0)"])
      (simp_all add: demo_w5_def del: core_step.simps)
  have e: "amio_wait demo_api 8589934593 5 [] (demo_w5 ?b) = (Rc AMIO_OK, (), demo_w5 ?b)"
    using demo_ends(3) [OF b] demo_ended(1) [of ?b]
    by (simp add: amio_wait_def kind_dispatch_def wait_def note_outcome_def demo_record_def io_status_def demo_job_def demo_outcome_def)
  have c: "w_cores (demo_w5 ?b) 0 \<noteq> None" using demo_ended_ds [of ?b] by (auto simp: ds_at_def split: option.splits)
  from wait_ok_means_accepted [OF demo_logs h0 l2 wr l3 h demo_ends(3) [OF b] e c] e show ?thesis by blast
qed


section \<open>Failures\<close>

lemma failure_kept_at:
  assumes ok: "world_ok w" and d: "ds_at w a i = Some d"
  shows "failure_kept a i w \<longleftrightarrow> surface d = AMIO_ERR_BACKEND_FAILURE"
proof -
  obtain c where c: "w_cores w a = Some c" "map_of (co_datasets c) i = Some d"
    using d by (auto simp: ds_at_def split: option.splits)
  have co: "core_ok (w_views w) (w_next w) a c" by (rule world_ok_core [OF ok c(1)])
  have d: "(i, d) \<in> set (co_datasets c)" by (rule map_of_SomeD [OF c(2)])
  have "distinct (map fst (co_datasets c))" using co by (simp add: core_ok_def)
  then have uniq: "(i, d') \<in> set (co_datasets c) \<longleftrightarrow> d' = d" for d'
    using d c(2) map_of_is_SomeI by fastforce
  have "a < w_next w" using ok c by (simp add: world_ok_def heap_ok_def)
  moreover have "i < co_next_dataset_id c" using co d by (auto simp: core_ok_def)
  ultimately show ?thesis unfolding failure_kept_def using c(1) by (simp add: uniq)
qed

lemma amio_dataset_call:
  assumes ok: "world_ok w" and l: "ht_lookup h Dataset True (w_table w) = (AMIO_OK, Some (At_Dataset a i))"
    and e: "kind_dispatch h Dataset () (on_dataset () (\<lambda>a i w. case f a i w of (c, w1) \<Rightarrow> (c, (), w1))) w = (Rc e, u, w')"
    and n: "fst (f a i w) \<noteq> Raised"
  shows "f a i w = (Rc e, w') \<and> (\<exists>d. ds_at w a i = Some d)"
proof -
  have "h \<noteq> 0" using l by (auto simp: ht_lookup_def)
  moreover have "\<exists>d. ds_at w a i = Some d" using lookup_token [OF ok l] by (auto simp: token_ok_def)
  ultimately show ?thesis using l e n by (cases "f a i w"; cases "fst (f a i w)") (auto simp: kind_dispatch_def)
qed

lemma flush_failure:
  assumes k: "failure_kept a i w" and ok: "world_ok w" and e: "flush env a i n ps w = (Rc e, w')"
  shows "e = AMIO_ERR_BACKEND_FAILURE \<or> e = AMIO_ERR_TIMEOUT"
proof -
  obtain pe w1 where p: "poll_until env (no_pending a i) (poll_limit n) ps w = (pe, w1)"
    by (cases "poll_until env (no_pending a i) (poll_limit n) ps w")
  have ok1: "world_ok w1" using poll_until_good [OF ok p] by (simp add: good_def)
  have k1: "failure_kept a i w1" using fk.until [OF k, of env "no_pending a i" "poll_limit n" ps] p by simp
  show ?thesis using e p failure_kept_at [OF ok] failure_kept_at [OF ok1] k k1
    by (auto simp: flush_def split: option.splits if_splits poll_end.splits)
qed

lemma close_failure:
  assumes k: "failure_kept a i w" and ok: "world_ok w" and e: "close_dataset env a i ps w = (Rc e, w')"
  shows "e = AMIO_ERR_BACKEND_FAILURE \<or> e = AMIO_ERR_VIEWS_OUTSTANDING"
proof (cases "ds_at w a i")
  case None
  with e show ?thesis by (simp add: close_dataset_def)
next
  case (Some d0)
  let ?w0 = "cancel_variables a i w"
  have ok0: "world_ok ?w0" using cancel_variables_good [OF ok Some] by (simp add: good_def)
  obtain pe w1 where p: "poll_until env (no_pending a i) 30000 ps ?w0 = (pe, w1)"
    by (cases "poll_until env (no_pending a i) 30000 ps ?w0")
  have ok1: "world_ok w1" using poll_until_good [OF ok0 p] by (simp add: good_def)
  have k1: "failure_kept a i w1" using fk.until [OF fk.cancel [OF k, of a i], of env "no_pending a i" 30000 ps] p by simp
  have "surface d = AMIO_ERR_BACKEND_FAILURE" if "ds_at w1 a i = Some d" for d using failure_kept_at [OF ok1 that] k1 by simp
  with e Some p show ?thesis
    by (auto simp: close_dataset_def worse_def Let_def split: option.splits if_splits poll_end.splits prod.splits)
qed

text \<open>
  C13.  A failed write is not forgotten: once the driver of a dataset has ended a write with an exception, of
  whatever kind and wherever it was executed, between calls or inside one, every later \<^verbatim>\<open>amio_flush\<close> of the dataset
  that returns reports the failure or a timeout, never success, and so does \<^verbatim>\<open>amio_close_dataset\<close>, unless it is
  refused because of outstanding views.  The driver is any that logs its writes.
\<close>

theorem failure_is_reported:
  assumes "logs_writes env log" and "history env empty_world w"
    and "ht_lookup h Dataset True (w_table w) = (AMIO_OK, Some (At_Dataset a i))"
    and "ds_at w a i = Some d" and "(m, Some x) \<in> set (log (ds_driver d))"
  shows "(amio_flush env h n ps w = (Rc e, u, w2) \<longrightarrow> e = AMIO_ERR_BACKEND_FAILURE \<or> e = AMIO_ERR_TIMEOUT)
    \<and> (amio_close_dataset env h ps w = (Rc e, u, w2) \<longrightarrow> e = AMIO_ERR_BACKEND_FAILURE \<or> e = AMIO_ERR_VIEWS_OUTSTANDING)"
proof -
  have lg: "logged env log" by (rule logged.intro [OF assms(1)])
  have ok: "world_ok w" by (rule good_ok [OF history_good [OF assms(2) empty_world_ok]])
  have "all_ds (noted log) w"
    by (rule kept_by_calls.history [OF logged.noted_kept_calls [OF lg] assms(2) all_ds_empty])
  then have "noted log d" using assms(4) by (auto simp: all_ds_def)
  then have "surface d = AMIO_ERR_BACKEND_FAILURE" using assms(5) by (auto simp: noted_def surface_def)
  then have k: "failure_kept a i w" using failure_kept_at [OF ok assms(4)] by simp
  have "fst (flush env a i n ps w) \<noteq> Raised" "fst (close_dataset env a i ps w) \<noteq> Raised"
    by (auto simp: flush_def close_dataset_def Let_def split: option.split prod.split poll_end.split)
  then have "amio_flush env h n ps w = (Rc e, u, w2) \<longrightarrow> flush env a i n ps w = (Rc e, w2)"
    and "amio_close_dataset env h ps w = (Rc e, u, w2) \<longrightarrow> close_dataset env a i ps w = (Rc e, w2)"
    using amio_dataset_call [OF ok assms(3), of "\<lambda>a i. flush env a i n ps" e u w2]
      amio_dataset_call [OF ok assms(3), of "\<lambda>a i. close_dataset env a i ps" e u w2]
    by (auto simp: amio_flush_def amio_close_dataset_def)
  with flush_failure [OF k ok] close_failure [OF k ok] show ?thesis by blast
qed

theorem failure_is_reported_witness:
  "\<exists>d e u w2. ds_at (demo_w5 [1, 255, 0, 0]) 0 1 = Some d \<and> (wj_meta demo_job, Some Foreign) \<in> set (ds_driver d)
    \<and> amio_flush demo_api 4294967297 0 [] (demo_w5 [1, 255, 0, 0]) = (Rc e, u, w2)
    \<and> (e = AMIO_ERR_BACKEND_FAILURE \<or> e = AMIO_ERR_TIMEOUT)"
proof -
  let ?w = "demo_w5 [1, 255, 0, 0]"
  have h: "history demo_api empty_world ?w" by (rule demo_write_history(3)) simp
  have l: "ht_lookup 4294967297 Dataset True (w_table ?w) = (AMIO_OK, Some (At_Dataset 0 1))"
    using demo_slots_lookup by (simp add: demo_ended(2) demo_w3_def)
  have "\<exists>d. ds_at ?w 0 1 = Some d \<and> (wj_meta demo_job, Some Foreign) \<in> set (ds_driver d) \<and> ds_pending_writes d = 0"
    unfolding demo_ended_ds by (simp add: demo_outcome_def)
  then obtain d where d: "ds_at ?w 0 1 = Some d" "(wj_meta demo_job, Some Foreign) \<in> set (ds_driver d)" "ds_pending_writes d = 0"
    by blast
  have "amio_flush demo_api 4294967297 0 [] ?w = (Rc (surface d), (), ?w)"
    using l d by (simp add: amio_flush_def kind_dispatch_def flush_def)
  with failure_is_reported [OF demo_logs h l d(1,2), of 0 "[]" "surface d" "()" ?w] d show ?thesis by blast
qed


section \<open>Views\<close>

lemma amio_view_data_live:
  assumes ok: "world_ok w" and l: "ht_lookup h View True (w_table w) = (AMIO_OK, Some (At_View x))" and alive: "view_alive h w"
  shows "\<exists>v c. map_of (w_views w) x = Some v \<and> w_cores w (vw_core v) = Some c
    \<and> amio_view_data h True w = (Rc AMIO_OK, (sb_data (buf (co_staging_pool c) (vw_staging_buf v)),
        sb_used (buf (co_staging_pool c) (vw_staging_buf v))), w)"
proof -
  have "h \<noteq> 0" using l by (auto simp: ht_lookup_def)
  moreover obtain v where v: "map_of (w_views w) x = Some v" using lookup_token [OF ok l] by (auto simp: token_ok_def)
  moreover obtain c where "w_cores w (vw_core v) = Some c" using alive l v by (auto simp: view_alive_def)
  ultimately show ?thesis using l by (auto simp: amio_view_data_def kind_dispatch_def view_data_def Let_def)
qed

text \<open>
  C3.  The data of a view are stable: for as long as the view's handle is live and its context exists,
  \<^verbatim>\<open>amio_view_data\<close> returns the same storage contents and size, whatever reads, writes, prefetches, closes
  and releases happen in between.
\<close>

theorem view_data_stable:
  assumes "history env empty_world w" and "ht_lookup h View True (w_table w) = (AMIO_OK, Some (At_View x))" and "view_alive h w"
    and "history env w w'" and "ht_lookup h View True (w_table w') = (AMIO_OK, Some (At_View x))" and "view_alive h w'"
  shows "fst (amio_view_data h True w) = Rc AMIO_OK \<and> amio_view_data h True w' = (Rc AMIO_OK, fst (snd (amio_view_data h True w)), w')"
proof -
  have ok: "world_ok w" by (rule good_ok [OF history_good [OF assms(1) empty_world_ok]])
  have g: "good w w'" by (rule history_good [OF assms(4) ok])
  have ok': "world_ok w'" by (rule good_ok [OF g])
  obtain v c where v: "map_of (w_views w) x = Some v" "w_cores w (vw_core v) = Some c"
    and e: "amio_view_data h True w = (Rc AMIO_OK, (sb_data (buf (co_staging_pool c) (vw_staging_buf v)),
        sb_used (buf (co_staging_pool c) (vw_staging_buf v))), w)"
    using amio_view_data_live [OF ok assms(2,3)] by blast
  obtain v' c' where v': "map_of (w_views w') x = Some v'" "w_cores w' (vw_core v') = Some c'"
    and e': "amio_view_data h True w' = (Rc AMIO_OK, (sb_data (buf (co_staging_pool c') (vw_staging_buf v')),
        sb_used (buf (co_staging_pool c') (vw_staging_buf v'))), w')"
    using amio_view_data_live [OF ok' assms(5,6)] by blast
  have "x < w_next w" using map_of_SomeD [OF v(1)] ok by (auto simp: world_ok_def heap_ok_def)
  moreover have "holds w' (Seen x v') (vw_core v') (vw_staging_buf v')" using v' map_of_SomeD [OF v'(1)] by simp
  ultimately have k: "holds w (Seen x v') (vw_core v') (vw_staging_buf v')" "pools_kept w w' (vw_core v') (vw_staging_buf v')"
    using good_holds [OF g] by (auto simp del: holds.simps)
  then have "map_of (w_views w) x = Some v'" using ok by (auto simp: world_ok_def heap_ok_def)
  with k v v' e e' show ?thesis by (auto simp: pools_kept_def kept_def)
qed

lemma demo_view_alive: "view_alive 8589934593 demo_rv"
  using demo_view_lookup by (simp add: view_alive_def) (simp add: demo_rv_def demo_rw_def demo_view_def)

theorem view_data_stable_witness:
  "fst (amio_view_data 8589934593 True demo_rv) = Rc AMIO_OK
    \<and> amio_view_data 8589934593 True (core_step demo_api (FetchBegin 0 1 ''T'' 0 False) demo_rv)
        = (Rc AMIO_OK, fst (snd (amio_view_data 8589934593 True demo_rv)), core_step demo_api (FetchBegin 0 1 ''T'' 0 False) demo_rv)"
proof -
  let ?w = "core_step demo_api (FetchBegin 0 1 ''T'' 0 False) demo_rv"
  have h: "history demo_api demo_rv ?w"
    by (rule history.step [OF history.start, where r = "Rc AMIO_OK" and op = "CWorker (FetchBegin 0 1 ''T'' 0 False)"]) simp_all
  have w: "?w = demo_rw (pq_step (\<lambda>_. True) demo_rd (ActBegin 0 []) demo_p4)
      [\<lparr>generation = 1, live = True, kind = View, payload = Some (At_View 1)\<rparr>] [(1, demo_view)] 2"
    unfolding demo_rv_def by (simp add: demo_fetch [OF demo_p_workers(6)] del: One_nat_def pq_step.simps)
  have l: "ht_lookup 8589934593 View True (w_table ?w) = (AMIO_OK, Some (At_View 1))" using demo_view_lookup by (simp del: core_step.simps)
  have "view_alive 8589934593 ?w" unfolding view_alive_def l unfolding w by (simp add: demo_rw_def demo_view_def)
  from view_data_stable [OF demo_read_history demo_view_lookup demo_view_alive h l this] show ?thesis .
qed

text \<open>
  C12.  Views keep their dataset open: a dataset's counter is the number of views of it that exist (modulo
  the counter's 64 bits), and while there is one, \<^verbatim>\<open>amio_close_dataset\<close> is refused and changes nothing.
\<close>

theorem close_refused_with_views:
  assumes "history env empty_world w" and "ht_lookup h Dataset True (w_table w) = (AMIO_OK, Some (At_Dataset a i))"
    and "length (w_views w) < 2 ^ 64"
  shows "\<exists>d. ds_at w a i = Some d \<and> unat (ds_outstanding_views d) = views_of a i (w_views w)
    \<and> (views_of a i (w_views w) > 0 \<longrightarrow> amio_close_dataset env h ps w = (Rc AMIO_ERR_VIEWS_OUTSTANDING, (), w))"
proof -
  have ok: "world_ok w" by (rule good_ok [OF history_good [OF assms(1) empty_world_ok]])
  have v: "views_counted w" by (rule vc.history [OF assms(1) views_counted_empty])
  obtain d where d: "ds_at w a i = Some d" using lookup_token [OF ok assms(2)] by (auto simp: token_ok_def)
  then obtain c where c: "w_cores w a = Some c" "(i, d) \<in> set (co_datasets c)"
    by (auto simp: ds_at_def split: option.splits dest: map_of_SomeD)
  have n: "ds_outstanding_views d = of_nat (views_of a i (w_views w))"
    using views_counted_core [OF v c(1)] c(2) unfolding core_counted_def by blast
  have "views_of a i (w_views w) \<le> length (w_views w)" by (simp add: views_of_def)
  then have u: "unat (ds_outstanding_views d) = views_of a i (w_views w)"
    using assms(3) unfolding n by (simp add: unat_of_nat take_bit_nat_eq_self)
  have "h \<noteq> 0" using assms(2) by (auto simp: ht_lookup_def)
  with d u assms(2) show ?thesis
    by (auto simp: amio_close_dataset_def kind_dispatch_def close_dataset_def word_greater_zero_iff)
qed

theorem close_refused_with_views_witness:
  "amio_close_dataset demo_api 4294967297 [] demo_rv = (Rc AMIO_ERR_VIEWS_OUTSTANDING, (), demo_rv)"
proof -
  have l: "ht_lookup 4294967297 Dataset True (w_table demo_rv) = (AMIO_OK, Some (At_Dataset 0 1))"
    using demo_slots_lookup by (simp add: demo_rv_def demo_rw_def)
  have v: "w_views demo_rv = [(1, demo_view)]" by (simp add: demo_rv_def demo_rw_def)
  from close_refused_with_views [OF demo_read_history l, of "[]"] show ?thesis
    by (auto simp: v views_of_def demo_view_def)
qed

end
