(* ===== verification/Driver_Base.thy ===== *)
theory Driver_Base
  imports Config_Loader Prefetch_Queue
begin

text \<open>
  Shared material of the backend drivers: outcomes of an operation, sequencing of operations that
  change the state of a library and may throw, reading strings from a manifest, and the default
  \<^verbatim>\<open>VariableInfo\<close> of \<^verbatim>\<open>src/factory/backend_driver.hpp\<close>.  An access outside an object is the outcome \<open>Beyond\<close>.
\<close>


section \<open>Outcomes\<close>

datatype 'a effect = Done 'a | Throws exn | Beyond

abbreviation runtime_error :: "string \<Rightarrow> exn" where
  "runtime_error msg \<equiv> Std_Exception msg"

definition quoted :: "string \<Rightarrow> string" where
  "quoted s = CHR 0x27 # s @ [CHR 0x27]"

fun conf_exn :: "conf_error \<Rightarrow> exn" where
  "conf_exn (code, msg) = Conf_Error code msg"

text \<open>The value of the first of the given keys that is present, the old value if there is none.\<close>

fun first_string :: "manifest \<Rightarrow> string list \<Rightarrow> string \<Rightarrow> exn + string" where
  "first_string m [] old = Inr old"
| "first_string m (k # ks) old =
     (if mf_has m k then (case mf_string m k of Inl e \<Rightarrow> Inl (conf_exn e) | Inr v \<Rightarrow> Inr v)
      else first_string m ks old)"

definition VariableInfo :: variable_info where
  "VariableInfo = \<lparr>vi_found = False, vi_dtype = AMIO_DTYPE_F32, vi_shape = empty_shape, vi_total_timesteps = 1\<rparr>"

text \<open>The methods a driver need not override.\<close>

definition default_text_attribute :: "string \<Rightarrow> string \<Rightarrow> string option" where
  "default_text_attribute var_name attr_name = None"

definition default_numeric_attribute :: "string \<Rightarrow> string \<Rightarrow> u64 option" where
  "default_numeric_attribute var_name attr_name = None"

definition default_set_communicator :: "int \<Rightarrow> 'd \<Rightarrow> 'd" where
  "default_set_communicator comm_handle d = d"

definition default_describe_variable :: "string \<Rightarrow> variable_info" where
  "default_describe_variable name = VariableInfo"


section \<open>Operations on a state\<close>

type_synonym ('n, 'a) op = "'n \<Rightarrow> 'a effect \<times> 'n"

definition result :: "'a \<Rightarrow> ('n, 'a) op" where
  "result x n = (Done x, n)"

definition raise :: "exn \<Rightarrow> ('n, 'a) op" where
  "raise x n = (Throws x, n)"

definition andThen :: "('n, 'a) op \<Rightarrow> ('a \<Rightarrow> ('n, 'b) op) \<Rightarrow> ('n, 'b) op" where
  "andThen m f n =
     (case m n of
        (Done x, n') \<Rightarrow> f x n'
      | (Throws e, n') \<Rightarrow> (Throws e, n')
      | (Beyond, n') \<Rightarrow> (Beyond, n'))"

primrec for_each :: "('a \<Rightarrow> ('n, 'b) op) \<Rightarrow> 'a list \<Rightarrow> ('n, 'b list) op" where
  "for_each f [] = result []"
| "for_each f (x # xs) = andThen (f x) (\<lambda>y. andThen (for_each f xs) (\<lambda>ys. result (y # ys)))"

lemma result_apply [simp]: "result x n = (Done x, n)"
  by (simp add: result_def)

lemma raise_apply [simp]: "raise x n = (Throws x, n)"
  by (simp add: raise_def)

lemma andThen_Done: "andThen m f n = (Done y, n') \<longleftrightarrow> (\<exists>x n1. m n = (Done x, n1) \<and> f x n1 = (Done y, n'))"
  by (auto simp: andThen_def split: effect.splits prod.splits)

lemma for_each_Done_length: "for_each f xs n = (Done ys, n') \<Longrightarrow> length ys = length xs"
  by (induction xs arbitrary: n ys) (auto simp: andThen_Done)

section \<open>A driver and the library it calls\<close>

text \<open>The state is a pair: the members of the driver object and the state of the library.\<close>

definition driver :: "('d \<times> 'n, 'd) op" where
  "driver s = (Done (fst s), s)"

definition update_driver :: "('d \<Rightarrow> 'd) \<Rightarrow> ('d \<times> 'n, unit) op" where
  "update_driver f s = (Done (), (f (fst s), snd s))"

definition ask :: "('n \<Rightarrow> 'a) \<Rightarrow> ('d \<times> 'n, 'a) op" where
  "ask f s = (Done (f (snd s)), s)"

definition attempt :: "exn + 'a \<Rightarrow> ('n, 'a) op" where
  "attempt r = (case r of Inl x \<Rightarrow> raise x | Inr v \<Rightarrow> result v)"

text \<open>A call whose failure code is turned into an exception.\<close>

definition checked :: "('e \<Rightarrow> exn) \<Rightarrow> ('n \<Rightarrow> ('e + 'a) \<times> 'n) \<Rightarrow> ('d \<times> 'n, 'a) op" where
  "checked err f s =
     (case f (snd s) of
        (Inl e, n) \<Rightarrow> (Throws (err e), (fst s, n))
      | (Inr x, n) \<Rightarrow> (Done x, (fst s, n)))"

abbreviation inquire :: "('n \<Rightarrow> 'e + 'a) \<Rightarrow> 'n \<Rightarrow> ('e + 'a) \<times> 'n" where
  "inquire f \<equiv> \<lambda>n. (f n, n)"

text \<open>When a sequence of operations completes.\<close>

named_theorems done_iff \<open>when an operation completes\<close>

declare andThen_Done [done_iff]

lemma simple_Done [done_iff]:
  "result x n = (Done y, n') \<longleftrightarrow> y = x \<and> n' = n" "raise e n \<noteq> (Done z, n')" "attempt r n = (Done v, n') \<longleftrightarrow> r = Inr v \<and> n' = n"
  by (auto simp: attempt_def split: sum.splits)

lemma state_Done [done_iff]:
  "driver s = (Done d, s') \<longleftrightarrow> d = fst s \<and> s' = s" "ask g s = (Done v, s') \<longleftrightarrow> v = g (snd s) \<and> s' = s"
  "update_driver f s = (Done u, s') \<longleftrightarrow> s' = (f (fst s), snd s)"
  by (auto simp: driver_def ask_def update_driver_def)

lemma checked_Done [done_iff]: "checked err g s = (Done x, s') \<longleftrightarrow> fst s' = fst s \<and> g (snd s) = (Inr x, snd s')"
  by (cases s') (auto simp: checked_def split: sum.splits prod.splits)

text \<open>Operations that keep an observation of the state, and operations that leave a flag off when they fail.\<close>

definition keeps :: "('n \<Rightarrow> 'b) \<Rightarrow> ('n, 'a) op \<Rightarrow> bool" where
  "keeps p m \<longleftrightarrow> (\<forall>s. p (snd (m s)) = p s)"

definition stays_off :: "('n \<Rightarrow> bool) \<Rightarrow> ('n, 'a) op \<Rightarrow> bool" where
  "stays_off p m \<longleftrightarrow> (\<forall>s. \<not> p s \<longrightarrow> (\<forall>x. fst (m s) \<noteq> Done x) \<longrightarrow> \<not> p (snd (m s)))"

named_theorems mode_intros \<open>how the operations of a driver treat its mode\<close>

lemma keeps_andThen [mode_intros]: "keeps p m \<Longrightarrow> (\<And>x. keeps p (f x)) \<Longrightarrow> keeps p (andThen m f)"
  unfolding keeps_def andThen_def by (simp split: prod.splits effect.splits) (metis snd_conv)

lemma stays_off_andThen [mode_intros]: "keeps p m \<Longrightarrow> (\<And>x. stays_off p (f x)) \<Longrightarrow> stays_off p (andThen m f)"
  unfolding keeps_def stays_off_def andThen_def by (auto split: prod.splits effect.splits)

lemma stays_off_raise [mode_intros]: "stays_off p (raise e)"
  by (simp add: stays_off_def)

lemma stays_off_update [mode_intros]: "stays_off p (update_driver f)"
  by (simp add: stays_off_def update_driver_def)

lemma keeps_simple [mode_intros]:
  "keeps p (result x)" "keeps p (raise e)" "keeps p (attempt r)"
  by (auto simp: keeps_def attempt_def split: sum.splits)

lemma keeps_look [mode_intros]: "keeps p driver" "keeps p (ask g)"
  by (simp_all add: keeps_def driver_def ask_def)

lemma keeps_checked [mode_intros]: "keeps (\<lambda>s. q (fst s)) (checked err g)"
  by (auto simp: keeps_def checked_def split: sum.splits prod.splits)

lemma keeps_update [mode_intros]: "(\<And>d. q (f d) = q d) \<Longrightarrow> keeps (\<lambda>s. q (fst s)) (update_driver f)"
  by (simp add: keeps_def update_driver_def)

lemma keeps_if [mode_intros]: "(P \<Longrightarrow> keeps p a) \<Longrightarrow> (\<not> P \<Longrightarrow> keeps p b) \<Longrightarrow> keeps p (if P then a else b)"
  by simp

lemma stays_off_if [mode_intros]: "(P \<Longrightarrow> stays_off p a) \<Longrightarrow> (\<not> P \<Longrightarrow> stays_off p b) \<Longrightarrow> stays_off p (if P then a else b)"
  by simp

lemma keeps_cases [mode_intros]:
  "(\<And>x. v = Inl x \<Longrightarrow> keeps p (f x)) \<Longrightarrow> (\<And>y. v = Inr y \<Longrightarrow> keeps p (g y)) \<Longrightarrow> keeps p (case v of Inl x \<Rightarrow> f x | Inr y \<Rightarrow> g y)"
  by (cases v) simp_all

lemma keeps_option [mode_intros]:
  "(w = None \<Longrightarrow> keeps p a) \<Longrightarrow> (\<And>z. w = Some z \<Longrightarrow> keeps p (h z)) \<Longrightarrow> keeps p (case w of None \<Rightarrow> a | Some z \<Rightarrow> h z)"
  by (cases w) simp_all

lemma keeps_beyond [mode_intros]: "keeps p (\<lambda>s. (Beyond, s))"
  by (simp add: keeps_def)

text \<open>Operations that leave the members of the driver alone.\<close>

lemma keeps_fst_checked [mode_intros]: "keeps fst (checked err g)"
  by (auto simp: keeps_def checked_def split: sum.splits prod.splits)

lemma keeps_fst: "keeps fst m \<Longrightarrow> keeps (\<lambda>s. q (fst s)) m"
  by (simp add: keeps_def)

lemma keeps_for_each [mode_intros]: "(\<And>x. keeps p (f x)) \<Longrightarrow> keeps p (for_each f xs)"
  by (induction xs) (auto intro!: mode_intros)

text \<open>\<^verbatim>\<open>std::string::find\<close> of a text, as a test.\<close>

definition contains :: "string \<Rightarrow> string \<Rightarrow> bool" where
  "contains sub s \<longleftrightarrow> list_ex (\<lambda>k. take (length sub) (drop k s) = sub) [0..<Suc (length s)]"

end
