(* ===== verification/Grib2_Templates.thy ===== *)
theory Grib2_Templates
  imports Config_Loader "HOL-Library.Signed_Division"
begin

text \<open>
  The part of the GRIB2 driver (\<^verbatim>\<open>src/drivers/grib2/grib2_driver.{hpp,cpp}\<close>) that deals with product
  descriptors: the settings read from the manifest, the template builders of the encoder, and the
  field identity by which the decoder names a field.  Template entries are 64-bit integers; the settings
  are read as 32-bit ones, so the differences in the grid builders do not overflow.  The characters
  that \<^verbatim>\<open>std::tolower\<close> maps are those of the C locale.
\<close>


section \<open>Settings\<close>

record grib2_settings =
  gs_discipline :: int
  gs_center :: int
  gs_subcenter :: int
  gs_master_table_version :: int
  gs_local_table_version :: int
  gs_significance_of_ref_time :: int
  gs_production_status :: int
  gs_type_of_data :: int
  gs_gdt_number :: int
  gs_lat_first :: int
  gs_lon_first :: int
  gs_lat_last :: int
  gs_lon_last :: int
  gs_pdt_number :: int
  gs_parameter_category :: int
  gs_parameter_number :: int
  gs_type_of_first_fixed_surface :: int
  gs_scale_factor_first_surface :: int
  gs_scaled_value_first_surface :: int
  gs_forecast_time :: int
  gs_indicator_of_unit_of_time :: int
  gs_decimal_scale_factor :: int
  gs_chemical_constituent_type :: int
  gs_aerosol_type :: int
  gs_size_dist_param_first :: int
  gs_size_dist_param_second :: int
  gs_optical_property_type :: int
  gs_wavelength_first_nm :: int
  gs_wavelength_last_nm :: int
  gs_ensemble_perturbation_number :: int
  gs_statistical_process :: int
  gs_time_range_unit :: int
  gs_time_range_length :: int
  gs_number_of_time_range_specs :: int
  gs_total_missing_from_statistical_process :: int
  gs_n_parallel :: int

text \<open>\<^verbatim>\<open>Grib2Settings{}\<close>.\<close>

definition Grib2Settings :: grib2_settings where
  "Grib2Settings =
     \<lparr>gs_discipline = 0,
      gs_center = 7,
      gs_subcenter = 0,
      gs_master_table_version = 2,
      gs_local_table_version = 1,
      gs_significance_of_ref_time = 1,
      gs_production_status = 0,
      gs_type_of_data = 1,
      gs_gdt_number = 0,
      gs_lat_first = 90000000,
      gs_lon_first = 0,
      gs_lat_last = - 90000000,
      gs_lon_last = 359000000,
      gs_pdt_number = 0,
      gs_parameter_category = 0,
      gs_parameter_number = 0,
      gs_type_of_first_fixed_surface = 100,
      gs_scale_factor_first_surface = 0,
      gs_scaled_value_first_surface = 0,
      gs_forecast_time = 0,
      gs_indicator_of_unit_of_time = 1,
      gs_decimal_scale_factor = 0,
      gs_chemical_constituent_type = 0,
      gs_aerosol_type = 0,
      gs_size_dist_param_first = 0,
      gs_size_dist_param_second = 0,
      gs_optical_property_type = 0,
      gs_wavelength_first_nm = 0,
      gs_wavelength_last_nm = 0,
      gs_ensemble_perturbation_number = 0,
      gs_statistical_process = 0,
      gs_time_range_unit = 0,
      gs_time_range_length = 0,
      gs_number_of_time_range_specs = 0,
      gs_total_missing_from_statistical_process = 0,
      gs_n_parallel = 0\<rparr>"

text \<open>\<^verbatim>\<open>static_cast<int>\<close>.\<close>

definition i32 :: "int \<Rightarrow> int" where
  "i32 x = (x + 2 ^ 31) mod 2 ^ 32 - 2 ^ 31"

text \<open>\<open>get_or\<close> is \<^verbatim>\<open>conf::Config::get_or<int>\<close>, which may throw.\<close>

type_synonym get_or_int = "manifest \<Rightarrow> string \<Rightarrow> int \<Rightarrow> exn + int"

definition cfg_int :: "get_or_int \<Rightarrow> manifest \<Rightarrow> string \<Rightarrow> int \<Rightarrow> exn + int" where
  "cfg_int get_or m key dflt = (if \<not> mf_has m key then Inr dflt else get_or m key (i32 dflt))"

text \<open>One assignment of \<^verbatim>\<open>read_settings\<close>: the key, the default, and the member it is assigned to.\<close>

type_synonym setting = "string \<times> (grib2_settings \<Rightarrow> int) \<times> (int \<Rightarrow> grib2_settings \<Rightarrow> grib2_settings)"

definition setting_fields :: "setting list" where
  "setting_fields =
     [(''grib2.discipline'', gs_discipline, \<lambda>v s. s\<lparr>gs_discipline := v\<rparr>),
      (''grib2.center'', gs_center, \<lambda>v s. s\<lparr>gs_center := v\<rparr>),
      (''grib2.subcenter'', gs_subcenter, \<lambda>v s. s\<lparr>gs_subcenter := v\<rparr>),
      (''grib2.master_table_version'', gs_master_table_version, \<lambda>v s. s\<lparr>gs_master_table_version := v\<rparr>),
      (''grib2.local_table_version'', gs_local_table_version, \<lambda>v s. s\<lparr>gs_local_table_version := v\<rparr>),
      (''grib2.significance_of_ref_time'', gs_significance_of_ref_time, \<lambda>v s. s\<lparr>gs_significance_of_ref_time := v\<rparr>),
      (''grib2.production_status'', gs_production_status, \<lambda>v s. s\<lparr>gs_production_status := v\<rparr>),
      (''grib2.type_of_data'', gs_type_of_data, \<lambda>v s. s\<lparr>gs_type_of_data := v\<rparr>),
      (''grib2.gdt_number'', gs_gdt_number, \<lambda>v s. s\<lparr>gs_gdt_number := v\<rparr>),
      (''grib2.lat_first'', gs_lat_first, \<lambda>v s. s\<lparr>gs_lat_first := v\<rparr>),
      (''grib2.lon_first'', gs_lon_first, \<lambda>v s. s\<lparr>gs_lon_first := v\<rparr>),
      (''grib2.lat_last'', gs_lat_last, \<lambda>v s. s\<lparr>gs_lat_last := v\<rparr>),
      (''grib2.lon_last'', gs_lon_last, \<lambda>v s. s\<lparr>gs_lon_last := v\<rparr>),
      (''grib2.pdt_number'', gs_pdt_number, \<lambda>v s. s\<lparr>gs_pdt_number := v\<rparr>),
      (''grib2.parameter_category'', gs_parameter_category, \<lambda>v s. s\<lparr>gs_parameter_category := v\<rparr>),
      (''grib2.category'', gs_parameter_category, \<lambda>v s. s\<lparr>gs_parameter_category := v\<rparr>),
      (''grib2.parameter_number'', gs_parameter_number, \<lambda>v s. s\<lparr>gs_parameter_number := v\<rparr>),
      (''grib2.parameter'', gs_parameter_number, \<lambda>v s. s\<lparr>gs_parameter_number := v\<rparr>),
      (''grib2.type_of_first_fixed_surface'', gs_type_of_first_fixed_surface, \<lambda>v s. s\<lparr>gs_type_of_first_fixed_surface := v\<rparr>),
      (''grib2.scale_factor_first_surface'', gs_scale_factor_first_surface, \<lambda>v s. s\<lparr>gs_scale_factor_first_surface := v\<rparr>),
      (''grib2.scaled_value_first_surface'', gs_scaled_value_first_surface, \<lambda>v s. s\<lparr>gs_scaled_value_first_surface := v\<rparr>),
      (''grib2.forecast_time'', gs_forecast_time, \<lambda>v s. s\<lparr>gs_forecast_time := v\<rparr>),
      (''grib2.indicator_of_unit_of_time'', gs_indicator_of_unit_of_time, \<lambda>v s. s\<lparr>gs_indicator_of_unit_of_time := v\<rparr>),
      (''grib2.decimal_scale_factor'', gs_decimal_scale_factor, \<lambda>v s. s\<lparr>gs_decimal_scale_factor := v\<rparr>),
      (''grib2.chemical_constituent_type'', (\<lambda>_. 0), \<lambda>v s. s\<lparr>gs_chemical_constituent_type := v\<rparr>),
      (''grib2.aerosol_type'', (\<lambda>_. 0), \<lambda>v s. s\<lparr>gs_aerosol_type := v\<rparr>),
      (''grib2.size_dist_param_first'', (\<lambda>_. 0), \<lambda>v s. s\<lparr>gs_size_dist_param_first := v\<rparr>),
      (''grib2.size_dist_param_second'', (\<lambda>_. 0), \<lambda>v s. s\<lparr>gs_size_dist_param_second := v\<rparr>),
      (''grib2.optical_property_type'', (\<lambda>_. 0), \<lambda>v s. s\<lparr>gs_optical_property_type := v\<rparr>),
      (''grib2.wavelength_first_nm'', (\<lambda>_. 0), \<lambda>v s. s\<lparr>gs_wavelength_first_nm := v\<rparr>),
      (''grib2.wavelength_last_nm'', (\<lambda>_. 0), \<lambda>v s. s\<lparr>gs_wavelength_last_nm := v\<rparr>),
      (''grib2.ensemble_perturbation_number'', (\<lambda>_. 0), \<lambda>v s. s\<lparr>gs_ensemble_perturbation_number := v\<rparr>),
      (''grib2.statistical_process'', (\<lambda>_. 0), \<lambda>v s. s\<lparr>gs_statistical_process := v\<rparr>),
      (''grib2.time_range_unit'', (\<lambda>_. 0), \<lambda>v s. s\<lparr>gs_time_range_unit := v\<rparr>),
      (''grib2.time_range_length'', (\<lambda>_. 0), \<lambda>v s. s\<lparr>gs_time_range_length := v\<rparr>),
      (''grib2.number_of_time_range_specs'', (\<lambda>_. 0), \<lambda>v s. s\<lparr>gs_number_of_time_range_specs := v\<rparr>),
      (''grib2.total_missing_from_statistical_process'', (\<lambda>_. 0), \<lambda>v s. s\<lparr>gs_total_missing_from_statistical_process := v\<rparr>),
      (''grib2.n_parallel'', (\<lambda>_. 0), \<lambda>v s. s\<lparr>gs_n_parallel := v\<rparr>)]"

fun read_fields :: "get_or_int \<Rightarrow> manifest \<Rightarrow> setting list \<Rightarrow> grib2_settings \<Rightarrow> exn + grib2_settings" where
  "read_fields get_or m [] s = Inr s"
| "read_fields get_or m ((key, dflt, assign) # fs) s =
     (case cfg_int get_or m key (dflt s) of
        Inl x \<Rightarrow> Inl x
      | Inr v \<Rightarrow> read_fields get_or m fs (assign v s))"

definition read_settings :: "get_or_int \<Rightarrow> manifest \<Rightarrow> exn + grib2_settings" where
  "read_settings get_or m = read_fields get_or m setting_fields Grib2Settings"


section \<open>Data representation templates\<close>

datatype grib2_drt = AdaptiveEntropyCoding | LosslessJPEG2000

fun drt_number :: "grib2_drt \<Rightarrow> int" where
  "drt_number AdaptiveEntropyCoding = 42"
| "drt_number LosslessJPEG2000 = 40"

definition tolower :: "char \<Rightarrow> char" where
  "tolower c = (let n = of_char c :: nat in if 65 \<le> n \<and> n \<le> 90 then char_of (n + 32) else c)"

text \<open>\<open>None\<close>: the name is not recognized, and the function throws.\<close>

definition parse_drt_name :: "string \<Rightarrow> grib2_drt option" where
  "parse_drt_name name =
     (let lower = map tolower name
      in if lower \<in> {''adaptive_entropy_coding'', ''libaec'', ''adaptive entropy coding via libaec'', ''adaptive entropy coding''}
         then Some AdaptiveEntropyCoding
         else if lower \<in> {''lossless_jpeg2000'', ''jpeg2000'', ''lossless jpeg2000''} then Some LosslessJPEG2000
         else None)"


section \<open>Template builders\<close>

definition build_gdt_3_0 :: "grib2_settings \<Rightarrow> int \<Rightarrow> int \<Rightarrow> int list" where
  "build_gdt_3_0 s ni nj =
     (let di = (if ni > 1 then (gs_lon_last s - gs_lon_first s) sdiv (ni - 1) else 0);
          dj = (if nj > 1 then (gs_lat_first s - gs_lat_last s) sdiv (nj - 1) else 0)
      in [6, 0, 0, 0, 0, 0, 0, ni, nj, 0, 0, gs_lat_first s, gs_lon_first s, 48, gs_lat_last s, gs_lon_last s,
          if di < 0 then - di else di, if dj < 0 then - dj else dj, 0])"

definition build_gdt_3_40 :: "grib2_settings \<Rightarrow> int \<Rightarrow> int \<Rightarrow> int list" where
  "build_gdt_3_40 s ni nj =
     (let di = (if ni > 1 then (gs_lon_last s - gs_lon_first s) sdiv (ni - 1) else 0)
      in [6, 0, 0, 0, 0, 0, 0, ni, nj, 0, 0, gs_lat_first s, gs_lon_first s, 48, gs_lat_last s, gs_lon_last s,
          if di < 0 then - di else di, gs_n_parallel s, 0])"

definition build_pdt_4_0 :: "grib2_settings \<Rightarrow> int list" where
  "build_pdt_4_0 s =
     [gs_parameter_category s, gs_parameter_number s, 2, 0, 0, 0, 0, gs_indicator_of_unit_of_time s, gs_forecast_time s,
      gs_type_of_first_fixed_surface s, gs_scale_factor_first_surface s, gs_scaled_value_first_surface s, 255, 0, 0]"

definition build_pdt_4_8 :: "grib2_settings \<Rightarrow> int list" where
  "build_pdt_4_8 s =
     [gs_parameter_category s, gs_parameter_number s, 2, 0, 0, 0, 0, gs_indicator_of_unit_of_time s, gs_forecast_time s,
      gs_type_of_first_fixed_surface s, gs_scale_factor_first_surface s, gs_scaled_value_first_surface s, 255, 0, 0,
      0, 0, 0, 0, 0, 0,
      gs_number_of_time_range_specs s, gs_total_missing_from_statistical_process s, gs_statistical_process s, 2,
      gs_time_range_unit s, gs_time_range_length s, gs_indicator_of_unit_of_time s, 0]"

definition build_pdt_4_40 :: "grib2_settings \<Rightarrow> int list" where
  "build_pdt_4_40 s =
     [gs_parameter_category s, gs_parameter_number s, gs_chemical_constituent_type s, 2, 0, 0, 0, 0,
      gs_indicator_of_unit_of_time s, gs_forecast_time s,
      gs_type_of_first_fixed_surface s, gs_scale_factor_first_surface s, gs_scaled_value_first_surface s, 255, 0, 0]"

definition build_pdt_4_44 :: "grib2_settings \<Rightarrow> int list" where
  "build_pdt_4_44 s =
     [gs_parameter_category s, gs_parameter_number s, gs_aerosol_type s, 0, 0, gs_size_dist_param_first s, 0,
      gs_size_dist_param_second s, 2, 0, 0, 0, 0, gs_indicator_of_unit_of_time s, gs_forecast_time s,
      gs_type_of_first_fixed_surface s, gs_scale_factor_first_surface s, gs_scaled_value_first_surface s, 255, 0, 0]"

definition build_pdt_4_45 :: "grib2_settings \<Rightarrow> int list" where
  "build_pdt_4_45 s =
     [gs_parameter_category s, gs_parameter_number s, gs_aerosol_type s, 0, 0, gs_size_dist_param_first s, 0,
      gs_size_dist_param_second s, 2, 0, 0, 0, 0, gs_indicator_of_unit_of_time s, gs_forecast_time s,
      0, gs_ensemble_perturbation_number s, 0,
      gs_type_of_first_fixed_surface s, gs_scale_factor_first_surface s, gs_scaled_value_first_surface s, 255, 0, 0]"

definition build_pdt_4_46 :: "grib2_settings \<Rightarrow> int list" where
  "build_pdt_4_46 s =
     [gs_parameter_category s, gs_parameter_number s, gs_aerosol_type s, 0, 0, gs_size_dist_param_first s, 0,
      gs_size_dist_param_second s, 2, 0, 0, 0, 0, gs_indicator_of_unit_of_time s, gs_forecast_time s,
      gs_type_of_first_fixed_surface s, gs_scale_factor_first_surface s, gs_scaled_value_first_surface s, 255, 0, 0,
      0, 0, 0, 0, 0, 0,
      gs_number_of_time_range_specs s, gs_total_missing_from_statistical_process s, gs_statistical_process s, 0,
      gs_time_range_unit s, gs_time_range_length s, 0, 0]"

definition build_pdt_4_48 :: "grib2_settings \<Rightarrow> int list" where
  "build_pdt_4_48 s =
     [gs_parameter_category s, gs_parameter_number s, gs_aerosol_type s, 0, 0, 0, 0, 0,
      gs_optical_property_type s, 0, gs_wavelength_first_nm s, 0, gs_wavelength_last_nm s,
      2, 0, 0, 0, 0, gs_indicator_of_unit_of_time s, gs_forecast_time s,
      gs_type_of_first_fixed_surface s, gs_scale_factor_first_surface s, gs_scaled_value_first_surface s, 255, 0, 0]"

definition build_pdt_4_49 :: "grib2_settings \<Rightarrow> int list" where
  "build_pdt_4_49 s =
     [gs_parameter_category s, gs_parameter_number s, gs_aerosol_type s, 0, 0, 0, 0, 0,
      gs_optical_property_type s, 0, gs_wavelength_first_nm s, 0, gs_wavelength_last_nm s,
      2, 0, 0, 0, 0, gs_indicator_of_unit_of_time s, gs_forecast_time s,
      0, gs_ensemble_perturbation_number s, 0,
      gs_type_of_first_fixed_surface s, gs_scale_factor_first_surface s, gs_scaled_value_first_surface s, 255, 0, 0]"

fun build_drs_template :: "grib2_drt \<Rightarrow> grib2_settings \<Rightarrow> int list" where
  "build_drs_template LosslessJPEG2000 s = [0, 0, gs_decimal_scale_factor s, 0, 0, 0, 255]"
| "build_drs_template AdaptiveEntropyCoding s = [0, 0, gs_decimal_scale_factor s, 0, 0, 0, 0, 0]"

text \<open>The two dispatches of \<^verbatim>\<open>write\<close>; \<open>None\<close>: an unsupported number, and the function throws.\<close>

definition build_gdt :: "grib2_settings \<Rightarrow> int \<Rightarrow> int \<Rightarrow> int list option" where
  "build_gdt s ni nj =
     (if gs_gdt_number s = 0 then Some (build_gdt_3_0 s ni nj)
      else if gs_gdt_number s = 40 then Some (build_gdt_3_40 s ni nj)
      else None)"

definition build_pdt :: "grib2_settings \<Rightarrow> int list option" where
  "build_pdt s =
     (if gs_pdt_number s = 0 then Some (build_pdt_4_0 s)
      else if gs_pdt_number s = 8 then Some (build_pdt_4_8 s)
      else if gs_pdt_number s = 40 then Some (build_pdt_4_40 s)
      else if gs_pdt_number s = 44 then Some (build_pdt_4_44 s)
      else if gs_pdt_number s = 45 then Some (build_pdt_4_45 s)
      else if gs_pdt_number s = 46 then Some (build_pdt_4_46 s)
      else if gs_pdt_number s = 48 then Some (build_pdt_4_48 s)
      else if gs_pdt_number s = 49 then Some (build_pdt_4_49 s)
      else None)"


section \<open>Field identity\<close>

record composition_metadata =
  cm_pdt_number :: int
  cm_chemical_constituent_type :: int
  cm_aerosol_type :: int
  cm_optical_property_type :: int
  cm_wavelength_first_nm :: int
  cm_wavelength_last_nm :: int
  cm_ensemble_perturbation_number :: int
  cm_statistical_process :: int

definition CompositionMetadata :: composition_metadata where
  "CompositionMetadata =
     \<lparr>cm_pdt_number = 0, cm_chemical_constituent_type = 0, cm_aerosol_type = 0, cm_optical_property_type = 0,
      cm_wavelength_first_nm = 0, cm_wavelength_last_nm = 0, cm_ensemble_perturbation_number = 0, cm_statistical_process = 0\<rparr>"

definition field_identity_base :: "int \<Rightarrow> int \<Rightarrow> int \<Rightarrow> int \<Rightarrow> int \<Rightarrow> string" where
  "field_identity_base discipline category num surface_type surface_value =
     ''d'' @ show_int discipline @ ''_c'' @ show_int category @ ''_n'' @ show_int num @ ''_s'' @ show_int surface_type
     @ ''_l'' @ show_int surface_value"

definition field_identity_name :: "int \<Rightarrow> int \<Rightarrow> int \<Rightarrow> int \<Rightarrow> int \<Rightarrow> int \<Rightarrow> composition_metadata \<Rightarrow> string" where
  "field_identity_name discipline category num surface_type surface_value pdt_number m =
     field_identity_base discipline category num surface_type surface_value
     @ (if pdt_number = 40 then ''_ct'' @ show_int (cm_chemical_constituent_type m)
        else if pdt_number = 44 then ''_at'' @ show_int (cm_aerosol_type m)
        else if pdt_number = 45
        then ''_at'' @ show_int (cm_aerosol_type m) @ ''_ep'' @ show_int (cm_ensemble_perturbation_number m)
        else if pdt_number = 46
        then ''_at'' @ show_int (cm_aerosol_type m) @ ''_sp'' @ show_int (cm_statistical_process m)
        else if pdt_number = 48
        then ''_at'' @ show_int (cm_aerosol_type m) @ ''_op'' @ show_int (cm_optical_property_type m)
          @ ''_wl'' @ show_int (cm_wavelength_first_nm m) @ ''_'' @ show_int (cm_wavelength_last_nm m)
        else if pdt_number = 49
        then ''_at'' @ show_int (cm_aerosol_type m) @ ''_op'' @ show_int (cm_optical_property_type m)
          @ ''_wl'' @ show_int (cm_wavelength_first_nm m) @ ''_'' @ show_int (cm_wavelength_last_nm m)
          @ ''_ep'' @ show_int (cm_ensemble_perturbation_number m)
        else if pdt_number = 8 then ''_sp'' @ show_int (cm_statistical_process m)
        else [])"

definition safe_get :: "int list \<Rightarrow> nat \<Rightarrow> int" where
  "safe_get t i = (if i < length t then t ! i else 0)"

definition extract_composition_metadata :: "int \<Rightarrow> int list \<Rightarrow> composition_metadata" where
  "extract_composition_metadata pdt_number t =
     (let m = CompositionMetadata\<lparr>cm_pdt_number := pdt_number\<rparr>
      in if pdt_number = 40 then m\<lparr>cm_chemical_constituent_type := safe_get t 2\<rparr>
         else if pdt_number = 44 then m\<lparr>cm_aerosol_type := safe_get t 2\<rparr>
         else if pdt_number = 45 then m\<lparr>cm_aerosol_type := safe_get t 2, cm_ensemble_perturbation_number := safe_get t 16\<rparr>
         else if pdt_number = 46 then m\<lparr>cm_aerosol_type := safe_get t 2, cm_statistical_process := safe_get t 29\<rparr>
         else if pdt_number = 48
         then m\<lparr>cm_aerosol_type := safe_get t 2, cm_optical_property_type := safe_get t 8,
                cm_wavelength_first_nm := safe_get t 10, cm_wavelength_last_nm := safe_get t 12\<rparr>
         else if pdt_number = 49
         then m\<lparr>cm_aerosol_type := safe_get t 2, cm_optical_property_type := safe_get t 8,
                cm_wavelength_first_nm := safe_get t 10, cm_wavelength_last_nm := safe_get t 12,
                cm_ensemble_perturbation_number := safe_get t 21\<rparr>
         else if pdt_number = 8 then m\<lparr>cm_statistical_process := safe_get t 23\<rparr>
         else m)"

definition pdt_surface_type_index :: "int \<Rightarrow> nat" where
  "pdt_surface_type_index pdt_number =
     (if pdt_number = 0 then 9 else if pdt_number = 8 then 9 else if pdt_number = 40 then 10
      else if pdt_number = 44 then 15 else if pdt_number = 45 then 18 else if pdt_number = 46 then 15
      else if pdt_number = 48 then 20 else if pdt_number = 49 then 23 else 9)"

definition pdt_surface_value_index :: "int \<Rightarrow> nat" where
  "pdt_surface_value_index pdt_number = pdt_surface_type_index pdt_number + 2"

text \<open>
  The key \<^verbatim>\<open>build_record_index\<close> gives a decoded field, from the discipline of its message, the number of
  its product template and the template entries.
\<close>

definition decoded_identity :: "int \<Rightarrow> int \<Rightarrow> int list \<Rightarrow> string" where
  "decoded_identity discipline pdt_number t =
     field_identity_name discipline (safe_get t 0) (safe_get t 1) (safe_get t (pdt_surface_type_index pdt_number))
       (safe_get t (pdt_surface_value_index pdt_number)) pdt_number (extract_composition_metadata pdt_number t)"


section \<open>Names as tagged numbers\<close>

text \<open>A field name is a sequence of tags and decimal numbers; a tag contains neither digits nor minus signs.\<close>

definition numeric :: "char \<Rightarrow> bool" where
  "numeric c \<longleftrightarrow> is_digit c \<or> c = CHR ''-''"

definition tag :: "string \<Rightarrow> bool" where
  "tag t \<longleftrightarrow> t \<noteq> [] \<and> (\<forall>c \<in> set t. \<not> numeric c)"

fun render :: "(string \<times> int) list \<Rightarrow> string" where
  "render [] = []"
| "render ((t, i) # xs) = t @ show_int i @ render xs"

lemma render_append: "render (xs @ ys) = render xs @ render ys"
  by (induction xs rule: render.induct) simp_all

lemma numeric_show_int: "c \<in> set (show_int i) \<Longrightarrow> numeric c"
  using show_int_chars by (auto simp: numeric_def)

lemma takeWhile_split:
  assumes "\<forall>c \<in> set a. P c" and "b = [] \<or> \<not> P (hd b)"
  shows "takeWhile P (a @ b) = a" and "dropWhile P (a @ b) = b"
  using assms by (induction a) (cases b; auto)+

lemma render_hd: "\<forall>(t, i) \<in> set xs. tag t \<Longrightarrow> render xs = [] \<or> \<not> numeric (hd (render xs))"
  by (cases xs) (auto simp: tag_def)

lemma render_inj:
  "\<forall>(t, i) \<in> set xs. tag t \<Longrightarrow> \<forall>(t, i) \<in> set ys. tag t \<Longrightarrow> render xs = render ys \<Longrightarrow> xs = ys"
proof (induction xs arbitrary: ys)
  case Nil
  then show ?case by (cases ys) (auto simp: tag_def)
next
  case (Cons x xs)
  obtain t i where x: "x = (t, i)" by (cases x)
  have t: "tag t" using Cons.prems(1) x by auto
  from Cons.prems(3) x t obtain u j zs where ys: "ys = (u, j) # zs" by (cases ys) (auto simp: tag_def)
  have u: "tag u" using Cons.prems(2) ys by auto
  have eq: "t @ show_int i @ render xs = u @ show_int j @ render zs" using Cons.prems(3) x ys by simp
  have hd: "\<not> numeric (hd (show_int k @ r)) \<longleftrightarrow> False" for k r
    using numeric_show_int [of "hd (show_int k)" k] by (cases "show_int k") auto
  have tw: "takeWhile (\<lambda>c. \<not> numeric c) (v @ show_int k @ r) = v" "dropWhile (\<lambda>c. \<not> numeric c) (v @ show_int k @ r) = show_int k @ r"
    if "tag v" for v k r
  proof -
    have v: "\<forall>c \<in> set v. \<not> numeric c" using that by (simp add: tag_def)
    have s: "show_int k @ r = [] \<or> \<not> \<not> numeric (hd (show_int k @ r))" using hd by blast
    show "takeWhile (\<lambda>c. \<not> numeric c) (v @ show_int k @ r) = v" "dropWhile (\<lambda>c. \<not> numeric c) (v @ show_int k @ r) = show_int k @ r"
      by (rule takeWhile_split [OF v s])+
  qed
  from tw [OF t, of i "render xs"] tw [OF u, of j "render zs"] eq
  have 1: "t = u" "show_int i @ render xs = show_int j @ render zs" by simp_all
  have nw: "takeWhile numeric (show_int k @ render ws) = show_int k" "dropWhile numeric (show_int k @ render ws) = render ws"
    if "\<forall>(t, i) \<in> set ws. tag t" for k ws
    using takeWhile_split [of "show_int k" numeric "render ws"] render_hd [OF that] numeric_show_int by blast+
  have ws: "\<forall>(t, i) \<in> set xs. tag t" "\<forall>(t, i) \<in> set zs. tag t" using Cons.prems(1,2) ys by auto
  from nw [OF ws(1), of i] nw [OF ws(2), of j] 1(2) have "show_int i = show_int j" "render xs = render zs" by simp_all
  with 1 Cons.IH [OF ws] x ys show ?case by simp
qed

definition base_segments :: "int \<Rightarrow> int \<Rightarrow> int \<Rightarrow> int \<Rightarrow> int \<Rightarrow> (string \<times> int) list" where
  "base_segments d c n s l = [(''d'', d), (''_c'', c), (''_n'', n), (''_s'', s), (''_l'', l)]"

definition composition_segments :: "int \<Rightarrow> composition_metadata \<Rightarrow> (string \<times> int) list" where
  "composition_segments p m =
     (if p = 40 then [(''_ct'', cm_chemical_constituent_type m)]
      else if p \<in> {44, 45, 46, 48, 49} then
        [(''_at'', cm_aerosol_type m)]
        @ (if p \<in> {48, 49} then [(''_op'', cm_optical_property_type m), (''_wl'', cm_wavelength_first_nm m), (''_'', cm_wavelength_last_nm m)]
           else [])
        @ (if p \<in> {45, 49} then [(''_ep'', cm_ensemble_perturbation_number m)] else [])
        @ (if p = 46 then [(''_sp'', cm_statistical_process m)] else [])
      else if p = 8 then [(''_sp'', cm_statistical_process m)] else [])"

lemma field_identity_render:
  "field_identity_name d c n s l p m = render (base_segments d c n s l @ composition_segments p m)"
  by (simp add: field_identity_name_def field_identity_base_def base_segments_def composition_segments_def render_append)

lemma segments_tags: "\<forall>(t, i) \<in> set (base_segments d c n s l @ composition_segments p m). tag t"
  by (simp add: base_segments_def composition_segments_def tag_def numeric_def is_digit_def)

lemma field_identity_eq:
  "field_identity_name d c n s l p m = field_identity_name d' c' n' s' l' p' m' \<longleftrightarrow>
   d = d' \<and> c = c' \<and> n = n' \<and> s = s' \<and> l = l' \<and> composition_segments p m = composition_segments p' m'"
proof
  assume "field_identity_name d c n s l p m = field_identity_name d' c' n' s' l' p' m'"
  then have "base_segments d c n s l @ composition_segments p m = base_segments d' c' n' s' l' @ composition_segments p' m'"
    unfolding field_identity_render by (rule render_inj [OF segments_tags segments_tags])
  then show "d = d' \<and> c = c' \<and> n = n' \<and> s = s' \<and> l = l' \<and> composition_segments p m = composition_segments p' m'"
    by (simp add: base_segments_def)
qed (simp add: field_identity_render)


section \<open>Properties\<close>

text \<open>The identity of a field as the settings describe it.\<close>

definition composition_of :: "grib2_settings \<Rightarrow> composition_metadata" where
  "composition_of s =
     \<lparr>cm_pdt_number = gs_pdt_number s, cm_chemical_constituent_type = gs_chemical_constituent_type s,
      cm_aerosol_type = gs_aerosol_type s, cm_optical_property_type = gs_optical_property_type s,
      cm_wavelength_first_nm = gs_wavelength_first_nm s, cm_wavelength_last_nm = gs_wavelength_last_nm s,
      cm_ensemble_perturbation_number = gs_ensemble_perturbation_number s, cm_statistical_process = gs_statistical_process s\<rparr>"

definition settings_identity :: "grib2_settings \<Rightarrow> string" where
  "settings_identity s =
     field_identity_name (gs_discipline s) (gs_parameter_category s) (gs_parameter_number s)
       (gs_type_of_first_fixed_surface s) (gs_scaled_value_first_surface s) (gs_pdt_number s) (composition_of s)"

definition supported_pdts :: "int set" where
  "supported_pdts = {0, 8, 40, 44, 45, 46, 48, 49}"

lemma build_pdt_supported: "build_pdt s \<noteq> None \<longleftrightarrow> gs_pdt_number s \<in> supported_pdts"
  by (auto simp: build_pdt_def supported_pdts_def)

lemmas pdt_builders = build_pdt_4_0_def build_pdt_4_8_def build_pdt_4_40_def build_pdt_4_44_def build_pdt_4_45_def
  build_pdt_4_46_def build_pdt_4_48_def build_pdt_4_49_def

lemma identity_decoded:
  assumes "build_pdt s = Some t"
  shows "decoded_identity (gs_discipline s) (gs_pdt_number s) t = settings_identity s"
proof -
  have "gs_pdt_number s \<in> supported_pdts" using assms build_pdt_supported by blast
  then consider "gs_pdt_number s = 0" | "gs_pdt_number s = 8" | "gs_pdt_number s = 40" | "gs_pdt_number s = 44"
    | "gs_pdt_number s = 45" | "gs_pdt_number s = 46" | "gs_pdt_number s = 48" | "gs_pdt_number s = 49"
    unfolding supported_pdts_def by blast
  then show ?thesis
    using assms
    by cases (auto simp: build_pdt_def pdt_builders decoded_identity_def settings_identity_def field_identity_eq safe_get_def
        pdt_surface_type_index_def pdt_surface_value_index_def composition_segments_def extract_composition_metadata_def
        composition_of_def CompositionMetadata_def)
qed

text \<open>
  C28.  What the encoder writes, the decoder names: for every supported product template, the identity
  computed from the template the builder filled is the one the settings describe.
\<close>

theorem identity_roundtrip:
  assumes "build_pdt s = Some t"
  shows "decoded_identity (gs_discipline s) (gs_pdt_number s) t = settings_identity s"
  by (rule identity_decoded [OF assms])

theorem identity_roundtrip_witness:
  "decoded_identity 0 48 (build_pdt_4_48 (Grib2Settings\<lparr>gs_pdt_number := 48, gs_aerosol_type := 62001, gs_wavelength_first_nm := 550\<rparr>))
    = ''d0_c0_n0_s100_l0_at62001_op0_wl550_0''"
proof -
  let ?s = "Grib2Settings\<lparr>gs_pdt_number := 48, gs_aerosol_type := 62001, gs_wavelength_first_nm := 550\<rparr>"
  have "build_pdt ?s = Some (build_pdt_4_48 ?s)" by (simp add: build_pdt_def)
  from identity_roundtrip [OF this] show ?thesis
    by (simp add: settings_identity_def Grib2Settings_def composition_of_def field_identity_name_def field_identity_base_def
        show_int_def show_nat.simps digit_def char_of_def bit_0)
qed

text \<open>
  C29.  What a field name tells: the names a reader decodes from the product templates of two settings are equal
  exactly when the settings agree on the template number, the discipline, the parameter, the type and the scaled value
  of the first surface, and on the descriptors the name of the template carries (constituent, aerosol type, optical
  property with its wavelengths, ensemble member, statistical process).  The scale factor of the surface and the
  parameters of the aerosol's size distribution are not among them.
\<close>

theorem identity_exact:
  assumes "build_pdt s = Some t" and "build_pdt s' = Some t'"
  shows "decoded_identity (gs_discipline s) (gs_pdt_number s) t = decoded_identity (gs_discipline s') (gs_pdt_number s') t' \<longleftrightarrow>
    gs_pdt_number s = gs_pdt_number s' \<and> gs_discipline s = gs_discipline s'
    \<and> gs_parameter_category s = gs_parameter_category s' \<and> gs_parameter_number s = gs_parameter_number s'
    \<and> gs_type_of_first_fixed_surface s = gs_type_of_first_fixed_surface s'
    \<and> gs_scaled_value_first_surface s = gs_scaled_value_first_surface s'
    \<and> (gs_pdt_number s = 40 \<longrightarrow> gs_chemical_constituent_type s = gs_chemical_constituent_type s')
    \<and> (gs_pdt_number s \<in> {44, 45, 46, 48, 49} \<longrightarrow> gs_aerosol_type s = gs_aerosol_type s')
    \<and> (gs_pdt_number s \<in> {48, 49} \<longrightarrow> gs_optical_property_type s = gs_optical_property_type s'
        \<and> gs_wavelength_first_nm s = gs_wavelength_first_nm s' \<and> gs_wavelength_last_nm s = gs_wavelength_last_nm s')
    \<and> (gs_pdt_number s \<in> {45, 49} \<longrightarrow> gs_ensemble_perturbation_number s = gs_ensemble_perturbation_number s')
    \<and> (gs_pdt_number s \<in> {8, 46} \<longrightarrow> gs_statistical_process s = gs_statistical_process s')"
proof -
  have "gs_pdt_number s \<in> supported_pdts" "gs_pdt_number s' \<in> supported_pdts"
    using assms build_pdt_supported by blast+
  then have "composition_segments (gs_pdt_number s) (composition_of s) = composition_segments (gs_pdt_number s') (composition_of s') \<longleftrightarrow>
    gs_pdt_number s = gs_pdt_number s'
    \<and> (gs_pdt_number s = 40 \<longrightarrow> gs_chemical_constituent_type s = gs_chemical_constituent_type s')
    \<and> (gs_pdt_number s \<in> {44, 45, 46, 48, 49} \<longrightarrow> gs_aerosol_type s = gs_aerosol_type s')
    \<and> (gs_pdt_number s \<in> {48, 49} \<longrightarrow> gs_optical_property_type s = gs_optical_property_type s'
        \<and> gs_wavelength_first_nm s = gs_wavelength_first_nm s' \<and> gs_wavelength_last_nm s = gs_wavelength_last_nm s')
    \<and> (gs_pdt_number s \<in> {45, 49} \<longrightarrow> gs_ensemble_perturbation_number s = gs_ensemble_perturbation_number s')
    \<and> (gs_pdt_number s \<in> {8, 46} \<longrightarrow> gs_statistical_process s = gs_statistical_process s')"
    unfolding supported_pdts_def by (elim insertE emptyE) (simp_all add: composition_segments_def composition_of_def)
  then show ?thesis unfolding identity_decoded [OF assms(1)] identity_decoded [OF assms(2)] settings_identity_def field_identity_eq by blast
qed

theorem identity_exact_witness:
  "decoded_identity 0 44 (build_pdt_4_44 (Grib2Settings\<lparr>gs_pdt_number := 44, gs_aerosol_type := 1\<rparr>))
    \<noteq> decoded_identity 0 44 (build_pdt_4_44 (Grib2Settings\<lparr>gs_pdt_number := 44, gs_aerosol_type := 2\<rparr>))"
  using identity_exact [of "Grib2Settings\<lparr>gs_pdt_number := 44, gs_aerosol_type := 1\<rparr>" _ "Grib2Settings\<lparr>gs_pdt_number := 44, gs_aerosol_type := 2\<rparr>"]
  by (simp add: build_pdt_def) (simp add: Grib2Settings_def)

text \<open>
  The size distribution of an aerosol is part of its product template but not of its name, and neither is the
  scale factor of the surface: different fields share a name.
\<close>

theorem identity_collision:
  "\<exists>s s'. build_pdt s \<noteq> build_pdt s' \<and> build_pdt s \<noteq> None \<and> build_pdt s' \<noteq> None \<and> settings_identity s = settings_identity s'"
proof (intro exI conjI)
  let ?s = "\<lambda>x. Grib2Settings\<lparr>gs_pdt_number := 44, gs_size_dist_param_first := x\<rparr>"
  show "build_pdt (?s 1) \<noteq> build_pdt (?s 2)" "build_pdt (?s 1) \<noteq> None" "build_pdt (?s 2) \<noteq> None"
    by (simp_all add: build_pdt_def build_pdt_4_44_def)
  show "settings_identity (?s 1) = settings_identity (?s 2)"
    by (simp add: settings_identity_def composition_of_def)
qed

end
