(* ===== verification/Grib2_Layout.thy ===== *)
theory Grib2_Layout
  imports Prefetch_Queue
begin

text \<open>
  The memory-layout helpers of the GRIB2 driver (\<^verbatim>\<open>src/drivers/grib2/grib2_driver.cpp\<close>): element counts,
  the contiguity test that selects the fast path of a write, the packing of a strided payload, and the
  gathering of a bounding box from a decoded grid.  Both loops walk a multi-dimensional index
  in row-major order; the sequence of indices they visit is \<open>walk\<close>, and \<open>unrank\<close> is its closed form.

  A read beyond the source is the result \<open>None\<close>.  Element offsets are computed in \<^verbatim>\<open>size_t\<close>, strides in
  \<^verbatim>\<open>int64_t\<close>.
\<close>


section \<open>Element counts and contiguity\<close>

definition total_elements :: "amio_shape \<Rightarrow> nat" where
  "total_elements s =
     (if sh_rank s \<le> 0 \<or> sh_rank s > int AMIO_MAX_RANK then 0
      else case extent_product 1 (dims s) of None \<Rightarrow> 0 | Some n \<Rightarrow> n)"

definition strides_of :: "amio_shape \<Rightarrow> int list" where
  "strides_of s = take (nat (sh_rank s)) (sh_strides s)"

text \<open>
  The loop over the strides, from the last dimension to the first: the stride expected next, or
  \<open>None\<close> when an explicit stride differs.
\<close>

fun expected_stride :: "int list \<Rightarrow> int list \<Rightarrow> int option" where
  "expected_stride (e # es) (s # ss) =
     (case expected_stride es ss of
        None \<Rightarrow> None
      | Some x \<Rightarrow> if s \<noteq> 0 \<and> s \<noteq> x then None else Some (i64 (x * e)))"
| "expected_stride _ _ = Some 1"

definition is_contiguous_row_major :: "amio_shape \<Rightarrow> bool" where
  "is_contiguous_row_major s \<longleftrightarrow>
     \<not> (sh_rank s \<le> 0 \<or> sh_rank s > int AMIO_MAX_RANK)
     \<and> (list_all (\<lambda>d. d = 0) (strides_of s) \<or> expected_stride (dims s) (strides_of s) \<noteq> None)"


section \<open>Walking an index space\<close>

text \<open>The increment at the end of both loop bodies, last dimension first; the flag is the carry.\<close>

fun bump :: "int list \<Rightarrow> int list \<Rightarrow> int list \<times> bool" where
  "bump (e # es) (i # is) =
     (let (js, carry) = bump es is
      in if carry then (if i + 1 < e then ((i + 1) # js, False) else (0 # js, True))
         else (i # js, False))"
| "bump _ _ = ([], True)"

primrec walk :: "int list \<Rightarrow> nat \<Rightarrow> int list \<Rightarrow> int list list" where
  "walk es 0 idx = []"
| "walk es (Suc n) idx = idx # walk es n (fst (bump es idx))"

abbreviation origin :: "int list \<Rightarrow> int list" where
  "origin es \<equiv> map (\<lambda>_. 0) es"


section \<open>Packing a strided payload\<close>

text \<open>The strides in use, and the row-major stride accumulated over the dimensions.\<close>

fun resolve_strides :: "int list \<Rightarrow> int list \<Rightarrow> int list \<times> int" where
  "resolve_strides (e # es) (s # ss) =
     (let (rs, acc) = resolve_strides es ss
      in ((if s = 0 then acc else s) # rs, i64 (acc * e)))"
| "resolve_strides _ _ = ([], 1)"

fun src_elem_offset :: "nat \<Rightarrow> int list \<Rightarrow> int list \<Rightarrow> nat" where
  "src_elem_offset acc (i # is) (s # ss) = src_elem_offset (size_t (acc + to_size_t i * to_size_t s)) is ss"
| "src_elem_offset acc _ _ = acc"

definition copy_element :: "byte list \<Rightarrow> nat \<Rightarrow> int list \<Rightarrow> int list \<Rightarrow> byte list option" where
  "copy_element src es strides idx =
     (let off = size_t (src_elem_offset 0 idx strides * es)
      in if off + es \<le> length src then Some (take es (drop off src)) else None)"

text \<open>A destination whose size wrapped is too small for the elements copied into it, \<open>None\<close> as well.\<close>

definition pack_row_major :: "byte list \<Rightarrow> amio_shape \<Rightarrow> nat \<Rightarrow> byte list option" where
  "pack_row_major src s es =
     (let n = total_elements s
      in if n = 0 \<or> es = 0 then Some []
         else if size_t (n * es) < n * es then None
         else map_option concat
           (those (map (copy_element src es (fst (resolve_strides (dims s) (strides_of s))))
                       (walk (dims s) n (origin (dims s))))))"


section \<open>Gathering a bounding box\<close>

fun full_strides :: "int list \<Rightarrow> int list \<times> int" where
  "full_strides [] = ([], 1)"
| "full_strides (e # es) = (let (ss, acc) = full_strides es in (acc # ss, i64 (acc * e)))"

text \<open>
  The position of an element of the box in the grid.  It is converted to \<^verbatim>\<open>size_t\<close> before it is used, so the
  intermediate 64-bit wrap-around does not show.
\<close>

fun box_offset :: "int list \<Rightarrow> int list \<Rightarrow> int list \<Rightarrow> int list \<Rightarrow> int" where
  "box_offset (off # os) (st # sts) (full # fs) (i # is) = (off + i * st) * full + box_offset os sts fs is"
| "box_offset _ _ _ _ = 0"

datatype box_check = Box_Invalid | Box_Exceeds | Box_Elems nat

fun check_box :: "int list \<Rightarrow> int list \<Rightarrow> int list \<Rightarrow> int list \<Rightarrow> nat \<Rightarrow> box_check" where
  "check_box (off # os) (ext # xs) (st # sts) (g # gs) acc =
     (if ext < 1 \<or> st < 1 \<or> off < 0 then Box_Invalid
      else if bbox_last off ext st \<ge> g then Box_Exceeds
      else check_box os xs sts gs (size_t (acc * to_size_t ext)))"
| "check_box _ _ _ _ acc = Box_Elems acc"

definition fetch :: "'a list \<Rightarrow> int \<Rightarrow> 'a option" where
  "fetch xs i = (let k = to_size_t i in if k < length xs then Some (xs ! k) else None)"

definition gather_box :: "'a list \<Rightarrow> int list \<Rightarrow> amio_bbox \<Rightarrow> nat \<Rightarrow> 'a list option" where
  "gather_box full grid b n =
     (let r = length grid;
          fs = fst (full_strides grid)
      in those (map (\<lambda>idx. fetch full (box_offset (take r (bb_offsets b)) (take r (bb_strides b)) fs idx))
                    (walk (take r (bb_extents b)) n (origin grid))))"


section \<open>The indices visited\<close>

text \<open>The index of the \<open>k\<close>-th element in row-major order.\<close>

primrec unrank :: "int list \<Rightarrow> nat \<Rightarrow> int list" where
  "unrank [] k = []"
| "unrank (e # es) k = int ((k div elements es) mod nat e) # unrank es k"

text \<open>All indices of a box, the last dimension fastest: the nested loops the walk stands for.\<close>

primrec indices :: "int list \<Rightarrow> int list list" where
  "indices [] = [[]]"
| "indices (e # es) = concat (map (\<lambda>i. map (Cons (int i)) (indices es)) [0..<nat e])"

abbreviation positive :: "int list \<Rightarrow> bool" where
  "positive es \<equiv> list_all (\<lambda>e. 0 < e) es"

lemma elements_Cons [simp]: "elements (e # es) = nat e * elements es"
  by (simp add: elements_def)

lemma elements_Nil [simp]: "elements [] = 1"
  by (simp add: elements_def)

lemma length_unrank [simp]: "length (unrank es k) = length es"
  by (induction es) simp_all

lemma unrank_origin: "positive es \<Longrightarrow> unrank es 0 = origin es"
  by (induction es) simp_all

lemma Suc_div_carry: "0 < (n :: nat) \<Longrightarrow> Suc k div n = (if Suc k mod n = 0 then Suc (k div n) else k div n)"
  by (simp add: div_Suc)

lemma Suc_mod_mult: "0 < (n :: nat) \<Longrightarrow> Suc k mod (m * n) = 0 \<longleftrightarrow> Suc k mod n = 0 \<and> Suc k div n mod m = 0"
  by (metis dvd_eq_mod_eq_0 dvd_mult_div_cancel dvd_mult_right mult.commute mod_mult2_eq mult_eq_0_iff add_is_0 not_gr0)

lemma bump_unrank:
  "positive es \<Longrightarrow> bump es (unrank es k) = (unrank es (Suc k), Suc k mod elements es = 0)"
proof (induction es)
  case Nil
  then show ?case by simp
next
  case (Cons e es)
  let ?N = "elements es"
  have N: "0 < ?N" using Cons.prems by (intro elements_pos) simp
  have e: "0 < nat e" using Cons.prems by simp
  have wrap: "Suc j mod nat e = (if int (j mod nat e) + 1 < e then Suc (j mod nat e) else 0)" for j
  proof -
    have "j mod nat e < nat e" using e by simp
    then have "Suc (j mod nat e) = nat e \<longleftrightarrow> \<not> int (j mod nat e) + 1 < e" by linarith
    then show ?thesis by (simp add: mod_Suc)
  qed
  show ?case
  proof (cases "Suc k mod ?N = 0")
    case True
    then have d: "Suc k div ?N = Suc (k div ?N)" using Suc_div_carry [OF N] by simp
    then show ?thesis
      using Cons e wrap [of "k div ?N"] Suc_mod_mult [OF N, of k "nat e"] True by simp
  next
    case False
    then have "Suc k div ?N = k div ?N" using Suc_div_carry [OF N] by simp
    then show ?thesis using Cons False Suc_mod_mult [OF N, of k "nat e"] by simp
  qed
qed

lemma walk_unrank: "positive es \<Longrightarrow> walk es n (unrank es k) = map (unrank es) [k..<k + n]"
  by (induction n arbitrary: k) (simp_all add: bump_unrank upt_conv_Cons del: upt_Suc)

lemma unrank_add_mult: "unrank es (k + m * elements es) = unrank es k"
proof (induction es arbitrary: m)
  case (Cons e es)
  let ?N = "elements es"
  have eq: "k + m * elements (e # es) = k + (m * nat e) * ?N" by simp
  have "(k + (m * nat e) * ?N) div ?N mod nat e = k div ?N mod nat e"
    by (cases "?N = 0") (simp_all add: div_mult_self3 mult.commute)
  then show ?case unfolding eq using Cons.IH [of "m * nat e"] by simp
qed simp

lemma upt_mult: "[0..<m * n] = concat (map (\<lambda>i. map (\<lambda>j. j + i * n) [0..<n]) [0..<m])"
proof (induction m)
  case (Suc m)
  have "[0..<Suc m * n] = [0..<m * n] @ map (\<lambda>j. j + m * n) [0..<n]"
    using upt_add_eq_append [of 0 "m * n" n] map_add_upt [of "m * n" n] by (simp add: add.commute)
  with Suc show ?case by (simp only: upt_Suc_append map_append concat_append list.map concat.simps append_Nil2 zero_le)
qed simp

lemma indices_unrank: "positive es \<Longrightarrow> indices es = map (unrank es) [0..<elements es]"
proof (induction es)
  case (Cons e es)
  let ?N = "elements es"
  have N: "0 < ?N" using Cons.prems by (intro elements_pos) simp
  have "unrank (e # es) (j + i * ?N) = int i # unrank es j" if "i < nat e" "j < ?N" for i j
    using that N by (simp add: unrank_add_mult)
  then have "map (unrank (e # es)) (map (\<lambda>j. j + i * ?N) [0..<?N]) = map (Cons (int i)) (indices es)" if "i < nat e" for i
    using that Cons by simp
  then have "map (\<lambda>i. map (unrank (e # es)) (map (\<lambda>j. j + i * ?N) [0..<?N])) [0..<nat e]
      = map (\<lambda>i. map (Cons (int i)) (indices es)) [0..<nat e]"
    by (intro map_cong) simp_all
  then show ?case
    by (simp only: indices.simps elements_Cons upt_mult map_concat map_map comp_def)
qed simp

lemma walk_indices: "positive es \<Longrightarrow> walk es (elements es) (origin es) = indices es"
  using walk_unrank [of es "elements es" 0] by (simp add: unrank_origin indices_unrank)


section \<open>Offsets modulo the word size\<close>

fun dot :: "int list \<Rightarrow> int list \<Rightarrow> int" where
  "dot (i # is) (s # ss) = i * s + dot is ss"
| "dot _ _ = 0"

text \<open>The strides of a shape as its description says: an explicit one, or the product of the later extents.\<close>

fun ref_strides :: "int list \<Rightarrow> int list \<Rightarrow> int list" where
  "ref_strides (e # es) (s # ss) = (if s = 0 then int (elements es) else s) # ref_strides es ss"
| "ref_strides _ _ = []"

lemma to_size_t_cong: "a mod 2 ^ 64 = b mod 2 ^ 64 \<Longrightarrow> to_size_t a = to_size_t b"
  by (simp only: to_size_t_def)

lemma int_to_size_t: "int (to_size_t a) = a mod 2 ^ 64"
  by (simp add: to_size_t_def)

lemma int_size_t: "int (size_t n) = int n mod 2 ^ 64"
  by (simp add: size_t_def zmod_int)

lemma i64_mod: "i64 x mod 2 ^ 64 = x mod 2 ^ 64"
  unfolding i64_def by (simp only: mod_diff_left_eq add_diff_cancel_right')

lemma src_elem_offset_dot: "src_elem_offset (size_t acc) is ss = to_size_t (int acc + dot is ss)"
proof (induction "is" ss arbitrary: acc rule: dot.induct)
  case (1 i "is" s ss)
  have "src_elem_offset (size_t acc) (i # is) (s # ss)
      = to_size_t (int (size_t acc + to_size_t i * to_size_t s) + dot is ss)"
    using 1 by simp
  also have "\<dots> = to_size_t (int acc + i * s + dot is ss)"
    unfolding of_nat_add of_nat_mult
    by (intro to_size_t_cong mod_add_cong mod_mult_cong) (simp_all add: int_size_t int_to_size_t)
  also have "\<dots> = to_size_t (int acc + dot (i # is) (s # ss))" by (simp add: add.assoc)
  finally show ?case .
qed (simp_all add: to_size_t_def size_t_def nat_mod_distrib)

lemma resolve_strides_mod:
  "positive es \<Longrightarrow> length es = length ss \<Longrightarrow>
     snd (resolve_strides es ss) mod 2 ^ 64 = int (elements es) mod 2 ^ 64
     \<and> (\<forall>idx. dot idx (fst (resolve_strides es ss)) mod 2 ^ 64 = dot idx (ref_strides es ss) mod 2 ^ 64)"
proof (induction es ss rule: ref_strides.induct)
  case (1 e es s ss)
  obtain rs acc where r: "resolve_strides es ss = (rs, acc)" by fastforce
  have e: "0 < e" using 1(2) by simp
  from 1 r have acc: "acc mod 2 ^ 64 = int (elements es) mod 2 ^ 64"
    and rs: "\<And>js. dot js rs mod 2 ^ 64 = dot js (ref_strides es ss) mod 2 ^ 64"
    by simp_all
  have "acc * e mod 2 ^ 64 = int (elements es) * e mod 2 ^ 64" by (rule mod_mult_cong [OF acc refl])
  then have snd: "snd (resolve_strides (e # es) (s # ss)) mod 2 ^ 64 = int (elements (e # es)) mod 2 ^ 64"
    using r e by (simp add: i64_mod [simplified] mult.commute)
  have "dot idx (fst (resolve_strides (e # es) (s # ss))) mod 2 ^ 64 = dot idx (ref_strides (e # es) (s # ss)) mod 2 ^ 64" for idx
  proof (cases idx)
    case (Cons i js)
    have "(i * acc + dot js rs) mod 2 ^ 64 = (i * int (elements es) + dot js (ref_strides es ss)) mod 2 ^ 64"
      by (rule mod_add_cong [OF mod_mult_cong [OF refl acc] rs])
    moreover have "(i * s + dot js rs) mod 2 ^ 64 = (i * s + dot js (ref_strides es ss)) mod 2 ^ 64"
      by (rule mod_add_cong [OF refl rs])
    ultimately show ?thesis using r Cons by simp
  qed simp
  with snd show ?case by blast
qed simp_all


section \<open>Packing\<close>

definition segment :: "'a list \<Rightarrow> nat \<Rightarrow> nat \<Rightarrow> 'a list option" where
  "segment src off n = (if off + n \<le> length src then Some (take n (drop off src)) else None)"

lemma those_map_Some: "(\<And>x. x \<in> set xs \<Longrightarrow> f x = Some (g x)) \<Longrightarrow> those (map f xs) = Some (map g xs)"
  by (induction xs) simp_all

lemma extent_product_eq:
  "positive es \<Longrightarrow> list_all in_i64 es \<Longrightarrow> extent_product (size_t c) es = Some (size_t (c * elements es))"
proof (induction es arbitrary: c)
  case (Cons e es)
  have "size_t (size_t c * to_size_t e) = size_t (c * nat e)"
    using Cons.prems by (simp add: size_t_mult_left to_size_t_nonneg)
  with Cons show ?case by (simp add: mult.assoc)
qed simp

lemma valid_dims:
  assumes "validate_shape s" and "wf_shape s"
  shows "positive (dims s)" and "list_all in_i64 (dims s)" and "length (strides_of s) = length (dims s)"
    and "0 < sh_rank s" and "sh_rank s \<le> int AMIO_MAX_RANK"
proof -
  show "positive (dims s)" "list_all in_i64 (dims s)"
    using validate_shape_dims [OF assms] by (simp_all add: list_all_iff)
  show "length (strides_of s) = length (dims s)" using assms(2) by (simp add: wf_shape_def strides_of_def dims_def)
  show "0 < sh_rank s" "sh_rank s \<le> int AMIO_MAX_RANK" using assms(1) unfolding validate_shape_def by linarith+
qed

lemma total_elements_eq:
  assumes "validate_shape s" and "wf_shape s"
  shows "total_elements s = size_t (elements (dims s))"
  using extent_product_eq [OF valid_dims(1,2) [OF assms], of 1] valid_dims(4,5) [OF assms]
  by (simp add: total_elements_def)

lemma size_t_mult_to_size_t: "size_t (to_size_t x * n) = to_size_t (x * int n)"
proof -
  have "int (size_t (to_size_t x * n)) = x * int n mod 2 ^ 64"
    by (simp only: int_size_t of_nat_mult int_to_size_t mod_simps)
  then have "int (size_t (to_size_t x * n)) = int (to_size_t (x * int n))" by (simp only: int_to_size_t)
  then show ?thesis by (rule of_nat_eq_iff [THEN iffD1])
qed

lemma copy_element_segment:
  assumes "positive es" and "length es = length ss"
  shows "copy_element src n (fst (resolve_strides es ss)) idx = segment src (to_size_t (dot idx (ref_strides es ss) * int n)) n"
proof -
  have "src_elem_offset 0 idx (fst (resolve_strides es ss)) = to_size_t (dot idx (fst (resolve_strides es ss)))"
    using src_elem_offset_dot [of 0] by simp
  also have "\<dots> = to_size_t (dot idx (ref_strides es ss))"
    using resolve_strides_mod [OF assms] by (intro to_size_t_cong) blast
  finally show ?thesis by (simp add: copy_element_def segment_def size_t_mult_to_size_t Let_def)
qed

lemma pack_gather:
  assumes "validate_shape s" and "wf_shape s" and "0 < n" and "elements (dims s) * n < 2 ^ 64"
  shows "pack_row_major src s n =
    map_option concat (those (map (\<lambda>idx. segment src (to_size_t (dot idx (ref_strides (dims s) (strides_of s)) * int n)) n)
      (indices (dims s))))"
proof -
  note d = valid_dims [OF assms(1,2)]
  have N: "0 < elements (dims s)" using d(1) by (rule elements_pos)
  have "elements (dims s) \<le> elements (dims s) * n" using assms(3) by simp
  with assms(4) have "elements (dims s) < 2 ^ 64" by linarith
  then have t: "total_elements s = elements (dims s)" unfolding total_elements_eq [OF assms(1,2)] by (rule size_t_id)
  show ?thesis
    using assms(3,4) N t
    by (simp add: pack_row_major_def Let_def walk_indices [OF d(1)] copy_element_segment [OF d(1) d(3) [symmetric], abs_def])
qed


section \<open>The fast path and the slow path agree\<close>

primrec row_strides :: "int list \<Rightarrow> int list" where
  "row_strides [] = []"
| "row_strides (e # es) = int (elements es) # row_strides es"

lemma dot_unrank: "positive es \<Longrightarrow> dot (unrank es k) (row_strides es) = int (k mod elements es)"
proof (induction es)
  case (Cons e es)
  have "k mod (nat e * elements es) = elements es * (k div elements es mod nat e) + k mod elements es"
    by (metis mod_mult2_eq mult.commute)
  with Cons show ?case by (simp add: algebra_simps)
qed simp

lemma elements_tail_le: "0 < e \<Longrightarrow> elements es \<le> elements (e # es)"
  by (simp add: Suc_le_eq)

lemma expected_stride_row:
  "positive es \<Longrightarrow> length es = length ss \<Longrightarrow> int (elements es) < 2 ^ 63 \<Longrightarrow>
   expected_stride es ss = Some x \<Longrightarrow> x = int (elements es) \<and> ref_strides es ss = row_strides es"
proof (induction es ss arbitrary: x rule: ref_strides.induct)
  case (1 e es s ss)
  have e: "0 < e" using 1(2) by simp
  then have "int (elements es) < 2 ^ 63" using 1(4) elements_tail_le [OF e, of es] by linarith
  moreover obtain y where y: "expected_stride es ss = Some y" "s = 0 \<or> s = y" "x = i64 (y * e)"
    using 1(5) by (auto split: option.splits if_splits)
  ultimately have "y = int (elements es)" "ref_strides es ss = row_strides es"
    using 1 by simp_all
  moreover have "int (elements es) * e = int (elements (e # es))" using e by simp
  moreover have "in_i64 (int (elements (e # es)))" using 1(4) unfolding in_i64_def by linarith
  ultimately have "x = int (elements (e # es))" using y(3) by (simp only: i64_id)
  with \<open>y = int (elements es)\<close> \<open>ref_strides es ss = row_strides es\<close> y(2) show ?case by auto
qed simp_all

lemma zero_strides_row: "length es = length ss \<Longrightarrow> list_all (\<lambda>d. d = 0) ss \<Longrightarrow> ref_strides es ss = row_strides es"
  by (induction es ss rule: ref_strides.induct) simp_all

lemma contiguous_strides:
  assumes "validate_shape s" and "wf_shape s" and "int (elements (dims s)) < 2 ^ 63" and "is_contiguous_row_major s"
  shows "ref_strides (dims s) (strides_of s) = row_strides (dims s)"
  using assms expected_stride_row [OF valid_dims(1) [OF assms(1,2)] valid_dims(3) [OF assms(1,2), symmetric] assms(3)]
    zero_strides_row [OF valid_dims(3) [OF assms(1,2), symmetric]]
  by (auto simp: is_contiguous_row_major_def)

lemma concat_segments: "n * m \<le> length src \<Longrightarrow> concat (map (\<lambda>k. take m (drop (k * m) src)) [0..<n]) = take (n * m) src"
proof (induction n)
  case (Suc n)
  then have "concat (map (\<lambda>k. take m (drop (k * m) src)) [0..<Suc n]) = take (n * m) src @ take m (drop (n * m) src)" by simp
  also have "\<dots> = take (Suc n * m) src" by (metis add.commute mult_Suc take_add)
  finally show ?case .
qed simp

lemma pack_contiguous:
  assumes "validate_shape s" and "wf_shape s" and "is_contiguous_row_major s" and "0 < n"
    and "elements (dims s) * n \<le> length src" and "length src < 2 ^ 63"
  shows "pack_row_major src s n = Some (take (elements (dims s) * n) src)"
proof -
  let ?N = "elements (dims s)"
  note d = valid_dims [OF assms(1,2)]
  have le: "?N \<le> ?N * n" using assms(4) by simp
  with assms(5,6) have "?N < 2 ^ 63" by linarith
  have N64: "?N * n < 2 ^ 64" using le_less_trans [OF assms(5,6)] by simp
  from \<open>?N < 2 ^ 63\<close> have N63: "int ?N < 2 ^ 63" by (metis of_nat_less_iff of_nat_numeral of_nat_power)
  have off: "segment src (to_size_t (dot (unrank (dims s) k) (row_strides (dims s)) * int n)) n = Some (take n (drop (k * n) src))"
    if "k < ?N" for k
  proof -
    have "(k + 1) * n \<le> ?N * n" using that by (intro mult_right_mono) simp_all
    then have b: "k * n + n \<le> length src" using assms(5) by simp
    have "dot (unrank (dims s) k) (row_strides (dims s)) * int n = int (k * n)"
      using that by (simp add: dot_unrank [OF d(1)])
    moreover have "to_size_t (int (k * n)) = k * n"
      using b assms(6) by (subst to_size_t_nonneg) (simp_all add: in_i64_def del: of_nat_mult)
    ultimately show ?thesis using b by (simp add: segment_def del: of_nat_mult)
  qed
  have "those (map (\<lambda>k. segment src (to_size_t (dot (unrank (dims s) k) (row_strides (dims s)) * int n)) n) [0..<?N])
      = Some (map (\<lambda>k. take n (drop (k * n) src)) [0..<?N])"
    by (rule those_map_Some) (simp add: off)
  then show ?thesis
    unfolding pack_gather [OF assms(1,2,4) N64] contiguous_strides [OF assms(1,2) N63 assms(3)] indices_unrank [OF d(1)]
    by (simp add: comp_def concat_segments [OF assms(5)])
qed


section \<open>Boxes\<close>

fun grid_index :: "int list \<Rightarrow> int list \<Rightarrow> int list \<Rightarrow> int list" where
  "grid_index (off # os) (st # sts) (i # is) = (off + i * st) # grid_index os sts is"
| "grid_index _ _ _ = []"

text \<open>A box that selects inside the grid, dimension by dimension.\<close>

fun box_inside :: "int list \<Rightarrow> int list \<Rightarrow> int list \<Rightarrow> int list \<Rightarrow> bool" where
  "box_inside (off # os) (ext # xs) (st # sts) (g # gs) \<longleftrightarrow>
     0 \<le> off \<and> 1 \<le> ext \<and> 1 \<le> st \<and> off + (ext - 1) * st < g \<and> box_inside os xs sts gs"
| "box_inside os xs sts gs \<longleftrightarrow> os = [] \<and> xs = [] \<and> sts = [] \<and> gs = []"

lemma box_inside_positive: "box_inside os xs sts gs \<Longrightarrow> positive xs"
  by (induction os xs sts gs rule: box_inside.induct) auto

lemma box_inside_length: "box_inside os xs sts gs \<Longrightarrow> length xs = length gs"
  by (induction os xs sts gs rule: box_inside.induct) auto

lemma box_offset_dot: "box_offset os sts fs is = dot (grid_index os sts is) fs"
  by (induction os sts fs "is" rule: box_offset.induct) auto

lemma indices_bounds: "idx \<in> set (indices es) \<Longrightarrow> list_all2 (\<lambda>i e. 0 \<le> i \<and> i < e) idx es"
  by (induction es arbitrary: idx) (auto simp: nat_less_iff)

lemma grid_index_bounds:
  "box_inside os xs sts gs \<Longrightarrow> list_all2 (\<lambda>i e. 0 \<le> i \<and> i < e) idx xs \<Longrightarrow>
   list_all2 (\<lambda>i e. 0 \<le> i \<and> i < e) (grid_index os sts idx) gs"
proof (induction os xs sts gs arbitrary: idx rule: box_inside.induct)
  case (1 off os ext xs st sts g gs)
  then obtain i js where idx: "idx = i # js" "0 \<le> i" "i < ext" "list_all2 (\<lambda>i e. 0 \<le> i \<and> i < e) js xs"
    by (cases idx) auto
  have "i * st \<le> (ext - 1) * st" using idx 1(2) by (intro mult_right_mono) simp_all
  moreover have "off + (ext - 1) * st < g" using 1(2) by simp
  ultimately have "off + i * st < g" by linarith
  with 1 idx show ?case by auto
qed auto

lemma dot_row_bounds:
  "list_all2 (\<lambda>i e. 0 \<le> i \<and> i < e) js gs \<Longrightarrow> 0 \<le> dot js (row_strides gs) \<and> dot js (row_strides gs) < int (elements gs)"
proof (induction js gs rule: list_all2_induct)
  case (Cons i js e gs)
  have "i * int (elements gs) + int (elements gs) \<le> e * int (elements gs)"
    using Cons(1) mult_right_mono [of "i + 1" e "int (elements gs)"] by (simp add: distrib_right)
  moreover have "int (elements (e # gs)) = e * int (elements gs)" using Cons(1) by simp
  ultimately show ?case using Cons by simp
qed simp

lemma full_strides_row:
  "positive gs \<Longrightarrow> int (elements gs) < 2 ^ 63 \<Longrightarrow> full_strides gs = (row_strides gs, int (elements gs))"
proof (induction gs)
  case (Cons e gs)
  have e: "0 < e" using Cons by simp
  have "int (elements gs) < 2 ^ 63" using Cons(3) elements_tail_le [OF e, of gs] by linarith
  with Cons have "full_strides gs = (row_strides gs, int (elements gs))" by simp
  moreover have "int (elements gs) * e = int (elements (e # gs))" using e by simp
  moreover have "in_i64 (int (elements (e # gs)))" using Cons(3) unfolding in_i64_def by linarith
  ultimately show ?case by (simp only: full_strides.simps Let_def split i64_id row_strides.simps)
qed simp

lemma box_elements_le: "box_inside os xs sts gs \<Longrightarrow> elements xs \<le> elements gs"
proof (induction os xs sts gs rule: box_inside.induct)
  case (1 off os ext xs st sts g gs)
  then have b: "0 \<le> off" "1 \<le> ext" "1 \<le> st" "off + (ext - 1) * st < g" by simp_all
  have "ext - 1 \<le> (ext - 1) * st" using b mult_left_mono [of 1 st "ext - 1"] by simp
  with b(1,4) have "ext \<le> g" by linarith
  with 1 show ?case by (simp add: mult_le_mono)
qed auto

text \<open>The validation loop accepts exactly the boxes inside the grid, and counts their elements.\<close>

lemma check_box_inside:
  "length os = length gs \<Longrightarrow> length xs = length gs \<Longrightarrow> length sts = length gs \<Longrightarrow>
   \<forall>(off, ext, st) \<in> set (zip os (zip xs sts)). off + (ext - 1) * st < 2 ^ 63 \<Longrightarrow> list_all in_i64 xs \<Longrightarrow>
   check_box os xs sts gs (size_t acc) = Box_Elems n \<longleftrightarrow> box_inside os xs sts gs \<and> n = size_t (acc * elements xs)"
proof (induction os xs sts gs arbitrary: acc rule: box_inside.induct)
  case (1 off os ext xs st sts g gs)
  have last: "bbox_last off ext st = off + (ext - 1) * st" if "0 \<le> off" "1 \<le> ext" "1 \<le> st"
    using 1(5) that by (intro bbox_last_exact) simp_all
  have step: "size_t (size_t acc * to_size_t ext) = size_t (acc * nat ext)" if "1 \<le> ext"
    using 1(6) that by (simp add: size_t_mult_left to_size_t_nonneg)
  have IH: "check_box os xs sts gs (size_t (acc * nat ext)) = Box_Elems n
      \<longleftrightarrow> box_inside os xs sts gs \<and> n = size_t (acc * nat ext * elements xs)"
    using 1 by simp
  show ?case
  proof (cases "ext < 1 \<or> st < 1 \<or> off < 0")
    case False
    then show ?thesis using last step IH by (simp add: mult.assoc not_less)
  qed auto
qed auto

lemma gather_inside:
  assumes "positive grid" and "elements grid = length full" and "length full < 2 ^ 63"
    and "box_inside (take (length grid) (bb_offsets b)) (take (length grid) (bb_extents b)) (take (length grid) (bb_strides b)) grid"
  shows "gather_box full grid b (elements (take (length grid) (bb_extents b))) =
    Some (map (\<lambda>idx. full ! nat (dot (grid_index (take (length grid) (bb_offsets b)) (take (length grid) (bb_strides b)) idx)
      (row_strides grid))) (indices (take (length grid) (bb_extents b))))"
proof -
  let ?os = "take (length grid) (bb_offsets b)" and ?xs = "take (length grid) (bb_extents b)" and ?ss = "take (length grid) (bb_strides b)"
  have "int (elements grid) < 2 ^ 63" using assms(2,3) by (metis of_nat_less_iff of_nat_numeral of_nat_power)
  note full = full_strides_row [OF assms(1) this]
  have len: "length ?xs = length grid" by (rule box_inside_length [OF assms(4)])
  have "fetch full (box_offset ?os ?ss (row_strides grid) idx) = Some (full ! nat (dot (grid_index ?os ?ss idx) (row_strides grid)))"
    if "idx \<in> set (indices ?xs)" for idx
  proof -
    let ?k = "dot (grid_index ?os ?ss idx) (row_strides grid)"
    have k: "0 \<le> ?k" "?k < int (length full)"
      using dot_row_bounds [OF grid_index_bounds [OF assms(4) indices_bounds [OF that]]] assms(2) by simp_all
    then have "in_i64 ?k" using \<open>int (elements grid) < 2 ^ 63\<close> assms(2) unfolding in_i64_def by linarith
    with k show ?thesis by (simp add: fetch_def box_offset_dot to_size_t_nonneg nat_less_iff)
  qed
  moreover have "origin grid = origin ?xs" using len by (simp add: map_replicate_const)
  ultimately show ?thesis
    unfolding gather_box_def Let_def full fst_conv
    using walk_indices [OF box_inside_positive [OF assms(4)]] by (simp add: those_map_Some)
qed


section \<open>Properties\<close>

text \<open>
  C33.  Packing refines the nested loops over the dimensions: the bytes are those of the elements at the
  strided positions of all indices, the last dimension fastest, an absent stride being the product of the
  later extents.  Positions are taken modulo the range of \<^verbatim>\<open>size_t\<close>, so the statement covers negative strides.
\<close>

theorem pack_refines_nested_loops:
  assumes "validate_shape s" and "wf_shape s" and "0 < n" and "elements (dims s) * n < 2 ^ 64"
  shows "pack_row_major src s n =
    map_option concat (those (map (\<lambda>idx. segment src (to_size_t (dot idx (ref_strides (dims s) (strides_of s)) * int n)) n)
      (indices (dims s))))"
  by (rule pack_gather [OF assms])

definition column_major_shape :: amio_shape where
  "column_major_shape = \<lparr>sh_rank = 2, sh_extents = [2, 3, 0, 0, 0, 0, 0], sh_strides = [1, 2, 0, 0, 0, 0, 0]\<rparr>"

lemma column_major_shape_ok:
  "validate_shape column_major_shape" "wf_shape column_major_shape"
  "dims column_major_shape = [2, 3]" "strides_of column_major_shape = [1, 2]"
  by (simp_all add: column_major_shape_def validate_shape_def wf_shape_def dims_def strides_of_def in_i64_def AMIO_MAX_RANK_def)

theorem pack_refines_nested_loops_witness:
  "pack_row_major [1, 2, 3, 4, 5, 6] column_major_shape 1 = Some [1, 3, 5, 2, 4, 6]"
  using pack_refines_nested_loops [OF column_major_shape_ok(1,2), of 1 "[1, 2, 3, 4, 5, 6]"]
  by (simp add: column_major_shape_ok(3,4) segment_def to_size_t_def upt_rec)

text \<open>
  C34.  The two paths of a write agree: for a shape the contiguity test accepts, the slow path would
  deliver exactly the payload bytes the fast path passes on, and never reads beyond them.
\<close>

theorem contiguous_fast_path:
  assumes "validate_shape s" and "wf_shape s" and "is_contiguous_row_major s" and "0 < n"
    and "elements (dims s) * n \<le> length src" and "length src < 2 ^ 63"
  shows "pack_row_major src s n = Some (take (elements (dims s) * n) src)"
  by (rule pack_contiguous [OF assms])

theorem contiguous_fast_path_witness:
  "pack_row_major [1, 2, 3, 4, 5, 6, 7] (column_major_shape\<lparr>sh_strides := [3, 0, 0, 0, 0, 0, 0]\<rparr>) 1 = Some [1, 2, 3, 4, 5, 6]"
proof -
  let ?s = "column_major_shape\<lparr>sh_strides := [3, 0, 0, 0, 0, 0, 0]\<rparr>"
  have "validate_shape ?s" "wf_shape ?s" "dims ?s = [2, 3]" "is_contiguous_row_major ?s"
    by (simp_all add: column_major_shape_def validate_shape_def wf_shape_def dims_def strides_of_def in_i64_def AMIO_MAX_RANK_def
        is_contiguous_row_major_def)
  with contiguous_fast_path [of ?s 1 "[1, 2, 3, 4, 5, 6, 7]"] show ?thesis by simp
qed

text \<open>
  C35.  The bounding box of a read: when the validation loop accepts a box for a grid with as many points
  as were decoded, and no index of the box reaches 2^63, the gathering loop stays inside the grid
  and delivers, in row-major order, exactly the points the box selects.
\<close>

theorem box_gather_exact:
  assumes "positive grid" and "elements grid = length full" and "length full < 2 ^ 63"
    and "os = take (length grid) (bb_offsets b)" and "xs = take (length grid) (bb_extents b)" and "ss = take (length grid) (bb_strides b)"
    and "length grid \<le> AMIO_MAX_RANK" and "wf_bbox b"
    and "\<forall>(off, ext, st) \<in> set (zip os (zip xs ss)). off + (ext - 1) * st < 2 ^ 63"
    and "check_box os xs ss grid 1 = Box_Elems n"
  shows "gather_box full grid b n = Some (map (\<lambda>idx. full ! nat (dot (grid_index os ss idx) (row_strides grid))) (indices xs))
    \<and> n = elements xs"
proof -
  have len: "length os = length grid" "length xs = length grid" "length ss = length grid" "list_all in_i64 xs"
    using assms(4-8) by (auto simp: wf_bbox_def list_all_iff dest: in_set_takeD)
  have "box_inside os xs ss grid" "n = size_t (elements xs)"
    using check_box_inside [OF len(1-3) assms(9) len(4), of 1 n] assms(10) by simp_all
  moreover have "elements xs < 2 ^ 64"
    using box_elements_le [OF \<open>box_inside os xs ss grid\<close>] assms(2,3) by simp
  ultimately show ?thesis using gather_inside [OF assms(1-3)] assms(4-6) by simp
qed

definition sub_box :: amio_bbox where
  "sub_box = \<lparr>bb_rank = 2, bb_offsets = [1, 0, 0, 0, 0, 0, 0], bb_extents = [1, 2, 0, 0, 0, 0, 0], bb_strides = [1, 2, 0, 0, 0, 0, 0]\<rparr>"

theorem box_gather_exact_witness: "gather_box ''abcdef'' [2, 3] sub_box 2 = Some ''df''"
proof -
  have "positive [2, 3]" "elements [2, 3] = length ''abcdef''" "length ''abcdef'' < 2 ^ 63" by simp_all
  moreover have "[1, 0] = take (length [2, 3 :: int]) (bb_offsets sub_box)" "[1, 2] = take (length [2, 3 :: int]) (bb_extents sub_box)"
    "[1, 2] = take (length [2, 3 :: int]) (bb_strides sub_box)"
    by (simp_all add: sub_box_def)
  moreover have "length [2, 3 :: int] \<le> AMIO_MAX_RANK" "wf_bbox sub_box"
    by (simp_all add: sub_box_def wf_bbox_def in_i64_def AMIO_MAX_RANK_def)
  moreover have "\<forall>(off, ext, st) \<in> set (zip [1, 0] (zip [1, 2] [1, 2 :: int])). off + (ext - 1) * st < (2 :: int) ^ 63" by simp
  moreover have "check_box [1, 0] [1, 2] [1, 2] [2, 3] 1 = Box_Elems 2"
    by (simp add: bbox_last_exact to_size_t_def)
  ultimately have "gather_box ''abcdef'' [2, 3] sub_box 2
      = Some (map (\<lambda>idx. ''abcdef'' ! nat (dot (grid_index [1, 0] [1, 2] idx) (row_strides [2, 3]))) (indices [1, 2]))"
    by (rule box_gather_exact [THEN conjunct1])
  also have "indices [1, 2] = [[0, 0], [0, 1]]" by (simp add: upt_rec)
  finally show ?thesis by simp
qed

end
