(* ===== verification/Grib2_Driver.thy ===== *)
theory Grib2_Driver
  imports Driver_Base Grib2_Templates Grib2_Layout
begin

text \<open>
  The GRIB2 driver itself (\<^verbatim>\<open>src/drivers/grib2/grib2_driver.cpp\<close>): opening for writing and for reading, the
  record index, encoding and decoding.  The driver is built with the g2c library; without it every
  operation only throws.

  The g2c library is a record of functions on byte strings: an encoder step takes the message
  built so far and returns the longer one, or \<open>None\<close> for a non-positive return code.  A
  \<^verbatim>\<open>g2int\<close> is a 64-bit integer.  A \<^verbatim>\<open>float\<close> is its four-byte object representation, which the driver only
  copies.  Files are byte lists by path.  The output stream is buffered: \<open>fe_fwrite\<close> says how many bytes of a
  message \<^verbatim>\<open>fwrite\<close> accepts, so that short writes are part of the model, \<open>fe_spill\<close> how many of the buffered bytes
  it hands on to the file at that time, and \<open>fe_fflush\<close> how many of them \<^verbatim>\<open>fflush\<close> and \<^verbatim>\<open>fclose\<close> manage to write,
  whose return codes the driver ignores.
\<close>


section \<open>The library and the environment\<close>

type_synonym float4 = "byte list"

record gribfield =
  gf_ipdtnum :: int
  gf_ipdtmpl :: "int list option" \<comment> \<open>\<open>None\<close>: a null pointer; the length is \<^verbatim>\<open>ipdtlen\<close>\<close>
  gf_igdtmpl :: "int list option"
  gf_ngrdpts :: int
  gf_fld :: "float4 list option"

record g2c =
  g2_create :: "int list \<Rightarrow> int list \<Rightarrow> byte list option"
  g2_addgrid :: "int list \<Rightarrow> int list \<Rightarrow> byte list \<Rightarrow> byte list option"
  g2_addfield :: "int \<Rightarrow> int list \<Rightarrow> int \<Rightarrow> int list \<Rightarrow> float4 list \<Rightarrow> byte list \<Rightarrow> byte list option"
  g2_gribend :: "byte list \<Rightarrow> byte list option"
  g2_info :: "byte list \<Rightarrow> int + int \<times> int" \<comment> \<open>an error code, or the discipline and the number of fields\<close>
  g2_getfld :: "byte list \<Rightarrow> int \<Rightarrow> bool \<Rightarrow> int \<times> gribfield option" \<comment> \<open>the flag: unpack and expand the data\<close>
  seekgb :: "byte list \<Rightarrow> int \<Rightarrow> int \<Rightarrow> int \<times> int" \<comment> \<open>offset and length of the next message, length 0 if none\<close>

type_synonym files = "string \<rightharpoonup> byte list"

record file_env =
  fe_can_create :: "string \<Rightarrow> bool"
  fe_fwrite :: "byte list \<Rightarrow> byte list \<Rightarrow> nat" \<comment> \<open>what the stream holds and the data; the number of bytes accepted\<close>
  fe_spill :: "byte list \<Rightarrow> nat" \<comment> \<open>of the buffered bytes, those written out by an \<^verbatim>\<open>fwrite\<close>\<close>
  fe_fflush :: "byte list \<Rightarrow> nat" \<comment> \<open>of the buffered bytes, those written out by an \<^verbatim>\<open>fflush\<close> or \<^verbatim>\<open>fclose\<close>\<close>
  fe_get_or :: get_or_int

record grib_record_location =
  rl_offset :: int
  rl_length :: int
  rl_field_number :: int

record grib_field_index =
  fi_ni :: int
  fi_nj :: int
  fi_ngrdpts :: int
  fi_records :: "grib_record_location list"

type_synonym record_index = "string \<rightharpoonup> grib_field_index"

record grib2_driver =
  gd_initialized :: bool
  gd_settings :: grib2_settings
  gd_output_path :: string
  gd_active_drt :: grib2_drt
  gd_out_file :: "string option" \<comment> \<open>the open output stream, by its path\<close>
  gd_pending :: "byte list" \<comment> \<open>the bytes in the buffer of the stream\<close>
  gd_read_mode :: bool
  gd_input_path :: string
  gd_records :: record_index

definition GRIB2_Driver :: grib2_driver where
  "GRIB2_Driver =
     \<lparr>gd_initialized = False, gd_settings = Grib2Settings, gd_output_path = [], gd_active_drt = AdaptiveEntropyCoding,
      gd_out_file = None, gd_pending = [], gd_read_mode = False, gd_input_path = [], gd_records = Map.empty\<rparr>"


section \<open>Opening for writing\<close>

definition validate_drt :: "manifest \<Rightarrow> exn + grib2_drt" where
  "validate_drt m =
     (if \<not> mf_has m ''data_representation_template'' \<and> \<not> mf_has m ''drt'' then
        Inl (runtime_error (''GRIB2_Driver: Data Representation Template field is missing from configuration. ''
          @ ''Required field: 'data_representation_template' or 'drt'. The field was missing. Zero record bytes emitted.''))
      else
        case mf_string m (if mf_has m ''data_representation_template'' then ''data_representation_template'' else ''drt'') of
          Inl e \<Rightarrow> Inl (conf_exn e)
        | Inr name \<Rightarrow>
            if name = [] then
              Inl (runtime_error (''GRIB2_Driver: Data Representation Template field is present but empty. ''
                @ ''The field value is missing. Required: one of {Adaptive Entropy Coding via libaec, Lossless JPEG2000}. ''
                @ ''Zero record bytes emitted.''))
            else
              case parse_drt_name name of
                None \<Rightarrow>
                  Inl (runtime_error (''GRIB2_Driver: unrecognized Data Representation Template: '' @ quoted name
                    @ ''. DRT name is not recognized. Allowed values: {Adaptive Entropy Coding via libaec, Lossless JPEG2000}. ''
                    @ ''Zero record bytes emitted.''))
              | Some drt \<Rightarrow> Inr drt)"

definition initialize :: "file_env \<Rightarrow> manifest \<Rightarrow> grib2_driver \<Rightarrow> files \<Rightarrow> exn option \<times> grib2_driver \<times> files" where
  "initialize env m d fs =
     (if gd_initialized d then (None, d, fs)
      else case read_settings (fe_get_or env) m of
        Inl x \<Rightarrow> (Some x, d, fs)
      | Inr s \<Rightarrow>
          let d1 = d\<lparr>gd_settings := s\<rparr>
          in case first_string m [''path'', ''output_path''] (gd_output_path d1) of
               Inl x \<Rightarrow> (Some x, d1, fs)
             | Inr p \<Rightarrow>
                 let d2 = d1\<lparr>gd_output_path := p\<rparr>
                 in if p \<noteq> [] then
                      if fe_can_create env p
                      then (None, d2\<lparr>gd_out_file := Some p, gd_pending := [], gd_initialized := True\<rparr>, fs(p \<mapsto> []))
                      else (Some (runtime_error (''GRIB2_Driver: failed to open output file '' @ quoted p @ '' for writing.'')),
                            d2\<lparr>gd_out_file := None\<rparr>, fs)
                    else (None, d2\<lparr>gd_initialized := True\<rparr>, fs))"

definition open_write :: "file_env \<Rightarrow> manifest \<Rightarrow> grib2_driver \<Rightarrow> files \<Rightarrow> exn option \<times> grib2_driver \<times> files" where
  "open_write env m d fs =
     (case validate_drt m of
        Inl x \<Rightarrow> (Some x, d, fs)
      | Inr drt \<Rightarrow> initialize env m (d\<lparr>gd_active_drt := drt\<rparr>) fs)"


section \<open>Writing\<close>

fun chunks4 :: "byte list \<Rightarrow> float4 list" where
  "chunks4 (a # b # c # d # xs) = [a, b, c, d] # chunks4 xs"
| "chunks4 _ = []"

definition listsec0 :: "grib2_settings \<Rightarrow> int list" where
  "listsec0 s = [gs_discipline s, 2]"

definition listsec1 :: "grib2_settings \<Rightarrow> int list" where
  "listsec1 s =
     [gs_center s, gs_subcenter s, gs_master_table_version s, gs_local_table_version s, gs_significance_of_ref_time s,
      1970, 1, 1, 0, 0, 0, gs_production_status s, gs_type_of_data s]"

definition igds :: "grib2_settings \<Rightarrow> int \<Rightarrow> int \<Rightarrow> int list" where
  "igds s ni nj = [0, i64 (ni * nj), 0, 0, gs_gdt_number s]"

text \<open>The grid of a field: rows of the last dimension, counted by the one before it.\<close>

definition grid_dims :: "amio_shape \<Rightarrow> int \<times> int" where
  "grid_dims s =
     (if sh_rank s \<ge> 2 then (sh_extents s ! nat (sh_rank s - 1), sh_extents s ! nat (sh_rank s - 2))
      else (int (total_elements s), 1))"

text \<open>One encoder step: an error, a message that outgrew the buffer, or the message.\<close>

definition encoded :: "nat \<Rightarrow> string \<Rightarrow> byte list option \<Rightarrow> (byte list \<Rightarrow> 'a effect) \<Rightarrow> 'a effect" where
  "encoded bufsize msg r k =
     (case r of
        None \<Rightarrow> Throws (runtime_error (''GRIB2_Driver::write: '' @ msg @ '' Zero record bytes emitted.''))
      | Some m \<Rightarrow> if length m > bufsize then Beyond else k m)"

definition encode_message :: "g2c \<Rightarrow> grib2_settings \<Rightarrow> grib2_drt \<Rightarrow> int \<Rightarrow> int \<Rightarrow> nat \<Rightarrow> byte list \<Rightarrow> byte list effect" where
  "encode_message lib s drt ni nj n data =
     (let bufsize = size_t (size_t (n * 4) + 8192 + n)
      in encoded bufsize ''g2_create failed (Section 0/1).'' (g2_create lib (listsec0 s) (listsec1 s)) (\<lambda>m0.
         case build_gdt s ni nj of
           None \<Rightarrow> Throws (runtime_error (''GRIB2_Driver::write: unsupported GDT number '' @ show_int (gs_gdt_number s)
             @ ''. Zero record bytes emitted.''))
         | Some gdt \<Rightarrow>
             encoded bufsize ''g2_addgrid failed (Section 3).'' (g2_addgrid lib (igds s ni nj) gdt m0) (\<lambda>m1.
             case build_pdt s of
               None \<Rightarrow> Throws (runtime_error (''GRIB2_Driver::write: unsupported PDT number '' @ show_int (gs_pdt_number s)
                 @ ''. Zero record bytes emitted.''))
             | Some pdt \<Rightarrow>
                 if length data < n * 4 then Beyond
                 else
                   encoded bufsize ''g2_addfield failed (Section 4/5/7).''
                     (g2_addfield lib (gs_pdt_number s) pdt (drt_number drt) (build_drs_template drt s) (chunks4 (take (n * 4) data)) m1) (\<lambda>m2.
                   encoded bufsize ''g2_gribend failed (Section 8).'' (g2_gribend lib m2) Done))))"

definition contents :: "string \<Rightarrow> files \<Rightarrow> byte list" where
  "contents p fs = (case fs p of None \<Rightarrow> [] | Some c \<Rightarrow> c)"

text \<open>The first \<open>k\<close> bytes of the buffer go to the file.\<close>

definition write_out :: "nat \<Rightarrow> string \<Rightarrow> grib2_driver \<Rightarrow> files \<Rightarrow> grib2_driver \<times> files" where
  "write_out k p d fs =
     (d\<lparr>gd_pending := drop k (gd_pending d)\<rparr>, fs(p \<mapsto> contents p fs @ take k (gd_pending d)))"

definition commit :: "file_env \<Rightarrow> grib2_driver \<Rightarrow> byte list \<Rightarrow> files \<Rightarrow> unit effect \<times> grib2_driver \<times> files" where
  "commit env d msg fs =
     (case gd_out_file d of
        None \<Rightarrow> (Done (), d, fs)
      | Some p \<Rightarrow>
          let written = min (length msg) (fe_fwrite env (contents p fs @ gd_pending d) msg);
              d1 = d\<lparr>gd_pending := gd_pending d @ take written msg\<rparr>;
              r = write_out (fe_spill env (gd_pending d1)) p d1 fs
          in if written \<noteq> length msg
             then (Throws (runtime_error ''GRIB2_Driver::write: short write committing GRIB2 message to disk.''), r)
             else (Done (), r))"

definition driver_write ::
  "g2c \<Rightarrow> file_env \<Rightarrow> staging_buffer \<Rightarrow> var_meta \<Rightarrow> grib2_driver \<Rightarrow> files \<Rightarrow> unit effect \<times> grib2_driver \<times> files" where
  "driver_write lib env src meta d fs =
     (if \<not> gd_initialized d then
        (Throws (runtime_error ''GRIB2_Driver::write called before successful initialization''), d, fs)
      else if vm_dtype meta \<noteq> AMIO_DTYPE_F32 then
        (Throws (runtime_error (''GRIB2_Driver::write: only AMIO_DTYPE_F32 fields can be encoded ''
           @ ''to GRIB2 grid-point data. Zero record bytes emitted.'')), d, fs)
      else
        let elem_size = element_size (vm_dtype meta);
            num_elements = total_elements (vm_shape meta)
        in if num_elements = 0 \<or> elem_size = 0 then
             (Throws (runtime_error ''GRIB2_Driver::write: empty or invalid field shape. Zero record bytes emitted.''), d, fs)
           else
             let storage = (case sb_data src of None \<Rightarrow> [] | Some bytes \<Rightarrow> bytes)
             in case (if is_contiguous_row_major (vm_shape meta) then Some storage
                      else pack_row_major storage (vm_shape meta) elem_size) of
                  None \<Rightarrow> (Beyond, d, fs)
                | Some data \<Rightarrow>
                    let (ni, nj) = grid_dims (vm_shape meta)
                    in case encode_message lib (gd_settings d) (gd_active_drt d) ni nj num_elements data of
                         Throws x \<Rightarrow> (Throws x, d, fs)
                       | Beyond \<Rightarrow> (Beyond, d, fs)
                       | Done msg \<Rightarrow> commit env d msg fs)"


section \<open>The record index\<close>

definition mseek :: int where
  "mseek = 32000"

text \<open>The grid of a decoded field: \<^verbatim>\<open>Ni\<close> and \<^verbatim>\<open>Nj\<close> of the grid template, or a single row.\<close>

definition field_geometry :: "gribfield \<Rightarrow> int \<times> int" where
  "field_geometry g =
     (let (ni, nj) = (case gf_igdtmpl g of
                        None \<Rightarrow> (0, 0)
                      | Some t \<Rightarrow> if length t > 8 then (t ! 7, t ! 8) else (0, 0))
      in if ni \<le> 0 \<or> nj \<le> 0 \<or> i64 (ni * nj) \<noteq> gf_ngrdpts g then (gf_ngrdpts g, 1) else (ni, nj))"

definition field_key :: "int \<Rightarrow> gribfield \<Rightarrow> string" where
  "field_key discipline g = decoded_identity discipline (gf_ipdtnum g) (case gf_ipdtmpl g of None \<Rightarrow> [] | Some t \<Rightarrow> t)"

definition add_record :: "string \<Rightarrow> gribfield \<Rightarrow> grib_record_location \<Rightarrow> record_index \<Rightarrow> record_index" where
  "add_record key g loc idx =
     (let entry = (case idx key of None \<Rightarrow> \<lparr>fi_ni = 0, fi_nj = 0, fi_ngrdpts = 0, fi_records = []\<rparr> | Some e \<Rightarrow> e);
          entry1 = (if fi_records entry = []
                    then (let (ni, nj) = field_geometry g in entry\<lparr>fi_ni := ni, fi_nj := nj, fi_ngrdpts := gf_ngrdpts g\<rparr>)
                    else entry)
      in idx(key \<mapsto> entry1\<lparr>fi_records := fi_records entry1 @ [loc]\<rparr>))"

abbreviation while_indexing :: "string \<Rightarrow> string \<Rightarrow> exn" where
  "while_indexing what path \<equiv> runtime_error (''GRIB2_Driver::open_read: '' @ what @ '' while indexing '' @ quoted path @ ''.'')"

text \<open>The loop over the fields of a message, from field \<open>n\<close> on, with \<open>k\<close> left.\<close>

primrec index_fields ::
  "g2c \<Rightarrow> string \<Rightarrow> byte list \<Rightarrow> int \<Rightarrow> int \<Rightarrow> nat \<Rightarrow> int \<Rightarrow> record_index \<Rightarrow> exn option \<times> record_index" where
  "index_fields lib path msg discipline lskip 0 n idx = (None, idx)"
| "index_fields lib path msg discipline lskip (Suc k) n idx =
     (case g2_getfld lib msg n False of
        (ret, Some g) \<Rightarrow>
          if ret \<noteq> 0 then (Some (while_indexing (''g2_getfld (metadata) failed (code '' @ show_int ret @ '')'') path), idx)
          else index_fields lib path msg discipline lskip k (n + 1)
                 (add_record (field_key discipline g) g
                    \<lparr>rl_offset = lskip, rl_length = int (length msg), rl_field_number = n\<rparr> idx)
      | (ret, None) \<Rightarrow> (Some (while_indexing (''g2_getfld (metadata) failed (code '' @ show_int ret @ '')'') path), idx))"

text \<open>\<^verbatim>\<open>fseek\<close> to an absolute position, and \<^verbatim>\<open>fread\<close> of a number of bytes; \<open>None\<close>: fewer bytes were read.\<close>

definition fread_at :: "byte list \<Rightarrow> int \<Rightarrow> int \<Rightarrow> byte list option" where
  "fread_at file off len = segment file (nat off) (nat len)"

text \<open>The body of the scan for one located message.\<close>

definition index_message ::
  "g2c \<Rightarrow> string \<Rightarrow> byte list \<Rightarrow> int \<Rightarrow> int \<Rightarrow> record_index \<Rightarrow> exn option \<times> record_index" where
  "index_message lib path file lskip lgrib idx =
     (if lgrib < 0 then (Some (Std_Exception ''cannot create std::vector larger than max_size()''), idx)
      else if lskip < 0 then (Some (while_indexing ''seek failed'' path), idx)
      else case fread_at file lskip lgrib of
        None \<Rightarrow> (Some (while_indexing ''short read'' path), idx)
      | Some msg \<Rightarrow>
          (case g2_info lib msg of
             Inl ret \<Rightarrow> (Some (while_indexing (''g2_info failed (code '' @ show_int ret @ '')'') path), idx)
           | Inr (discipline, numfields) \<Rightarrow> index_fields lib path msg discipline lskip (nat numfields) 1 idx))"

text \<open>The scan need not end for a library that goes back; not returning is \<open>None\<close>.\<close>

partial_function (option) scan_messages ::
  "g2c \<Rightarrow> string \<Rightarrow> byte list \<Rightarrow> int \<Rightarrow> record_index \<Rightarrow> (exn option \<times> record_index) option" where
  "scan_messages lib path file seek_from idx =
     (let (lskip, lgrib) = seekgb lib file seek_from mseek
      in if lgrib = 0 then Some (None, idx)
         else case index_message lib path file lskip lgrib idx of
                (Some x, idx') \<Rightarrow> Some (Some x, idx')
              | (None, idx') \<Rightarrow> scan_messages lib path file (lskip + lgrib) idx')"

definition build_record_index :: "g2c \<Rightarrow> string \<Rightarrow> files \<Rightarrow> (exn option \<times> record_index) option" where
  "build_record_index lib path fs =
     (case fs path of
        None \<Rightarrow> Some (Some (runtime_error (''GRIB2_Driver::open_read: failed to open input file '' @ quoted path @ '' for reading.'')), Map.empty)
      | Some file \<Rightarrow> scan_messages lib path file 0 Map.empty)"


section \<open>Opening for reading\<close>

definition open_read :: "g2c \<Rightarrow> file_env \<Rightarrow> manifest \<Rightarrow> grib2_driver \<Rightarrow> files \<Rightarrow> (exn option \<times> grib2_driver) option" where
  "open_read lib env m d fs =
     (if gd_initialized d then Some (None, d)
      else case read_settings (fe_get_or env) m of
        Inl x \<Rightarrow> Some (Some x, d)
      | Inr s \<Rightarrow>
          let d1 = d\<lparr>gd_settings := s\<rparr>
          in case first_string m [''path'', ''input_path'', ''output_path''] (gd_input_path d1) of
               Inl x \<Rightarrow> Some (Some x, d1)
             | Inr p \<Rightarrow>
                 let d2 = d1\<lparr>gd_input_path := p\<rparr>
                 in if p = [] then
                      Some (Some (runtime_error (''GRIB2_Driver::open_read: 'path' (or 'input_path') field is required.'')), d2)
                    else case build_record_index lib p fs of
                      None \<Rightarrow> None
                    | Some (Some x, idx) \<Rightarrow> Some (Some x, d2\<lparr>gd_records := idx\<rparr>)
                    | Some (None, idx) \<Rightarrow> Some (None, d2\<lparr>gd_records := idx, gd_read_mode := True, gd_initialized := True\<rparr>))"

definition field_shape :: "grib_field_index \<Rightarrow> amio_shape" where
  "field_shape e =
     (if fi_nj e > 1 then empty_shape\<lparr>sh_rank := 2, sh_extents := (sh_extents empty_shape)[0 := fi_nj e, 1 := fi_ni e]\<rparr>
      else empty_shape\<lparr>sh_rank := 1, sh_extents := (sh_extents empty_shape)[0 := fi_ni e]\<rparr>)"

definition describe_variable :: "string \<Rightarrow> grib2_driver \<Rightarrow> variable_info" where
  "describe_variable name d =
     (if \<not> gd_initialized d \<or> \<not> gd_read_mode d then VariableInfo
      else case gd_records d name of
        None \<Rightarrow> VariableInfo
      | Some e \<Rightarrow>
          if fi_records e = [] then VariableInfo
          else \<lparr>vi_found = True, vi_dtype = AMIO_DTYPE_F32, vi_shape = field_shape e,
                vi_total_timesteps = int (length (fi_records e))\<rparr>)"


section \<open>Reading\<close>

abbreviation read_error :: "string \<Rightarrow> 'a effect" where
  "read_error msg \<equiv> Throws (runtime_error (''GRIB2_Driver::read: '' @ msg))"

definition grid_extents :: "grib_field_index \<Rightarrow> int \<Rightarrow> int list" where
  "grid_extents e ngrdpts = (if fi_nj e > 1 then [fi_nj e, fi_ni e] else [ngrdpts])"

text \<open>The delivery of the decoded grid \<open>full\<close> into a buffer of the given capacity.\<close>

definition deliver :: "string \<Rightarrow> nat \<Rightarrow> float4 list \<Rightarrow> int list \<Rightarrow> amio_bbox option \<Rightarrow> (byte list \<times> nat) effect" where
  "deliver name capacity full grid bbox =
     (case bbox of
        None \<Rightarrow>
          let payload = size_t (length full * 4)
          in if payload > capacity then read_error ''decoded payload exceeds staging buffer capacity.''
             else Done (take payload (concat full), payload)
      | Some b \<Rightarrow>
          if bb_rank b \<noteq> int (length grid) then read_error ''bounding-box rank does not match field rank.''
          else
            case check_box (take (length grid) (bb_offsets b)) (take (length grid) (bb_extents b)) (take (length grid) (bb_strides b)) grid 1 of
              Box_Invalid \<Rightarrow> read_error (''invalid bounding box for field '' @ quoted name @ ''.'')
            | Box_Exceeds \<Rightarrow> read_error (''bounding box exceeds field extents for '' @ quoted name @ ''.'')
            | Box_Elems n \<Rightarrow>
                let payload = size_t (n * 4)
                in if payload > capacity then read_error ''sub-region exceeds staging buffer capacity.''
                   else if payload < n * 4 then Beyond
                   else case gather_box full grid b n of
                     None \<Rightarrow> Beyond
                   | Some xs \<Rightarrow> Done (concat xs, payload))"

definition driver_read ::
  "g2c \<Rightarrow> files \<Rightarrow> grib2_driver \<Rightarrow> nat \<Rightarrow> var_meta \<Rightarrow> int \<Rightarrow> amio_bbox option \<Rightarrow> (byte list \<times> nat) effect" where
  "driver_read lib fs d capacity meta timestep bbox =
     (if \<not> gd_initialized d then Throws (runtime_error ''GRIB2_Driver::read called before successful initialization'')
      else if \<not> gd_read_mode d then read_error ''driver was not opened for reading.''
      else case gd_records d (vm_name meta) of
        None \<Rightarrow> read_error (''field '' @ quoted (vm_name meta) @ '' not found in the GRIB2 record index.'')
      | Some e \<Rightarrow>
          if fi_records e = [] then read_error (''field '' @ quoted (vm_name meta) @ '' not found in the GRIB2 record index.'')
          else if timestep < 0 \<or> timestep \<ge> int (length (fi_records e)) then
            read_error (''timestep '' @ show_int timestep @ '' out of range for field '' @ quoted (vm_name meta) @ '' (''
              @ show_nat (length (fi_records e)) @ '' records).'')
          else
            let loc = fi_records e ! nat timestep
            in if rl_length loc \<le> 0 then read_error (''invalid record length for field '' @ quoted (vm_name meta) @ ''.'')
               else case fs (gd_input_path d) of
                 None \<Rightarrow> read_error (''failed to open input file '' @ quoted (gd_input_path d) @ '' for reading.'')
               | Some file \<Rightarrow>
                   if rl_offset loc < 0 then read_error (''seek failed decoding field '' @ quoted (vm_name meta) @ ''.'')
                   else case fread_at file (rl_offset loc) (rl_length loc) of
                     None \<Rightarrow> read_error (''short read decoding field '' @ quoted (vm_name meta) @ ''.'')
                   | Some msg \<Rightarrow>
                       (case g2_getfld lib msg (rl_field_number loc) True of
                          (ret, None) \<Rightarrow>
                            read_error (''g2_getfld failed (code '' @ show_int ret @ '') decoding field '' @ quoted (vm_name meta) @ ''.'')
                        | (ret, Some g) \<Rightarrow>
                            if ret \<noteq> 0 then
                              read_error (''g2_getfld failed (code '' @ show_int ret @ '') decoding field '' @ quoted (vm_name meta) @ ''.'')
                            else if gf_ngrdpts g \<le> 0 \<or> gf_fld g = None then
                              read_error (''decoded field '' @ quoted (vm_name meta) @ '' has no grid-point data.'')
                            else if length (the (gf_fld g)) < nat (gf_ngrdpts g) then Beyond
                            else deliver (vm_name meta) capacity (take (nat (gf_ngrdpts g)) (the (gf_fld g)))
                                   (grid_extents e (gf_ngrdpts g)) bbox))"


section \<open>Flushing and closing\<close>

text \<open>Both ignore what the library returns, so a failure to write the buffer out goes unnoticed.\<close>

definition driver_flush :: "file_env \<Rightarrow> grib2_driver \<Rightarrow> files \<Rightarrow> grib2_driver \<times> files" where
  "driver_flush env d fs =
     (case gd_out_file d of None \<Rightarrow> (d, fs) | Some p \<Rightarrow> write_out (fe_fflush env (gd_pending d)) p d fs)"

definition driver_close :: "file_env \<Rightarrow> grib2_driver \<Rightarrow> files \<Rightarrow> grib2_driver \<times> files" where
  "driver_close env d fs =
     (if \<not> gd_initialized d then (d, fs)
      else
        let (d1, fs1) = (case gd_out_file d of None \<Rightarrow> (d, fs) | Some p \<Rightarrow> write_out (fe_fflush env (gd_pending d)) p d fs)
        in (d1\<lparr>gd_out_file := None, gd_pending := [], gd_records := Map.empty, gd_read_mode := False, gd_input_path := [],
               gd_initialized := False\<rparr>, fs1))"


section \<open>The scan ends\<close>

text \<open>What g2c documents of the search: a message is found at or after the position it starts from.\<close>

definition seek_forward :: "g2c \<Rightarrow> byte list \<Rightarrow> bool" where
  "seek_forward lib file \<longleftrightarrow>
     (\<forall>pos \<ge> 0. snd (seekgb lib file pos mseek) \<noteq> 0 \<longrightarrow> pos \<le> fst (seekgb lib file pos mseek))"

lemma index_message_inside:
  assumes "index_message lib path file lskip lgrib idx = (None, idx')"
  shows "0 \<le> lskip" and "0 \<le> lgrib" and "lskip + lgrib \<le> int (length file)"
  using assms by (auto simp: index_message_def fread_at_def segment_def split: if_splits option.splits)

lemma scan_returns:
  assumes "seek_forward lib file"
  shows "0 \<le> pos \<Longrightarrow> \<exists>r. scan_messages lib path file pos idx = Some r"
proof (induction "nat (int (length file) - pos)" arbitrary: pos idx rule: less_induct)
  case less
  obtain lskip lgrib where sk: "seekgb lib file pos mseek = (lskip, lgrib)" by fastforce
  show ?case
  proof (cases "lgrib = 0")
    case False
    then have fwd: "pos \<le> lskip" using assms less.prems sk unfolding seek_forward_def by (metis fst_conv snd_conv)
    obtain x idx' where im: "index_message lib path file lskip lgrib idx = (x, idx')" by fastforce
    show ?thesis
    proof (cases x)
      case None
      note b = index_message_inside [OF im [unfolded None]]
      have "nat (int (length file) - (lskip + lgrib)) < nat (int (length file) - pos)" using fwd b False by linarith
      then have "\<exists>r. scan_messages lib path file (lskip + lgrib) idx' = Some r" using b by (intro less.hyps) linarith+
      then show ?thesis using sk im None False by (subst scan_messages.simps) simp
    qed (use sk im False in \<open>subst scan_messages.simps, simp\<close>)
  qed (use sk in \<open>subst scan_messages.simps, simp\<close>)
qed


section \<open>What the encoder wrote\<close>

text \<open>\<open>m\<close> is the message the library makes of a field.\<close>

definition message :: "g2c \<Rightarrow> grib2_settings \<Rightarrow> grib2_drt \<Rightarrow> int \<Rightarrow> int \<Rightarrow> float4 list \<Rightarrow> byte list \<Rightarrow> bool" where
  "message lib s drt ni nj fld m \<longleftrightarrow>
     (\<exists>m0 gdt m1 pdt m2.
        g2_create lib (listsec0 s) (listsec1 s) = Some m0 \<and> build_gdt s ni nj = Some gdt
        \<and> g2_addgrid lib (igds s ni nj) gdt m0 = Some m1 \<and> build_pdt s = Some pdt
        \<and> g2_addfield lib (gs_pdt_number s) pdt (drt_number drt) (build_drs_template drt s) fld m1 = Some m2
        \<and> g2_gribend lib m2 = Some m)"

definition field_data :: "staging_buffer \<Rightarrow> amio_shape \<Rightarrow> byte list option" where
  "field_data src shape =
     (let storage = (case sb_data src of None \<Rightarrow> [] | Some bytes \<Rightarrow> bytes)
      in if is_contiguous_row_major shape then Some storage else pack_row_major storage shape 4)"

lemma encoded_Done: "encoded n msg r k = Done x \<longleftrightarrow> (\<exists>m. r = Some m \<and> length m \<le> n \<and> k m = Done x)"
  by (auto simp: encoded_def split: option.splits)

lemma encode_message_Done:
  assumes "encode_message lib s drt ni nj n data = Done m"
  shows "n * 4 \<le> length data \<and> message lib s drt ni nj (chunks4 (take (n * 4) data)) m"
  using assms unfolding encode_message_def message_def Let_def
  by (auto simp: encoded_Done split: option.splits if_splits)

text \<open>What a stream holds: the file, and the bytes in the buffer.\<close>

definition stream :: "string \<Rightarrow> grib2_driver \<Rightarrow> files \<Rightarrow> byte list" where
  "stream p d fs = contents p fs @ gd_pending d"

lemma write_out_stream:
  assumes "write_out k p d fs = (d', fs')"
  shows "stream p d' fs' = stream p d fs" and "d' = d\<lparr>gd_pending := gd_pending d'\<rparr>" and "q \<noteq> p \<Longrightarrow> fs' q = fs q"
    and "\<exists>n. fs' p = Some (take n (stream p d fs))"
proof -
  show "stream p d' fs' = stream p d fs" "d' = d\<lparr>gd_pending := gd_pending d'\<rparr>" "q \<noteq> p \<Longrightarrow> fs' q = fs q"
    using assms by (auto simp: write_out_def stream_def contents_def)
  show "\<exists>n. fs' p = Some (take n (stream p d fs))"
    using assms by (intro exI [of _ "length (contents p fs) + k"]) (auto simp: write_out_def stream_def)
qed

lemma commit_stream:
  assumes "commit env d m fs = (res, d', fs')" and "gd_out_file d = Some p"
  defines "k \<equiv> min (length m) (fe_fwrite env (stream p d fs) m)"
  shows "stream p d' fs' = stream p d fs @ take k m" and "d' = d\<lparr>gd_pending := gd_pending d'\<rparr>" and "q \<noteq> p \<Longrightarrow> fs' q = fs q"
    and "res = (if k = length m then Done () else Throws (runtime_error ''GRIB2_Driver::write: short write committing GRIB2 message to disk.''))"
    and "\<exists>n. fs' p = Some (take n (stream p d' fs'))"
proof -
  let ?d1 = "d\<lparr>gd_pending := gd_pending d @ take k m\<rparr>"
  have w: "write_out (fe_spill env (gd_pending ?d1)) p ?d1 fs = (d', fs')"
    using assms(1,2) by (auto simp: commit_def Let_def k_def stream_def split: if_splits)
  note s = write_out_stream [OF w]
  show st: "stream p d' fs' = stream p d fs @ take k m" using s(1) by (simp add: stream_def)
  show "d' = d\<lparr>gd_pending := gd_pending d'\<rparr>" using s(2) by (cases d'; cases d) simp
  show "q \<noteq> p \<Longrightarrow> fs' q = fs q" by (rule s(3))
  show "res = (if k = length m then Done () else Throws (runtime_error ''GRIB2_Driver::write: short write committing GRIB2 message to disk.''))"
    using assms(1,2) by (auto simp: commit_def Let_def k_def stream_def split: if_splits)
  show "\<exists>n. fs' p = Some (take n (stream p d' fs'))" using s(4) unfolding s(1) .
qed

lemma driver_write_Done:
  assumes "driver_write lib env src meta d fs = (Done u, d', fs')" and "gd_out_file d = Some p"
    and "(ni, nj) = grid_dims (vm_shape meta)" and "n = total_elements (vm_shape meta)"
  shows "\<exists>data m. field_data src (vm_shape meta) = Some data \<and> n * 4 \<le> length data \<and> 0 < n
    \<and> message lib (gd_settings d) (gd_active_drt d) ni nj (chunks4 (take (n * 4) data)) m
    \<and> stream p d' fs' = stream p d fs @ m \<and> d' = d\<lparr>gd_pending := gd_pending d'\<rparr>"
proof -
  have dt: "vm_dtype meta = AMIO_DTYPE_F32" and n: "n \<noteq> 0"
    using assms(1,4) by (auto simp: driver_write_def Let_def split: if_splits)
  have g: "grid_dims (vm_shape meta) = (ni, nj)" using assms(3) by simp
  obtain data m where "field_data src (vm_shape meta) = Some data" and m: "encode_message lib (gd_settings d) (gd_active_drt d) ni nj n data = Done m"
    and c: "commit env d m fs = (Done u, d', fs')"
    using assms(1) dt n g assms(4)
    by (auto simp: driver_write_def Let_def field_data_def split: if_splits option.splits effect.splits)
  moreover have "stream p d' fs' = stream p d fs @ m"
    using commit_stream(1,4) [OF c assms(2)] by (simp split: if_splits)
  ultimately show ?thesis using n commit_stream(2) [OF c assms(2)] encode_message_Done [OF m] by blast
qed


section \<open>Reading back what was written\<close>

text \<open>
  What g2c documents of its messages, for settings \<open>s\<close> whose values fit the octets of the templates: a message
  is not empty and is found by a search that starts at it; nothing is found at the end of a file; the
  sections read back as they were given; \<open>q\<close> is the effect of packing and unpacking on the values, which keeps
  their number.
\<close>

definition codec_ok :: "g2c \<Rightarrow> (float4 list \<Rightarrow> float4 list) \<Rightarrow> grib2_settings \<Rightarrow> grib2_drt \<Rightarrow> bool" where
  "codec_ok lib q s drt \<longleftrightarrow>
     (\<forall>ni nj fld m. message lib s drt ni nj fld m \<and> 0 < ni \<and> 0 < nj \<and> length fld = nat (ni * nj) \<longrightarrow>
        m \<noteq> []
        \<and> (\<forall>pre post. seekgb lib (pre @ m @ post) (int (length pre)) mseek = (int (length pre), int (length m)))
        \<and> g2_info lib m = Inr (gs_discipline s, 1)
        \<and> (\<forall>unpack. \<exists>g. g2_getfld lib m 1 unpack = (0, Some g) \<and> gf_ipdtnum g = gs_pdt_number s
              \<and> gf_ipdtmpl g = build_pdt s \<and> gf_igdtmpl g = build_gdt s ni nj \<and> gf_ngrdpts g = ni * nj
              \<and> (unpack \<longrightarrow> gf_fld g = Some (q fld)))
        \<and> length (q fld) = length fld \<and> (\<forall>x \<in> set (q fld). length x = 4))
     \<and> (\<forall>file. snd (seekgb lib file (int (length file)) mseek) = 0)"

definition written :: "g2c \<Rightarrow> grib2_settings \<Rightarrow> grib2_drt \<Rightarrow> float4 list \<Rightarrow> byte list \<Rightarrow> bool" where
  "written lib s drt fld m \<longleftrightarrow>
     (\<exists>ni nj. message lib s drt ni nj fld m \<and> 0 < ni \<and> 0 < nj \<and> length fld = nat (ni * nj))"

definition recs :: "record_index \<Rightarrow> string \<Rightarrow> grib_record_location list" where
  "recs idx key = (case idx key of None \<Rightarrow> [] | Some e \<Rightarrow> fi_records e)"

primrec locations :: "nat \<Rightarrow> byte list list \<Rightarrow> grib_record_location list" where
  "locations pos [] = []"
| "locations pos (m # ms) = \<lparr>rl_offset = int pos, rl_length = int (length m), rl_field_number = 1\<rparr> # locations (pos + length m) ms"

lemma recs_add_record: "recs (add_record key g loc idx) k = (if k = key then recs idx key @ [loc] else recs idx k)"
  by (simp add: recs_def add_record_def Let_def split: option.splits prod.splits)

lemma message_pdt: "message lib s drt ni nj fld m \<Longrightarrow> \<exists>pdt. build_pdt s = Some pdt"
  by (auto simp: message_def)

lemma written_decodes:
  assumes "codec_ok lib q s drt" and "written lib s drt fld m"
  shows "\<exists>g. g2_getfld lib m 1 unpack = (0, Some g) \<and> field_key (gs_discipline s) g = settings_identity s
    \<and> gf_ngrdpts g = int (length fld) \<and> 0 < length fld \<and> (unpack \<longrightarrow> gf_fld g = Some (q fld))"
proof -
  obtain ni nj where w: "message lib s drt ni nj fld m" "0 < ni" "0 < nj" "length fld = nat (ni * nj)"
    using assms(2) unfolding written_def by blast
  then obtain g where g: "g2_getfld lib m 1 unpack = (0, Some g)" "gf_ipdtnum g = gs_pdt_number s" "gf_ipdtmpl g = build_pdt s"
    "gf_ngrdpts g = ni * nj" "unpack \<longrightarrow> gf_fld g = Some (q fld)"
    using assms(1) unfolding codec_ok_def by metis
  obtain pdt where pdt: "build_pdt s = Some pdt" using message_pdt [OF w(1)] by blast
  have "field_key (gs_discipline s) g = settings_identity s"
    using identity_decoded [OF pdt] g pdt by (simp add: field_key_def)
  with g w show ?thesis by simp
qed

lemma written_found:
  assumes "codec_ok lib q s drt" and "written lib s drt fld m"
  shows "m \<noteq> []" and "seekgb lib (pre @ m @ post) (int (length pre)) mseek = (int (length pre), int (length m))"
    and "g2_info lib m = Inr (gs_discipline s, 1)" and "length (q fld) = length fld" and "\<forall>x \<in> set (q fld). length x = 4"
  using assms unfolding codec_ok_def written_def by blast+

lemma segment_middle: "segment (pre @ m @ post) (length pre) (length m) = Some m"
  by (simp add: segment_def)

lemma index_written:
  assumes "codec_ok lib q s drt" and "written lib s drt fld m"
  shows "\<exists>g. index_message lib path (pre @ m @ post) (int (length pre)) (int (length m)) idx
    = (None, add_record (settings_identity s) g \<lparr>rl_offset = int (length pre), rl_length = int (length m), rl_field_number = 1\<rparr> idx)"
  using written_decodes [OF assms, of False] written_found [OF assms]
  by (auto simp: index_message_def fread_at_def segment_middle)

lemma scan_written:
  assumes "codec_ok lib q s drt"
  shows "\<forall>m \<in> set ms. \<exists>fld. written lib s drt fld m \<Longrightarrow>
    \<exists>idx'. scan_messages lib path (pre @ concat ms) (int (length pre)) idx = Some (None, idx')
      \<and> recs idx' (settings_identity s) = recs idx (settings_identity s) @ locations (length pre) ms"
proof (induction ms arbitrary: pre idx)
  case Nil
  have "snd (seekgb lib pre (int (length pre)) mseek) = 0" using assms unfolding codec_ok_def by blast
  then obtain x where "seekgb lib pre (int (length pre)) mseek = (x, 0)" by (metis prod.collapse)
  then show ?case by (subst scan_messages.simps) simp
next
  case (Cons m ms)
  then obtain fld where w: "written lib s drt fld m" by auto
  note found = written_found [OF assms w]
  obtain g where im: "index_message lib path (pre @ m @ concat ms) (int (length pre)) (int (length m)) idx
      = (None, add_record (settings_identity s) g \<lparr>rl_offset = int (length pre), rl_length = int (length m), rl_field_number = 1\<rparr> idx)"
    (is "_ = (None, ?idx1)")
    using index_written [OF assms w] by blast
  have "scan_messages lib path (pre @ concat (m # ms)) (int (length pre)) idx
      = scan_messages lib path ((pre @ m) @ concat ms) (int (length (pre @ m))) ?idx1"
    by (subst scan_messages.simps) (use found(1,2) im in \<open>simp\<close>)
  moreover obtain idx' where "scan_messages lib path ((pre @ m) @ concat ms) (int (length (pre @ m))) ?idx1 = Some (None, idx')"
      "recs idx' (settings_identity s) = recs ?idx1 (settings_identity s) @ locations (length (pre @ m)) ms"
    using Cons.IH [of "pre @ m" ?idx1] Cons.prems by auto
  ultimately show ?case by (simp add: recs_add_record)
qed

text \<open>A sequence of writes that all succeed.\<close>

fun run_writes ::
  "g2c \<Rightarrow> file_env \<Rightarrow> grib2_driver \<Rightarrow> (staging_buffer \<times> var_meta) list \<Rightarrow> files \<Rightarrow> (grib2_driver \<times> files) option" where
  "run_writes lib env d [] fs = Some (d, fs)"
| "run_writes lib env d ((src, meta) # ws) fs =
     (case driver_write lib env src meta d fs of
        (Done _, d', fs') \<Rightarrow> run_writes lib env d' ws fs'
      | _ \<Rightarrow> None)"

definition plane :: "amio_shape \<Rightarrow> bool" where
  "plane s \<longleftrightarrow> wf_shape s \<and> validate_shape s \<and> sh_rank s \<le> 2 \<and> elements (dims s) < 2 ^ 63"

lemma plane_grid:
  assumes "plane s" and "grid_dims s = (ni, nj)"
  shows "0 < ni" and "0 < nj" and "ni * nj = int (total_elements s)"
proof -
  from assms(1) have ok: "validate_shape s" "wf_shape s" "sh_rank s \<le> 2" "elements (dims s) < 2 ^ 64"
    by (simp_all add: plane_def)
  note d = valid_dims [OF ok(1,2)]
  have t: "total_elements s = elements (dims s)" unfolding total_elements_eq [OF ok(1,2)] by (rule size_t_id [OF ok(4)])
  have N: "0 < elements (dims s)" using d(1) by (rule elements_pos)
  consider "sh_rank s = 1" | "sh_rank s = 2" using d(4) ok(3) by linarith
  then have "0 < ni \<and> 0 < nj \<and> ni * nj = int (total_elements s)"
  proof cases
    case 1
    then show ?thesis using assms(2) N t by (auto simp: grid_dims_def)
  next
    case 2
    have "2 \<le> length (sh_extents s)" using ok(2) by (simp add: wf_shape_def AMIO_MAX_RANK_def)
    then obtain e0 e1 es where "sh_extents s = e0 # e1 # es" by (cases "sh_extents s"; cases "tl (sh_extents s)") auto
    moreover from this 2 have "dims s = [e0, e1]" by (simp add: dims_def)
    moreover have "0 < e0" "0 < e1" using d(1) \<open>dims s = [e0, e1]\<close> by simp_all
    ultimately show ?thesis using assms(2) 2 t by (auto simp: grid_dims_def)
  qed
  then show "0 < ni" "0 < nj" "ni * nj = int (total_elements s)" by simp_all
qed

lemma length_chunks4: "length (chunks4 xs) = length xs div 4"
  by (induction xs rule: chunks4.induct) simp_all

text \<open>The values of a field that was written.\<close>

definition field_values :: "staging_buffer \<Rightarrow> var_meta \<Rightarrow> float4 list" where
  "field_values src meta =
     (case field_data src (vm_shape meta) of
        None \<Rightarrow> []
      | Some data \<Rightarrow> chunks4 (take (total_elements (vm_shape meta) * 4) data))"

lemma driver_write_written:
  assumes "driver_write lib env src meta d fs = (Done u, d', fs')" and "gd_out_file d = Some p" and "plane (vm_shape meta)"
  shows "\<exists>m. written lib (gd_settings d) (gd_active_drt d) (field_values src meta) m \<and> stream p d' fs' = stream p d fs @ m
    \<and> d' = d\<lparr>gd_pending := gd_pending d'\<rparr>"
proof -
  obtain ni nj where g: "grid_dims (vm_shape meta) = (ni, nj)" by fastforce
  obtain data m where w: "field_data src (vm_shape meta) = Some data" "total_elements (vm_shape meta) * 4 \<le> length data"
    "message lib (gd_settings d) (gd_active_drt d) ni nj (chunks4 (take (total_elements (vm_shape meta) * 4) data)) m"
    "stream p d' fs' = stream p d fs @ m" "d' = d\<lparr>gd_pending := gd_pending d'\<rparr>"
    using driver_write_Done [OF assms(1,2) g [symmetric] refl] by blast
  then have v: "field_values src meta = chunks4 (take (total_elements (vm_shape meta) * 4) data)"
    by (simp add: field_values_def)
  then have "length (field_values src meta) = total_elements (vm_shape meta)" using w(2) by (simp add: length_chunks4)
  then have "length (field_values src meta) = nat (ni * nj)" using plane_grid(3) [OF assms(3) g] by simp
  then show ?thesis using w(3-5) plane_grid(1,2) [OF assms(3) g] v unfolding written_def by metis
qed

lemma run_writes_written:
  "run_writes lib env d ws fs = Some (d', fs') \<Longrightarrow> gd_out_file d = Some p \<Longrightarrow> \<forall>(src, meta) \<in> set ws. plane (vm_shape meta) \<Longrightarrow>
   \<exists>ms. stream p d' fs' = stream p d fs @ concat ms \<and> d' = d\<lparr>gd_pending := gd_pending d'\<rparr>
     \<and> list_all2 (\<lambda>(src, meta) m. written lib (gd_settings d) (gd_active_drt d) (field_values src meta) m) ws ms"
proof (induction ws arbitrary: d fs)
  case (Cons w ws)
  obtain src meta where w: "w = (src, meta)" by fastforce
  obtain u d1 fs1 where dw: "driver_write lib env src meta d fs = (Done u, d1, fs1)" and rest: "run_writes lib env d1 ws fs1 = Some (d', fs')"
    using Cons.prems(1) w by (auto split: prod.splits effect.splits)
  have "plane (vm_shape meta)" using Cons.prems(3) w by auto
  from driver_write_written [OF dw Cons.prems(2) this] obtain m
    where m: "written lib (gd_settings d) (gd_active_drt d) (field_values src meta) m" "stream p d1 fs1 = stream p d fs @ m"
      and d1: "d1 = d\<lparr>gd_pending := gd_pending d1\<rparr>"
    by blast
  have s: "gd_settings d1 = gd_settings d" "gd_active_drt d1 = gd_active_drt d" "gd_out_file d1 = gd_out_file d"
    by (subst d1, simp)+
  obtain ms where "stream p d' fs' = (stream p d fs @ m) @ concat ms" and d': "d' = d1\<lparr>gd_pending := gd_pending d'\<rparr>"
     and "list_all2 (\<lambda>(src, meta) m. written lib (gd_settings d) (gd_active_drt d) (field_values src meta) m) ws ms"
    using Cons.IH [OF rest] Cons.prems(2,3) m(2) s by auto
  moreover have "d' = d\<lparr>gd_pending := gd_pending d'\<rparr>" by (subst d', subst d1) simp
  ultimately show ?case using m w by (intro exI [of _ "m # ms"]) simp
qed simp

text \<open>Closing a stream whose buffer can be written out: the file then holds the stream.\<close>

lemma close_stream:
  assumes "driver_close env d fs = (d', fs')" and "gd_initialized d" and "gd_out_file d = Some p"
    and "length (gd_pending d) \<le> fe_fflush env (gd_pending d)"
  shows "fs' p = Some (stream p d fs)"
  using assms by (auto simp: driver_close_def write_out_def stream_def)

lemma length_locations [simp]: "length (locations pos ms) = length ms"
  by (induction ms arbitrary: pos) simp_all

lemma nth_locations:
  "t < length ms \<Longrightarrow> locations pos ms ! t =
     \<lparr>rl_offset = int (pos + length (concat (take t ms))), rl_length = int (length (ms ! t)), rl_field_number = 1\<rparr>"
proof (induction ms arbitrary: pos t)
  case (Cons m ms)
  then show ?case by (cases t) simp_all
qed simp

lemma segment_concat: "t < length ms \<Longrightarrow> segment (concat ms) (length (concat (take t ms))) (length (ms ! t)) = Some (ms ! t)"
  using segment_middle [of "concat (take t ms)" "ms ! t" "concat (drop (Suc t) ms)"]
  by (metis concat.simps(2) concat_append id_take_nth_drop)

lemma length_concat_floats: "\<forall>x \<in> set xs. length x = 4 \<Longrightarrow> length (concat xs) = length xs * 4"
  by (induction xs) simp_all

lemma read_written:
  assumes "codec_ok lib q s drt" and "gd_initialized d" and "gd_read_mode d" and "fs (gd_input_path d) = Some (concat ms)"
    and "recs (gd_records d) (vm_name meta) = locations 0 ms" and "t < length ms" and "written lib s drt fld (ms ! t)"
    and "length fld * 4 \<le> capacity" and "capacity < 2 ^ 64"
  shows "driver_read lib fs d capacity meta (int t) None = Done (concat (q fld), length fld * 4)"
proof -
  obtain e where e: "gd_records d (vm_name meta) = Some e" "fi_records e = locations 0 ms"
    using assms(5,6) by (cases "gd_records d (vm_name meta)"; cases ms) (auto simp: recs_def)
  note found = written_found [OF assms(1,7)]
  obtain g where g: "g2_getfld lib (ms ! t) 1 True = (0, Some g)" "gf_ngrdpts g = int (length fld)" "0 < length fld" "gf_fld g = Some (q fld)"
    using written_decodes [OF assms(1,7), of True] by auto
  have "locations 0 ms \<noteq> []" using assms(6) by (cases ms) auto
  moreover have "size_t (length fld * 4) = length fld * 4" using assms(8,9) by (intro size_t_id) linarith
  moreover have "length (concat (q fld)) = length fld * 4" using length_concat_floats [OF found(5)] found(4) by simp
  moreover have "fread_at (concat ms) (int (length (concat (take t ms)))) (int (length (ms ! t))) = Some (ms ! t)"
    using segment_concat [OF assms(6)] by (simp add: fread_at_def)
  ultimately show ?thesis
    using assms(2-4,6,8) e g found(1,4)
    by (simp add: driver_read_def Let_def nth_locations deliver_def del: length_concat)
qed

lemma open_write_stream:
  assumes "open_write env m GRIB2_Driver fs = (None, d, fs1)" and "first_string m [''path'', ''output_path''] [] = Inr p"
  shows "gd_initialized d" and "if p = [] then gd_out_file d = None \<and> fs1 = fs else gd_out_file d = Some p \<and> gd_pending d = [] \<and> fs1 = fs(p \<mapsto> [])"
  using assms
  by (auto simp: open_write_def initialize_def GRIB2_Driver_def Let_def simp del: first_string.simps split: sum.splits if_splits)

lemma open_read_written:
  assumes "codec_ok lib q s drt" and "\<forall>m \<in> set ms. \<exists>fld. written lib s drt fld m" and "fs p = Some (concat ms)"
    and "read_settings (fe_get_or env) m = Inr s'" and "first_string m [''path'', ''input_path'', ''output_path''] [] = Inr p" and "p \<noteq> []"
  shows "\<exists>r. open_read lib env m GRIB2_Driver fs = Some (None, r) \<and> gd_initialized r \<and> gd_read_mode r \<and> gd_input_path r = p
    \<and> recs (gd_records r) (settings_identity s) = locations 0 ms"
  using scan_written [OF assms(1,2), of p "[]" Map.empty] assms(3-6)
  by (auto simp: open_read_def build_record_index_def GRIB2_Driver_def Let_def recs_def simp del: first_string.simps)

end
