(* ===== verification/Grib2_Properties.thy ===== *)
theory Grib2_Properties
  imports Grib2_Driver
begin

text \<open>
  Properties of the GRIB2 driver as a whole, with a small library for the witnesses: its only messages are
  those of two-point fields with the default settings, a marker byte followed by the two values.
\<close>


section \<open>A small library\<close>

definition tiny_grid :: "int list" where
  "tiny_grid = build_gdt_3_0 Grib2Settings 2 1"

definition tiny_field :: "byte list \<Rightarrow> gribfield" where
  "tiny_field m =
     \<lparr>gf_ipdtnum = 0, gf_ipdtmpl = Some (build_pdt_4_0 Grib2Settings), gf_igdtmpl = Some tiny_grid, gf_ngrdpts = 2,
      gf_fld = Some [take 4 (drop 1 m), drop 5 m]\<rparr>"

definition tiny_g2c :: g2c where
  "tiny_g2c =
     \<lparr>g2_create = (\<lambda>_ _. Some []),
      g2_addgrid = (\<lambda>_ gdt _. if gdt = tiny_grid then Some [] else None),
      g2_addfield = (\<lambda>_ _ _ _ fld _. if length fld = 2 \<and> list_all (\<lambda>x. length x = 4) fld then Some (concat fld) else None),
      g2_gribend = (\<lambda>m. Some (71 # m)),
      g2_info = (\<lambda>_. Inr (0, 1)),
      g2_getfld = (\<lambda>m _ _. (0, Some (tiny_field m))),
      seekgb = (\<lambda>file pos _. if pos < int (length file) then (pos, 9) else (pos, 0))\<rparr>"

lemma tiny_message:
  assumes "message tiny_g2c Grib2Settings drt ni nj fld m"
  shows "\<exists>x y. fld = [x, y] \<and> length x = 4 \<and> length y = 4 \<and> m = 71 # x @ y" and "build_gdt Grib2Settings ni nj = Some tiny_grid"
  using assms by (auto simp: message_def tiny_g2c_def numeral_2_eq_2 length_Suc_conv split: if_splits)

lemma tiny_pdt: "build_pdt Grib2Settings = Some (build_pdt_4_0 Grib2Settings)"
  by (simp add: build_pdt_def Grib2Settings_def)

lemma tiny_codec: "codec_ok tiny_g2c (\<lambda>fld. fld) Grib2Settings drt"
  unfolding codec_ok_def
proof (intro conjI allI impI)
  fix ni nj fld m
  assume a: "message tiny_g2c Grib2Settings drt ni nj fld m \<and> 0 < ni \<and> 0 < nj \<and> length fld = nat (ni * nj)"
  then obtain x y where m: "fld = [x, y]" "length x = 4" "length y = 4" "m = 71 # x @ y" using tiny_message(1) by blast
  have "nat (ni * nj) = 2" using a m(1) by simp
  then have pts: "ni * nj = 2" by linarith
  have gdt: "build_gdt Grib2Settings ni nj = Some tiny_grid" using tiny_message(2) a by blast
  have pdt_number: "gs_pdt_number Grib2Settings = 0" by (simp add: Grib2Settings_def)
  show "m \<noteq> []" using m by simp
  show "seekgb tiny_g2c (pre @ m @ post) (int (length pre)) mseek = (int (length pre), int (length m))" for pre post
    using m by (simp add: tiny_g2c_def)
  show "g2_info tiny_g2c m = Inr (gs_discipline Grib2Settings, 1)" by (simp add: tiny_g2c_def Grib2Settings_def)
  show "\<exists>g. g2_getfld tiny_g2c m 1 unpack = (0, Some g) \<and> gf_ipdtnum g = gs_pdt_number Grib2Settings
      \<and> gf_ipdtmpl g = build_pdt Grib2Settings \<and> gf_igdtmpl g = build_gdt Grib2Settings ni nj \<and> gf_ngrdpts g = ni * nj
      \<and> (unpack \<longrightarrow> gf_fld g = Some fld)" for unpack
    using m pts gdt tiny_pdt pdt_number by (simp add: tiny_g2c_def tiny_field_def)
  show "length fld = length fld" "\<forall>x \<in> set fld. length x = 4" using m by simp_all
qed (simp add: tiny_g2c_def)

text \<open>A manifest with a path and a template name, and nothing else.\<close>

definition tiny_manifest :: manifest where
  "tiny_manifest =
     \<lparr>mf_has = (\<lambda>k. k = ''path'' \<or> k = ''drt''), mf_int = (\<lambda>_. Inl (Key_Not_Found, [])), mf_int_list = (\<lambda>_. Inl (Key_Not_Found, [])),
      mf_string = (\<lambda>k. if k = ''path'' then Inr ''out.grib2'' else if k = ''drt'' then Inr ''libaec'' else Inl (Key_Not_Found, [])),
      mf_string_list = (\<lambda>_. Inl (Key_Not_Found, []))\<rparr>"

definition tiny_env :: file_env where
  "tiny_env = \<lparr>fe_can_create = (\<lambda>_. True), fe_fwrite = (\<lambda>_ data. length data), fe_spill = (\<lambda>_. 0), fe_fflush = length,
      fe_get_or = (\<lambda>_ _ _. Inr 0)\<rparr>"

lemma tiny_settings: "read_settings (fe_get_or tiny_env) tiny_manifest = Inr Grib2Settings"
  by (simp add: read_settings_def setting_fields_def cfg_int_def tiny_manifest_def Grib2Settings_def)

definition tiny_meta :: var_meta where
  "tiny_meta =
     \<lparr>vm_dataset_id = 1, vm_variable_id = 0, vm_name = settings_identity Grib2Settings, vm_dtype = AMIO_DTYPE_F32,
      vm_shape = \<lparr>sh_rank = 1, sh_extents = [2, 0, 0, 0, 0, 0, 0], sh_strides = [0, 0, 0, 0, 0, 0, 0]\<rparr>, vm_timestep = - 1\<rparr>"

definition tiny_buffer :: staging_buffer where
  "tiny_buffer = \<lparr>sb_data = Some [1, 2, 3, 4, 5, 6, 7, 8], sb_capacity = 8, sb_used = 8, sb_ref_count = 1, sb_seq = 0\<rparr>"

definition tiny_driver :: grib2_driver where
  "tiny_driver = GRIB2_Driver\<lparr>gd_output_path := ''out.grib2'', gd_out_file := Some ''out.grib2'', gd_initialized := True\<rparr>"

lemma tiny_path:
  "first_string tiny_manifest [''path'', ''output_path''] [] = Inr ''out.grib2''"
  "first_string tiny_manifest [''path'', ''input_path'', ''output_path''] [] = Inr ''out.grib2''"
  by (simp_all add: tiny_manifest_def)

lemma tiny_drt: "validate_drt tiny_manifest = Inr AdaptiveEntropyCoding"
  by (simp add: validate_drt_def tiny_manifest_def parse_drt_name_def tolower_def of_char_def)

lemma tiny_open_write: "open_write tiny_env tiny_manifest GRIB2_Driver fs = (None, tiny_driver, fs(''out.grib2'' \<mapsto> []))"
  using tiny_path(1)
  by (simp add: open_write_def tiny_drt initialize_def tiny_settings tiny_driver_def GRIB2_Driver_def del: first_string.simps)
     (simp add: tiny_env_def)

lemma tiny_plane: "plane (vm_shape tiny_meta)"
  by (simp add: plane_def tiny_meta_def wf_shape_def validate_shape_def dims_def in_i64_def AMIO_MAX_RANK_def)

lemma tiny_elements: "total_elements (vm_shape tiny_meta) = 2"
  by (simp add: total_elements_def tiny_meta_def dims_def AMIO_MAX_RANK_def to_size_t_def)

lemma tiny_contiguous: "is_contiguous_row_major (vm_shape tiny_meta)"
  by (simp add: is_contiguous_row_major_def tiny_meta_def strides_of_def AMIO_MAX_RANK_def)

lemma tiny_values: "field_values tiny_buffer tiny_meta = [[1, 2, 3, 4], [5, 6, 7, 8]]"
  by (simp add: field_values_def field_data_def tiny_contiguous tiny_elements) (simp add: tiny_buffer_def)

lemma tiny_encode:
  "encode_message tiny_g2c Grib2Settings AdaptiveEntropyCoding 2 1 2 [1, 2, 3, 4, 5, 6, 7, 8] = Done [71, 1, 2, 3, 4, 5, 6, 7, 8]"
proof -
  have "build_gdt Grib2Settings 2 1 = Some tiny_grid" by (simp add: build_gdt_def tiny_grid_def Grib2Settings_def)
  then show ?thesis by (simp add: encode_message_def encoded_def tiny_pdt tiny_g2c_def)
qed

text \<open>This stream keeps the message in its buffer until it is flushed or closed.\<close>

lemma tiny_write:
  assumes "fs ''out.grib2'' = Some []"
  shows "driver_write tiny_g2c tiny_env tiny_buffer tiny_meta tiny_driver fs
    = (Done (), tiny_driver\<lparr>gd_pending := [71, 1, 2, 3, 4, 5, 6, 7, 8]\<rparr>, fs)"
proof -
  have "grid_dims (vm_shape tiny_meta) = (2, 1)"
    using tiny_elements by (simp add: grid_dims_def) (simp add: tiny_meta_def)
  moreover have "vm_dtype tiny_meta = AMIO_DTYPE_F32" by (simp add: tiny_meta_def)
  moreover have "gd_initialized tiny_driver" "gd_settings tiny_driver = Grib2Settings" "gd_active_drt tiny_driver = AdaptiveEntropyCoding"
    "gd_out_file tiny_driver = Some ''out.grib2''" "gd_pending tiny_driver = []"
    by (simp_all add: tiny_driver_def GRIB2_Driver_def)
  moreover have "fs(''out.grib2'' \<mapsto> []) = fs" using assms by (simp add: fun_upd_idem)
  ultimately show ?thesis
    using assms tiny_encode
    by (simp add: driver_write_def tiny_elements tiny_contiguous commit_def write_out_def contents_def Let_def tiny_buffer_def)
       (simp add: tiny_env_def)
qed

lemma tiny_close:
  "driver_close tiny_env (tiny_driver\<lparr>gd_pending := [71, 1, 2, 3, 4, 5, 6, 7, 8]\<rparr>) [''out.grib2'' \<mapsto> []]
    = (tiny_driver\<lparr>gd_out_file := None, gd_initialized := False\<rparr>, [''out.grib2'' \<mapsto> [71, 1, 2, 3, 4, 5, 6, 7, 8]])"
  by (simp add: driver_close_def write_out_def contents_def tiny_driver_def GRIB2_Driver_def tiny_env_def)


section \<open>Properties\<close>

text \<open>
  C31.  Opening for reading always returns, with an exception or an opened driver, for every input file and
  manifest: the scan for messages ends, as long as the library's search never goes back.
\<close>

theorem open_read_returns:
  assumes "\<forall>path file. fs path = Some file \<longrightarrow> seek_forward lib file"
  shows "\<exists>x d'. open_read lib env m d fs = Some (x, d')"
proof -
  have "build_record_index lib path fs = None \<longleftrightarrow> False" for path
    using assms scan_returns [of lib _ 0 path Map.empty] by (cases "fs path") (auto simp: build_record_index_def)
  then have "open_read lib env m d fs \<noteq> None"
    by (simp add: open_read_def Let_def del: first_string.simps not_None_eq split: sum.splits option.splits prod.splits)
  then show ?thesis by (cases "open_read lib env m d fs") auto
qed

theorem open_read_returns_witness:
  "\<exists>x d'. open_read tiny_g2c tiny_env tiny_manifest GRIB2_Driver [''out.grib2'' \<mapsto> [71, 1, 2, 3, 4, 5, 6, 7, 8]] = Some (x, d')"
  by (rule open_read_returns) (simp add: seek_forward_def tiny_g2c_def)

text \<open>
  C30.  Writing and reading back: open a file for writing, write any fields of one or two dimensions, close it, open
  it for reading.  When the close could write out what was left in the buffer of the stream, the fields are found
  under the name the settings describe, as many time steps as there were writes, and reading the time step \<open>t\<close>
  delivers the values of the \<open>t\<close>-th write, up to the packing of the library.
\<close>

theorem write_read_roundtrip:
  assumes codec: "codec_ok lib q (gd_settings d) (gd_active_drt d)"
    and opened: "open_write env mw GRIB2_Driver fs0 = (None, d, fs)"
    and path: "first_string mw [''path'', ''output_path''] [] = Inr p" "p \<noteq> []"
    and writes: "run_writes lib env d ws fs = Some (d1, fs1)" "\<forall>(src, meta) \<in> set ws. plane (vm_shape meta)" "ws \<noteq> []"
    and closed: "driver_close env d1 fs1 = (d2, fs')" "length (gd_pending d1) \<le> fe_fflush env (gd_pending d1)"
    and reader: "read_settings (fe_get_or env) mr = Inr s" "first_string mr [''path'', ''input_path'', ''output_path''] [] = Inr p"
  shows "\<exists>r. open_read lib env mr GRIB2_Driver fs' = Some (None, r)
    \<and> vi_total_timesteps (describe_variable (settings_identity (gd_settings d)) r) = int (length ws)
    \<and> (\<forall>t < length ws. \<forall>meta capacity. vm_name meta = settings_identity (gd_settings d) \<longrightarrow> capacity < 2 ^ 64
         \<longrightarrow> length (case_prod field_values (ws ! t)) * 4 \<le> capacity
         \<longrightarrow> driver_read lib fs' r capacity meta (int t) None
             = Done (concat (q (case_prod field_values (ws ! t))), length (case_prod field_values (ws ! t)) * 4))"
proof -
  let ?s = "gd_settings d" and ?drt = "gd_active_drt d"
  have d: "gd_initialized d" "gd_out_file d = Some p" "stream p d fs = []"
    using open_write_stream [OF opened path(1)] path(2) by (simp_all add: stream_def contents_def)
  obtain ms where st: "stream p d1 fs1 = concat ms" and d1: "d1 = d\<lparr>gd_pending := gd_pending d1\<rparr>"
    and all2: "list_all2 (\<lambda>(src, meta) m. written lib ?s ?drt (field_values src meta) m) ws ms"
    using run_writes_written [OF writes(1) d(2) writes(2)] d(3) by auto
  have "gd_initialized d1" "gd_out_file d1 = Some p" by (subst d1, simp add: d)+
  from close_stream [OF closed(1) this closed(2)] st all2
  have ms: "fs' p = Some (concat ms)" "list_all2 (\<lambda>(src, meta) m. written lib ?s ?drt (field_values src meta) m) ws ms"
    by simp_all
  have each: "written lib ?s ?drt (case_prod field_values (ws ! t)) (ms ! t)" if "t < length ws" for t
    using list_all2_nthD [OF ms(2) that] by (simp add: case_prod_unfold)
  have len: "length ms = length ws" using ms(2) by (simp add: list_all2_lengthD)
  have all: "\<forall>m \<in> set ms. \<exists>fld. written lib ?s ?drt fld m" using each len by (auto simp: in_set_conv_nth) metis
  obtain r where r: "open_read lib env mr GRIB2_Driver fs' = Some (None, r)" "gd_initialized r" "gd_read_mode r" "gd_input_path r = p"
    "recs (gd_records r) (settings_identity ?s) = locations 0 ms"
    using open_read_written [where fs = fs', OF codec all ms(1) reader path(2)] by blast
  have "locations 0 ms \<noteq> []" using len writes(3) by (cases ms) auto
  then obtain e where "gd_records r (settings_identity ?s) = Some e" "fi_records e = locations 0 ms"
    using r(5) by (auto simp: recs_def split: option.splits)
  with \<open>locations 0 ms \<noteq> []\<close> r(2,3) have "vi_total_timesteps (describe_variable (settings_identity ?s) r) = int (length ws)"
    by (simp add: describe_variable_def len)
  moreover have "driver_read lib fs' r capacity meta (int t) None
      = Done (concat (q (case_prod field_values (ws ! t))), length (case_prod field_values (ws ! t)) * 4)"
    if "t < length ws" "vm_name meta = settings_identity ?s" "capacity < 2 ^ 64" "length (case_prod field_values (ws ! t)) * 4 \<le> capacity"
    for t meta capacity
    using read_written [OF codec r(2,3) _ _ _ each [OF that(1)] that(4,3)] r(4,5) ms(1) len that(1,2) by simp
  ultimately show ?thesis using r(1) by blast
qed

theorem write_read_roundtrip_witness:
  "\<exists>d1 fs1 d2 fs' r. run_writes tiny_g2c tiny_env tiny_driver [(tiny_buffer, tiny_meta)] [''out.grib2'' \<mapsto> []] = Some (d1, fs1)
    \<and> fs1 ''out.grib2'' = Some [] \<and> driver_close tiny_env d1 fs1 = (d2, fs')
    \<and> open_read tiny_g2c tiny_env tiny_manifest GRIB2_Driver fs' = Some (None, r)
    \<and> driver_read tiny_g2c fs' r 8 tiny_meta 0 None = Done ([1, 2, 3, 4, 5, 6, 7, 8], 8)"
proof -
  let ?fs = "[''out.grib2'' \<mapsto> [71, 1, 2, 3, 4, 5, 6, 7, 8]]"
  let ?d1 = "tiny_driver\<lparr>gd_pending := [71, 1, 2, 3, 4, 5, 6, 7, 8]\<rparr>"
  have w: "run_writes tiny_g2c tiny_env tiny_driver [(tiny_buffer, tiny_meta)] [''out.grib2'' \<mapsto> []] = Some (?d1, [''out.grib2'' \<mapsto> []])"
    using tiny_write [of "[''out.grib2'' \<mapsto> []]"] by simp
  have s: "gd_settings tiny_driver = Grib2Settings" by (simp add: tiny_driver_def GRIB2_Driver_def)
  have "vm_name tiny_meta = settings_identity Grib2Settings" by (simp add: tiny_meta_def)
  moreover have "codec_ok tiny_g2c (\<lambda>fld. fld) (gd_settings tiny_driver) (gd_active_drt tiny_driver)"
    using tiny_codec s by simp
  moreover have "length (gd_pending ?d1) \<le> fe_fflush tiny_env (gd_pending ?d1)" by (simp add: tiny_env_def)
  ultimately obtain r where "open_read tiny_g2c tiny_env tiny_manifest GRIB2_Driver ?fs = Some (None, r)"
    "driver_read tiny_g2c ?fs r 8 tiny_meta (int 0) None = Done ([1, 2, 3, 4, 5, 6, 7, 8], 8)"
    using write_read_roundtrip [where q = "\<lambda>fld. fld", OF _ tiny_open_write [of Map.empty] tiny_path(1) _ w _ _ tiny_close _ tiny_settings tiny_path(2)]
      tiny_plane s
    by (auto simp: tiny_values)
  with w tiny_close show ?thesis by auto
qed

text \<open>
  C32.  Writes of a driver with an open output stream are all or nothing: a successful write appends exactly one
  complete message, that of the field's values on its grid, to what the stream holds (the file and the buffer behind it), a write that throws leaves the stream
  and every file as they were, unless the stream itself accepted only a part of the message, which is then the
  exception; no other file is touched, and the file always holds an initial part of the stream.
\<close>

theorem write_all_or_nothing:
  assumes "driver_write lib env src meta d fs = (res, d', fs')" and "gd_out_file d = Some p"
  shows "(\<forall>u. res = Done u \<longrightarrow>
            (\<exists>ni nj m. grid_dims (vm_shape meta) = (ni, nj) \<and> message lib (gd_settings d) (gd_active_drt d) ni nj (field_values src meta) m
               \<and> stream p d' fs' = stream p d fs @ m))
    \<and> (\<forall>x. res = Throws x \<longrightarrow> d' = d \<and> fs' = fs
          \<or> x = runtime_error ''GRIB2_Driver::write: short write committing GRIB2 message to disk.''
             \<and> (\<exists>ni nj fld m k. message lib (gd_settings d) (gd_active_drt d) ni nj fld m \<and> k < length m
                   \<and> stream p d' fs' = stream p d fs @ take k m))
    \<and> (res = Beyond \<longrightarrow> d' = d \<and> fs' = fs)
    \<and> (\<forall>q. q \<noteq> p \<longrightarrow> fs' q = fs q)
    \<and> (d' = d \<and> fs' = fs \<or> (\<exists>n. fs' p = Some (take n (stream p d' fs'))))"
proof (cases "\<exists>ni nj n data m. encode_message lib (gd_settings d) (gd_active_drt d) ni nj n data = Done m \<and> commit env d m fs = (res, d', fs')")
  case True
  then obtain ni nj n data m where m: "encode_message lib (gd_settings d) (gd_active_drt d) ni nj n data = Done m"
      and c: "commit env d m fs = (res, d', fs')"
    by blast
  define k where "k = min (length m) (fe_fwrite env (stream p d fs) m)"
  note s = commit_stream [OF c assms(2), folded k_def]
  have msg: "message lib (gd_settings d) (gd_active_drt d) ni nj (chunks4 (take (n * 4) data)) m"
    using encode_message_Done [OF m] by simp
  show ?thesis
  proof (cases "k = length m")
    case True
    then have res: "res = Done ()" using s(4) by simp
    obtain gi gj where g: "grid_dims (vm_shape meta) = (gi, gj)" by fastforce
    have "\<exists>m. message lib (gd_settings d) (gd_active_drt d) gi gj (field_values src meta) m \<and> stream p d' fs' = stream p d fs @ m"
      using driver_write_Done [OF assms(1) [unfolded res] assms(2) g [symmetric] refl] by (auto simp: field_values_def)
    then show ?thesis using res g s(3,5) by auto
  next
    case False
    then have "k < length m" by (simp add: k_def)
    then have "\<exists>ni nj fld m k. message lib (gd_settings d) (gd_active_drt d) ni nj fld m \<and> k < length m \<and> stream p d' fs' = stream p d fs @ take k m"
      using msg s(1) by blast
    then show ?thesis using s(3,4,5) False by simp
  qed
next
  case False
  then have "d' = d \<and> fs' = fs \<and> (\<forall>u. res \<noteq> Done u)"
    using assms(1) by (auto simp: driver_write_def Let_def split: if_splits option.splits effect.splits prod.splits; blast)
  then show ?thesis by simp
qed

theorem write_all_or_nothing_witness:
  "\<exists>ni nj. grid_dims (vm_shape tiny_meta) = (ni, nj)
     \<and> message tiny_g2c (gd_settings tiny_driver) (gd_active_drt tiny_driver) ni nj (field_values tiny_buffer tiny_meta) [71, 1, 2, 3, 4, 5, 6, 7, 8]"
  using write_all_or_nothing [OF tiny_write [of "[''out.grib2'' \<mapsto> []]"], of "''out.grib2''"]
  by (simp add: tiny_driver_def GRIB2_Driver_def stream_def contents_def)

text \<open>
  Closing ignores the result of \<^verbatim>\<open>fclose\<close>: when the buffer cannot be written out, messages whose writes succeeded are
  missing from the file, and neither \<^verbatim>\<open>flush\<close> nor \<^verbatim>\<open>close\<close> says so.
\<close>

theorem unflushed_messages_lost:
  assumes "gd_initialized d" and "gd_out_file d = Some p" and "fe_fflush env (gd_pending d) < length (gd_pending d)"
  shows "\<exists>d' fs'. driver_close env d fs = (d', fs') \<and> gd_pending d' = []
    \<and> (\<exists>file. fs' p = Some file \<and> length file < length (stream p d fs))"
  using assms by (auto simp: driver_close_def write_out_def stream_def)

text \<open>
  A field of three dimensions or more gets the grid of its two last ones: the grid of the message has fewer points than
  the field has values.
\<close>

theorem deep_field_grid:
  "\<exists>s. validate_shape s \<and> sh_rank s = 3 \<and> total_elements s = 8 \<and> (\<exists>ni nj. grid_dims s = (ni, nj) \<and> ni * nj = 4)"
  by (intro exI [of _ "\<lparr>sh_rank = 3, sh_extents = [2, 2, 2, 0, 0, 0, 0], sh_strides = [0, 0, 0, 0, 0, 0, 0]\<rparr>"])
     (simp add: grid_dims_def validate_shape_def total_elements_def dims_def in_i64_def AMIO_MAX_RANK_def to_size_t_def)

text \<open>
  A driver opened for writing without a path accepts every write that can be encoded and drops the message:
  no file ever changes.
\<close>

theorem pathless_writes_vanish:
  assumes "open_write env m GRIB2_Driver fs = (None, d, fs1)" and "first_string m [''path'', ''output_path''] [] = Inr []"
  shows "fs1 = fs \<and> gd_initialized d \<and> snd (driver_write lib env src meta d fs) = (d, fs)"
proof -
  have "gd_initialized d" "gd_out_file d = None" "fs1 = fs" using open_write_stream [OF assms] by simp_all
  then show ?thesis
    by (auto simp: driver_write_def commit_def Let_def split: option.splits effect.splits prod.splits)
qed

text \<open>
  The grid of a name is that of its first record.  When a later record of the same name has fewer points, a box
  inside the first grid is accepted for it and the gathering loop reads beyond the decoded values.
\<close>

definition wide_field :: gribfield where
  "wide_field = (tiny_field [])\<lparr>gf_igdtmpl := Some [0, 0, 0, 0, 0, 0, 0, 3, 2], gf_ngrdpts := 6\<rparr>"

theorem later_grid_read_beyond:
  "\<exists>d. gd_records d = add_record ''x'' (tiny_field []) \<lparr>rl_offset = 9, rl_length = 9, rl_field_number = 1\<rparr>
         (add_record ''x'' wide_field \<lparr>rl_offset = 0, rl_length = 9, rl_field_number = 1\<rparr> Map.empty)
     \<and> driver_read tiny_g2c [''f'' \<mapsto> replicate 18 0] d 8 (tiny_meta\<lparr>vm_name := ''x''\<rparr>) 1 (Some sub_box) = Beyond"
proof -
  let ?idx = "add_record ''x'' (tiny_field []) \<lparr>rl_offset = 9, rl_length = 9, rl_field_number = 1\<rparr>
         (add_record ''x'' wide_field \<lparr>rl_offset = 0, rl_length = 9, rl_field_number = 1\<rparr> Map.empty)"
  let ?d = "GRIB2_Driver\<lparr>gd_initialized := True, gd_read_mode := True, gd_input_path := ''f'', gd_records := ?idx\<rparr>"
  have idx: "?idx ''x'' = Some \<lparr>fi_ni = 3, fi_nj = 2, fi_ngrdpts = 6,
      fi_records = [\<lparr>rl_offset = 0, rl_length = 9, rl_field_number = 1\<rparr>, \<lparr>rl_offset = 9, rl_length = 9, rl_field_number = 1\<rparr>]\<rparr>"
    by (simp add: add_record_def Let_def field_geometry_def wide_field_def i64_def)
  have seg: "fread_at (replicate 18 0) 9 9 = Some (replicate 9 0)"
    by (simp add: fread_at_def segment_def)
  have "check_box [1, 0] [1, 2] [1, 2] [2, 3] 1 = Box_Elems 2" by (simp add: bbox_last_exact to_size_t_def)
  moreover have "gather_box [replicate 4 (0 :: byte), replicate 4 0] [2, 3] sub_box 2 = None"
    by (simp add: gather_box_def sub_box_def numeral_2_eq_2 fetch_def to_size_t_def i64_def)
  ultimately have "driver_read tiny_g2c [''f'' \<mapsto> replicate 18 0] ?d 8 (tiny_meta\<lparr>vm_name := ''x''\<rparr>) 1 (Some sub_box) = Beyond"
    using idx seg
    by (simp add: driver_read_def Let_def tiny_g2c_def tiny_field_def deliver_def grid_extents_def sub_box_def
        del: check_box.simps)
  then show ?thesis by (intro exI [of _ ?d]) simp
qed

end
