(* ===== verification/Var_Attributes.thy ===== *)
theory Var_Attributes
  imports Config_Loader
begin

text \<open>
  The attribute model of the netCDF-based drivers (\<^verbatim>\<open>src/drivers/common/var_attributes.{hpp,cpp}\<close>): attribute
  values with their numeric reading, ordered attribute sets, and the model parsed from a manifest.

  Of \<^verbatim>\<open>std::strtod\<close> the model has the grammar of the C locale, which decides how much of the text is a number;
  the value of the number, the bits of a \<^verbatim>\<open>double\<close>, is a parameter.  The accessors of the configuration
  library that may find nothing are the record \<open>conf_access\<close>.
\<close>


section \<open>The number at the start of a text\<close>

definition is_space :: "char \<Rightarrow> bool" where
  "is_space c \<longleftrightarrow> c \<in> {CHR '' '', CHR 0x09, CHR 0x0A, CHR 0x0B, CHR 0x0C, CHR 0x0D}"

definition lower_char :: "char \<Rightarrow> char" where
  "lower_char c = (let n = of_char c :: nat in if 65 \<le> n \<and> n \<le> 90 then char_of (n + 32) else c)"

definition is_hex_digit :: "char \<Rightarrow> bool" where
  "is_hex_digit c \<longleftrightarrow> is_digit c \<or> lower_char c \<in> set ''abcdef''"

text \<open>An exponent: the mark, an optional sign, at least one digit; otherwise nothing is consumed.\<close>

definition exponent_length :: "char \<Rightarrow> string \<Rightarrow> nat" where
  "exponent_length mark s =
     (case s of
        [] \<Rightarrow> 0
      | c # r \<Rightarrow>
          if lower_char c \<noteq> mark then 0
          else
            let sign = (case r of [] \<Rightarrow> 0 | d # _ \<Rightarrow> if d = CHR ''+'' \<or> d = CHR ''-'' then 1 else 0);
                digits = length (takeWhile is_digit (drop sign r))
            in if digits = 0 then 0 else 1 + sign + digits)"

text \<open>Digits with at most one point and an optional exponent; \<open>0\<close> when there is no digit.\<close>

definition mantissa_length :: "(char \<Rightarrow> bool) \<Rightarrow> char \<Rightarrow> string \<Rightarrow> nat" where
  "mantissa_length dig mark s =
     (let whole = takeWhile dig s;
          rest = drop (length whole) s;
          frac = (case rest of [] \<Rightarrow> [] | c # r \<Rightarrow> if c = CHR ''.'' then c # takeWhile dig r else [])
      in if length whole + length frac = 0 \<or> whole = [] \<and> length frac = 1 then 0
         else
           let n = length whole + length frac
           in n + exponent_length mark (drop n s))"

definition starts_with :: "string \<Rightarrow> string \<Rightarrow> bool" where
  "starts_with p s \<longleftrightarrow> map lower_char (take (length p) s) = p"

definition is_word_char :: "char \<Rightarrow> bool" where
  "is_word_char c \<longleftrightarrow> is_digit c \<or> lower_char c \<in> set ''abcdefghijklmnopqrstuvwxyz'' \<or> c = CHR ''_''"

definition nan_length :: "string \<Rightarrow> nat" where
  "nan_length s =
     (let r = drop 3 s
      in case r of
           [] \<Rightarrow> 3
         | c # r' \<Rightarrow>
             if c \<noteq> CHR ''('' then 3
             else
               let w = takeWhile is_word_char r'
               in (case drop (length w) r' of
                     [] \<Rightarrow> 3
                   | d # _ \<Rightarrow> if d = CHR '')'' then 5 + length w else 3))"

definition unsigned_length :: "string \<Rightarrow> nat" where
  "unsigned_length s =
     (if starts_with ''infinity'' s then 8
      else if starts_with ''inf'' s then 3
      else if starts_with ''nan'' s then nan_length s
      else if starts_with ''0x'' s \<and> mantissa_length is_hex_digit (CHR ''p'') (drop 2 s) > 0
      then 2 + mantissa_length is_hex_digit (CHR ''p'') (drop 2 s)
      else mantissa_length is_digit (CHR ''e'') s)"

text \<open>The number of characters \<^verbatim>\<open>strtod\<close> consumes; \<open>0\<close>: no conversion, and \<^verbatim>\<open>end\<close> is the start.\<close>

definition strtod_length :: "string \<Rightarrow> nat" where
  "strtod_length s =
     (let sp = length (takeWhile is_space s);
          r = drop sp s;
          sign = (case r of [] \<Rightarrow> 0 | c # _ \<Rightarrow> if c = CHR ''+'' \<or> c = CHR ''-'' then 1 else 0);
          n = unsigned_length (drop sign r)
      in if n = 0 then 0 else sp + sign + n)"


section \<open>Values and sets\<close>

record attr_value =
  av_text :: string
  av_number :: u64 \<comment> \<open>the bits of the \<^verbatim>\<open>double\<close>\<close>
  av_is_numeric :: bool
  av_is_integer :: bool

definition AttrValue :: attr_value where
  "AttrValue = \<lparr>av_text = [], av_number = 0, av_is_numeric = False, av_is_integer = False\<rparr>"

text \<open>\<open>num\<close> is the value of a number text.  The text ends for \<^verbatim>\<open>strtod\<close> at the first null character.\<close>

definition parse_attr_value :: "(string \<Rightarrow> u64) \<Rightarrow> string \<Rightarrow> attr_value" where
  "parse_attr_value num raw =
     (let v = AttrValue\<lparr>av_text := raw\<rparr>
      in if raw = [] then v
         else
           let c_str = takeWhile (\<lambda>c. c \<noteq> CHR 0x00) raw;
               n = strtod_length c_str;
               rest = dropWhile is_space (drop n c_str)
           in if rest = [] \<and> n + length (takeWhile is_space (drop n c_str)) \<noteq> 0
              then v\<lparr>av_is_numeric := True, av_number := num (take n c_str),
                     av_is_integer := CHR ''.'' \<notin> set raw \<and> CHR ''e'' \<notin> set raw \<and> CHR ''E'' \<notin> set raw\<rparr>
              else v)"

type_synonym var_attributes = "(string \<times> attr_value) list"

fun va_set :: "string \<Rightarrow> attr_value \<Rightarrow> var_attributes \<Rightarrow> var_attributes" where
  "va_set key v [] = [(key, v)]"
| "va_set key v ((k, w) # items) = (if k = key then (k, v) # items else (k, w) # va_set key v items)"

record dataset_attributes =
  da_conventions :: string
  da_global :: var_attributes
  da_per_variable :: "string \<rightharpoonup> var_attributes"
  da_uses_ugrid :: bool

definition kDefaultCFConventions :: string where
  "kDefaultCFConventions = ''CF-1.10''"

definition kDefaultCFUGRIDConventions :: string where
  "kDefaultCFUGRIDConventions = ''CF-1.10 UGRID-1.0''"

definition DatasetAttributes :: dataset_attributes where
  "DatasetAttributes = \<lparr>da_conventions = kDefaultCFConventions, da_global = [], da_per_variable = Map.empty, da_uses_ugrid = False\<rparr>"

definition has_ugrid_role :: "var_attributes \<Rightarrow> bool" where
  "has_ugrid_role attrs \<longleftrightarrow> list_ex (\<lambda>(k, _). k = ''cf_role'' \<or> k = ''topology_dimension'' \<or> k = ''mesh_topology'') attrs"


section \<open>The model of a manifest\<close>

record conf_access =
  ca_try_string :: "manifest \<Rightarrow> string \<Rightarrow> string option"
  ca_get_or :: "manifest \<Rightarrow> string \<Rightarrow> string \<Rightarrow> exn + string"

definition known_global_keys :: "string list" where
  "known_global_keys =
     [''title'', ''institution'', ''source'', ''history'', ''references'', ''comment'', ''Conventions'', ''contact'', ''project'',
      ''keywords'', ''summary'', ''acknowledgement'', ''id'', ''license'', ''creator_name'', ''creator_url'', ''creator_email'',
      ''publisher_name'', ''publisher_url'', ''publisher_email'', ''geospatial_bounds'', ''geospatial_lat_min'',
      ''geospatial_lat_max'', ''geospatial_lon_min'', ''geospatial_lon_max'', ''geospatial_vertical_min'',
      ''geospatial_vertical_max'', ''geospatial_vertical_positive'', ''geospatial_bounds_crs'', ''geospatial_bounds_vertical_crs'',
      ''naming_authority'', ''project'', ''processing_level'', ''standard_name_vocabulary'', ''time_coverage_start'',
      ''time_coverage_end'', ''time_coverage_duration'', ''time_coverage_resolution'', ''date_created'', ''date_modified'',
      ''date_metadata_modified'', ''cdm_data_type'', ''featureType'', ''ncei_template_version'', ''uuid'', ''gridspec_file'']"

definition known_var_keys :: "string list" where
  "known_var_keys =
     [''units'', ''long_name'', ''standard_name'', ''_FillValue'', ''coordinates'', ''cell_methods'', ''cf_role'', ''mesh'',
      ''location'', ''topology_dimension'', ''scale_factor'', ''add_offset'', ''valid_min'', ''valid_max'', ''valid_range'',
      ''bounds'', ''axis'', ''grid_mapping'', ''coverage_content_type'']"

text \<open>The loops over the known keys; \<open>read_attr\<close> gives the value for a key and its text.\<close>

fun collect :: "(string \<Rightarrow> string option) \<Rightarrow> (string \<Rightarrow> string \<Rightarrow> attr_value) \<Rightarrow> string list \<Rightarrow> var_attributes \<Rightarrow> var_attributes" where
  "collect get read_attr [] attrs = attrs"
| "collect get read_attr (key # keys) attrs =
     collect get read_attr keys (case get key of None \<Rightarrow> attrs | Some v \<Rightarrow> va_set key (read_attr key v) attrs)"

definition read_var_attr :: "(string \<Rightarrow> u64) \<Rightarrow> string \<Rightarrow> string \<Rightarrow> attr_value" where
  "read_var_attr num key v = (if key = ''units'' then AttrValue\<lparr>av_text := v\<rparr> else parse_attr_value num v)"

definition variable_prefix :: "string \<Rightarrow> string" where
  "variable_prefix name = ''variables.'' @ name @ ''.attributes''"

definition add_variable ::
  "(string \<Rightarrow> u64) \<Rightarrow> conf_access \<Rightarrow> manifest \<Rightarrow> string \<Rightarrow> dataset_attributes \<Rightarrow> dataset_attributes" where
  "add_variable num ca m name out =
     (if \<not> mf_has m (variable_prefix name) then out
      else
        let attrs = collect (\<lambda>key. ca_try_string ca m (variable_prefix name @ ''.'' @ key)) (read_var_attr num) known_var_keys [];
            out1 = (if has_ugrid_role attrs then out\<lparr>da_uses_ugrid := True\<rparr> else out)
        in if attrs \<noteq> [] \<and> da_per_variable out1 name = None
           then out1\<lparr>da_per_variable := (da_per_variable out1)(name \<mapsto> attrs)\<rparr>
           else out1)"

definition parse_dataset_attributes :: "(string \<Rightarrow> u64) \<Rightarrow> conf_access \<Rightarrow> manifest \<Rightarrow> exn + dataset_attributes" where
  "parse_dataset_attributes num ca m =
     (let out0 = DatasetAttributes;
          out1 = (if mf_has m ''global_attributes''
                  then out0\<lparr>da_global := collect (\<lambda>key. ca_try_string ca m (''global_attributes.'' @ key))
                         (\<lambda>_. parse_attr_value num) known_global_keys []\<rparr>
                  else out0);
          out2 = (if mf_has m ''variable_names''
                  then (case mf_string_list m ''variable_names'' of
                          Inl _ \<Rightarrow> out1
                        | Inr names \<Rightarrow> fold (add_variable num ca m) names out1)
                  else out1)
      in if mf_has m ''conventions''
         then (case ca_get_or ca m ''conventions'' kDefaultCFConventions of
                 Inl x \<Rightarrow> Inl x
               | Inr c \<Rightarrow> Inr (out2\<lparr>da_conventions := c\<rparr>))
         else Inr (out2\<lparr>da_conventions := (if da_uses_ugrid out2 then kDefaultCFUGRIDConventions else kDefaultCFConventions)\<rparr>))"


section \<open>Attribute sets\<close>

lemma map_of_va_set: "map_of (va_set k v xs) = (map_of xs)(k \<mapsto> v)"
  by (induction k v xs rule: va_set.induct) auto

lemma va_set_same: "map_of xs k = Some v \<Longrightarrow> va_set k v xs = xs"
  by (induction k v xs rule: va_set.induct) (auto split: if_splits)

lemma va_set_new: "k \<notin> fst ` set xs \<Longrightarrow> va_set k v xs = xs @ [(k, v)]"
  by (induction k v xs rule: va_set.induct) auto

lemma map_of_collect:
  "map_of (collect get rd keys attrs) k =
     (case if k \<in> set keys then get k else None of Some v \<Rightarrow> Some (rd k v) | None \<Rightarrow> map_of attrs k)"
  by (induction keys arbitrary: attrs) (auto simp: map_of_va_set split: option.splits)

lemma collect_append: "collect get rd (ks @ ks') attrs = collect get rd ks' (collect get rd ks attrs)"
  by (induction ks arbitrary: attrs) simp_all

text \<open>
  What a list of keys should give: each key that has a text, at the place of its first occurrence in the list, with
  the reading of its text.
\<close>

definition in_key_order :: "(string \<Rightarrow> string option) \<Rightarrow> (string \<Rightarrow> string \<Rightarrow> attr_value) \<Rightarrow> string list \<Rightarrow> var_attributes" where
  "in_key_order get rd keys =
     map (\<lambda>k. (k, rd k (the (get k)))) (filter (\<lambda>k. get k \<noteq> None) (rev (remdups (rev keys))))"

lemma keys_in_key_order: "map fst (in_key_order get rd keys) = filter (\<lambda>k. get k \<noteq> None) (rev (remdups (rev keys)))"
  by (simp add: in_key_order_def comp_def)

lemma distinct_in_key_order: "distinct (map fst (in_key_order get rd keys))"
  unfolding keys_in_key_order by simp

lemma collect_in_key_order: "collect get rd keys [] = in_key_order get rd keys"
proof (induction keys rule: rev_induct)
  case (snoc k ks)
  show ?case
  proof (cases "get k")
    case None
    then show ?thesis using snoc by (simp add: collect_append in_key_order_def)
  next
    case (Some v)
    show ?thesis
    proof (cases "k \<in> set ks")
      case True
      then have "map_of (collect get rd ks []) k = Some (rd k v)" using Some by (simp add: map_of_collect)
      then show ?thesis using snoc Some True by (simp add: collect_append va_set_same) (simp add: in_key_order_def)
    next
      case False
      then have "k \<notin> fst ` set (in_key_order get rd ks)" by (auto simp: in_key_order_def)
      then show ?thesis using snoc Some False by (simp add: collect_append va_set_new) (simp add: in_key_order_def)
    qed
  qed
qed (simp add: in_key_order_def)

lemma has_ugrid_role_map_of:
  "has_ugrid_role attrs \<longleftrightarrow> (\<exists>k \<in> {''cf_role'', ''topology_dimension'', ''mesh_topology''}. map_of attrs k \<noteq> None)"
  by (force simp: has_ugrid_role_def list_ex_iff map_of_eq_None_iff)

definition declared_attrs :: "(string \<Rightarrow> u64) \<Rightarrow> conf_access \<Rightarrow> manifest \<Rightarrow> string \<Rightarrow> var_attributes" where
  "declared_attrs num ca m name =
     (if mf_has m (variable_prefix name)
      then collect (\<lambda>key. ca_try_string ca m (variable_prefix name @ ''.'' @ key)) (read_var_attr num) known_var_keys []
      else [])"

lemma add_variable_declared:
  "da_per_variable (add_variable num ca m name out) x =
     (case da_per_variable out x of
        Some a \<Rightarrow> Some a
      | None \<Rightarrow> if x = name \<and> declared_attrs num ca m name \<noteq> [] then Some (declared_attrs num ca m name) else None)"
  "da_uses_ugrid (add_variable num ca m name out) \<longleftrightarrow> da_uses_ugrid out \<or> has_ugrid_role (declared_attrs num ca m name)"
  "da_global (add_variable num ca m name out) = da_global out"
  by (auto simp: add_variable_def declared_attrs_def Let_def has_ugrid_role_def split: option.splits)

lemma fold_add_variable:
  "da_per_variable (fold (add_variable num ca m) names out) x =
     (case da_per_variable out x of
        Some a \<Rightarrow> Some a
      | None \<Rightarrow> if x \<in> set names \<and> declared_attrs num ca m x \<noteq> [] then Some (declared_attrs num ca m x) else None)"
  "da_uses_ugrid (fold (add_variable num ca m) names out) \<longleftrightarrow>
     da_uses_ugrid out \<or> (\<exists>x \<in> set names. has_ugrid_role (declared_attrs num ca m x))"
  "da_global (fold (add_variable num ca m) names out) = da_global out"
  by (induction names arbitrary: out) (auto simp: add_variable_declared split: option.splits)

text \<open>The variables a manifest names, in a well-formed block.\<close>

definition named_variables :: "manifest \<Rightarrow> string list" where
  "named_variables m =
     (if mf_has m ''variable_names'' then (case mf_string_list m ''variable_names'' of Inl _ \<Rightarrow> [] | Inr names \<Rightarrow> names) else [])"

lemma map_of_declared:
  "map_of (declared_attrs num ca m name) key =
     (if mf_has m (variable_prefix name) \<and> key \<in> set known_var_keys
      then map_option (read_var_attr num key) (ca_try_string ca m (variable_prefix name @ ''.'' @ key)) else None)"
  by (auto simp: declared_attrs_def map_of_collect split: option.splits)

lemma has_ugrid_role_declared:
  "has_ugrid_role (declared_attrs num ca m x) \<longleftrightarrow> mf_has m (variable_prefix x)
     \<and> (ca_try_string ca m (variable_prefix x @ ''.cf_role'') \<noteq> None
        \<or> ca_try_string ca m (variable_prefix x @ ''.topology_dimension'') \<noteq> None)"
  by (simp add: has_ugrid_role_map_of map_of_declared known_var_keys_def)


section \<open>Properties\<close>


definition mesh_manifest :: manifest where
  "mesh_manifest =
     \<lparr>mf_has = (\<lambda>k. k = ''variable_names'' \<or> k = ''variables.m.attributes''), mf_int = (\<lambda>_. Inl (Key_Not_Found, [])),
      mf_int_list = (\<lambda>_. Inl (Key_Not_Found, [])), mf_string = (\<lambda>_. Inl (Key_Not_Found, [])), mf_string_list = (\<lambda>_. Inr [''m''])\<rparr>"

definition mesh_access :: conf_access where
  "mesh_access =
     \<lparr>ca_try_string = (\<lambda>_ k. if k = ''variables.m.attributes.cf_role'' then Some ''mesh_topology''
                               else if k = ''variables.m.attributes.units'' then Some ''1'' else None),
      ca_get_or = (\<lambda>_ _ d. Inr d)\<rparr>"



section \<open>Numbers\<close>

lemma digit_plain: "is_digit c \<Longrightarrow> lower_char c = c" "is_digit c \<Longrightarrow> \<not> is_space c"
  by (auto simp: is_digit_def lower_char_def is_space_def Let_def)

lemma starts_with_Cons: "starts_with (p # ps) s \<longleftrightarrow> (\<exists>c r. s = c # r \<and> lower_char c = p \<and> starts_with ps r)"
  by (cases s) (auto simp: starts_with_def)

lemma unsigned_length_digits:
  assumes "\<forall>c \<in> set s. is_digit c" and "s \<noteq> []"
  shows "unsigned_length s = length s"
proof -
  obtain c r where s: "s = c # r" using assms(2) by (cases s) auto
  have c: "is_digit c" "lower_char c = c" using assms(1) s digit_plain by auto
  have "\<not> starts_with ''infinity'' s" "\<not> starts_with ''inf'' s" "\<not> starts_with ''nan'' s"
    using c by (auto simp: s starts_with_Cons is_digit_def)
  moreover have "\<not> starts_with ''0x'' s"
  proof
    assume "starts_with ''0x'' s"
    then obtain d e t where "s = d # e # t" "lower_char e = CHR ''x''" by (auto simp: starts_with_Cons)
    then have "is_digit (CHR ''x'')" using assms(1) digit_plain(1) by force
    then show False by (simp add: is_digit_def)
  qed
  moreover have tw: "takeWhile is_digit s = s" using assms(1) by (simp add: takeWhile_eq_all_conv)
  ultimately show ?thesis using assms(2)
    by (simp add: unsigned_length_def mantissa_length_def Let_def exponent_length_def tw)
qed

lemma strtod_length_show_int: "strtod_length (show_int i) = length (show_int i)"
proof -
  let ?d = "show_nat (nat (if i < 0 then - i else i))"
  have d: "\<forall>c \<in> set ?d. is_digit c" "?d \<noteq> []" using show_nat_digits by auto
  obtain c r where cr: "?d = c # r" using d(2) by (cases ?d) auto
  have c: "is_digit c" using d(1) cr by auto
  have "c \<noteq> CHR ''+''" "c \<noteq> CHR ''-''" using c by (auto simp: is_digit_def)
  moreover have "\<not> is_space c" "\<not> is_space (CHR ''-'')" using digit_plain(2) [OF c] by (simp_all add: is_space_def)
  moreover have "show_int i = (if i < 0 then CHR ''-'' # c # r else c # r)" using cr by (auto simp: show_int_def)
  moreover have "unsigned_length (c # r) = length (c # r)" using unsigned_length_digits [OF d] cr by simp
  ultimately show ?thesis by (auto simp: strtod_length_def Let_def)
qed

text \<open>
  Integer attributes are recognised as such: the decimal text of every integer is read as a numeric, integral
  value whose number is that of the whole text.
\<close>

lemma integers_recognised:
  "parse_attr_value num (show_int i) =
     \<lparr>av_text = show_int i, av_number = num (show_int i), av_is_numeric = True, av_is_integer = True\<rparr>"
proof -
  have chars: "is_digit c \<or> c = CHR ''-''" if "c \<in> set (show_int i)" for c using show_int_chars [OF that] .
  have no: "c \<notin> set (show_int i)" if "\<not> is_digit c" "c \<noteq> CHR ''-''" for c using chars that by blast
  have "CHR 0x00 \<notin> set (show_int i)" by (rule no) (simp_all add: is_digit_def)
  then have tw: "takeWhile (\<lambda>c. c \<noteq> CHR 0x00) (show_int i) = show_int i" by (auto simp: takeWhile_eq_all_conv)
  have "CHR ''.'' \<notin> set (show_int i)" "CHR ''e'' \<notin> set (show_int i)" "CHR ''E'' \<notin> set (show_int i)"
    by (rule no; simp add: is_digit_def)+
  then show ?thesis
    by (simp add: parse_attr_value_def Let_def tw strtod_length_show_int AttrValue_def)
qed

text \<open>A text of blanks only is read as the number zero, and \<open>nan\<close> and \<open>inf\<close> as integers.\<close>

theorem blanks_are_numeric: "av_is_numeric (parse_attr_value num '' '')"
  by (simp add: parse_attr_value_def Let_def strtod_length_def unsigned_length_def starts_with_def mantissa_length_def
      is_space_def AttrValue_def)

theorem nan_is_integer:
  "av_is_numeric (parse_attr_value num ''nan'') \<and> av_is_integer (parse_attr_value num ''nan'')"
  by (simp add: parse_attr_value_def Let_def strtod_length_def unsigned_length_def starts_with_Cons starts_with_def
      nan_length_def lower_char_def is_space_def AttrValue_def)

end
