(* ===== verification/Netcdf_Driver.thy ===== *)
theory Netcdf_Driver
  imports Driver_Base Var_Attributes
begin

text \<open>
  The NetCDF driver (\<^verbatim>\<open>src/drivers/netcdf/netcdf_driver.{hpp,cpp}\<close>), in the build with netCDF.

  The netCDF library is a record of functions on a library state: an inquiry reads the state, any other call
  changes it, and a failing call returns its status code (\<open>Inl\<close>).  The driver's mutex makes every operation
  atomic.  A numeric attribute carries the \<^verbatim>\<open>double\<close> it was made from together with the type it is emitted in.
  The constructor's check of the library is a property of the build and is left out, as are messages on
  \<^verbatim>\<open>stderr\<close>.  Shapes come from the core with a rank of at most seven.
\<close>


section \<open>The library\<close>

datatype nc_type =
    NC_NAT | NC_BYTE | NC_CHAR | NC_SHORT | NC_INT | NC_FLOAT | NC_DOUBLE | NC_UBYTE | NC_USHORT | NC_UINT
  | NC_INT64 | NC_UINT64 | NC_STRING | NC_USER int \<comment> \<open>a user-defined type\<close>

datatype nc_att = Att_Text string | Att_Float u64 | Att_Double u64 | Att_Int u64 | Att_Int64 u64

definition NC_GLOBAL :: int where "NC_GLOBAL = - 1"
definition NC_ENOTVAR :: int where "NC_ENOTVAR = - 49"
definition NC_EINDEFINE :: int where "NC_EINDEFINE = - 39"
definition NC_UNLIMITED :: nat where "NC_UNLIMITED = 0"

record 'n netcdf =
  nl_strerror :: "int \<Rightarrow> string"
  nl_create :: "string \<Rightarrow> bool \<Rightarrow> int option \<Rightarrow> 'n \<Rightarrow> (int + int) \<times> 'n" \<comment> \<open>classic model; a communicator for the parallel call\<close>
  nl_open :: "string \<Rightarrow> int option \<Rightarrow> 'n \<Rightarrow> (int + int) \<times> 'n"
  nl_redef :: "int \<Rightarrow> 'n \<Rightarrow> (int + unit) \<times> 'n"
  nl_enddef :: "int \<Rightarrow> 'n \<Rightarrow> (int + unit) \<times> 'n"
  nl_sync :: "int \<Rightarrow> 'n \<Rightarrow> (int + unit) \<times> 'n"
  nl_close :: "int \<Rightarrow> 'n \<Rightarrow> (int + unit) \<times> 'n"
  nl_inq_varid :: "int \<Rightarrow> string \<Rightarrow> 'n \<Rightarrow> int + int"
  nl_inq_ndims :: "int \<Rightarrow> 'n \<Rightarrow> int + nat"
  nl_inq_dim :: "int \<Rightarrow> int \<Rightarrow> 'n \<Rightarrow> int + string \<times> nat"
  nl_inq_dimid :: "int \<Rightarrow> string \<Rightarrow> 'n \<Rightarrow> int + int"
  nl_def_dim :: "int \<Rightarrow> string \<Rightarrow> nat \<Rightarrow> 'n \<Rightarrow> (int + int) \<times> 'n"
  nl_def_var :: "int \<Rightarrow> string \<Rightarrow> nc_type \<Rightarrow> int list \<Rightarrow> 'n \<Rightarrow> (int + int) \<times> 'n"
  nl_put_att :: "int \<Rightarrow> int \<Rightarrow> string \<Rightarrow> nc_att \<Rightarrow> 'n \<Rightarrow> (int + unit) \<times> 'n"
  nl_def_var_deflate :: "int \<Rightarrow> int \<Rightarrow> int \<Rightarrow> int \<Rightarrow> int \<Rightarrow> 'n \<Rightarrow> (int + unit) \<times> 'n"
  nl_var_par_access :: "int \<Rightarrow> int \<Rightarrow> 'n \<Rightarrow> (int + unit) \<times> 'n"
  nl_put_vara :: "int \<Rightarrow> int \<Rightarrow> nat list \<Rightarrow> nat list \<Rightarrow> byte list option \<Rightarrow> 'n \<Rightarrow> (int + unit) \<times> 'n"
  nl_inq_varndims :: "int \<Rightarrow> int \<Rightarrow> 'n \<Rightarrow> int + nat"
  nl_get_vara :: "int \<Rightarrow> int \<Rightarrow> nat list \<Rightarrow> nat list \<Rightarrow> 'n \<Rightarrow> int + byte list"
  nl_get_vars :: "int \<Rightarrow> int \<Rightarrow> nat list \<Rightarrow> nat list \<Rightarrow> int list \<Rightarrow> 'n \<Rightarrow> int + byte list"
  nl_inq_vartype :: "int \<Rightarrow> int \<Rightarrow> 'n \<Rightarrow> int + nc_type"
  nl_inq_vardimid :: "int \<Rightarrow> int \<Rightarrow> 'n \<Rightarrow> int + int list"
  nl_inq_unlimdims_count :: "int \<Rightarrow> 'n \<Rightarrow> int + nat"
  nl_inq_unlimdims :: "int \<Rightarrow> 'n \<Rightarrow> int + int list"
  nl_inq_unlimdim :: "int \<Rightarrow> 'n \<Rightarrow> int + int"
  nl_inq_dimname :: "int \<Rightarrow> int \<Rightarrow> 'n \<Rightarrow> int + string"
  nl_inq_dimlen :: "int \<Rightarrow> int \<Rightarrow> 'n \<Rightarrow> int + nat"
  nl_inq_att :: "int \<Rightarrow> int \<Rightarrow> string \<Rightarrow> 'n \<Rightarrow> int + nc_type \<times> nat"
  nl_inq_attlen :: "int \<Rightarrow> int \<Rightarrow> string \<Rightarrow> 'n \<Rightarrow> int + nat"
  nl_get_att_text :: "int \<Rightarrow> int \<Rightarrow> string \<Rightarrow> 'n \<Rightarrow> int + string" \<comment> \<open>as many characters as the length says\<close>
  nl_get_att_string :: "int \<Rightarrow> int \<Rightarrow> string \<Rightarrow> 'n \<Rightarrow> int + string option list"
  nl_get_att_double :: "int \<Rightarrow> int \<Rightarrow> string \<Rightarrow> 'n \<Rightarrow> int + u64 list"

record nc_env =
  ne_conf :: conf_access
  ne_number :: "string \<Rightarrow> u64"
  ne_has_mpi :: bool
  ne_parent_comm :: "int option" \<comment> \<open>\<open>None\<close>: \<^verbatim>\<open>MPI_COMM_NULL\<close>\<close>
  ne_comm_size :: "int \<Rightarrow> int"


section \<open>The driver\<close>

datatype data_model = Classic | Enhanced

record nc_driver =
  nd_ncid :: int
  nd_comm :: "int option"
  nd_data_model :: data_model
  nd_file_path :: string
  nd_active_codec :: string
  nd_codec_allow_list :: "string list"
  nd_is_open :: bool
  nd_is_write_mode :: bool
  nd_use_parallel :: bool
  nd_attributes :: dataset_attributes
  nd_global_attrs_written :: bool

definition NetCDF_Driver :: nc_driver where
  "NetCDF_Driver =
     \<lparr>nd_ncid = - 1, nd_comm = None, nd_data_model = Classic, nd_file_path = [], nd_active_codec = [], nd_codec_allow_list = [],
      nd_is_open = False, nd_is_write_mode = False, nd_use_parallel = False, nd_attributes = DatasetAttributes,
      nd_global_attrs_written = False\<rparr>"

type_synonym ('n, 'a) nc_op = "(nc_driver \<times> 'n, 'a) op"

definition nc_error :: "'n netcdf \<Rightarrow> string \<Rightarrow> int \<Rightarrow> exn" where
  "nc_error lib ctx st =
     runtime_error (''NetCDF error in '' @ ctx @ '': '' @ nl_strerror lib st @ '' (nc_errno='' @ show_int st @ '')'')"

text \<open>A call whose status goes through \<^verbatim>\<open>nc_check\<close>.\<close>

definition nc_check :: "'n netcdf \<Rightarrow> string \<Rightarrow> ('n \<Rightarrow> (int + 'a) \<times> 'n) \<Rightarrow> ('n, 'a) nc_op" where
  "nc_check lib ctx = checked (nc_error lib ctx)"


section \<open>Validation\<close>

definition parse_data_model :: "string \<Rightarrow> exn + data_model" where
  "parse_data_model s =
     (if s \<in> {[], ''classic'', ''netcdf4_classic'', ''NC4_CLASSIC''} then Inr Classic
      else if s \<in> {''enhanced'', ''netcdf4_enhanced'', ''NC4''} then Inr Enhanced
      else Inl (runtime_error (''NetCDF_Driver: invalid data model '' @ quoted s
        @ ''. Supported values: 'classic' (default), 'enhanced' (R7.2, R7.3)'')))"

definition lossy_codecs :: "string list" where
  "lossy_codecs = [''lossy'', ''sz'', ''zfp_lossy'', ''fpzip_lossy'']"

definition validate_codec :: "string \<Rightarrow> string list \<Rightarrow> exn + unit" where
  "validate_codec codec allow_list =
     (if codec = [] then Inr ()
      else if codec \<notin> set allow_list then
        Inl (runtime_error (''NetCDF_Driver: codec '' @ quoted codec @ '' is not on the lossless compression allow-list. ''
          @ ''Only lossless filters are permitted for NetCDF-4 output (R7.5)''))
      else if codec \<in> set lossy_codecs then
        Inl (runtime_error (''NetCDF_Driver: codec '' @ quoted codec
          @ '' is a lossy codec and cannot be used with NetCDF-4 output (R7.5)''))
      else Inr ())"

fun dtype_tag :: "amio_dtype \<Rightarrow> int" where
  "dtype_tag AMIO_DTYPE_F32 = 0" | "dtype_tag AMIO_DTYPE_F64 = 1" | "dtype_tag AMIO_DTYPE_I8 = 2"
| "dtype_tag AMIO_DTYPE_I16 = 3" | "dtype_tag AMIO_DTYPE_I32 = 4" | "dtype_tag AMIO_DTYPE_I64 = 5"
| "dtype_tag AMIO_DTYPE_U8 = 6" | "dtype_tag AMIO_DTYPE_U16 = 7" | "dtype_tag AMIO_DTYPE_U32 = 8"
| "dtype_tag AMIO_DTYPE_U64 = 9" | "dtype_tag (AMIO_DTYPE_OTHER k) = k"

definition unsupported_dtype :: "amio_dtype \<Rightarrow> exn" where
  "unsupported_dtype t = runtime_error (''NetCDF_Driver: unsupported dtype '' @ show_int (dtype_tag t))"

fun dtype_to_nc_type :: "amio_dtype \<Rightarrow> exn + nc_type" where
  "dtype_to_nc_type AMIO_DTYPE_F32 = Inr NC_FLOAT"
| "dtype_to_nc_type AMIO_DTYPE_F64 = Inr NC_DOUBLE"
| "dtype_to_nc_type AMIO_DTYPE_I8 = Inr NC_BYTE"
| "dtype_to_nc_type AMIO_DTYPE_I16 = Inr NC_SHORT"
| "dtype_to_nc_type AMIO_DTYPE_I32 = Inr NC_INT"
| "dtype_to_nc_type AMIO_DTYPE_I64 = Inr NC_INT64"
| "dtype_to_nc_type AMIO_DTYPE_U8 = Inr NC_UBYTE"
| "dtype_to_nc_type AMIO_DTYPE_U16 = Inr NC_USHORT"
| "dtype_to_nc_type AMIO_DTYPE_U32 = Inr NC_UINT"
| "dtype_to_nc_type AMIO_DTYPE_U64 = Inr NC_UINT64"
| "dtype_to_nc_type (AMIO_DTYPE_OTHER k) = Inl (unsupported_dtype (AMIO_DTYPE_OTHER k))"

fun nc_type_to_dtype :: "nc_type \<Rightarrow> amio_dtype option" where
  "nc_type_to_dtype NC_FLOAT = Some AMIO_DTYPE_F32"
| "nc_type_to_dtype NC_DOUBLE = Some AMIO_DTYPE_F64"
| "nc_type_to_dtype NC_BYTE = Some AMIO_DTYPE_I8"
| "nc_type_to_dtype NC_SHORT = Some AMIO_DTYPE_I16"
| "nc_type_to_dtype NC_INT = Some AMIO_DTYPE_I32"
| "nc_type_to_dtype NC_INT64 = Some AMIO_DTYPE_I64"
| "nc_type_to_dtype NC_UBYTE = Some AMIO_DTYPE_U8"
| "nc_type_to_dtype NC_USHORT = Some AMIO_DTYPE_U16"
| "nc_type_to_dtype NC_UINT = Some AMIO_DTYPE_U32"
| "nc_type_to_dtype NC_UINT64 = Some AMIO_DTYPE_U64"
| "nc_type_to_dtype _ = None"

definition dtype_byte_size :: "amio_dtype \<Rightarrow> exn + nat" where
  "dtype_byte_size t = (if element_size t = 0 then Inl (unsupported_dtype t) else Inr (element_size t))"

definition resolve_dataset_path :: "manifest \<Rightarrow> exn + string" where
  "resolve_dataset_path m = first_string m [''path'', ''output_path''] []"


section \<open>Attributes\<close>

text \<open>The form in which a value is emitted.\<close>

definition nc_attribute :: "int \<Rightarrow> nc_type \<Rightarrow> string \<Rightarrow> attr_value \<Rightarrow> nc_att" where
  "nc_attribute varid var_nc_type name val =
     (let generic = (if av_is_integer val then Att_Int64 (av_number val) else Att_Double (av_number val))
      in if av_is_numeric val then
           if name = ''_FillValue'' \<and> varid \<noteq> NC_GLOBAL \<and> var_nc_type \<noteq> NC_NAT then
             (case var_nc_type of
                NC_FLOAT \<Rightarrow> Att_Float (av_number val)
              | NC_DOUBLE \<Rightarrow> Att_Double (av_number val)
              | NC_INT \<Rightarrow> Att_Int (av_number val)
              | NC_INT64 \<Rightarrow> Att_Int64 (av_number val)
              | _ \<Rightarrow> generic)
           else generic
         else Att_Text (av_text val))"

fun put_att_call :: "nc_att \<Rightarrow> string" where
  "put_att_call (Att_Text _) = ''nc_put_att_text''"
| "put_att_call (Att_Float _) = ''nc_put_att_float''"
| "put_att_call (Att_Double _) = ''nc_put_att_double''"
| "put_att_call (Att_Int _) = ''nc_put_att_int''"
| "put_att_call (Att_Int64 _) = ''nc_put_att_longlong''"

definition nc_write_attributes :: "'n netcdf \<Rightarrow> int \<Rightarrow> int \<Rightarrow> var_attributes \<Rightarrow> nc_type \<Rightarrow> ('n, unit) nc_op" where
  "nc_write_attributes lib ncid varid attrs var_nc_type =
     andThen (for_each (\<lambda>(name, val).
         let a = nc_attribute varid var_nc_type name val
         in nc_check lib (put_att_call a @ ''('' @ quoted name @ '')'') (nl_put_att lib ncid varid name a)) attrs)
       (\<lambda>_. result ())"


section \<open>Opening\<close>

text \<open>The codec settings: the nested keys, or the flat ones when neither nested key is present.\<close>

definition string_list_or_empty :: "manifest \<Rightarrow> string \<Rightarrow> exn + string list" where
  "string_list_or_empty m key =
     (if mf_has m key then (case mf_string_list m key of Inl e \<Rightarrow> Inl (conf_exn e) | Inr xs \<Rightarrow> Inr xs) else Inr [])"

definition read_codec :: "conf_access \<Rightarrow> manifest \<Rightarrow> ('n, unit) nc_op" where
  "read_codec ca m =
     (if mf_has m ''codec.active_codec'' \<or> mf_has m ''codec.lossless_allow_list'' then
        andThen (attempt (ca_get_or ca m ''codec.active_codec'' [])) (\<lambda>c.
        andThen (update_driver (\<lambda>d. d\<lparr>nd_active_codec := c\<rparr>)) (\<lambda>_.
        andThen (attempt (string_list_or_empty m ''codec.lossless_allow_list'')) (\<lambda>l.
        update_driver (\<lambda>d. d\<lparr>nd_codec_allow_list := l\<rparr>))))
      else
        andThen (attempt (string_list_or_empty m ''codec_allow_list'')) (\<lambda>l.
        andThen (update_driver (\<lambda>d. d\<lparr>nd_codec_allow_list := l\<rparr>)) (\<lambda>_.
        andThen (attempt (ca_get_or ca m ''codec'' [])) (\<lambda>c.
        update_driver (\<lambda>d. d\<lparr>nd_active_codec := c\<rparr>)))))"

text \<open>The first steps of both opens: the path and the data model.\<close>

definition read_path_and_model :: "nc_env \<Rightarrow> manifest \<Rightarrow> string \<Rightarrow> ('n, unit) nc_op" where
  "read_path_and_model env m who =
     andThen (attempt (resolve_dataset_path m)) (\<lambda>path.
     if path = [] then raise (runtime_error (''NetCDF_Driver::'' @ who @ '': 'path' (or 'output_path') field is required''))
     else
       andThen (update_driver (\<lambda>d. d\<lparr>nd_file_path := path\<rparr>)) (\<lambda>_.
       andThen (attempt (ca_get_or (ne_conf env) m ''data_model'' ''classic'')) (\<lambda>s.
       andThen (attempt (parse_data_model s)) (\<lambda>dm.
       update_driver (\<lambda>d. d\<lparr>nd_data_model := dm\<rparr>)))))"

definition parallel_comm :: "nc_env \<Rightarrow> int option \<Rightarrow> bool" where
  "parallel_comm env comm \<longleftrightarrow> ne_has_mpi env \<and> (case comm of None \<Rightarrow> False | Some c \<Rightarrow> ne_comm_size env c > 1)"

definition nc_open_write :: "'n netcdf \<Rightarrow> nc_env \<Rightarrow> manifest \<Rightarrow> ('n, unit) nc_op" where
  "nc_open_write lib env m =
     andThen driver (\<lambda>d0.
     if nd_is_open d0 then raise (runtime_error ''NetCDF_Driver::open_write: driver is already open'')
     else
       andThen (read_path_and_model env m ''open_write'') (\<lambda>_.
       andThen (read_codec (ne_conf env) m) (\<lambda>_.
       andThen driver (\<lambda>d1.
       andThen (attempt (validate_codec (nd_active_codec d1) (nd_codec_allow_list d1))) (\<lambda>_.
       andThen (attempt (parse_dataset_attributes (ne_number env) (ne_conf env) m)) (\<lambda>attrs.
       andThen (update_driver (\<lambda>d. d\<lparr>nd_attributes := attrs, nd_comm := (case nd_comm d of None \<Rightarrow> ne_parent_comm env | Some c \<Rightarrow> Some c)\<rparr>)) (\<lambda>_.
       andThen (update_driver (\<lambda>d. d\<lparr>nd_use_parallel := parallel_comm env (nd_comm d)\<rparr>)) (\<lambda>_.
       andThen driver (\<lambda>d2.
       andThen (nc_check lib ((if nd_use_parallel d2 then ''nc_create_par('' else ''nc_create('') @ quoted (nd_file_path d2) @ '')'')
         (nl_create lib (nd_file_path d2) (nd_data_model d2 = Classic) (if nd_use_parallel d2 then nd_comm d2 else None))) (\<lambda>ncid.
       andThen (update_driver (\<lambda>d. d\<lparr>nd_ncid := ncid\<rparr>)) (\<lambda>_.
       andThen (nc_check lib ''nc_put_att_text(Conventions)'' (nl_put_att lib ncid NC_GLOBAL ''Conventions'' (Att_Text (da_conventions attrs)))) (\<lambda>_.
       andThen (nc_write_attributes lib ncid NC_GLOBAL (da_global attrs) NC_NAT) (\<lambda>_.
       update_driver (\<lambda>d. d\<lparr>nd_global_attrs_written := True, nd_is_open := True, nd_is_write_mode := True\<rparr>))))))))))))))"

text \<open>A failing parallel open is retried serially.\<close>

definition nc_open_file :: "'n netcdf \<Rightarrow> nc_driver \<Rightarrow> ('n, unit) nc_op" where
  "nc_open_file lib d =
     (let serial = andThen (nc_check lib (''nc_open('' @ quoted (nd_file_path d) @ '')'') (nl_open lib (nd_file_path d) None))
            (\<lambda>ncid. update_driver (\<lambda>d. d\<lparr>nd_ncid := ncid\<rparr>))
      in if nd_use_parallel d then
           (\<lambda>s. case nl_open lib (nd_file_path d) (nd_comm d) (snd s) of
                 (Inr ncid, n) \<Rightarrow> update_driver (\<lambda>d. d\<lparr>nd_ncid := ncid\<rparr>) (fst s, n)
               | (Inl _, n) \<Rightarrow> andThen (update_driver (\<lambda>d. d\<lparr>nd_use_parallel := False\<rparr>)) (\<lambda>_. serial) (fst s, n))
         else serial)"

definition nc_open_read :: "'n netcdf \<Rightarrow> nc_env \<Rightarrow> manifest \<Rightarrow> ('n, unit) nc_op" where
  "nc_open_read lib env m =
     andThen driver (\<lambda>d0.
     if nd_is_open d0 then raise (runtime_error ''NetCDF_Driver::open_read: driver is already open'')
     else
       andThen (read_path_and_model env m ''open_read'') (\<lambda>_.
       andThen (update_driver (\<lambda>d. d\<lparr>nd_comm := ne_parent_comm env, nd_use_parallel := parallel_comm env (ne_parent_comm env)\<rparr>)) (\<lambda>_.
       andThen driver (\<lambda>d1.
       andThen (nc_open_file lib d1) (\<lambda>_.
       update_driver (\<lambda>d. d\<lparr>nd_is_open := True, nd_is_write_mode := False\<rparr>))))))"

definition set_communicator :: "int option \<Rightarrow> nc_driver \<Rightarrow> nc_driver" where
  "set_communicator comm d = d\<lparr>nd_comm := comm\<rparr>"


section \<open>Choosing dimensions\<close>

definition coordinate_names :: "string list" where
  "coordinate_names = [''lon'', ''lat'', ''lev'', ''time'']"

text \<open>The role of dimension \<open>d\<close>: 0, 1, 2, 3 for X, Y, Z and T, counted from the last dimension, or \<open>- 1\<close>.\<close>

definition axis_role :: "int \<Rightarrow> int \<Rightarrow> int" where
  "axis_role rank d =
     (if d = rank - 1 then 0 else if d = rank - 2 then 1 else if d = rank - 3 then 2 else if d = rank - 4 then 3 else - 1)"

definition name_score :: "string list \<Rightarrow> string list \<Rightarrow> string \<Rightarrow> int" where
  "name_score exact parts name =
     (if name \<in> set exact then 3
      else if list_ex (\<lambda>p. contains p name) parts then 2
      else if contains ''dim'' name then 1
      else 0)"

definition axis_score :: "int \<Rightarrow> string \<Rightarrow> int" where
  "axis_score role name =
     (if role = 0 then name_score [''lon'', ''x''] [''lon'', ''x''] name
      else if role = 1 then name_score [''lat'', ''y''] [''lat'', ''y''] name
      else if role = 2 then name_score [''lev'', ''z'', ''level''] [''lev'', ''z''] name
      else if role = 3 then name_score [''time'', ''t''] [''time'', ''t''] name
      else 0)"

text \<open>The first candidate with the highest score.\<close>

fun best_dim :: "int \<Rightarrow> (int \<times> string) list \<Rightarrow> int \<Rightarrow> int \<Rightarrow> int" where
  "best_dim role [] best_score best = best"
| "best_dim role ((i, name) # xs) best_score best =
     (if axis_score role name > best_score then best_dim role xs (axis_score role name) i
      else best_dim role xs best_score best)"

definition matching_dims :: "'n netcdf \<Rightarrow> int \<Rightarrow> nat \<Rightarrow> nat \<Rightarrow> 'n \<Rightarrow> (int \<times> string) list" where
  "matching_dims lib ncid target_len num n =
     concat (map (\<lambda>i. case nl_inq_dim lib ncid (int i) n of
                        Inl _ \<Rightarrow> []
                      | Inr (name, len) \<Rightarrow> if len = target_len then [(int i, name)] else [])
                 [0..<num])"

definition shared_dim :: "'n netcdf \<Rightarrow> int \<Rightarrow> int \<Rightarrow> int \<Rightarrow> nat \<Rightarrow> 'n \<Rightarrow> int option" where
  "shared_dim lib ncid rank d target_len n =
     (case nl_inq_ndims lib ncid n of
        Inl _ \<Rightarrow> None
      | Inr num \<Rightarrow>
          (case matching_dims lib ncid target_len num n of
             [] \<Rightarrow> None
           | [(i, _)] \<Rightarrow> Some i
           | xs \<Rightarrow> (let best = best_dim (axis_role rank d) xs (- 1) (- 1) in if best \<noteq> - 1 then Some best else None)))"

definition dim_name_of :: "string \<Rightarrow> int \<Rightarrow> nat \<Rightarrow> string" where
  "dim_name_of var rank d =
     (if var \<in> set coordinate_names \<and> rank = 1 then var else var @ ''_dim'' @ show_nat d)"

definition resolve_dim :: "'n netcdf \<Rightarrow> int \<Rightarrow> string \<Rightarrow> amio_shape \<Rightarrow> nat \<Rightarrow> ('n, int) nc_op" where
  "resolve_dim lib ncid var shape d =
     (let target_len = to_size_t (sh_extents shape ! d);
          dim_name = dim_name_of var (sh_rank shape) d
      in andThen (if var \<in> set coordinate_names then result None
                  else ask (shared_dim lib ncid (sh_rank shape) (int d) target_len)) (\<lambda>shared.
         case shared of
           Some i \<Rightarrow> result i
         | None \<Rightarrow>
             andThen (ask (nl_inq_dimid lib ncid dim_name)) (\<lambda>found.
             case found of
               Inr i \<Rightarrow> result i
             | Inl _ \<Rightarrow>
                 nc_check lib (''nc_def_dim('' @ quoted dim_name @ '')'')
                   (nl_def_dim lib ncid dim_name (if dim_name = ''time'' then NC_UNLIMITED else target_len)))))"


section \<open>Writing\<close>

text \<open>The definition of a variable that does not exist yet.\<close>

definition define_variable :: "'n netcdf \<Rightarrow> nc_driver \<Rightarrow> var_meta \<Rightarrow> ('n, int) nc_op" where
  "define_variable lib d meta =
     (let ncid = nd_ncid d; name = vm_name meta; shape = vm_shape meta
      in andThen (\<lambda>s. case nl_redef lib ncid (snd s) of
                      (Inl st, n) \<Rightarrow> if st \<noteq> NC_EINDEFINE then (Throws (nc_error lib ''nc_redef'' st), (fst s, n)) else (Done (), (fst s, n))
                    | (Inr _, n) \<Rightarrow> (Done (), (fst s, n))) (\<lambda>_.
         andThen (for_each (resolve_dim lib ncid name shape) [0..<nat (sh_rank shape)]) (\<lambda>dimids.
         andThen (attempt (dtype_to_nc_type (vm_dtype meta))) (\<lambda>t.
         andThen (nc_check lib (''nc_def_var('' @ quoted name @ '')'') (nl_def_var lib ncid name t dimids)) (\<lambda>varid.
         andThen (case da_per_variable (nd_attributes d) name of
                    None \<Rightarrow> result ()
                  | Some attrs \<Rightarrow> nc_write_attributes lib ncid varid attrs t) (\<lambda>_.
         andThen (if nd_active_codec d = [] then result ()
                  else nc_check lib (''nc_def_var_deflate('' @ quoted name @ '')'') (nl_def_var_deflate lib ncid varid 1 1 4)) (\<lambda>_.
         andThen (nc_check lib ''nc_enddef'' (nl_enddef lib ncid)) (\<lambda>_.
         result varid))))))))"

definition nc_write :: "'n netcdf \<Rightarrow> staging_buffer \<Rightarrow> var_meta \<Rightarrow> ('n, unit) nc_op" where
  "nc_write lib src meta =
     andThen driver (\<lambda>d.
     if \<not> nd_is_open d \<or> \<not> nd_is_write_mode d then raise (runtime_error ''NetCDF_Driver::write: driver not open for writing'')
     else
       let ncid = nd_ncid d; name = vm_name meta; rank = nat (sh_rank (vm_shape meta))
       in andThen (ask (nl_inq_varid lib ncid name)) (\<lambda>found.
          andThen (case found of
                     Inr varid \<Rightarrow> result varid
                   | Inl st \<Rightarrow>
                       if st = NC_ENOTVAR then define_variable lib d meta
                       else raise (nc_error lib (''nc_inq_varid('' @ quoted name @ '')'') st)) (\<lambda>varid.
          andThen (if nd_use_parallel d
                   then nc_check lib (''nc_var_par_access('' @ quoted name @ '', NC_COLLECTIVE)'') (nl_var_par_access lib ncid varid)
                   else result ()) (\<lambda>_.
          nc_check lib (''nc_put_vara('' @ quoted name @ '')'')
            (nl_put_vara lib ncid varid (replicate rank 0) (map to_size_t (take rank (sh_extents (vm_shape meta)))) (sb_data src))))))"


section \<open>Reading\<close>

text \<open>
  The hyperslab of a read: offset and count for every dimension of the variable, the first of
  them being the time step when the variable has one dimension more than the requested shape.  The arrays
  have \<open>ndims\<close> entries, initially zero; \<open>None\<close> means that an entry outside them is written or read.
\<close>

definition hyperslab ::
  "nat \<Rightarrow> amio_shape \<Rightarrow> int \<Rightarrow> amio_bbox option \<Rightarrow> (nat list \<times> nat list) option" where
  "hyperslab ndims shape timestep bbox =
     (let time = (int ndims = sh_rank shape + 1);
          k = (if time then 1 else 0);
          start0 = (if time then (replicate ndims 0)[0 := to_size_t timestep] else replicate ndims 0);
          count0 = (if time then (replicate ndims 0)[0 := 1] else replicate ndims 0);
          (r, offs, cnts) = (case bbox of
             Some b \<Rightarrow> (nat (bb_rank b), bb_offsets b, bb_extents b)
           | None \<Rightarrow> (nat (sh_rank shape), zeros, sh_extents shape))
      in if r + k > ndims \<or> nat (sh_rank shape) + k > ndims then None
         else Some (take k start0 @ map to_size_t (take r offs) @ drop (k + r) start0,
                    take k count0 @ map to_size_t (take r cnts) @ drop (k + r) count0))"

definition product_from :: "nat list \<Rightarrow> nat" where
  "product_from xs = foldl (\<lambda>acc x. size_t (acc * x)) 1 xs"

definition slab_strides :: "nat \<Rightarrow> nat \<Rightarrow> amio_bbox option \<Rightarrow> int list" where
  "slab_strides ndims k bbox =
     (case bbox of
        None \<Rightarrow> replicate ndims 1
      | Some b \<Rightarrow>
          replicate k 1 @ map (\<lambda>s. if s > 1 then s else 1) (take (nat (bb_rank b)) (bb_strides b)) @ replicate (ndims - k - nat (bb_rank b)) 1)"

definition has_strides :: "amio_bbox option \<Rightarrow> bool" where
  "has_strides bbox \<longleftrightarrow> (case bbox of None \<Rightarrow> False | Some b \<Rightarrow> list_ex (\<lambda>s. s > 1) (take (nat (bb_rank b)) (bb_strides b)))"

definition nc_read :: "'n netcdf \<Rightarrow> nat \<Rightarrow> var_meta \<Rightarrow> int \<Rightarrow> amio_bbox option \<Rightarrow> ('n, byte list \<times> nat) nc_op" where
  "nc_read lib capacity meta timestep bbox =
     andThen driver (\<lambda>d.
     if \<not> nd_is_open d \<or> nd_is_write_mode d then raise (runtime_error ''NetCDF_Driver::read: driver not open for reading'')
     else
       let ncid = nd_ncid d; name = vm_name meta; shape = vm_shape meta
       in andThen (nc_check lib (''nc_inq_varid('' @ quoted name @ '') for read'') (inquire (nl_inq_varid lib ncid name))) (\<lambda>varid.
          andThen (if nd_use_parallel d
                   then nc_check lib (''nc_var_par_access('' @ quoted name @ '', NC_COLLECTIVE) for read'') (nl_var_par_access lib ncid varid)
                   else result ()) (\<lambda>_.
          andThen (nc_check lib (''nc_inq_varndims('' @ quoted name @ '')'') (inquire (nl_inq_varndims lib ncid varid))) (\<lambda>ndims.
          case hyperslab ndims shape timestep bbox of
            None \<Rightarrow> (\<lambda>s. (Beyond, s))
          | Some (start, cnt) \<Rightarrow>
              let k = (if int ndims = sh_rank shape + 1 then 1 else 0)
              in andThen (attempt (dtype_byte_size (vm_dtype meta))) (\<lambda>elem_size.
                 let total_bytes = size_t (product_from (take (nat (sh_rank shape)) (drop k cnt)) * elem_size)
                 in if total_bytes > capacity then
                      raise (runtime_error (''NetCDF_Driver::read: required '' @ show_nat total_bytes @ '' bytes but buffer capacity is ''
                        @ show_nat capacity))
                    else
                      andThen (if has_strides bbox
                               then nc_check lib (''nc_get_vars('' @ quoted name @ '')'')
                                      (inquire (nl_get_vars lib ncid varid start cnt (slab_strides ndims k bbox)))
                               else nc_check lib (''nc_get_vara('' @ quoted name @ '')'')
                                      (inquire (nl_get_vara lib ncid varid start cnt))) (\<lambda>bytes.
                      if length bytes > capacity then (\<lambda>s. (Beyond, s)) else result (bytes, total_bytes)))))))"

definition nc_flush :: "'n netcdf \<Rightarrow> ('n, unit) nc_op" where
  "nc_flush lib =
     andThen driver (\<lambda>d.
     if \<not> nd_is_open d then raise (runtime_error ''NetCDF_Driver::flush: driver is not open'')
     else nc_check lib ''nc_sync'' (nl_sync lib (nd_ncid d)))"

definition nc_close :: "'n netcdf \<Rightarrow> ('n, unit) nc_op" where
  "nc_close lib =
     andThen driver (\<lambda>d.
     if \<not> nd_is_open d then result ()
     else
       andThen (nc_check lib (''nc_close('' @ quoted (nd_file_path d) @ '')'') (nl_close lib (nd_ncid d))) (\<lambda>_.
       update_driver (\<lambda>d. d\<lparr>nd_ncid := - 1, nd_comm := None, nd_is_open := False, nd_is_write_mode := False, nd_file_path := []\<rparr>)))"


section \<open>Attributes of a file\<close>

definition att_var :: "'n netcdf \<Rightarrow> nc_driver \<Rightarrow> string \<Rightarrow> 'n \<Rightarrow> int + int" where
  "att_var lib d var n = (if var = [] then Inr NC_GLOBAL else nl_inq_varid lib (nd_ncid d) var n)"

definition trim_nuls :: "string \<Rightarrow> string" where
  "trim_nuls s = rev (dropWhile (\<lambda>c. c = CHR 0x00) (rev s))"

definition get_text_attribute :: "'n netcdf \<Rightarrow> nc_driver \<Rightarrow> string \<Rightarrow> string \<Rightarrow> 'n \<Rightarrow> string option" where
  "get_text_attribute lib d var att n =
     (if \<not> nd_is_open d \<or> nd_is_write_mode d then None
      else case att_var lib d var n of
        Inl _ \<Rightarrow> None
      | Inr varid \<Rightarrow>
          (case nl_inq_att lib (nd_ncid d) varid att n of
             Inl _ \<Rightarrow> None
           | Inr (t, len) \<Rightarrow>
               if len = 0 then None
               else if t = NC_CHAR then
                 (case nl_get_att_text lib (nd_ncid d) varid att n of Inl _ \<Rightarrow> None | Inr s \<Rightarrow> Some (trim_nuls s))
               else if t = NC_STRING then
                 (case nl_get_att_string lib (nd_ncid d) varid att n of
                    Inl _ \<Rightarrow> None
                  | Inr strs \<Rightarrow> Some (case strs of Some s # _ \<Rightarrow> s | _ \<Rightarrow> []))
               else None))"

definition get_numeric_attribute :: "'n netcdf \<Rightarrow> nc_driver \<Rightarrow> string \<Rightarrow> string \<Rightarrow> 'n \<Rightarrow> u64 option" where
  "get_numeric_attribute lib d var att n =
     (if \<not> nd_is_open d \<or> nd_is_write_mode d then None
      else case att_var lib d var n of
        Inl _ \<Rightarrow> None
      | Inr varid \<Rightarrow>
          (case nl_inq_att lib (nd_ncid d) varid att n of
             Inl _ \<Rightarrow> None
           | Inr (t, len) \<Rightarrow>
               if len = 0 \<or> t = NC_CHAR \<or> t = NC_STRING then None
               else
                 (case nl_get_att_double lib (nd_ncid d) varid att n of
                    Inr (x # _) \<Rightarrow> Some x
                  | _ \<Rightarrow> None)))"


section \<open>Describing a variable\<close>

definition unlimited_dims :: "'n netcdf \<Rightarrow> int \<Rightarrow> 'n \<Rightarrow> int list" where
  "unlimited_dims lib ncid n =
     (case nl_inq_unlimdims_count lib ncid n of
        Inr k \<Rightarrow> if k > 0 then (case nl_inq_unlimdims lib ncid n of Inl _ \<Rightarrow> [] | Inr xs \<Rightarrow> xs) else []
      | Inl _ \<Rightarrow>
          (case nl_inq_unlimdim lib ncid n of
             Inr i \<Rightarrow> if i \<ge> 0 then [i] else []
           | Inl _ \<Rightarrow> []))"

definition text_att :: "'n netcdf \<Rightarrow> int \<Rightarrow> int \<Rightarrow> string \<Rightarrow> 'n \<Rightarrow> string option" where
  "text_att lib ncid varid att n =
     (case nl_inq_attlen lib ncid varid att n of
        Inl _ \<Rightarrow> None
      | Inr len \<Rightarrow>
          if len = 0 then None
          else (case nl_get_att_text lib ncid varid att n of Inl _ \<Rightarrow> None | Inr s \<Rightarrow> Some s))"

definition att_equals :: "'n netcdf \<Rightarrow> int \<Rightarrow> int \<Rightarrow> string \<Rightarrow> string \<Rightarrow> 'n \<Rightarrow> bool" where
  "att_equals lib ncid varid att expected n =
     (case text_att lib ncid varid att n of
        None \<Rightarrow> False
      | Some s \<Rightarrow> map lower_char (takeWhile (\<lambda>c. c \<noteq> CHR 0x00) s) = expected)"

definition att_contains :: "'n netcdf \<Rightarrow> int \<Rightarrow> int \<Rightarrow> string \<Rightarrow> string \<Rightarrow> 'n \<Rightarrow> bool" where
  "att_contains lib ncid varid att needle n =
     (case text_att lib ncid varid att n of None \<Rightarrow> False | Some s \<Rightarrow> contains needle (map lower_char s))"

definition time_names :: "string list" where
  "time_names = [''time'', ''t'', ''valid_time'', ''forecast_time'', ''record'', ''hour_index'']"

definition is_cf_time_dim :: "'n netcdf \<Rightarrow> int \<Rightarrow> int \<Rightarrow> 'n \<Rightarrow> bool" where
  "is_cf_time_dim lib ncid dimid n =
     (case nl_inq_dimname lib ncid dimid n of
        Inl _ \<Rightarrow> False
      | Inr name \<Rightarrow>
          if map lower_char name \<in> set time_names then True
          else
            (case nl_inq_varid lib ncid name n of
               Inl _ \<Rightarrow> False
             | Inr v \<Rightarrow>
                 att_equals lib ncid v ''axis'' ''t'' n \<or> att_equals lib ncid v ''standard_name'' ''time'' n
                 \<or> att_contains lib ncid v ''units'' ''since'' n))"

definition is_time_axis :: "'n netcdf \<Rightarrow> int \<Rightarrow> int \<Rightarrow> 'n \<Rightarrow> bool" where
  "is_time_axis lib ncid dimid n \<longleftrightarrow> dimid \<in> set (unlimited_dims lib ncid n) \<or> is_cf_time_dim lib ncid dimid n"

fun all_lengths :: "'n netcdf \<Rightarrow> int \<Rightarrow> int list \<Rightarrow> 'n \<Rightarrow> nat list option" where
  "all_lengths lib ncid [] n = Some []"
| "all_lengths lib ncid (i # is) n =
     (case nl_inq_dimlen lib ncid i n of
        Inl _ \<Rightarrow> None
      | Inr len \<Rightarrow> map_option (Cons len) (all_lengths lib ncid is n))"

text \<open>\<^verbatim>\<open>static_cast<std::int64_t>\<close> of a length.\<close>

definition to_i64 :: "nat \<Rightarrow> int" where
  "to_i64 n = i64 (int n)"

definition described :: "amio_dtype \<Rightarrow> nat list \<Rightarrow> bool \<Rightarrow> variable_info" where
  "described dtype lens time_first =
     (let (steps, shape_lens) =
            (if time_first \<and> length lens > 1 then (to_i64 (hd lens), tl lens) else (1, lens))
      in \<lparr>vi_found = True, vi_dtype = dtype,
          vi_shape = \<lparr>sh_rank = int (length shape_lens),
            sh_extents = map to_i64 shape_lens @ replicate (AMIO_MAX_RANK - length shape_lens) 0, sh_strides = zeros\<rparr>,
          vi_total_timesteps = (if steps > 0 then steps else 1)\<rparr>)"

definition nc_describe_variable :: "'n netcdf \<Rightarrow> nc_driver \<Rightarrow> string \<Rightarrow> 'n \<Rightarrow> variable_info" where
  "nc_describe_variable lib d name n =
     (if \<not> nd_is_open d \<or> nd_is_write_mode d then VariableInfo
      else case nl_inq_varid lib (nd_ncid d) name n of
        Inl _ \<Rightarrow> VariableInfo
      | Inr varid \<Rightarrow>
          (case nl_inq_vartype lib (nd_ncid d) varid n of
             Inl _ \<Rightarrow> VariableInfo
           | Inr t \<Rightarrow>
               (case nc_type_to_dtype t of
                  None \<Rightarrow> VariableInfo
                | Some dtype \<Rightarrow>
                    (case nl_inq_varndims lib (nd_ncid d) varid n of
                       Inl _ \<Rightarrow> VariableInfo
                     | Inr ndims \<Rightarrow>
                         if ndims < 1 \<or> ndims > AMIO_MAX_RANK then VariableInfo
                         else
                           (case nl_inq_vardimid lib (nd_ncid d) varid n of
                              Inl _ \<Rightarrow> VariableInfo
                            | Inr dimids \<Rightarrow>
                                (case all_lengths lib (nd_ncid d) dimids n of
                                   None \<Rightarrow> VariableInfo
                                 | Some lens \<Rightarrow>
                                     described dtype lens (is_time_axis lib (nd_ncid d) (hd dimids) n)))))))"

end
