(* ===== verification/Driver_Lifecycle.thy ===== *)
theory Driver_Lifecycle
  imports Driver_Base
begin

text \<open>
  The lifecycle of a backend driver as \<^verbatim>\<open>src/factory/backend_driver.hpp\<close> documents it: a driver is opened for
  writing or for reading, written or read, and closed.  The protocol is an automaton over the modes of a
  driver; the locale \<open>lifecycle\<close> lists what each operation owes to it, and its conclusion is that every
  sequence of calls, whatever fails in it, is one the automaton accepts.
\<close>


section \<open>The protocol\<close>

datatype mode = Closed | Writing | Reading

datatype ('m, 'w, 'q) driver_call = Open_Write 'm | Open_Read 'm | Write 'w | Read 'q | Flush | Close

text \<open>
  The mode after a call with the given outcome (\<open>True\<close>: it returned, \<open>False\<close>: it threw); \<open>None\<close>: the protocol rules the
  outcome out.
\<close>

fun next_mode :: "mode \<Rightarrow> ('m, 'w, 'q) driver_call \<Rightarrow> bool \<Rightarrow> mode option" where
  "next_mode md (Open_Write _) ok = (if \<not> ok then Some md else if md = Closed then Some Writing else None)"
| "next_mode md (Open_Read _) ok = (if \<not> ok then Some md else if md = Closed then Some Reading else None)"
| "next_mode md (Write _) ok = (if ok \<and> md \<noteq> Writing then None else Some md)"
| "next_mode md (Read _) ok = (if ok \<and> md \<noteq> Reading then None else Some md)"
| "next_mode md Flush ok = Some md"
| "next_mode md Close ok = (if ok then Some Closed else if md = Closed then None else Some md)"

fun modes :: "mode \<Rightarrow> (('m, 'w, 'q) driver_call \<times> bool) list \<Rightarrow> mode option" where
  "modes md [] = Some md"
| "modes md ((c, ok) # cs) = (case next_mode md c ok of None \<Rightarrow> None | Some md' \<Rightarrow> modes md' cs)"


section \<open>Running a driver\<close>

record ('s, 'm, 'w, 'q, 'r) backend =
  be_mode :: "'s \<Rightarrow> mode"
  be_open_write :: "'m \<Rightarrow> ('s, unit) op"
  be_open_read :: "'m \<Rightarrow> ('s, unit) op"
  be_write :: "'w \<Rightarrow> ('s, unit) op"
  be_read :: "'q \<Rightarrow> ('s, 'r) op"
  be_flush :: "('s, unit) op"
  be_close :: "('s, unit) op"

fun returned :: "'a effect \<Rightarrow> bool" where
  "returned (Done _) = True"
| "returned (Throws _) = False"
| "returned Beyond = False"

definition outcome_of :: "'a effect \<times> 's \<Rightarrow> bool \<times> 's" where
  "outcome_of r = (returned (fst r), snd r)"

fun backend_step :: "('s, 'm, 'w, 'q, 'r) backend \<Rightarrow> ('m, 'w, 'q) driver_call \<Rightarrow> 's \<Rightarrow> bool \<times> 's" where
  "backend_step D (Open_Write m) s = outcome_of (be_open_write D m s)"
| "backend_step D (Open_Read m) s = outcome_of (be_open_read D m s)"
| "backend_step D (Write w) s = outcome_of (be_write D w s)"
| "backend_step D (Read q) s = outcome_of (be_read D q s)"
| "backend_step D Flush s = outcome_of (be_flush D s)"
| "backend_step D Close s = outcome_of (be_close D s)"

text \<open>The calls of a sequence with their outcomes, and the state behind it.\<close>

fun backend_run :: "('s, 'm, 'w, 'q, 'r) backend \<Rightarrow> ('m, 'w, 'q) driver_call list \<Rightarrow> 's
    \<Rightarrow> (('m, 'w, 'q) driver_call \<times> bool) list \<times> 's" where
  "backend_run D [] s = ([], s)"
| "backend_run D (c # cs) s =
     (let (ok, s1) = backend_step D c s; (rest, s2) = backend_run D cs s1 in ((c, ok) # rest, s2))"


section \<open>The contract\<close>

text \<open>An operation that is admitted in one mode only: elsewhere it throws; it never changes the mode.\<close>

definition admitted_in :: "('s \<Rightarrow> mode) \<Rightarrow> mode \<Rightarrow> ('s, 'a) op \<Rightarrow> bool" where
  "admitted_in mode_of md f \<longleftrightarrow>
     keeps mode_of f \<and> (\<forall>s. mode_of s \<noteq> md \<longrightarrow> \<not> returned (fst (f s)))"

text \<open>An open: refused unless the driver is closed, with the given mode when it returns and no effect on the mode otherwise.\<close>

definition opens_to :: "('s \<Rightarrow> mode) \<Rightarrow> mode \<Rightarrow> ('s, 'a) op \<Rightarrow> bool" where
  "opens_to mode_of md f \<longleftrightarrow>
     (\<forall>s. if returned (fst (f s)) then mode_of s = Closed \<and> mode_of (snd (f s)) = md else mode_of (snd (f s)) = mode_of s)"

lemma returned_Done: "returned r \<longleftrightarrow> (\<exists>x. r = Done x)"
  by (cases r) simp_all

lemma opens_toI:
  assumes "\<And>s. mode_of s \<noteq> Closed \<longleftrightarrow> p s" and "\<And>s. p s \<Longrightarrow> \<exists>x. f s = (Throws x, s)" and "stays_off p f"
    and "\<And>s u s'. f s = (Done u, s') \<Longrightarrow> mode_of s' = md"
  shows "opens_to mode_of md f"
  unfolding opens_to_def
proof (intro allI)
  fix s
  obtain r s' where f: "f s = (r, s')" by force
  show "if returned (fst (f s)) then mode_of s = Closed \<and> mode_of (snd (f s)) = md else mode_of (snd (f s)) = mode_of s"
  proof (cases "p s")
    case True
    then obtain x where "f s = (Throws x, s)" using assms(2) by blast
    then show ?thesis by simp
  next
    case False
    then show ?thesis using assms(1,3,4) f unfolding stays_off_def returned_Done by (metis fst_conv snd_conv)
  qed
qed

lemma admitted_inI:
  assumes "keeps fst f" and "\<And>s. q (fst s) \<noteq> md \<Longrightarrow> \<exists>x. f s = (Throws x, s)"
  shows "admitted_in (\<lambda>s. q (fst s)) md f"
  unfolding admitted_in_def using keeps_fst [OF assms(1)] assms(2) by (metis fst_conv returned.simps(2))

locale lifecycle =
  fixes D :: "('s, 'm, 'w, 'q, 'r) backend"
  assumes opens_write: "opens_to (be_mode D) Writing (be_open_write D m)"
    and opens_read: "opens_to (be_mode D) Reading (be_open_read D m)"
    and writes: "admitted_in (be_mode D) Writing (be_write D w)"
    and reads: "admitted_in (be_mode D) Reading (be_read D q)"
    and flushes: "keeps (be_mode D) (be_flush D)"
    and closed: "be_mode D s = Closed \<Longrightarrow> be_close D s = (Done (), s)"
    and closes: "returned (fst (be_close D s)) \<Longrightarrow> be_mode D (snd (be_close D s)) = Closed"
    and unclosed: "\<not> returned (fst (be_close D s)) \<Longrightarrow> be_mode D (snd (be_close D s)) = be_mode D s"
begin

lemma step: "backend_step D c s = (ok, s') \<Longrightarrow> next_mode (be_mode D s) c ok = Some (be_mode D s')"
proof (cases c)
  case (Open_Write m)
  then show "backend_step D c s = (ok, s') \<Longrightarrow> ?thesis"
    using opens_write [of m] by (auto simp: outcome_of_def opens_to_def split: if_splits)
next
  case (Open_Read m)
  then show "backend_step D c s = (ok, s') \<Longrightarrow> ?thesis"
    using opens_read [of m] by (auto simp: outcome_of_def opens_to_def split: if_splits)
next
  case (Write w)
  then show "backend_step D c s = (ok, s') \<Longrightarrow> ?thesis"
    using writes [of w] by (auto simp: outcome_of_def admitted_in_def keeps_def)
next
  case (Read q)
  then show "backend_step D c s = (ok, s') \<Longrightarrow> ?thesis"
    using reads [of q] by (auto simp: outcome_of_def admitted_in_def keeps_def)
next
  case Flush
  then show "backend_step D c s = (ok, s') \<Longrightarrow> ?thesis"
    using flushes by (auto simp: outcome_of_def keeps_def)
next
  case Close
  then show "backend_step D c s = (ok, s') \<Longrightarrow> ?thesis"
    using closed [of s] closes [of s] unclosed [of s] by (auto simp: outcome_of_def)
qed

lemma run: "backend_run D cs s = (tr, s') \<Longrightarrow> modes (be_mode D s) tr = Some (be_mode D s')"
  by (induction cs arbitrary: s tr) (auto simp: step split: prod.splits)

lemma refines: "modes (be_mode D s) (fst (backend_run D cs s)) = Some (be_mode D (snd (backend_run D cs s)))"
  by (rule run) simp

end


section \<open>What the protocol says\<close>

text \<open>
  A write that returned was preceded by an open for writing that returned, and nothing since has closed the
  driver; likewise for reads.
\<close>

lemma modes_append: "modes md (xs @ ys) = (case modes md xs of None \<Rightarrow> None | Some md' \<Rightarrow> modes md' ys)"
  by (induction md xs rule: modes.induct) (auto split: option.split)

lemma mode_origin:
  assumes "modes Closed xs = Some md" and "md \<noteq> Closed"
  shows "\<exists>m ys zs. xs = ys @ (if md = Writing then Open_Write m else Open_Read m, True) # zs \<and> (Close, True) \<notin> set zs"
  using assms
proof (induction xs arbitrary: md rule: rev_induct)
  case (snoc x xs)
  obtain c ok where x: "x = (c, ok)" by force
  obtain md0 where m0: "modes Closed xs = Some md0" "next_mode md0 c ok = Some md"
    using snoc.prems(1) x by (auto simp: modes_append split: option.splits)
  show ?case
  proof (cases "md0 = md \<and> \<not> (c = Close \<and> ok)")
    case True
    obtain m ys zs where "xs = ys @ (if md = Writing then Open_Write m else Open_Read m, True) # zs" "(Close, True) \<notin> set zs"
      using snoc.IH [OF m0(1)] True snoc.prems(2) by blast
    then show ?thesis using True x by (intro exI [of _ m] exI [of _ ys] exI [of _ "zs @ [x]"]) auto
  next
    case False
    have "\<exists>m. x = (if md = Writing then Open_Write m else Open_Read m, True)"
      using m0(2) False snoc.prems(2) x by (cases c) (auto split: if_splits)
    then show ?thesis by (metis empty_iff list.set(1))
  qed
qed simp

context lifecycle
begin

lemma write_follows_open:
  assumes "be_mode D s = Closed" and "fst (backend_run D cs s) = xs @ (Write w, True) # ys"
  shows "\<exists>m us vs. xs = us @ (Open_Write m, True) # vs \<and> (Close, True) \<notin> set vs"
proof -
  have "modes Closed (xs @ (Write w, True) # ys) \<noteq> None" using refines [of s cs] assms by simp
  then have "modes Closed xs = Some Writing" by (auto simp: modes_append split: option.splits if_splits)
  from mode_origin [OF this] show ?thesis by simp
qed

lemma read_follows_open:
  assumes "be_mode D s = Closed" and "fst (backend_run D cs s) = xs @ (Read q, True) # ys"
  shows "\<exists>m us vs. xs = us @ (Open_Read m, True) # vs \<and> (Close, True) \<notin> set vs"
proof -
  have "modes Closed (xs @ (Read q, True) # ys) \<noteq> None" using refines [of s cs] assms by simp
  then have "modes Closed xs = Some Reading" by (auto simp: modes_append split: option.splits if_splits)
  from mode_origin [OF this] show ?thesis by simp
qed

end

end
