(* ===== verification/Netcdf_Properties.thy ===== *)
theory Netcdf_Properties
  imports Netcdf_Driver Driver_Lifecycle
begin

text \<open>
  Properties of the NetCDF driver: the hyperslab of every read of a described variable lies inside the
  variable, the dimensions chosen for a new variable have its lengths, element types survive the round trip,
  and the codec and opening rules.
\<close>


section \<open>Hyperslabs\<close>

lemma valid_box_dims:
  assumes "validate_bbox (Some b) s = AMIO_OK" and "bbox_no_overflow b"
  shows "bb_rank b = sh_rank s"
    and "d < nat (sh_rank s) \<Longrightarrow> 1 \<le> bb_strides b ! d \<and> 0 \<le> bb_offsets b ! d \<and> 1 \<le> bb_extents b ! d
      \<and> bb_offsets b ! d + (bb_extents b ! d - 1) * bb_strides b ! d < sh_extents s ! d"
proof -
  have 1: "bb_rank b = sh_rank s" "\<forall>d \<in> set [0..<nat (bb_rank b)]. bbox_dim_error b s d = None"
    using assms(1) first_error_OK [of "bbox_dim_error b s" "[0..<nat (bb_rank b)]"] bbox_dim_error_not_OK
    by (auto simp: validate_bbox_def split: if_splits)
  then show "bb_rank b = sh_rank s" by blast
  assume "d < nat (sh_rank s)"
  with 1 have d: "d < nat (bb_rank b)" "bbox_dim_error b s d = None" by simp_all
  have "bb_offsets b ! d + (bb_extents b ! d - 1) * bb_strides b ! d < 2 ^ 63"
    using assms(2) d(1) by (simp add: bbox_no_overflow_def)
  from bbox_dim_error_None [OF this] d(2)
  show "1 \<le> bb_strides b ! d \<and> 0 \<le> bb_offsets b ! d \<and> 1 \<le> bb_extents b ! d
      \<and> bb_offsets b ! d + (bb_extents b ! d - 1) * bb_strides b ! d < sh_extents s ! d"
    by simp
qed

text \<open>The hyperslab of a selection with as many entries as the shape has dimensions.\<close>

lemma hyperslab_eq:
  assumes "sh_rank s = int r" and "k = 0 \<or> k = 1" and "case bbox of None \<Rightarrow> True | Some b \<Rightarrow> bb_rank b = int r"
    and "sel = (case bbox of None \<Rightarrow> (zeros, sh_extents s) | Some b \<Rightarrow> (bb_offsets b, bb_extents b))"
  shows "hyperslab (k + r) s t bbox =
    Some (replicate k (to_size_t t) @ map to_size_t (take r (fst sel)), replicate k 1 @ map to_size_t (take r (snd sel)))"
  using assms by (auto simp: hyperslab_def Let_def split: option.splits)

lemma to_i64_id: "n < 2 ^ 63 \<Longrightarrow> to_i64 n = int n"
  unfolding to_i64_def by (rule i64_id) (simp add: in_i64_def)

lemma to_size_t_of_length: "n < 2 ^ 63 \<Longrightarrow> to_size_t (int n) = n"
  by (subst to_size_t_nonneg) (simp_all add: in_i64_def)

text \<open>The entries of a selection reach inside a shape.\<close>

lemma selection_inside:
  assumes "wf_shape s" and "validate_bbox bbox s = AMIO_OK" and "case bbox of None \<Rightarrow> True | Some b \<Rightarrow> wf_bbox b \<and> bbox_no_overflow b"
    and "sel = (case bbox of None \<Rightarrow> (zeros, sh_extents s) | Some b \<Rightarrow> (bb_offsets b, bb_extents b))"
    and "sh_rank s \<le> int AMIO_MAX_RANK" and "d < nat (sh_rank s)" and "j < to_size_t (snd sel ! d)" and "0 \<le> sh_extents s ! d"
  shows "int (to_size_t (fst sel ! d)) + int j * (slab_strides (k + nat (sh_rank s)) k bbox ! (k + d)) < sh_extents s ! d"
    and "0 < slab_strides (k + nat (sh_rank s)) k bbox ! (k + d)"
proof -
  have dmax: "d < AMIO_MAX_RANK" using assms(5,6) by linarith
  have "int (to_size_t (fst sel ! d)) + int j * (slab_strides (k + nat (sh_rank s)) k bbox ! (k + d)) < sh_extents s ! d
      \<and> 0 < slab_strides (k + nat (sh_rank s)) k bbox ! (k + d)"
  proof (cases bbox)
    case None
    have "in_i64 (sh_extents s ! d)" using assms(1) dmax by (simp add: wf_shape_def list_all_length)
    then have "j < nat (sh_extents s ! d)" using assms(4,7,8) None by (simp add: to_size_t_nonneg)
    moreover have "fst sel ! d = 0" using None assms(4) dmax by (simp add: zeros_def)
    ultimately show ?thesis using None assms(6) by (simp add: slab_strides_def to_size_t_def)
  next
    case (Some b)
    have v: "bb_rank b = sh_rank s" "1 \<le> bb_strides b ! d" "0 \<le> bb_offsets b ! d" "1 \<le> bb_extents b ! d"
      "bb_offsets b ! d + (bb_extents b ! d - 1) * bb_strides b ! d < sh_extents s ! d"
      using valid_box_dims [of b s] assms(2,3,6) Some by auto
    have wf: "in_i64 (bb_offsets b ! d)" "in_i64 (bb_extents b ! d)" "length (bb_strides b) = AMIO_MAX_RANK"
      using assms(3) Some dmax by (simp_all add: wf_bbox_def list_all_length)
    have sel: "fst sel ! d = bb_offsets b ! d" "snd sel ! d = bb_extents b ! d" using assms(4) Some by simp_all
    have j: "int j \<le> bb_extents b ! d - 1" using assms(7) sel v(4) wf(2) by (simp add: to_size_t_nonneg)
    have st: "slab_strides (k + nat (sh_rank s)) k bbox ! (k + d) = bb_strides b ! d"
      using Some v(1,2) assms(6) dmax wf(3) by (auto simp: slab_strides_def nth_append)
    have "int j * bb_strides b ! d \<le> (bb_extents b ! d - 1) * bb_strides b ! d"
      using j v(2) by (intro mult_right_mono) simp_all
    with v(5) have "bb_offsets b ! d + int j * bb_strides b ! d < sh_extents s ! d" by linarith
    then show ?thesis using v(2,3) sel st wf(1) by (simp add: to_size_t_nonneg)
  qed
  then show "int (to_size_t (fst sel ! d)) + int j * (slab_strides (k + nat (sh_rank s)) k bbox ! (k + d)) < sh_extents s ! d"
    "0 < slab_strides (k + nat (sh_rank s)) k bbox ! (k + d)" by blast+
qed

lemma all_lengths_Some: "all_lengths lib ncid ids n = Some lens \<Longrightarrow> length lens = length ids \<and> (\<forall>len \<in> set lens. \<exists>i \<in> set ids. nl_inq_dimlen lib ncid i n = Inr len)"
  by (induction ids arbitrary: lens) (fastforce split: sum.splits)+

lemma all_lengths_hd: "all_lengths lib ncid ids n = Some lens \<Longrightarrow> lens \<noteq> [] \<Longrightarrow> nl_inq_dimlen lib ncid (hd ids) n = Inr (hd lens)"
  by (cases ids) (auto split: sum.splits)

lemma describe_found:
  assumes "vi_found (nc_describe_variable lib d name n)"
  shows "\<exists>varid t dtype k ids lens.
    nd_is_open d \<and> \<not> nd_is_write_mode d
    \<and> nl_inq_varid lib (nd_ncid d) name n = Inr varid \<and> nl_inq_vartype lib (nd_ncid d) varid n = Inr t \<and> nc_type_to_dtype t = Some dtype
    \<and> nl_inq_varndims lib (nd_ncid d) varid n = Inr k \<and> 1 \<le> k \<and> k \<le> AMIO_MAX_RANK
    \<and> nl_inq_vardimid lib (nd_ncid d) varid n = Inr ids \<and> all_lengths lib (nd_ncid d) ids n = Some lens
    \<and> nc_describe_variable lib d name n = described dtype lens (is_time_axis lib (nd_ncid d) (hd ids) n)"
  using assms by (auto simp: nc_describe_variable_def VariableInfo_def split: if_splits sum.splits option.splits)

text \<open>What a description says of the lengths: the time steps in front, if any, and the shape behind them.\<close>

lemma described_split:
  assumes "lens \<noteq> []" and "length lens \<le> AMIO_MAX_RANK" and "\<forall>len \<in> set lens. len < 2 ^ 63"
  shows "\<exists>k sl. (k = 0 \<or> k = 1) \<and> lens = take k lens @ sl \<and> length lens = k + length sl
    \<and> sh_rank (vi_shape (described dtype lens tf)) = int (length sl) \<and> wf_shape (vi_shape (described dtype lens tf))
    \<and> (\<forall>i < length sl. sh_extents (vi_shape (described dtype lens tf)) ! i = int (sl ! i))
    \<and> vi_total_timesteps (described dtype lens tf) = (if k = 1 \<and> 0 < hd lens then int (hd lens) else 1)"
proof -
  define k where "k = (if tf \<and> length lens > 1 then 1 else 0 :: nat)"
  define sl where "sl = drop k lens"
  have d: "described dtype lens tf = \<lparr>vi_found = True, vi_dtype = dtype,
      vi_shape = \<lparr>sh_rank = int (length sl), sh_extents = map to_i64 sl @ replicate (AMIO_MAX_RANK - length sl) 0, sh_strides = zeros\<rparr>,
      vi_total_timesteps = (if k = 1 \<and> 0 < to_i64 (hd lens) then to_i64 (hd lens) else 1)\<rparr>"
    by (cases lens) (auto simp: described_def Let_def sl_def k_def drop_Suc)
  have sl: "\<forall>len \<in> set sl. len < 2 ^ 63" using assms(3) by (auto simp: sl_def dest: in_set_dropD)
  have ex: "to_i64 (sl ! i) = int (sl ! i)" if "i < length sl" for i using sl that by (intro to_i64_id) simp
  have hd: "to_i64 (hd lens) = int (hd lens)" using assms(1,3) by (intro to_i64_id) simp
  have "length sl \<le> AMIO_MAX_RANK" using assms(2) by (simp add: sl_def)
  moreover have "in_i64 (to_i64 x)" "in_i64 0" for x by (simp add: to_i64_def) (simp add: in_i64_def)
  ultimately have "wf_shape (vi_shape (described dtype lens tf))"
    by (auto simp: d wf_shape_def zeros_def list_all_iff)
  moreover have "k = 0 \<or> k = 1" "lens = take k lens @ sl" "length lens = k + length sl"
    using assms(1) by (auto simp: k_def sl_def)
  ultimately show ?thesis using ex hd by (intro exI [of _ k] exI [of _ sl]) (simp add: d nth_append)
qed

lemma described_slab:
  assumes "lens \<noteq> []" and "length lens \<le> AMIO_MAX_RANK" and "\<forall>len \<in> set lens. len < 2 ^ 63"
    and "info = described dtype lens tf" and "0 \<le> t" and "t < vi_total_timesteps info" and "0 < hd lens"
    and "validate_bbox bbox (vi_shape info) = AMIO_OK" and "case bbox of None \<Rightarrow> True | Some b \<Rightarrow> wf_bbox b \<and> bbox_no_overflow b"
  shows "\<exists>start cnt k. hyperslab (length lens) (vi_shape info) t bbox = Some (start, cnt)
    \<and> k = (if int (length lens) = sh_rank (vi_shape info) + 1 then 1 else 0)
    \<and> length start = length lens \<and> length cnt = length lens
    \<and> (\<forall>i < length lens. \<forall>j < cnt ! i.
         int (start ! i) + int j * (slab_strides (length lens) k bbox ! i) < int (lens ! i))"
proof -
  let ?s = "vi_shape info"
  obtain k sl where k: "k = 0 \<or> k = 1" "lens = take k lens @ sl" "length lens = k + length sl"
    and s: "sh_rank ?s = int (length sl)" "wf_shape ?s" "\<forall>i < length sl. sh_extents ?s ! i = int (sl ! i)"
    and T: "vi_total_timesteps info = (if k = 1 \<and> 0 < hd lens then int (hd lens) else 1)"
    using described_split [OF assms(1-3), of dtype tf] assms(4) by blast
  define sel where "sel = (case bbox of None \<Rightarrow> (zeros, sh_extents ?s) | Some b \<Rightarrow> (bb_offsets b, bb_extents b))"
  have rank: "case bbox of None \<Rightarrow> True | Some b \<Rightarrow> bb_rank b = int (length sl)"
    using assms(8) s(1) by (auto simp: validate_bbox_def split: option.splits if_splits)
  note slab = hyperslab_eq [OF s(1) k(1) rank sel_def, of t]
  have len: "length sl \<le> AMIO_MAX_RANK" using assms(2) k(3) by linarith
  have sel_len: "length (fst sel) = AMIO_MAX_RANK" "length (snd sel) = AMIO_MAX_RANK"
    using s(2) assms(9) by (auto simp: sel_def zeros_def wf_shape_def wf_bbox_def split: option.splits)
  have t0: "to_size_t t = nat t" and t1: "k = 1 \<Longrightarrow> t < int (lens ! 0)"
  proof -
    have "hd lens < 2 ^ 63" using assms(1,3) by simp
    then have "in_i64 t" using assms(5,6,7) T by (auto simp: in_i64_def split: if_splits)
    then show "to_size_t t = nat t" using assms(5) by (simp add: to_size_t_nonneg)
    show "t < int (lens ! 0)" if "k = 1" using that T assms(1,6,7) by (simp add: hd_conv_nth)
  qed
  let ?start = "replicate k (to_size_t t) @ map to_size_t (take (length sl) (fst sel))"
  let ?cnt = "replicate k 1 @ map to_size_t (take (length sl) (snd sel))"
  have "int (?start ! i) + int j * (slab_strides (length lens) k bbox ! i) < int (lens ! i)" if "i < length lens" "j < ?cnt ! i" for i j
  proof (cases "i < k")
    case True
    then have "i = 0" "k = 1" using k(1) by auto
    then show ?thesis using that(2) t0 t1 assms(5) by simp
  next
    case False
    define d where "d = i - k"
    have d: "i = k + d" "d < length sl" using False that(1) k(3) by (auto simp: d_def)
    have "d < length (fst sel)" "d < length (snd sel)" using d(2) len sel_len by simp_all
    then have st: "?start ! i = to_size_t (fst sel ! d)" "?cnt ! i = to_size_t (snd sel ! d)"
      using d by (simp_all add: nth_append)
    have "lens ! i = sl ! d" using k(3) d by (subst k(2)) (simp add: nth_append)
    moreover have "int (to_size_t (fst sel ! d)) + int j * (slab_strides (k + nat (sh_rank ?s)) k bbox ! (k + d)) < sh_extents ?s ! d"
      using selection_inside(1) [OF s(2) assms(8,9) sel_def, of d j k] s(1,3) len d(2) that(2) st by simp
    ultimately show ?thesis using st s(1,3) d k(3) by simp
  qed
  moreover have "length ?start = length lens" "length ?cnt = length lens" using k(3) len sel_len by simp_all
  moreover have "k = (if int (length lens) = sh_rank ?s + 1 then 1 else 0)" using k(1,3) s(1) by auto
  ultimately show ?thesis using slab unfolding k(3) by blast
qed

text \<open>
  What netCDF documents of \<^verbatim>\<open>nc_var_par_access\<close>: it selects the access mode of a variable and changes neither its
  dimensions nor its values.
\<close>

definition access_only :: "'n netcdf \<Rightarrow> int \<Rightarrow> 'n \<Rightarrow> bool" where
  "access_only lib ncid n \<longleftrightarrow>
     (\<forall>varid u n'. nl_var_par_access lib ncid varid n = (Inr u, n') \<longrightarrow>
        (\<forall>v. nl_inq_varndims lib ncid v n' = nl_inq_varndims lib ncid v n)
        \<and> (\<forall>v start cnt. nl_get_vara lib ncid v start cnt n' = nl_get_vara lib ncid v start cnt n)
        \<and> (\<forall>v start cnt strides. nl_get_vars lib ncid v start cnt strides n' = nl_get_vars lib ncid v start cnt strides n))"

lemma nc_read_Done:
  assumes "fst (nc_read lib capacity meta t bbox (d, n)) = Done (bytes, m)" and "nd_use_parallel d \<longrightarrow> access_only lib (nd_ncid d) n"
    and "nl_inq_varid lib (nd_ncid d) (vm_name meta) n = Inr varid" and "nl_inq_varndims lib (nd_ncid d) varid n = Inr ndims"
    and "hyperslab ndims (vm_shape meta) t bbox = Some (start, cnt)" and "k = (if int ndims = sh_rank (vm_shape meta) + 1 then 1 else 0)"
  shows "(if has_strides bbox then nl_get_vars lib (nd_ncid d) varid start cnt (slab_strides ndims k bbox) n
     else nl_get_vara lib (nd_ncid d) varid start cnt n) = Inr bytes \<and> length bytes \<le> capacity"
proof -
  obtain n' where n': "nl_inq_varndims lib (nd_ncid d) varid n' = Inr ndims"
      "nl_get_vara lib (nd_ncid d) varid start cnt n' = nl_get_vara lib (nd_ncid d) varid start cnt n"
      "nl_get_vars lib (nd_ncid d) varid start cnt (slab_strides ndims k bbox) n'
        = nl_get_vars lib (nd_ncid d) varid start cnt (slab_strides ndims k bbox) n"
    and acc: "(if nd_use_parallel d
        then nc_check lib (''nc_var_par_access('' @ quoted (vm_name meta) @ '', NC_COLLECTIVE) for read'') (nl_var_par_access lib (nd_ncid d) varid)
        else result ()) (d, n) = (Done (), (d, n'))"
  proof (cases "nd_use_parallel d")
    case True
    then obtain u n1 where "nl_var_par_access lib (nd_ncid d) varid n = (Inr u, n1)"
      using assms(1,3)
      by (auto simp: nc_read_def andThen_def driver_def nc_check_def checked_def Let_def split: if_splits sum.splits prod.splits)
    with True assms(2,4) that [of n1] show ?thesis by (auto simp: access_only_def nc_check_def checked_def)
  qed (use assms(4) that [of n] in simp)
  have "if has_strides bbox then nl_get_vars lib (nd_ncid d) varid start cnt (slab_strides ndims k bbox) n' = Inr bytes \<and> length bytes \<le> capacity
      else nl_get_vara lib (nd_ncid d) varid start cnt n' = Inr bytes \<and> length bytes \<le> capacity"
    using assms(1,3,5,6) n'(1) acc
    by (auto simp: nc_read_def andThen_def driver_def nc_check_def checked_def attempt_def Let_def
        split: if_splits sum.splits prod.splits effect.splits)
  with n'(2,3) show ?thesis by (simp split: if_splits)
qed



section \<open>Dimensions of a new variable\<close>

text \<open>
  What netCDF documents of a new dimension: it gets the given name and length, the other
  dimensions stay, and only its own name is found in addition.
\<close>

definition dims_grow :: "'n netcdf \<Rightarrow> int \<Rightarrow> bool" where
  "dims_grow lib ncid \<longleftrightarrow>
     (\<forall>name len n i n'. nl_def_dim lib ncid name len n = (Inr i, n') \<longrightarrow>
        nl_inq_dim lib ncid i n' = Inr (name, len)
        \<and> (\<forall>j x. nl_inq_dim lib ncid j n = Inr x \<longrightarrow> nl_inq_dim lib ncid j n' = Inr x)
        \<and> (\<forall>name'. name' \<noteq> name \<longrightarrow> nl_inq_dimid lib ncid name' n' = nl_inq_dimid lib ncid name' n))"

abbreviation has_length :: "'n netcdf \<Rightarrow> int \<Rightarrow> 'n \<Rightarrow> int \<Rightarrow> nat \<Rightarrow> bool" where
  "has_length lib ncid n i len \<equiv> \<exists>name. nl_inq_dim lib ncid i n = Inr (name, len)"

lemma matching_dims_length: "(i, name) \<in> set (matching_dims lib ncid len num n) \<Longrightarrow> nl_inq_dim lib ncid i n = Inr (name, len) \<and> 0 \<le> i"
  by (auto simp: matching_dims_def split: sum.splits if_splits)

lemma best_dim_in: "best_dim role xs sc best \<in> insert best (fst ` set xs)"
  by (induction role xs sc best rule: best_dim.induct) auto

lemma shared_dim_length:
  assumes "shared_dim lib ncid rank d len n = Some i"
  shows "has_length lib ncid n i len"
proof -
  obtain num where num: "nl_inq_ndims lib ncid n = Inr num" using assms by (auto simp: shared_dim_def split: sum.splits)
  define xs where "xs = matching_dims lib ncid len num n"
  have "i \<in> fst ` set xs"
  proof (cases "\<exists>x y zs. xs = x # y # zs")
    case True
    then have "i = best_dim (axis_role rank d) xs (- 1) (- 1)" "i \<noteq> - 1"
      using assms num by (auto simp: shared_dim_def Let_def xs_def [symmetric] simp del: best_dim.simps split: if_splits)
    then show ?thesis using best_dim_in [of "axis_role rank d" xs "- 1" "- 1"] by auto
  next
    case False
    then show ?thesis using assms num
      by (auto simp: shared_dim_def Let_def xs_def [symmetric] split: list.splits)
  qed
  then show ?thesis using matching_dims_length unfolding xs_def by fastforce
qed

lemma dim_name_inj: "dim_name_of var rank d = dim_name_of var rank e \<longleftrightarrow> (var \<in> set coordinate_names \<and> rank = 1) \<or> d = e"
  by (auto simp: dim_name_of_def)

lemma dim_name_time: "dim_name_of var rank d = ''time'' \<longleftrightarrow> var = ''time'' \<and> rank = 1"
proof -
  have "var @ ''_dim'' @ show_nat d \<noteq> ''time''"
  proof
    assume eq: "var @ ''_dim'' @ show_nat d = ''time''"
    then have "CHR ''_'' \<in> set ''time''" by (metis Un_iff list.set_intros(1) set_append append_Cons)
    then show False by simp
  qed
  then show ?thesis by (auto simp: dim_name_of_def coordinate_names_def)
qed

text \<open>The length of a dimension of a new variable: that of its axis, or unlimited for the coordinate \<^verbatim>\<open>time\<close>.\<close>

definition axis_length :: "string \<Rightarrow> amio_shape \<Rightarrow> nat \<Rightarrow> nat" where
  "axis_length var shape d = (if var = ''time'' \<and> sh_rank shape = 1 then NC_UNLIMITED else to_size_t (sh_extents shape ! d))"

lemma resolve_dim_step:
  assumes "dims_grow lib ncid" and "resolve_dim lib ncid var shape d (dr, n) = (Done i, s')"
    and "\<exists>e. nl_inq_dimid lib ncid (dim_name_of var (sh_rank shape) d) n = Inl e"
  shows "has_length lib ncid (snd s') i (axis_length var shape d)" and "fst s' = dr"
    and "\<And>j x. nl_inq_dim lib ncid j n = Inr x \<Longrightarrow> nl_inq_dim lib ncid j (snd s') = Inr x"
    and "\<And>name'. name' \<noteq> dim_name_of var (sh_rank shape) d \<Longrightarrow> nl_inq_dimid lib ncid name' (snd s') = nl_inq_dimid lib ncid name' n"
proof -
  let ?len = "axis_length var shape d" and ?name = "dim_name_of var (sh_rank shape) d"
  have len: "?len = (if ?name = ''time'' then NC_UNLIMITED else to_size_t (sh_extents shape ! d))"
    by (simp add: axis_length_def dim_name_time)
  have time: "?name = ''time'' \<Longrightarrow> var \<in> set coordinate_names" using dim_name_time by (simp add: coordinate_names_def)
  consider "shared_dim lib ncid (sh_rank shape) (int d) ?len n = Some i" "s' = (dr, n)"
    | n' where "nl_def_dim lib ncid ?name ?len n = (Inr i, n')" "s' = (dr, n')"
    unfolding len using assms(2,3) time
    by (auto simp: resolve_dim_def Let_def andThen_def ask_def nc_check_def checked_def split: if_splits option.splits sum.splits prod.splits)
  then have "has_length lib ncid (snd s') i ?len \<and> fst s' = dr
    \<and> (\<forall>j x. nl_inq_dim lib ncid j n = Inr x \<longrightarrow> nl_inq_dim lib ncid j (snd s') = Inr x)
    \<and> (\<forall>name'. name' \<noteq> ?name \<longrightarrow> nl_inq_dimid lib ncid name' (snd s') = nl_inq_dimid lib ncid name' n)"
  proof cases
    case 1
    then show ?thesis using shared_dim_length by fastforce
  next
    case 2
    then show ?thesis using assms(1) unfolding dims_grow_def by fastforce
  qed
  then show "has_length lib ncid (snd s') i ?len" "fst s' = dr"
    "\<And>j x. nl_inq_dim lib ncid j n = Inr x \<Longrightarrow> nl_inq_dim lib ncid j (snd s') = Inr x"
    "\<And>name'. name' \<noteq> ?name \<Longrightarrow> nl_inq_dimid lib ncid name' (snd s') = nl_inq_dimid lib ncid name' n"
    by blast+
qed

lemma resolve_dims:
  assumes "dims_grow lib ncid"
  shows "distinct ds \<Longrightarrow> \<forall>d \<in> set ds. d < nat (sh_rank shape) \<Longrightarrow> for_each (resolve_dim lib ncid var shape) ds (dr, n) = (Done ids, s') \<Longrightarrow>
    \<forall>d \<in> set ds. \<exists>e. nl_inq_dimid lib ncid (dim_name_of var (sh_rank shape) d) n = Inl e \<Longrightarrow>
    list_all2 (\<lambda>i d. has_length lib ncid (snd s') i (axis_length var shape d)) ids ds
    \<and> (\<forall>j x. nl_inq_dim lib ncid j n = Inr x \<longrightarrow> nl_inq_dim lib ncid j (snd s') = Inr x)"
proof (induction ds arbitrary: n ids)
  case (Cons d ds)
  obtain i js s1 where step: "resolve_dim lib ncid var shape d (dr, n) = (Done i, s1)"
    "for_each (resolve_dim lib ncid var shape) ds s1 = (Done js, s')" "ids = i # js"
    using Cons.prems(3) by (auto simp: andThen_Done)
  have free: "\<exists>e. nl_inq_dimid lib ncid (dim_name_of var (sh_rank shape) d) n = Inl e" using Cons.prems(4) by simp
  note r = resolve_dim_step [OF assms step(1) free]
  obtain n1 where s1: "s1 = (dr, n1)" using r(2) by (cases s1) auto
  have "dim_name_of var (sh_rank shape) e \<noteq> dim_name_of var (sh_rank shape) d" if "e \<in> set ds" for e
    using Cons.prems(1,2) that by (auto simp: dim_name_inj)
  then have "\<forall>e \<in> set ds. \<exists>x. nl_inq_dimid lib ncid (dim_name_of var (sh_rank shape) e) n1 = Inl x"
    using Cons.prems(4) r(4) s1 by (metis list.set_intros(2) snd_conv)
  with Cons.IH [of n1 js] Cons.prems(1,2) step(2) s1
  have IH: "list_all2 (\<lambda>i d. has_length lib ncid (snd s') i (axis_length var shape d)) js ds"
    "\<forall>j x. nl_inq_dim lib ncid j n1 = Inr x \<longrightarrow> nl_inq_dim lib ncid j (snd s') = Inr x" by simp_all
  then show ?case using r(1,3) s1 step(3) by auto
qed auto

text \<open>
  C37.  A new variable gets dimensions of its own lengths.  When the library adds dimensions as documented and no
  dimension of the file has one of the default names of the variable yet, every dimension the driver chooses, shared
  or new, has in the end exactly the length of its axis, except that the coordinate variable \<^verbatim>\<open>time\<close> of one
  dimension gets an unlimited one; and no existing dimension has changed.
\<close>

theorem new_variable_dimensions:
  assumes "dims_grow lib ncid"
    and "\<forall>d < nat (sh_rank shape). \<exists>e. nl_inq_dimid lib ncid (dim_name_of var (sh_rank shape) d) n = Inl e"
    and "for_each (resolve_dim lib ncid var shape) [0..<nat (sh_rank shape)] (dr, n) = (Done ids, s')"
  shows "length ids = nat (sh_rank shape)
    \<and> (\<forall>d < nat (sh_rank shape). has_length lib ncid (snd s') (ids ! d)
          (if var = ''time'' \<and> sh_rank shape = 1 then NC_UNLIMITED else to_size_t (sh_extents shape ! d)))
    \<and> (\<forall>j x. nl_inq_dim lib ncid j n = Inr x \<longrightarrow> nl_inq_dim lib ncid j (snd s') = Inr x)"
proof -
  have 1: "list_all2 (\<lambda>i d. has_length lib ncid (snd s') i (axis_length var shape d)) ids [0..<nat (sh_rank shape)]"
    "\<forall>j x. nl_inq_dim lib ncid j n = Inr x \<longrightarrow> nl_inq_dim lib ncid j (snd s') = Inr x"
    using resolve_dims [OF assms(1) distinct_upt _ assms(3)] assms(2) by auto
  have "has_length lib ncid (snd s') (ids ! d) (axis_length var shape d)" if "d < nat (sh_rank shape)" for d
    using list_all2_nthD2 [OF 1(1), of d] that by simp
  with 1(2) for_each_Done_length [OF assms(3)] show ?thesis by (simp add: axis_length_def)
qed

text \<open>
  A dimension that already has the default name is taken whatever its length: when no dimension is shared, it becomes
  the axis of the new variable even where the lengths differ.
\<close>

theorem named_dimension_taken:
  assumes "nl_inq_dimid lib ncid (dim_name_of var (sh_rank shape) d) n = Inr i"
    and "var \<in> set coordinate_names \<or> shared_dim lib ncid (sh_rank shape) (int d) (to_size_t (sh_extents shape ! d)) n = None"
  shows "resolve_dim lib ncid var shape d (dr, n) = (Done i, (dr, n))"
  using assms by (auto simp: resolve_dim_def Let_def andThen_def ask_def)

text \<open>A variable whose record dimension is still empty is described with one time step.\<close>

theorem empty_record_described: "vi_total_timesteps (described dtype (0 # len # lens) True) = 1"
  by (simp add: described_def to_i64_def i64_def)

text \<open>
  Dimensions are shared by length alone: when exactly one dimension of the file has the length of a square field,
  both axes of the field get it.
\<close>

theorem square_field_shares_dimension:
  assumes "nl_inq_ndims lib ncid n = Inr num" and "matching_dims lib ncid (to_size_t e) num n = [(i, name)]"
    and "var \<notin> set coordinate_names"
  shows "for_each (resolve_dim lib ncid var \<lparr>sh_rank = 2, sh_extents = e # e # es, sh_strides = ss\<rparr>) [0..<2] (dr, n)
    = (Done [i, i], (dr, n))"
  using assms by (simp add: numeral_2_eq_2 andThen_def resolve_dim_def ask_def shared_dim_def Let_def)


section \<open>Element types and opening\<close>

lemma dtype_roundtrip: "dtype_to_nc_type t = Inr u \<longleftrightarrow> nc_type_to_dtype u = Some t"
  by (cases t; cases u) simp_all

lemma codec_accepted: "validate_codec c allowed = Inr () \<longleftrightarrow> c = [] \<or> c \<in> set allowed \<and> c \<notin> set lossy_codecs"
  by (simp add: validate_codec_def)

abbreviation nc_opened :: "nc_driver \<times> 'n \<Rightarrow> bool" where
  "nc_opened s \<equiv> nd_is_open (fst s)"

lemma keeps_nc_check [mode_intros]: "keeps nc_opened (nc_check lib ctx g)"
  unfolding nc_check_def by (rule mode_intros)

lemma keeps_nc_update [mode_intros]: "(\<And>d. nd_is_open (f d) = nd_is_open d) \<Longrightarrow> keeps nc_opened (update_driver f)"
  by (rule keeps_update)

lemma keeps_opened_steps [mode_intros]:
  "keeps nc_opened (read_path_and_model env m who)" "keeps nc_opened (read_codec ca m)"
  "keeps nc_opened (nc_write_attributes lib ncid varid attrs t)"
  by (auto simp: read_path_and_model_def read_codec_def nc_write_attributes_def Let_def intro!: mode_intros)

lemma keeps_opened_file [mode_intros]: "keeps nc_opened (nc_open_file lib d)"
  by (auto simp: nc_open_file_def keeps_def andThen_def nc_check_def checked_def update_driver_def Let_def split: prod.splits sum.splits)

lemma stays_closed_opens: "stays_off nc_opened (nc_open_write lib env m)" "stays_off nc_opened (nc_open_read lib env m)"
proof -
  show "stays_off nc_opened (nc_open_write lib env m)"
    unfolding nc_open_write_def by (auto intro!: mode_intros)
  show "stays_off nc_opened (nc_open_read lib env m)"
    unfolding nc_open_read_def by (auto intro!: mode_intros)
qed

text \<open>
  A failing open leaves the driver closed, so it can be opened again, and closing it then calls nothing:
  whatever the failed open left behind in the library stays there.
\<close>

theorem failed_open_leaves_closed:
  assumes "\<not> nd_is_open d" and "nc_open_write lib env m (d, n) = (r, (d', n')) \<or> nc_open_read lib env m (d, n) = (r, (d', n'))"
    and "\<forall>u. r \<noteq> Done u"
  shows "\<not> nd_is_open d' \<and> nc_close lib (d', n') = (Done (), (d', n'))"
proof -
  have "\<not> nd_is_open d'"
    using assms stays_closed_opens [of lib env m] unfolding stays_off_def by (metis fst_conv snd_conv)
  then show ?thesis by (simp add: nc_close_def andThen_def driver_def)
qed


section \<open>The lifecycle\<close>

definition nc_mode :: "nc_driver \<Rightarrow> mode" where
  "nc_mode d = (if \<not> nd_is_open d then Closed else if nd_is_write_mode d then Writing else Reading)"

definition nc_backend ::
  "'n netcdf \<Rightarrow> nc_env \<Rightarrow> (nc_driver \<times> 'n, manifest, staging_buffer \<times> var_meta, nat \<times> var_meta \<times> int \<times> amio_bbox option, byte list \<times> nat) backend" where
  "nc_backend lib env =
     \<lparr>be_mode = (\<lambda>s. nc_mode (fst s)), be_open_write = nc_open_write lib env, be_open_read = nc_open_read lib env,
      be_write = (\<lambda>(src, meta). nc_write lib src meta), be_read = (\<lambda>(capacity, meta, t, bbox). nc_read lib capacity meta t bbox),
      be_flush = nc_flush lib, be_close = nc_close lib\<rparr>"

lemma nc_mode_iff: "nc_mode d \<noteq> Closed \<longleftrightarrow> nd_is_open d" "nc_mode d = Writing \<longleftrightarrow> nd_is_open d \<and> nd_is_write_mode d"
  "nc_mode d = Reading \<longleftrightarrow> nd_is_open d \<and> \<not> nd_is_write_mode d"
  by (auto simp: nc_mode_def)

lemma keeps_fst_check [mode_intros]: "keeps fst (nc_check lib ctx g)"
  unfolding nc_check_def by (rule mode_intros)

lemma keeps_fst_dim [mode_intros]: "keeps fst (resolve_dim lib ncid var shape d)"
  unfolding resolve_dim_def Let_def by (intro mode_intros)

lemma keeps_fst_define [mode_intros]: "keeps fst (define_variable lib d meta)"
proof -
  have "keeps fst (\<lambda>s. case nl_redef lib ncid (snd s) of
      (Inl st, n) \<Rightarrow> if st \<noteq> NC_EINDEFINE then (Throws (nc_error lib ''nc_redef'' st), (fst s, n)) else (Done (), (fst s, n))
    | (Inr _, n) \<Rightarrow> (Done (), (fst s, n)))" for ncid
    by (auto simp: keeps_def split: sum.split prod.split)
  then show ?thesis
    unfolding define_variable_def nc_write_attributes_def Let_def by (auto intro!: mode_intros)
qed

lemma keeps_fst_ops: "keeps fst (nc_write lib src meta)" "keeps fst (nc_read lib capacity meta t bbox)" "keeps fst (nc_flush lib)"
proof -
  show "keeps fst (nc_write lib src meta)" unfolding nc_write_def Let_def by (intro mode_intros)
  show "keeps fst (nc_read lib capacity meta t bbox)"
    unfolding nc_read_def Let_def by (auto intro!: mode_intros split: prod.split)
  show "keeps fst (nc_flush lib)" unfolding nc_flush_def by (intro mode_intros)
qed

lemma nc_opens: "opens_to (\<lambda>s. nc_mode (fst s)) Writing (nc_open_write lib env m)"
  "opens_to (\<lambda>s. nc_mode (fst s)) Reading (nc_open_read lib env m)"
proof -
  show "opens_to (\<lambda>s. nc_mode (fst s)) Writing (nc_open_write lib env m)"
  proof (rule opens_toI [OF _ _ stays_closed_opens(1)])
    show "nc_opened s \<Longrightarrow> \<exists>x. nc_open_write lib env m s = (Throws x, s)" for s
      by (simp add: nc_open_write_def andThen_def driver_def)
    show "nc_open_write lib env m s = (Done u, s') \<Longrightarrow> nc_mode (fst s') = Writing" for s u s'
      by (auto simp: nc_open_write_def done_iff nc_mode_def split: if_splits)
  qed (simp add: nc_mode_def)
  show "opens_to (\<lambda>s. nc_mode (fst s)) Reading (nc_open_read lib env m)"
  proof (rule opens_toI [OF _ _ stays_closed_opens(2)])
    show "nc_opened s \<Longrightarrow> \<exists>x. nc_open_read lib env m s = (Throws x, s)" for s
      by (simp add: nc_open_read_def andThen_def driver_def)
    show "nc_open_read lib env m s = (Done u, s') \<Longrightarrow> nc_mode (fst s') = Reading" for s u s'
      by (auto simp: nc_open_read_def done_iff nc_mode_def split: if_splits)
  qed (simp add: nc_mode_def)
qed

lemma nc_admitted: "admitted_in (\<lambda>s. nc_mode (fst s)) Writing (nc_write lib src meta)"
  "admitted_in (\<lambda>s. nc_mode (fst s)) Reading (nc_read lib capacity meta t bbox)"
  by (rule admitted_inI [OF keeps_fst_ops(1)]; auto simp: nc_mode_iff nc_write_def andThen_def driver_def)
     (rule admitted_inI [OF keeps_fst_ops(2)]; auto simp: nc_mode_iff nc_read_def andThen_def driver_def)

interpretation nc: lifecycle "nc_backend lib env" for lib :: "'n netcdf" and env
proof
  show "opens_to (be_mode (nc_backend lib env)) Writing (be_open_write (nc_backend lib env) m)"
    "opens_to (be_mode (nc_backend lib env)) Reading (be_open_read (nc_backend lib env) m)" for m
    by (simp_all add: nc_backend_def nc_opens)
  show "admitted_in (be_mode (nc_backend lib env)) Writing (be_write (nc_backend lib env) w)" for w
    by (cases w) (simp add: nc_backend_def nc_admitted)
  show "admitted_in (be_mode (nc_backend lib env)) Reading (be_read (nc_backend lib env) q)" for q
    by (cases q) (simp add: nc_backend_def nc_admitted)
  show "keeps (be_mode (nc_backend lib env)) (be_flush (nc_backend lib env))"
    by (simp add: nc_backend_def keeps_fst keeps_fst_ops)
  show "be_mode (nc_backend lib env) s = Closed \<Longrightarrow> be_close (nc_backend lib env) s = (Done (), s)" for s
    by (simp add: nc_backend_def nc_mode_def nc_close_def andThen_def driver_def split: if_splits)
  show "returned (fst (be_close (nc_backend lib env) s)) \<Longrightarrow> be_mode (nc_backend lib env) (snd (be_close (nc_backend lib env) s)) = Closed" for s
    by (auto simp: nc_backend_def nc_mode_def nc_close_def andThen_def driver_def nc_check_def checked_def update_driver_def
        split: sum.splits prod.splits effect.splits if_splits)
  show "\<not> returned (fst (be_close (nc_backend lib env) s)) \<Longrightarrow>
      be_mode (nc_backend lib env) (snd (be_close (nc_backend lib env) s)) = be_mode (nc_backend lib env) s" for s
    by (auto simp: nc_backend_def nc_mode_def nc_close_def andThen_def driver_def nc_check_def checked_def update_driver_def
        split: sum.splits prod.splits effect.splits if_splits)
qed


section \<open>A small library\<close>

text \<open>
  For the witnesses: a file with dimensions, one variable \<^verbatim>\<open>T\<close> over the first two of them, and no attributes.
  Creating a file succeeds, setting an attribute fails.
\<close>

type_synonym mini = "(string \<times> nat) list"

definition mini_dim :: "int \<Rightarrow> mini \<Rightarrow> int + string \<times> nat" where
  "mini_dim i ds = (if 0 \<le> i \<and> nat i < length ds then Inr (ds ! nat i) else Inl (- 46))"

definition mini_nc :: "mini netcdf" where
  "mini_nc =
     \<lparr>nl_strerror = (\<lambda>_. ''error''), nl_create = (\<lambda>_ _ _ n. (Inr 1, n)), nl_open = (\<lambda>_ _ n. (Inr 1, n)),
      nl_redef = (\<lambda>_ n. (Inr (), n)), nl_enddef = (\<lambda>_ n. (Inr (), n)), nl_sync = (\<lambda>_ n. (Inr (), n)), nl_close = (\<lambda>_ n. (Inr (), n)),
      nl_inq_varid = (\<lambda>_ name _. if name = ''T'' then Inr 0 else Inl NC_ENOTVAR),
      nl_inq_ndims = (\<lambda>_ n. Inr (length n)), nl_inq_dim = (\<lambda>_. mini_dim),
      nl_inq_dimid = (\<lambda>_ name n. let k = find_idx (\<lambda>(x, _). x = name) n in if k < length n then Inr (int k) else Inl (- 46)),
      nl_def_dim = (\<lambda>_ name len n. (Inr (int (length n)), n @ [(name, len)])),
      nl_def_var = (\<lambda>_ _ _ _ n. (Inr 0, n)), nl_put_att = (\<lambda>_ _ _ _ n. (Inl (- 33), n)), nl_def_var_deflate = (\<lambda>_ _ _ _ _ n. (Inr (), n)),
      nl_var_par_access = (\<lambda>_ _ n. (Inr (), n)), nl_put_vara = (\<lambda>_ _ _ _ _ n. (Inr (), n)),
      nl_inq_varndims = (\<lambda>_ _ _. Inr 2), nl_get_vara = (\<lambda>_ _ _ _ _. Inr (replicate 12 0)), nl_get_vars = (\<lambda>_ _ _ _ _ _. Inr (replicate 12 0)),
      nl_inq_vartype = (\<lambda>_ _ _. Inr NC_FLOAT), nl_inq_vardimid = (\<lambda>_ _ _. Inr [0, 1]),
      nl_inq_unlimdims_count = (\<lambda>_ _. Inr 0), nl_inq_unlimdims = (\<lambda>_ _. Inr []), nl_inq_unlimdim = (\<lambda>_ _. Inl (- 1)),
      nl_inq_dimname = (\<lambda>_ i n. map_sum id fst (mini_dim i n)), nl_inq_dimlen = (\<lambda>_ i n. map_sum id snd (mini_dim i n)),
      nl_inq_att = (\<lambda>_ _ _ _. Inl (- 43)), nl_inq_attlen = (\<lambda>_ _ _ _. Inl (- 43)), nl_get_att_text = (\<lambda>_ _ _ _. Inl (- 43)),
      nl_get_att_string = (\<lambda>_ _ _ _. Inl (- 43)), nl_get_att_double = (\<lambda>_ _ _ _. Inl (- 43))\<rparr>"

definition mini_file :: mini where
  "mini_file = [(''time'', 2), (''x'', 3)]"

definition mini_driver :: nc_driver where
  "mini_driver = NetCDF_Driver\<lparr>nd_ncid := 1, nd_is_open := True\<rparr>"

lemma find_idx_append: "find_idx P (xs @ ys) = (if \<exists>x \<in> set xs. P x then find_idx P xs else length xs + find_idx P ys)"
  by (induction xs) auto

lemma mini_dims_grow: "dims_grow mini_nc ncid"
  by (auto simp: dims_grow_def mini_nc_def mini_dim_def nth_append find_idx_append find_idx_lt_iff split: if_splits)

lemma mini_describe:
  "nc_describe_variable mini_nc mini_driver ''T'' mini_file =
     \<lparr>vi_found = True, vi_dtype = AMIO_DTYPE_F32, vi_shape = \<lparr>sh_rank = 1, sh_extents = [3, 0, 0, 0, 0, 0, 0], sh_strides = zeros\<rparr>,
      vi_total_timesteps = 2\<rparr>"
proof -
  have "to_i64 2 = 2" "to_i64 3 = 3" by (simp_all add: to_i64_id)
  moreover have "replicate (AMIO_MAX_RANK - Suc 0) (0 :: int) = [0, 0, 0, 0, 0, 0]" by (simp add: AMIO_MAX_RANK_def numeral_eq_Suc)
  ultimately have small: "to_i64 2 = 2" "to_i64 3 = 3" "replicate (AMIO_MAX_RANK - Suc 0) (0 :: int) = [0, 0, 0, 0, 0, 0]" by blast+
  have "all_lengths mini_nc 1 [0, 1] mini_file = Some [2, 3]"
    by (simp add: mini_nc_def mini_dim_def mini_file_def)
  moreover have "is_time_axis mini_nc 1 0 mini_file"
    by (simp add: is_time_axis_def is_cf_time_dim_def mini_nc_def mini_dim_def mini_file_def time_names_def lower_char_def)
  moreover have "described AMIO_DTYPE_F32 [2, 3] True =
     \<lparr>vi_found = True, vi_dtype = AMIO_DTYPE_F32, vi_shape = \<lparr>sh_rank = 1, sh_extents = [3, 0, 0, 0, 0, 0, 0], sh_strides = zeros\<rparr>,
      vi_total_timesteps = 2\<rparr>"
    using small by (simp add: described_def)
  ultimately show ?thesis
    by (simp add: nc_describe_variable_def mini_driver_def NetCDF_Driver_def AMIO_MAX_RANK_def del: all_lengths.simps)
       (simp add: mini_nc_def AMIO_MAX_RANK_def)
qed


definition mini_shape :: amio_shape where
  "mini_shape = \<lparr>sh_rank = 2, sh_extents = [3, 4, 0, 0, 0, 0, 0], sh_strides = zeros\<rparr>"

theorem new_variable_dimensions_witness:
  "\<exists>ids s'. for_each (resolve_dim mini_nc 1 ''U'' mini_shape) [0..<2] (mini_driver, mini_file) = (Done ids, s')
     \<and> has_length mini_nc 1 (snd s') (ids ! 1) 4"
proof -
  have free: "\<forall>d < nat (sh_rank mini_shape). \<exists>e. nl_inq_dimid mini_nc 1 (dim_name_of ''U'' (sh_rank mini_shape) d) mini_file = Inl e"
    by (simp add: mini_nc_def mini_file_def dim_name_of_def coordinate_names_def)
  have run: "\<exists>ids s'. for_each (resolve_dim mini_nc 1 ''U'' mini_shape) [0..<2] (mini_driver, mini_file) = (Done ids, s')"
    by (simp add: numeral_2_eq_2 andThen_def resolve_dim_def ask_def nc_check_def checked_def Let_def mini_nc_def split: sum.splits option.splits prod.splits)
  then obtain ids s' where r: "for_each (resolve_dim mini_nc 1 ''U'' mini_shape) [0..<2] (mini_driver, mini_file) = (Done ids, s')" by blast
  have "has_length mini_nc 1 (snd s') (ids ! 1) (to_size_t (sh_extents mini_shape ! 1))"
    using new_variable_dimensions [OF mini_dims_grow free, of mini_driver ids s', THEN conjunct2, THEN conjunct1, THEN spec [of _ 1]] r
    by (simp add: mini_shape_def coordinate_names_def del: One_nat_def)
  with r show ?thesis by (auto simp: mini_shape_def to_size_t_def)
qed

definition mini_manifest :: manifest where
  "mini_manifest =
     \<lparr>mf_has = (\<lambda>k. k = ''path''), mf_int = (\<lambda>_. Inl (Key_Not_Found, [])), mf_int_list = (\<lambda>_. Inl (Key_Not_Found, [])),
      mf_string = (\<lambda>_. Inr ''f.nc''), mf_string_list = (\<lambda>_. Inl (Key_Not_Found, []))\<rparr>"

definition mini_env :: nc_env where
  "mini_env = \<lparr>ne_conf = \<lparr>ca_try_string = (\<lambda>_ _. None), ca_get_or = (\<lambda>_ _ d. Inr d)\<rparr>, ne_number = (\<lambda>_. 0), ne_has_mpi = False,
     ne_parent_comm = None, ne_comm_size = (\<lambda>_. 1)\<rparr>"

theorem failed_open_leaves_closed_witness:
  "\<exists>x d' n'. nc_open_write mini_nc mini_env mini_manifest (NetCDF_Driver, mini_file) = (Throws x, (d', n'))
     \<and> \<not> nd_is_open d' \<and> nc_close mini_nc (d', n') = (Done (), (d', n'))"
proof -
  have "\<exists>x d' n'. nc_open_write mini_nc mini_env mini_manifest (NetCDF_Driver, mini_file) = (Throws x, (d', n'))"
    by (simp add: nc_open_write_def andThen_def driver_def NetCDF_Driver_def read_path_and_model_def attempt_def resolve_dataset_path_def
        mini_manifest_def update_driver_def mini_env_def parse_data_model_def read_codec_def string_list_or_empty_def validate_codec_def
        parse_dataset_attributes_def Let_def nc_check_def checked_def parallel_comm_def DatasetAttributes_def)
       (simp add: mini_nc_def andThen_def update_driver_def nc_check_def checked_def)
  then obtain x d' n' where r: "nc_open_write mini_nc mini_env mini_manifest (NetCDF_Driver, mini_file) = (Throws x, (d', n'))" by blast
  have "\<not> nd_is_open NetCDF_Driver" by (simp add: NetCDF_Driver_def)
  from failed_open_leaves_closed [OF this disjI1 [OF r]] r show ?thesis by auto
qed

end
