(* ===== verification/Zarr_Driver.thy ===== *)
theory Zarr_Driver
  imports Driver_Base Var_Attributes
begin

text \<open>
  The Zarr driver in the build with TensorStore (\<^verbatim>\<open>src/drivers/zarr/zarr_driver.{hpp,cpp}\<close>).

  TensorStore is a record of functions on the state of the stores; an error carries its message.  A JSON
  document is a tree whose objects are association lists, the order of the keys having no meaning.  The
  TensorStore context is only handed on and is left out.  \<open>Beyond\<close> stands for \<^verbatim>\<open>value()\<close> of an error result,
  for the use of an unopened store and for a payload that does not fit the staging buffer.
\<close>


section \<open>Configuration\<close>

record zarr_config =
  zc_uri :: string
  zc_chunk_shape :: "int list"
  zc_shard_shape :: "int list"
  zc_array_shape :: "int list"
  zc_codec :: string
  zc_dtype_str :: string

definition ZarrConfig :: zarr_config where
  "ZarrConfig = \<lparr>zc_uri = [], zc_chunk_shape = [], zc_shard_shape = [], zc_array_shape = [], zc_codec = [], zc_dtype_str = []\<rparr>"

definition has_prefix :: "string \<Rightarrow> string \<Rightarrow> bool" where
  "has_prefix p s \<longleftrightarrow> take (length p) s = p"

definition is_cloud_uri :: "string \<Rightarrow> bool" where
  "is_cloud_uri uri \<longleftrightarrow> has_prefix ''s3://'' uri \<or> has_prefix ''gs://'' uri \<or> has_prefix ''https://'' uri"

definition categorize_error :: "string \<Rightarrow> string" where
  "categorize_error message =
     (let has_any = (\<lambda>words. list_ex (\<lambda>w. contains w (map lower_char message)) words)
      in if has_any [''auth'', ''credential'', ''permission'', ''forbidden'', ''401'', ''403''] then ''authentication/authorization error''
         else if has_any [''network'', ''connect'', ''timeout'', ''dns'', ''unreachable''] then ''network error''
         else if has_any [''scheme'', ''unsupported''] then ''unsupported URI scheme''
         else ''I/O error'')"

fun dtype_to_string :: "amio_dtype \<Rightarrow> string" where
  "dtype_to_string AMIO_DTYPE_F32 = ''float32''"
| "dtype_to_string AMIO_DTYPE_F64 = ''float64''"
| "dtype_to_string AMIO_DTYPE_I8 = ''int8''"
| "dtype_to_string AMIO_DTYPE_I16 = ''int16''"
| "dtype_to_string AMIO_DTYPE_I32 = ''int32''"
| "dtype_to_string AMIO_DTYPE_I64 = ''int64''"
| "dtype_to_string AMIO_DTYPE_U8 = ''uint8''"
| "dtype_to_string AMIO_DTYPE_U16 = ''uint16''"
| "dtype_to_string AMIO_DTYPE_U32 = ''uint32''"
| "dtype_to_string AMIO_DTYPE_U64 = ''uint64''"
| "dtype_to_string (AMIO_DTYPE_OTHER _) = ''float32''"

definition dtype_size :: "amio_dtype \<Rightarrow> nat" where
  "dtype_size t = (let size = element_size t in if size = 0 then 4 else size)"

text \<open>
  A required field: a missing one is noted, a present one is read, and a failing read ends the parse.
\<close>

type_synonym zarr_parse = "exn + zarr_config \<times> string list"

definition read_field ::
  "manifest \<Rightarrow> string \<Rightarrow> (string \<Rightarrow> conf_error + 'a) \<Rightarrow> ('a \<Rightarrow> zarr_config \<Rightarrow> zarr_config) \<Rightarrow> zarr_parse \<Rightarrow> zarr_parse" where
  "read_field m key get upd r =
     (case r of
        Inl x \<Rightarrow> Inl x
      | Inr (cfg, missing) \<Rightarrow>
          if \<not> mf_has m key then Inr (cfg, missing @ [key])
          else (case get key of Inl e \<Rightarrow> Inl (conf_exn e) | Inr v \<Rightarrow> Inr (upd v cfg, missing)))"

definition read_dtype :: "manifest \<Rightarrow> zarr_parse \<Rightarrow> zarr_parse" where
  "read_dtype m r =
     (case r of
        Inl x \<Rightarrow> Inl x
      | Inr (cfg, missing) \<Rightarrow>
          if \<not> mf_has m ''dtype'' then Inr (cfg, missing)
          else (case mf_string m ''dtype'' of Inl e \<Rightarrow> Inl (conf_exn e) | Inr v \<Rightarrow> Inr (cfg\<lparr>zc_dtype_str := v\<rparr>, missing)))"

fun comma_list :: "string list \<Rightarrow> string" where
  "comma_list [] = []"
| "comma_list [x] = x"
| "comma_list (x # xs) = x @ '', '' @ comma_list xs"

definition missing_error :: "string list \<Rightarrow> exn" where
  "missing_error names = runtime_error (''Zarr_Driver: missing required configuration fields: '' @ comma_list names)"

definition parse_zarr_config :: "manifest \<Rightarrow> exn + zarr_config" where
  "parse_zarr_config m =
     (case read_dtype m
         (read_field m ''codec'' (mf_string m) (\<lambda>v c. c\<lparr>zc_codec := v\<rparr>)
         (read_field m ''array_shape'' (mf_int_list m) (\<lambda>v c. c\<lparr>zc_array_shape := v\<rparr>)
         (read_field m ''shard_shape'' (mf_int_list m) (\<lambda>v c. c\<lparr>zc_shard_shape := v\<rparr>)
         (read_field m ''chunk_shape'' (mf_int_list m) (\<lambda>v c. c\<lparr>zc_chunk_shape := v\<rparr>)
         (read_field m ''uri'' (mf_string m) (\<lambda>v c. c\<lparr>zc_uri := v\<rparr>)
           (Inr (ZarrConfig, []))))))) of
        Inl x \<Rightarrow> Inl x
      | Inr (cfg, missing) \<Rightarrow> if missing \<noteq> [] then Inl (missing_error missing) else Inr cfg)"

definition shape_entry :: "string \<Rightarrow> nat \<Rightarrow> string" where
  "shape_entry name i = name @ ''['' @ show_nat i @ '']''"

definition not_positive :: "string \<Rightarrow> nat \<Rightarrow> int \<Rightarrow> exn" where
  "not_positive name i v =
     runtime_error (''Zarr_Driver: '' @ shape_entry name i @ '' must be a positive integer (got '' @ show_int v @ '')'')"

fun check_shards :: "nat \<Rightarrow> int list \<Rightarrow> int list \<Rightarrow> exn + unit" where
  "check_shards i (c # cs) (s # ss) =
     (if c \<le> 0 then Inl (not_positive ''chunk_shape'' i c)
      else if s \<le> 0 then Inl (not_positive ''shard_shape'' i s)
      else if s mod c \<noteq> 0 then
        Inl (runtime_error (''Zarr_Driver: '' @ shape_entry ''chunk_shape'' i @ '' ('' @ show_int c @ '') must evenly divide ''
          @ shape_entry ''shard_shape'' i @ '' ('' @ show_int s @ '')''))
      else check_shards (i + 1) cs ss)"
| "check_shards i _ _ = Inr ()"

definition validate_sharding :: "zarr_config \<Rightarrow> exn + unit" where
  "validate_sharding cfg =
     (if length (zc_chunk_shape cfg) \<noteq> length (zc_shard_shape cfg) then
        Inl (runtime_error (''Zarr_Driver: chunk_shape and shard_shape must have the same number of dimensions (got ''
          @ show_nat (length (zc_chunk_shape cfg)) @ '' vs '' @ show_nat (length (zc_shard_shape cfg)) @ '')''))
      else check_shards 0 (zc_chunk_shape cfg) (zc_shard_shape cfg))"

definition zarr_validate_codec :: "zarr_config \<Rightarrow> exn + unit" where
  "zarr_validate_codec cfg =
     (if zc_codec cfg \<noteq> ''blosc'' \<and> zc_codec cfg \<noteq> ''zstandard'' then
        Inl (runtime_error (''Zarr_Driver: codec must be one of {blosc, zstandard} (got '' @ quoted (zc_codec cfg) @ '')''))
      else Inr ())"


section \<open>The TensorStore specification\<close>

datatype json = JBool bool | JInt int | JDouble u64 | JString string | JArray "json list" | JObject "(string \<times> json) list"

text \<open>\<^verbatim>\<open>operator[]\<close> with an assignment.\<close>

fun json_set :: "string \<Rightarrow> json \<Rightarrow> json \<Rightarrow> json" where
  "json_set k v (JObject fs) = JObject (AList.update k v fs)"
| "json_set k v j = j"

fun json_at :: "json \<Rightarrow> string list \<Rightarrow> json option" where
  "json_at j [] = Some j"
| "json_at (JObject fs) (k # ks) = (case map_of fs k of None \<Rightarrow> None | Some j \<Rightarrow> json_at j ks)"
| "json_at _ (_ # _) = None"

abbreviation int_array :: "int list \<Rightarrow> json" where
  "int_array xs \<equiv> JArray (map JInt xs)"

text \<open>Bucket and path of the part of a URI behind the scheme.\<close>

definition bucket_store :: "string \<Rightarrow> string \<Rightarrow> json" where
  "bucket_store drv rest =
     (let bucket = takeWhile (\<lambda>c. c \<noteq> CHR ''/'') rest
      in JObject [(''driver'', JString drv), (''bucket'', JString bucket),
           (''path'', JString (drop (Suc (length bucket)) rest))])"

definition build_kvstore_spec :: "string \<Rightarrow> json" where
  "build_kvstore_spec uri =
     (if has_prefix ''s3://'' uri then bucket_store ''s3'' (drop 5 uri)
      else if has_prefix ''gs://'' uri then bucket_store ''gcs'' (drop 5 uri)
      else if has_prefix ''https://'' uri then JObject [(''driver'', JString ''http''), (''base_url'', JString uri)]
      else JObject [(''driver'', JString ''file''), (''path'', JString uri)])"

definition attribute_json :: "dataset_attributes \<Rightarrow> json" where
  "attribute_json attrs =
     fold (\<lambda>(k, v). json_set k (if av_is_numeric v then JDouble (av_number v) else JString (av_text v)))
       (da_global attrs) (JObject [(''Conventions'', JString (da_conventions attrs))])"

definition bytes_codec :: json where
  "bytes_codec = JObject [(''name'', JString ''bytes''), (''configuration'', JObject [(''endian'', JString ''little'')])]"

definition byte_shuffle :: json where
  "byte_shuffle = JObject [(''name'', JString ''transpose''), (''configuration'', JObject [(''order'', JString ''C'')])]"

definition compression :: "string \<Rightarrow> json" where
  "compression codec =
     (if codec = ''blosc'' then
        JObject [(''name'', JString ''blosc''),
          (''configuration'', JObject [(''cname'', JString ''lz4''), (''clevel'', JInt 5), (''shuffle'', JString ''bitshuffle''),
             (''typesize'', JInt 4), (''blocksize'', JInt 0)])]
      else JObject [(''name'', JString ''zstd''), (''configuration'', JObject [(''level'', JInt 3)])])"

definition sharding_codec :: "zarr_config \<Rightarrow> json" where
  "sharding_codec cfg =
     JObject [(''name'', JString ''sharding_indexed''),
       (''configuration'', JObject [(''chunk_shape'', int_array (zc_chunk_shape cfg)),
          (''codecs'', JArray [bytes_codec, byte_shuffle, compression (zc_codec cfg)])])]"

definition write_spec :: "zarr_config \<Rightarrow> dataset_attributes \<Rightarrow> json" where
  "write_spec cfg attrs =
     JObject [(''driver'', JString ''zarr3''), (''kvstore'', build_kvstore_spec (zc_uri cfg)),
       (''metadata'', JObject [(''shape'', int_array (zc_array_shape cfg)),
          (''data_type'', JString (if zc_dtype_str cfg = [] then ''float32'' else zc_dtype_str cfg)),
          (''attributes'', attribute_json attrs),
          (''codecs'', JArray [bytes_codec, sharding_codec cfg]),
          (''chunk_grid'', JObject [(''name'', JString ''regular''),
             (''configuration'', JObject [(''chunk_shape'', int_array (zc_shard_shape cfg))])])]),
       (''create'', JBool True), (''delete_existing'', JBool True)]"

definition read_spec :: "zarr_config \<Rightarrow> json" where
  "read_spec cfg = JObject [(''driver'', JString ''zarr3''), (''kvstore'', build_kvstore_spec (zc_uri cfg)), (''open'', JBool True)]"

datatype ts_dtype =
    Ts_Float32 | Ts_Float64 | Ts_Int8 | Ts_Int16 | Ts_Int32 | Ts_Int64 | Ts_Uint8 | Ts_Uint16 | Ts_Uint32 | Ts_Uint64
  | Ts_Other string \<comment> \<open>bool, complex, string, ...\<close>

text \<open>\<open>None\<close> is the invalid \<^verbatim>\<open>DataType\<close>.\<close>

fun to_ts_dtype :: "amio_dtype \<Rightarrow> ts_dtype option" where
  "to_ts_dtype AMIO_DTYPE_F32 = Some Ts_Float32"
| "to_ts_dtype AMIO_DTYPE_F64 = Some Ts_Float64"
| "to_ts_dtype AMIO_DTYPE_I8 = Some Ts_Int8"
| "to_ts_dtype AMIO_DTYPE_I16 = Some Ts_Int16"
| "to_ts_dtype AMIO_DTYPE_I32 = Some Ts_Int32"
| "to_ts_dtype AMIO_DTYPE_I64 = Some Ts_Int64"
| "to_ts_dtype AMIO_DTYPE_U8 = Some Ts_Uint8"
| "to_ts_dtype AMIO_DTYPE_U16 = Some Ts_Uint16"
| "to_ts_dtype AMIO_DTYPE_U32 = Some Ts_Uint32"
| "to_ts_dtype AMIO_DTYPE_U64 = Some Ts_Uint64"
| "to_ts_dtype (AMIO_DTYPE_OTHER _) = None"

fun to_amio_dtype :: "ts_dtype \<Rightarrow> amio_dtype option" where
  "to_amio_dtype Ts_Float32 = Some AMIO_DTYPE_F32"
| "to_amio_dtype Ts_Float64 = Some AMIO_DTYPE_F64"
| "to_amio_dtype Ts_Int8 = Some AMIO_DTYPE_I8"
| "to_amio_dtype Ts_Int16 = Some AMIO_DTYPE_I16"
| "to_amio_dtype Ts_Int32 = Some AMIO_DTYPE_I32"
| "to_amio_dtype Ts_Int64 = Some AMIO_DTYPE_I64"
| "to_amio_dtype Ts_Uint8 = Some AMIO_DTYPE_U8"
| "to_amio_dtype Ts_Uint16 = Some AMIO_DTYPE_U16"
| "to_amio_dtype Ts_Uint32 = Some AMIO_DTYPE_U32"
| "to_amio_dtype Ts_Uint64 = Some AMIO_DTYPE_U64"
| "to_amio_dtype (Ts_Other _) = None"


section \<open>The library\<close>

record ('h, 't) tensorstore =
  tl_spec_ok :: "json \<Rightarrow> bool" \<comment> \<open>\<^verbatim>\<open>Spec::FromJson\<close> accepts the document\<close>
  tl_open :: "json \<Rightarrow> bool \<Rightarrow> 't \<Rightarrow> (string + 'h) \<times> 't" \<comment> \<open>for writing, or for reading\<close>
  tl_write :: "ts_dtype \<Rightarrow> int list \<Rightarrow> byte list option \<Rightarrow> 'h \<Rightarrow> 't \<Rightarrow> (string + unit) \<times> 't"
  tl_slice :: "nat \<Rightarrow> int \<Rightarrow> int \<Rightarrow> int \<Rightarrow> 'h \<Rightarrow> string + 'h" \<comment> \<open>\<^verbatim>\<open>Dims(d).TranslateSizedInterval\<close>\<close>
  tl_read :: "'h \<Rightarrow> ts_dtype \<Rightarrow> int list \<Rightarrow> 't \<Rightarrow> string + byte list" \<comment> \<open>the bytes put into an array of this type and shape\<close>
  tl_dtype :: "'h \<Rightarrow> ts_dtype"
  tl_shape :: "'h \<Rightarrow> int list"

record zarr_env =
  ze_conf :: conf_access
  ze_number :: "string \<Rightarrow> u64"


section \<open>The driver\<close>

record zarr_state =
  zd_is_open :: bool
  zd_is_write_mode :: bool
  zd_config :: zarr_config
  zd_attributes :: dataset_attributes
  zd_global_attrs_written :: bool
  zd_sharding_diagnostic_emitted :: bool

text \<open>The members of the TensorStore build; \<open>None\<close> is the store object without a store.\<close>

record 'h ts_driver = zarr_state +
  zt_store :: "'h option"

definition Zarr_Driver :: "'h ts_driver" where
  "Zarr_Driver =
     \<lparr>zd_is_open = False, zd_is_write_mode = False, zd_config = ZarrConfig, zd_attributes = DatasetAttributes,
      zd_global_attrs_written = False, zd_sharding_diagnostic_emitted = False, zt_store = None\<rparr>"

type_synonym ('h, 't, 'a) ts_op = "('h ts_driver \<times> 't, 'a) op"

definition ts_error :: "string \<Rightarrow> string \<Rightarrow> exn" where
  "ts_error what err_msg = runtime_error (''Zarr_Driver: '' @ what @ '' ('' @ categorize_error err_msg @ ''): '' @ err_msg)"

abbreviation beyond :: "('n, 'a) op" where
  "beyond \<equiv> \<lambda>s. (Beyond, s)"

text \<open>The first steps of both opens: the configuration and its validation.\<close>

definition zt_configure :: "manifest \<Rightarrow> ('h, 't, zarr_config) ts_op" where
  "zt_configure m =
     andThen (attempt (parse_zarr_config m)) (\<lambda>cfg.
     andThen (update_driver (\<lambda>d. d\<lparr>zd_config := cfg\<rparr>)) (\<lambda>_.
     andThen (attempt (validate_sharding cfg)) (\<lambda>_.
     andThen (attempt (zarr_validate_codec cfg)) (\<lambda>_.
     result cfg))))"

definition zt_open_store :: "('h, 't) tensorstore \<Rightarrow> json \<Rightarrow> bool \<Rightarrow> string \<Rightarrow> ('h, 't, unit) ts_op" where
  "zt_open_store lib spec for_writing what =
     (if \<not> tl_spec_ok lib spec then beyond
      else andThen (checked (ts_error what) (tl_open lib spec for_writing)) (\<lambda>h.
           update_driver (\<lambda>d. d\<lparr>zt_store := Some h\<rparr>)))"

definition zt_open_write :: "('h, 't) tensorstore \<Rightarrow> zarr_env \<Rightarrow> manifest \<Rightarrow> ('h, 't, unit) ts_op" where
  "zt_open_write lib env m =
     andThen driver (\<lambda>d0.
     if zd_is_open d0 then raise (runtime_error ''Zarr_Driver: already open'')
     else
       andThen (zt_configure m) (\<lambda>cfg.
       andThen (attempt (parse_dataset_attributes (ze_number env) (ze_conf env) m)) (\<lambda>attrs.
       andThen (update_driver (\<lambda>d. d\<lparr>zd_attributes := attrs\<rparr>)) (\<lambda>_.
       andThen (zt_open_store lib (write_spec cfg attrs) True ''failed to open TensorStore for writing'') (\<lambda>_.
       update_driver (\<lambda>d. d\<lparr>zd_is_open := True, zd_is_write_mode := True\<rparr>))))))"

definition zt_open_read :: "('h, 't) tensorstore \<Rightarrow> manifest \<Rightarrow> ('h, 't, unit) ts_op" where
  "zt_open_read lib m =
     andThen driver (\<lambda>d0.
     if zd_is_open d0 then raise (runtime_error ''Zarr_Driver: already open'')
     else
       andThen (zt_configure m) (\<lambda>cfg.
       andThen (zt_open_store lib (read_spec cfg) False ''failed to open TensorStore for reading'') (\<lambda>_.
       update_driver (\<lambda>d. d\<lparr>zd_is_open := True, zd_is_write_mode := False\<rparr>))))"

definition zt_write :: "('h, 't) tensorstore \<Rightarrow> staging_buffer \<Rightarrow> var_meta \<Rightarrow> ('h, 't, unit) ts_op" where
  "zt_write lib src meta =
     andThen driver (\<lambda>d.
     if \<not> zd_is_open d \<or> \<not> zd_is_write_mode d then raise (runtime_error ''Zarr_Driver: write called on driver not open for writing'')
     else
       let shape_vec = take (nat (sh_rank (vm_shape meta))) (sh_extents (vm_shape meta))
       in case to_ts_dtype (vm_dtype meta) of
            None \<Rightarrow> raise (runtime_error ''Zarr_Driver: unsupported dtype'')
          | Some dt \<Rightarrow>
              (case zt_store d of
                 None \<Rightarrow> beyond
               | Some h \<Rightarrow> checked (ts_error ''write failed'') (tl_write lib dt shape_vec (sb_data src) h)))"

text \<open>The extents a read selects, and the restriction of the store to a bounding box.\<close>

definition selected_shape :: "amio_shape \<Rightarrow> amio_bbox option \<Rightarrow> int list" where
  "selected_shape shape bbox =
     (case bbox of
        Some b \<Rightarrow> take (nat (bb_rank b)) (bb_extents b)
      | None \<Rightarrow> take (nat (sh_rank shape)) (sh_extents shape))"

fun restrict_store :: "('h, 't) tensorstore \<Rightarrow> amio_bbox \<Rightarrow> nat list \<Rightarrow> 'h \<Rightarrow> exn + 'h" where
  "restrict_store lib b [] h = Inr h"
| "restrict_store lib b (d # ds) h =
     (case tl_slice lib d (bb_offsets b ! d) (bb_extents b ! d) (bb_strides b ! d) h of
        Inl e \<Rightarrow> Inl (runtime_error (''Zarr_Driver: failed to restrict read domain for dimension '' @ show_nat d @ '': '' @ e))
      | Inr h' \<Rightarrow> restrict_store lib b ds h')"

definition selected_bytes :: "amio_dtype \<Rightarrow> int list \<Rightarrow> nat" where
  "selected_bytes dtype shape_vec = size_t (foldl (\<lambda>acc e. size_t (acc * to_size_t e)) 1 shape_vec * dtype_size dtype)"

definition zt_read :: "('h, 't) tensorstore \<Rightarrow> nat \<Rightarrow> var_meta \<Rightarrow> int \<Rightarrow> amio_bbox option \<Rightarrow> ('h, 't, byte list \<times> nat) ts_op" where
  "zt_read lib capacity meta timestep bbox =
     andThen driver (\<lambda>d.
     if \<not> zd_is_open d \<or> zd_is_write_mode d then raise (runtime_error ''Zarr_Driver: read called on driver not open for reading'')
     else
       let shape_vec = selected_shape (vm_shape meta) bbox;
           total_bytes = selected_bytes (vm_dtype meta) shape_vec
       in if total_bytes > capacity then
            raise (runtime_error (''Zarr_Driver: staging buffer capacity ('' @ show_nat capacity @ '' bytes) insufficient for read payload (''
              @ show_nat total_bytes @ '' bytes)''))
          else case to_ts_dtype (vm_dtype meta) of
            None \<Rightarrow> raise (runtime_error ''Zarr_Driver: unsupported dtype'')
          | Some dt \<Rightarrow>
              (case zt_store d of
                 None \<Rightarrow> beyond
               | Some h \<Rightarrow>
                   andThen (attempt (case bbox of None \<Rightarrow> Inr h | Some b \<Rightarrow> restrict_store lib b [0..<nat (bb_rank b)] h)) (\<lambda>source.
                   andThen (checked (ts_error ''read failed'') (inquire (tl_read lib source dt shape_vec))) (\<lambda>bytes.
                   if length bytes > capacity then beyond else result (bytes, total_bytes)))))"

definition zt_flush :: "('h, 't, unit) ts_op" where
  "zt_flush = result ()"

definition zt_close :: "('h, 't, unit) ts_op" where
  "zt_close =
     andThen driver (\<lambda>d.
     if \<not> zd_is_open d then result ()
     else update_driver (\<lambda>d. d\<lparr>zt_store := None, zd_is_open := False, zd_is_write_mode := False\<rparr>))"

definition zt_describe_variable :: "('h, 't) tensorstore \<Rightarrow> 'h ts_driver \<Rightarrow> string \<Rightarrow> variable_info" where
  "zt_describe_variable lib d name =
     (if \<not> zd_is_open d \<or> zd_is_write_mode d then VariableInfo
      else case zt_store d of
        None \<Rightarrow> VariableInfo
      | Some h \<Rightarrow>
          (case to_amio_dtype (tl_dtype lib h) of
             None \<Rightarrow> VariableInfo
           | Some dtype \<Rightarrow>
               let shape = tl_shape lib h; rank = length shape
               in if rank < 1 then VariableInfo
                  else
                    let (steps, ext) = (if rank \<ge> 2 then (hd shape, tl shape) else (1, shape))
                    in if length ext > AMIO_MAX_RANK then VariableInfo
                       else \<lparr>vi_found = True, vi_dtype = dtype,
                              vi_shape = \<lparr>sh_rank = int (length ext), sh_extents = ext @ replicate (AMIO_MAX_RANK - length ext) 0, sh_strides = zeros\<rparr>,
                              vi_total_timesteps = (if steps > 0 then steps else 1)\<rparr>))"

end
