(* ===== verification/Nczarr_Driver.thy ===== *)
theory Nczarr_Driver
  imports Zarr_Driver Netcdf_Driver
begin

text \<open>
  The Zarr driver in the fallback build without TensorStore (\<^verbatim>\<open>src/drivers/zarr/zarr_nczarr_fallback.cpp\<close>): the same
  configuration, stored through the NCZarr format of the netCDF library.  The library is the record of the
  NetCDF driver extended by the two calls only this driver makes; whether it was built with the Blosc and
  Zstandard filters is part of the environment.  The one-shot warning on \<^verbatim>\<open>stderr\<close> is represented by its flag.
\<close>


section \<open>Library and state\<close>

record 'n nczarr = "'n netcdf" +
  nl_def_var_chunking :: "int \<Rightarrow> int \<Rightarrow> nat list \<Rightarrow> 'n \<Rightarrow> (int + unit) \<times> 'n"
  nl_def_var_filter :: "int \<Rightarrow> int \<Rightarrow> nat \<Rightarrow> nat list \<Rightarrow> 'n \<Rightarrow> (int + unit) \<times> 'n"

record nczarr_env = zarr_env +
  ze_has_blosc :: bool
  ze_has_zstd :: bool

record nczarr_driver = zarr_state +
  zn_ncid :: int

definition Nczarr_Driver :: nczarr_driver where
  "Nczarr_Driver =
     \<lparr>zd_is_open = False, zd_is_write_mode = False, zd_config = ZarrConfig, zd_attributes = DatasetAttributes,
      zd_global_attrs_written = False, zd_sharding_diagnostic_emitted = False, zn_ncid = - 1\<rparr>"

type_synonym ('n, 'a) nz_op = "(nczarr_driver \<times> 'n, 'a) op"

definition nczarr_error :: "'n nczarr \<Rightarrow> string \<Rightarrow> int \<Rightarrow> exn" where
  "nczarr_error lib ctx st =
     runtime_error (''Zarr_Driver [NCZarr]: error in '' @ ctx @ '': '' @ nl_strerror lib st @ '' (nc_errno='' @ show_int st @ '')'')"

definition nczarr_check :: "'n nczarr \<Rightarrow> string \<Rightarrow> ('n \<Rightarrow> (int + 'a) \<times> 'n) \<Rightarrow> ('n, 'a) nz_op" where
  "nczarr_check lib ctx = checked (nczarr_error lib ctx)"

fun nczarr_dtype_to_nc_type :: "amio_dtype \<Rightarrow> exn + nc_type" where
  "nczarr_dtype_to_nc_type AMIO_DTYPE_F32 = Inr NC_FLOAT"
| "nczarr_dtype_to_nc_type AMIO_DTYPE_F64 = Inr NC_DOUBLE"
| "nczarr_dtype_to_nc_type AMIO_DTYPE_I8 = Inr NC_BYTE"
| "nczarr_dtype_to_nc_type AMIO_DTYPE_I16 = Inr NC_SHORT"
| "nczarr_dtype_to_nc_type AMIO_DTYPE_I32 = Inr NC_INT"
| "nczarr_dtype_to_nc_type AMIO_DTYPE_I64 = Inr NC_INT64"
| "nczarr_dtype_to_nc_type AMIO_DTYPE_U8 = Inr NC_UBYTE"
| "nczarr_dtype_to_nc_type AMIO_DTYPE_U16 = Inr NC_USHORT"
| "nczarr_dtype_to_nc_type AMIO_DTYPE_U32 = Inr NC_UINT"
| "nczarr_dtype_to_nc_type AMIO_DTYPE_U64 = Inr NC_UINT64"
| "nczarr_dtype_to_nc_type (AMIO_DTYPE_OTHER k) = Inl (runtime_error (''Zarr_Driver [NCZarr]: unsupported dtype '' @ show_int k))"

text \<open>The form of an emitted value follows the rules of the NetCDF driver.\<close>

definition nczarr_attribute :: "int \<Rightarrow> nc_type \<Rightarrow> string \<Rightarrow> attr_value \<Rightarrow> nc_att" where
  "nczarr_attribute varid var_nc_type name val =
     (if av_is_numeric val then
        if name = ''_FillValue'' \<and> varid \<noteq> NC_GLOBAL \<and> var_nc_type = NC_FLOAT then Att_Float (av_number val)
        else if name = ''_FillValue'' \<and> varid \<noteq> NC_GLOBAL \<and> var_nc_type = NC_DOUBLE then Att_Double (av_number val)
        else if name = ''_FillValue'' \<and> varid \<noteq> NC_GLOBAL \<and> var_nc_type = NC_INT then Att_Int (av_number val)
        else if name = ''_FillValue'' \<and> varid \<noteq> NC_GLOBAL \<and> var_nc_type = NC_INT64 then Att_Int64 (av_number val)
        else if av_is_integer val then Att_Int64 (av_number val)
        else Att_Double (av_number val)
      else Att_Text (av_text val))"

definition nczarr_write_attributes :: "'n nczarr \<Rightarrow> int \<Rightarrow> int \<Rightarrow> var_attributes \<Rightarrow> nc_type \<Rightarrow> ('n, unit) nz_op" where
  "nczarr_write_attributes lib ncid varid attrs var_nc_type =
     andThen (for_each (\<lambda>(name, val).
         let a = nczarr_attribute varid var_nc_type name val
         in nczarr_check lib (put_att_call a @ ''('' @ quoted name @ '')'') (nl_put_att lib ncid varid name a)) attrs)
       (\<lambda>_. result ())"

definition to_nczarr_uri :: "string \<Rightarrow> exn + string" where
  "to_nczarr_uri path =
     (if path = [] then Inl (runtime_error ''Zarr_Driver [NCZarr]: empty path is not valid'')
      else if has_prefix ''file://'' path then
        Inr (if contains ''#mode='' path then path else path @ ''#mode=nczarr,file'')
      else if is_cloud_uri path then
        Inl (runtime_error (''Zarr_Driver [NCZarr fallback]: cloud URIs are not supported in NCZarr mode. URI '' @ quoted path
          @ '' requires TensorStore. Rebuild with AMIO_HAS_TENSORSTORE=ON.''))
      else Inr (''file://'' @ (if path ! 0 \<noteq> CHR ''/'' then ''./'' else []) @ path @ ''#mode=nczarr,file''))"


section \<open>Opening\<close>

definition cloud_error :: "string \<Rightarrow> exn" where
  "cloud_error uri =
     runtime_error (''Zarr_Driver [NCZarr fallback]: cloud URIs (s3://, gs://, https://) are not supported in NCZarr mode. URI ''
       @ quoted uri @ '' requires TensorStore. Rebuild with AMIO_HAS_TENSORSTORE=ON.'')"

text \<open>The configuration, with the codec validated and the shard shape ignored.\<close>

definition nz_configure :: "manifest \<Rightarrow> ('n, zarr_config) nz_op" where
  "nz_configure m =
     andThen (attempt (parse_zarr_config m)) (\<lambda>cfg.
     andThen (update_driver (\<lambda>d. d\<lparr>zd_config := cfg\<rparr>)) (\<lambda>_.
     andThen (attempt (zarr_validate_codec cfg)) (\<lambda>_.
     result cfg)))"

text \<open>The rejection of cloud URIs, the warning and the NCZarr URI.\<close>

definition nz_local_uri :: "zarr_config \<Rightarrow> ('n, string) nz_op" where
  "nz_local_uri cfg =
     (if is_cloud_uri (zc_uri cfg) then raise (cloud_error (zc_uri cfg))
      else
        andThen (update_driver (\<lambda>d. d\<lparr>zd_sharding_diagnostic_emitted := True\<rparr>)) (\<lambda>_.
        attempt (to_nczarr_uri (zc_uri cfg))))"

definition nz_open_write :: "'n nczarr \<Rightarrow> nczarr_env \<Rightarrow> manifest \<Rightarrow> ('n, unit) nz_op" where
  "nz_open_write lib env m =
     andThen driver (\<lambda>d0.
     if zd_is_open d0 then raise (runtime_error ''Zarr_Driver: already open'')
     else
       andThen (nz_configure m) (\<lambda>cfg.
       andThen (attempt (parse_dataset_attributes (ze_number env) (ze_conf env) m)) (\<lambda>attrs.
       andThen (update_driver (\<lambda>d. d\<lparr>zd_attributes := attrs\<rparr>)) (\<lambda>_.
       andThen (nz_local_uri cfg) (\<lambda>uri.
       andThen (nczarr_check lib (''nc_create('' @ quoted uri @ '')'') (nl_create lib uri False None)) (\<lambda>ncid.
       andThen (update_driver (\<lambda>d. d\<lparr>zn_ncid := ncid\<rparr>)) (\<lambda>_.
       andThen (nczarr_check lib ''nc_put_att_text(Conventions)'' (nl_put_att lib ncid NC_GLOBAL ''Conventions'' (Att_Text (da_conventions attrs)))) (\<lambda>_.
       andThen (nczarr_write_attributes lib ncid NC_GLOBAL (da_global attrs) NC_NAT) (\<lambda>_.
       update_driver (\<lambda>d. d\<lparr>zd_global_attrs_written := True, zd_is_open := True, zd_is_write_mode := True\<rparr>))))))))))"

definition nz_open_read :: "'n nczarr \<Rightarrow> manifest \<Rightarrow> ('n, unit) nz_op" where
  "nz_open_read lib m =
     andThen driver (\<lambda>d0.
     if zd_is_open d0 then raise (runtime_error ''Zarr_Driver: already open'')
     else
       andThen (nz_configure m) (\<lambda>cfg.
       andThen (nz_local_uri cfg) (\<lambda>uri.
       andThen (nczarr_check lib (''nc_open('' @ quoted uri @ '')'') (nl_open lib uri None)) (\<lambda>ncid.
       update_driver (\<lambda>d. d\<lparr>zn_ncid := ncid, zd_is_open := True, zd_is_write_mode := False\<rparr>)))))"


section \<open>Writing\<close>

definition nz_dim :: "'n nczarr \<Rightarrow> int \<Rightarrow> string \<Rightarrow> amio_shape \<Rightarrow> nat \<Rightarrow> ('n, int) nz_op" where
  "nz_dim lib ncid var shape d =
     (let dim_name = var @ ''_dim'' @ show_nat d
      in andThen (ask (nl_inq_dimid lib ncid dim_name)) (\<lambda>found.
         case found of
           Inr i \<Rightarrow> result i
         | Inl _ \<Rightarrow> nczarr_check lib (''nc_def_dim('' @ quoted dim_name @ '')'') (nl_def_dim lib ncid dim_name (to_size_t (sh_extents shape ! d)))))"

text \<open>Chunk lengths: those of the configuration, the extents of the variable where it has fewer.\<close>

definition nz_chunks :: "int list \<Rightarrow> amio_shape \<Rightarrow> nat list" where
  "nz_chunks chunk_shape shape =
     map (\<lambda>d. to_size_t (if d < length chunk_shape then chunk_shape ! d else sh_extents shape ! d)) [0..<nat (sh_rank shape)]"

definition nz_deflate :: "'n nczarr \<Rightarrow> int \<Rightarrow> int \<Rightarrow> string \<Rightarrow> ('n, unit) nz_op" where
  "nz_deflate lib ncid varid name =
     nczarr_check lib (''nc_def_var_deflate('' @ quoted name @ '')'') (nl_def_var_deflate lib ncid varid 1 1 5)"

text \<open>A filter of the library, and deflate where the filter is not built in or is refused.\<close>

definition nz_filter :: "'n nczarr \<Rightarrow> bool \<Rightarrow> int \<Rightarrow> int \<Rightarrow> string \<Rightarrow> nat \<Rightarrow> nat list \<Rightarrow> ('n, unit) nz_op" where
  "nz_filter lib built_in ncid varid name filter_id params s =
     (if built_in then
        (case nl_def_var_filter lib ncid varid filter_id params (snd s) of
           (Inl _, n) \<Rightarrow> nz_deflate lib ncid varid name (fst s, n)
         | (Inr _, n) \<Rightarrow> (Done (), (fst s, n)))
      else nz_deflate lib ncid varid name s)"

definition nz_compress :: "'n nczarr \<Rightarrow> nczarr_env \<Rightarrow> int \<Rightarrow> int \<Rightarrow> var_meta \<Rightarrow> string \<Rightarrow> ('n, unit) nz_op" where
  "nz_compress lib env ncid varid meta codec =
     (if codec = ''blosc'' then
        nz_filter lib (ze_has_blosc env) ncid varid (vm_name meta) 32001 [0, 2, dtype_size (vm_dtype meta), 0, 5, 1, 0]
      else if codec = ''zstandard'' then nz_filter lib (ze_has_zstd env) ncid varid (vm_name meta) 32015 [3]
      else result ())"

definition nz_define_variable :: "'n nczarr \<Rightarrow> nczarr_env \<Rightarrow> nczarr_driver \<Rightarrow> var_meta \<Rightarrow> ('n, int) nz_op" where
  "nz_define_variable lib env d meta =
     (let ncid = zn_ncid d; name = vm_name meta; shape = vm_shape meta
      in andThen (\<lambda>s. case nl_redef lib ncid (snd s) of
                      (Inl st, n) \<Rightarrow> if st \<noteq> NC_EINDEFINE then (Throws (nczarr_error lib ''nc_redef'' st), (fst s, n)) else (Done (), (fst s, n))
                    | (Inr _, n) \<Rightarrow> (Done (), (fst s, n))) (\<lambda>_.
         andThen (for_each (nz_dim lib ncid name shape) [0..<nat (sh_rank shape)]) (\<lambda>dimids.
         andThen (attempt (nczarr_dtype_to_nc_type (vm_dtype meta))) (\<lambda>t.
         andThen (nczarr_check lib (''nc_def_var('' @ quoted name @ '')'') (nl_def_var lib ncid name t dimids)) (\<lambda>varid.
         andThen (case da_per_variable (zd_attributes d) name of
                    None \<Rightarrow> result ()
                  | Some attrs \<Rightarrow> nczarr_write_attributes lib ncid varid attrs t) (\<lambda>_.
         andThen (if zc_chunk_shape (zd_config d) = [] then result ()
                  else nczarr_check lib (''nc_def_var_chunking('' @ quoted name @ '')'')
                    (nl_def_var_chunking lib ncid varid (nz_chunks (zc_chunk_shape (zd_config d)) shape))) (\<lambda>_.
         andThen (nz_compress lib env ncid varid meta (zc_codec (zd_config d))) (\<lambda>_.
         andThen (nczarr_check lib ''nc_enddef'' (nl_enddef lib ncid)) (\<lambda>_.
         result varid)))))))))"

definition nz_write :: "'n nczarr \<Rightarrow> nczarr_env \<Rightarrow> staging_buffer \<Rightarrow> var_meta \<Rightarrow> ('n, unit) nz_op" where
  "nz_write lib env src meta =
     andThen driver (\<lambda>d.
     if \<not> zd_is_open d \<or> \<not> zd_is_write_mode d then raise (runtime_error ''Zarr_Driver: write called on driver not open for writing'')
     else
       let ncid = zn_ncid d; name = vm_name meta; rank = nat (sh_rank (vm_shape meta))
       in andThen (ask (nl_inq_varid lib ncid name)) (\<lambda>found.
          andThen (case found of
                     Inr varid \<Rightarrow> result varid
                   | Inl st \<Rightarrow>
                       if st = NC_ENOTVAR then nz_define_variable lib env d meta
                       else raise (nczarr_error lib (''nc_inq_varid('' @ quoted name @ '')'') st)) (\<lambda>varid.
          nczarr_check lib (''nc_put_vara('' @ quoted name @ '')'')
            (nl_put_vara lib ncid varid (replicate rank 0) (map to_size_t (take rank (sh_extents (vm_shape meta)))) (sb_data src)))))"


section \<open>Reading\<close>

text \<open>Offsets and counts, in arrays of as many entries as the requested shape has dimensions.\<close>

definition nz_slab :: "amio_shape \<Rightarrow> amio_bbox option \<Rightarrow> (nat list \<times> nat list) option" where
  "nz_slab shape bbox =
     (let rank = nat (sh_rank shape)
      in case bbox of
           Some b \<Rightarrow>
             let r = nat (bb_rank b)
             in if r > rank then None
                else Some (map to_size_t (take r (bb_offsets b)) @ replicate (rank - r) 0, map to_size_t (take r (bb_extents b)) @ replicate (rank - r) 0)
         | None \<Rightarrow> Some (replicate rank 0, map to_size_t (take rank (sh_extents shape))))"

definition nz_read :: "'n nczarr \<Rightarrow> nat \<Rightarrow> var_meta \<Rightarrow> int \<Rightarrow> amio_bbox option \<Rightarrow> ('n, byte list \<times> nat) nz_op" where
  "nz_read lib capacity meta timestep bbox =
     andThen driver (\<lambda>d.
     if \<not> zd_is_open d \<or> zd_is_write_mode d then raise (runtime_error ''Zarr_Driver: read called on driver not open for reading'')
     else
       let ncid = zn_ncid d; name = vm_name meta; shape = vm_shape meta
       in andThen (nczarr_check lib (''nc_inq_varid('' @ quoted name @ '') for read'') (inquire (nl_inq_varid lib ncid name))) (\<lambda>varid.
          case nz_slab shape bbox of
            None \<Rightarrow> beyond
          | Some (start, cnt) \<Rightarrow>
              let total_bytes = size_t (product_from cnt * dtype_size (vm_dtype meta))
              in if total_bytes > capacity then
                   raise (runtime_error (''Zarr_Driver [NCZarr]: staging buffer capacity ('' @ show_nat capacity
                     @ '' bytes) insufficient for read payload ('' @ show_nat total_bytes @ '' bytes)''))
                 else
                   andThen (if has_strides bbox
                            then nczarr_check lib (''nc_get_vars('' @ quoted name @ '')'')
                                   (inquire (nl_get_vars lib ncid varid start cnt (slab_strides (nat (sh_rank shape)) 0 bbox)))
                            else nczarr_check lib (''nc_get_vara('' @ quoted name @ '')'')
                                   (inquire (nl_get_vara lib ncid varid start cnt))) (\<lambda>bytes.
                   if length bytes > capacity then beyond else result (bytes, total_bytes))))"

definition nz_flush :: "'n nczarr \<Rightarrow> ('n, unit) nz_op" where
  "nz_flush lib =
     andThen driver (\<lambda>d. if \<not> zd_is_open d then result () else nczarr_check lib ''nc_sync'' (nl_sync lib (zn_ncid d)))"

definition nz_close :: "'n nczarr \<Rightarrow> ('n, unit) nz_op" where
  "nz_close lib =
     andThen driver (\<lambda>d.
     if \<not> zd_is_open d then result ()
     else
       andThen (nczarr_check lib ''nc_close'' (nl_close lib (zn_ncid d))) (\<lambda>_.
       update_driver (\<lambda>d. d\<lparr>zn_ncid := - 1, zd_is_open := False, zd_is_write_mode := False\<rparr>)))"

text \<open>Without TensorStore no variable can be described.\<close>

definition nz_describe_variable :: "nczarr_driver \<Rightarrow> string \<Rightarrow> variable_info" where
  "nz_describe_variable d name = VariableInfo"

end
