(* ===== verification/Zarr_Properties.thy ===== *)
theory Zarr_Properties
  imports Nczarr_Driver Netcdf_Properties
begin

text \<open>
  Properties of the Zarr driver in both builds: which manifests are accepted and what TensorStore is given, the
  routing of URIs, element types, failing opens, and what the fallback build cannot do.
\<close>


section \<open>Configuration\<close>

definition required_fields :: "string list" where
  "required_fields = [''uri'', ''chunk_shape'', ''shard_shape'', ''array_shape'', ''codec'']"

text \<open>The documented contents of a manifest: every required field present, with its value.\<close>

definition zarr_manifest :: "manifest \<Rightarrow> zarr_config \<Rightarrow> bool" where
  "zarr_manifest m cfg \<longleftrightarrow>
     list_all (mf_has m) required_fields
     \<and> mf_string m ''uri'' = Inr (zc_uri cfg) \<and> mf_int_list m ''chunk_shape'' = Inr (zc_chunk_shape cfg)
     \<and> mf_int_list m ''shard_shape'' = Inr (zc_shard_shape cfg) \<and> mf_int_list m ''array_shape'' = Inr (zc_array_shape cfg)
     \<and> mf_string m ''codec'' = Inr (zc_codec cfg)
     \<and> (if mf_has m ''dtype'' then mf_string m ''dtype'' = Inr (zc_dtype_str cfg) else zc_dtype_str cfg = [])"

definition zarr_layout :: "zarr_config \<Rightarrow> bool" where
  "zarr_layout cfg \<longleftrightarrow>
     list_all2 (\<lambda>c s. 0 < c \<and> 0 < s \<and> c dvd s) (zc_chunk_shape cfg) (zc_shard_shape cfg) \<and> zc_codec cfg \<in> {''blosc'', ''zstandard''}"

lemma read_field_Inr:
  "read_field m key get upd r = Inr (cfg', []) \<longleftrightarrow>
     (\<exists>cfg v. r = Inr (cfg, []) \<and> mf_has m key \<and> get key = Inr v \<and> cfg' = upd v cfg)"
  by (auto simp: read_field_def split: sum.splits prod.splits if_splits)

lemma read_dtype_Inr:
  "read_dtype m r = Inr (cfg', []) \<longleftrightarrow>
     (\<exists>cfg. r = Inr (cfg, []) \<and> (if mf_has m ''dtype'' then \<exists>v. mf_string m ''dtype'' = Inr v \<and> cfg' = cfg\<lparr>zc_dtype_str := v\<rparr> else cfg' = cfg))"
  by (auto simp: read_dtype_def split: sum.splits prod.splits if_splits)

lemma parse_zarr_config_Inr: "parse_zarr_config m = Inr cfg \<longleftrightarrow> zarr_manifest m cfg"
proof -
  let ?r = "read_dtype m
         (read_field m ''codec'' (mf_string m) (\<lambda>v c. c\<lparr>zc_codec := v\<rparr>)
         (read_field m ''array_shape'' (mf_int_list m) (\<lambda>v c. c\<lparr>zc_array_shape := v\<rparr>)
         (read_field m ''shard_shape'' (mf_int_list m) (\<lambda>v c. c\<lparr>zc_shard_shape := v\<rparr>)
         (read_field m ''chunk_shape'' (mf_int_list m) (\<lambda>v c. c\<lparr>zc_chunk_shape := v\<rparr>)
         (read_field m ''uri'' (mf_string m) (\<lambda>v c. c\<lparr>zc_uri := v\<rparr>)
           (Inr (ZarrConfig, [])))))))"
  have "parse_zarr_config m = Inr cfg \<longleftrightarrow> ?r = Inr (cfg, [])"
    unfolding parse_zarr_config_def by (auto split: sum.splits prod.splits if_splits)
  also have "\<dots> \<longleftrightarrow> zarr_manifest m cfg"
    unfolding read_dtype_Inr read_field_Inr zarr_manifest_def required_fields_def ZarrConfig_def
    by (cases cfg) auto
  finally show ?thesis .
qed

text \<open>What is missing is reported in one message, in the order of the fields.\<close>

definition readable :: "manifest \<Rightarrow> bool" where
  "readable m \<longleftrightarrow>
     list_all (\<lambda>k. mf_has m k \<longrightarrow> (\<exists>v. mf_string m k = Inr v)) [''uri'', ''codec'', ''dtype'']
     \<and> list_all (\<lambda>k. mf_has m k \<longrightarrow> (\<exists>v. mf_int_list m k = Inr v)) [''chunk_shape'', ''shard_shape'', ''array_shape'']"

lemma read_field_noted:
  assumes "mf_has m key \<Longrightarrow> \<exists>v. get key = Inr v"
  obtains cfg' where "read_field m key get upd (Inr (cfg, names)) = Inr (cfg', names @ filter (\<lambda>k. \<not> mf_has m k) [key])"
  using assms by (cases "mf_has m key") (auto simp: read_field_def)

lemma missing_fields_reported:
  assumes "readable m" and "\<not> list_all (mf_has m) required_fields"
  shows "parse_zarr_config m = Inl (missing_error (filter (\<lambda>k. \<not> mf_has m k) required_fields))"
proof -
  have str: "mf_has m ''uri'' \<Longrightarrow> \<exists>v. mf_string m ''uri'' = Inr v" "mf_has m ''codec'' \<Longrightarrow> \<exists>v. mf_string m ''codec'' = Inr v"
    "mf_has m ''dtype'' \<Longrightarrow> \<exists>v. mf_string m ''dtype'' = Inr v"
    and ints: "mf_has m ''chunk_shape'' \<Longrightarrow> \<exists>v. mf_int_list m ''chunk_shape'' = Inr v"
    "mf_has m ''shard_shape'' \<Longrightarrow> \<exists>v. mf_int_list m ''shard_shape'' = Inr v"
    "mf_has m ''array_shape'' \<Longrightarrow> \<exists>v. mf_int_list m ''array_shape'' = Inr v"
    using assms(1) by (simp_all add: readable_def)
  let ?miss = "filter (\<lambda>k. \<not> mf_has m k)"
  obtain c1 where 1: "read_field m ''uri'' (mf_string m) (\<lambda>v c. c\<lparr>zc_uri := v\<rparr>) (Inr (ZarrConfig, [])) = Inr (c1, [] @ ?miss [''uri''])"
    by (rule read_field_noted) (erule str(1))
  obtain c2 where 2: "read_field m ''chunk_shape'' (mf_int_list m) (\<lambda>v c. c\<lparr>zc_chunk_shape := v\<rparr>) (Inr (c1, [] @ ?miss [''uri'']))
      = Inr (c2, ([] @ ?miss [''uri'']) @ ?miss [''chunk_shape''])"
    by (rule read_field_noted) (erule ints(1))
  obtain c3 where 3: "read_field m ''shard_shape'' (mf_int_list m) (\<lambda>v c. c\<lparr>zc_shard_shape := v\<rparr>) (Inr (c2, ([] @ ?miss [''uri'']) @ ?miss [''chunk_shape'']))
      = Inr (c3, (([] @ ?miss [''uri'']) @ ?miss [''chunk_shape'']) @ ?miss [''shard_shape''])"
    by (rule read_field_noted) (erule ints(2))
  let ?n3 = "(([] @ ?miss [''uri'']) @ ?miss [''chunk_shape'']) @ ?miss [''shard_shape'']"
  obtain c4 where 4: "read_field m ''array_shape'' (mf_int_list m) (\<lambda>v c. c\<lparr>zc_array_shape := v\<rparr>) (Inr (c3, ?n3)) = Inr (c4, ?n3 @ ?miss [''array_shape''])"
    by (rule read_field_noted) (erule ints(3))
  obtain c5 where 5: "read_field m ''codec'' (mf_string m) (\<lambda>v c. c\<lparr>zc_codec := v\<rparr>) (Inr (c4, ?n3 @ ?miss [''array_shape'']))
      = Inr (c5, (?n3 @ ?miss [''array_shape'']) @ ?miss [''codec''])"
    by (rule read_field_noted) (erule str(2))
  have n: "(?n3 @ ?miss [''array_shape'']) @ ?miss [''codec''] = ?miss required_fields"
    unfolding required_fields_def filter_append [symmetric] by simp
  obtain c6 where 6: "read_dtype m (Inr (c5, ?miss required_fields)) = Inr (c6, ?miss required_fields)"
    using str(3) by (cases "mf_has m ''dtype''") (auto simp: read_dtype_def)
  have "?miss required_fields \<noteq> []" using assms(2) by (simp add: list_all_iff filter_empty_conv)
  then show ?thesis unfolding parse_zarr_config_def 1 2 3 4 5 n 6 by simp
qed

lemma check_shards_Inr:
  "length cs = length ss \<Longrightarrow> check_shards i cs ss = Inr () \<longleftrightarrow> list_all2 (\<lambda>c s. 0 < c \<and> 0 < s \<and> c dvd s) cs ss"
  by (induction cs ss arbitrary: i rule: list_induct2) (auto simp: dvd_eq_mod_eq_0)

lemma layout_valid: "validate_sharding cfg = Inr () \<and> zarr_validate_codec cfg = Inr () \<longleftrightarrow> zarr_layout cfg"
  by (auto simp: validate_sharding_def zarr_validate_codec_def zarr_layout_def check_shards_Inr list_all2_lengthD)


section \<open>Opening a store\<close>

lemma zt_configure_Done:
  "zt_configure m s = (Done cfg, s') \<longleftrightarrow> zarr_manifest m cfg \<and> zarr_layout cfg \<and> s' = ((fst s)\<lparr>zd_config := cfg\<rparr>, snd s)"
  unfolding zt_configure_def by (auto simp: done_iff parse_zarr_config_Inr simp flip: layout_valid)

lemma zt_open_store_Done:
  "zt_open_store lib spec for_writing what s = (Done (), s') \<longleftrightarrow>
     tl_spec_ok lib spec \<and> (\<exists>h. tl_open lib spec for_writing (snd s) = (Inr h, snd s') \<and> fst s' = (fst s)\<lparr>zt_store := Some h\<rparr>)"
  unfolding zt_open_store_def by (cases s') (auto simp: done_iff)

text \<open>The chunk grid of the specification is the shard shape, its inner chunks are the chunk shape.\<close>

lemma write_spec_shapes:
  "json_at (write_spec cfg attrs) [''metadata'', ''chunk_grid'', ''configuration'', ''chunk_shape''] = Some (int_array (zc_shard_shape cfg))"
  "json_at (write_spec cfg attrs) [''metadata'', ''codecs''] = Some (JArray [bytes_codec, sharding_codec cfg])"
  "json_at (sharding_codec cfg) [''configuration'', ''chunk_shape''] = Some (int_array (zc_chunk_shape cfg))"
  "json_at (write_spec cfg attrs) [''kvstore''] = Some (build_kvstore_spec (zc_uri cfg))"
  by (simp_all add: write_spec_def sharding_codec_def)

text \<open>
  C40.  Opening a Zarr store for writing returns exactly for a closed driver and a manifest with every required
  field, chunk shapes of positive numbers that divide the shard shapes dimension by dimension, and one of the two
  codecs, when TensorStore opens the specification made from them; the driver then holds that configuration, the
  parsed attributes and the opened store.
\<close>

theorem zarr_open_write_exact:
  "zt_open_write lib env m (d, t) = (Done (), (d', t')) \<longleftrightarrow>
     \<not> zd_is_open d \<and> (\<exists>cfg attrs h.
       zarr_manifest m cfg \<and> zarr_layout cfg \<and> parse_dataset_attributes (ze_number env) (ze_conf env) m = Inr attrs
       \<and> tl_spec_ok lib (write_spec cfg attrs) \<and> tl_open lib (write_spec cfg attrs) True t = (Inr h, t')
       \<and> d' = d\<lparr>zd_config := cfg, zd_attributes := attrs, zt_store := Some h, zd_is_open := True, zd_is_write_mode := True\<rparr>)"
proof (cases "zd_is_open d")
  case True
  then show ?thesis by (simp add: zt_open_write_def andThen_def driver_def)
next
  case False
  then show ?thesis
    unfolding zt_open_write_def by (auto simp: done_iff zt_configure_Done zt_open_store_Done)
qed


section \<open>Routing\<close>

lemma has_prefix_split: "has_prefix p s \<longleftrightarrow> s = p @ drop (length p) s"
  unfolding has_prefix_def by (metis append_eq_conv_conj append_take_drop_id)

lemma has_prefix_eq: "has_prefix p s \<Longrightarrow> has_prefix q s \<Longrightarrow> length p = length q \<Longrightarrow> p = q"
  by (metis has_prefix_def)

text \<open>The bucket ends at the first slash.\<close>

lemma bucket_split:
  "\<exists>bucket path. bucket_store drv rest = JObject [(''driver'', JString drv), (''bucket'', JString bucket), (''path'', JString path)]
     \<and> CHR ''/'' \<notin> set bucket \<and> (rest = bucket \<and> path = [] \<or> rest = bucket @ ''/'' @ path)"
proof -
  let ?b = "takeWhile (\<lambda>c. c \<noteq> CHR ''/'') rest"
  have b: "CHR ''/'' \<notin> set ?b" by (auto dest: set_takeWhileD)
  have "rest = ?b \<and> drop (Suc (length ?b)) rest = [] \<or> rest = ?b @ ''/'' @ drop (Suc (length ?b)) rest"
    by (induction rest) auto
  with b show ?thesis unfolding bucket_store_def Let_def by blast
qed

text \<open>Cloud URIs, and only they, leave the local file system.\<close>

lemma kvstore_routing:
  "json_at (build_kvstore_spec uri) [''driver''] =
     Some (JString (if has_prefix ''s3://'' uri then ''s3'' else if has_prefix ''gs://'' uri then ''gcs''
       else if has_prefix ''https://'' uri then ''http'' else ''file''))"
  "is_cloud_uri uri \<longleftrightarrow> json_at (build_kvstore_spec uri) [''driver''] \<noteq> Some (JString ''file'')"
  by (simp_all add: build_kvstore_spec_def is_cloud_uri_def bucket_store_def Let_def)

lemma bucket_of_uri:
  assumes "has_prefix ''s3://'' uri \<or> has_prefix ''gs://'' uri"
  shows "\<exists>scheme bucket path. scheme \<in> {''s3://'', ''gs://''} \<and> CHR ''/'' \<notin> set bucket
    \<and> (uri = scheme @ bucket \<and> path = [] \<or> uri = scheme @ bucket @ ''/'' @ path)
    \<and> json_at (build_kvstore_spec uri) [''bucket''] = Some (JString bucket) \<and> json_at (build_kvstore_spec uri) [''path''] = Some (JString path)"
proof -
  define scheme where "scheme = (if has_prefix ''s3://'' uri then ''s3://'' else ''gs://'')"
  obtain bucket path where b: "bucket_store (if has_prefix ''s3://'' uri then ''s3'' else ''gcs'') (drop 5 uri) =
      JObject [(''driver'', JString (if has_prefix ''s3://'' uri then ''s3'' else ''gcs'')), (''bucket'', JString bucket), (''path'', JString path)]"
    "CHR ''/'' \<notin> set bucket" "drop 5 uri = bucket \<and> path = [] \<or> drop 5 uri = bucket @ ''/'' @ path"
    using bucket_split by blast
  have "has_prefix scheme uri" "length scheme = 5" using assms by (auto simp: scheme_def)
  then have "uri = scheme @ drop 5 uri" using has_prefix_split [of scheme uri] by simp
  then have "uri = scheme @ bucket \<and> path = [] \<or> uri = scheme @ bucket @ ''/'' @ path" using b(3) by auto
  moreover have "build_kvstore_spec uri = bucket_store (if has_prefix ''s3://'' uri then ''s3'' else ''gcs'') (drop 5 uri)"
    using assms by (auto simp: build_kvstore_spec_def)
  ultimately show ?thesis using b(1,2) by (intro exI [of _ scheme] exI [of _ bucket] exI [of _ path]) (simp add: scheme_def)
qed


section \<open>Element types and time steps\<close>

lemma ts_dtype_roundtrip: "to_ts_dtype t = Some u \<longleftrightarrow> to_amio_dtype u = Some t"
  by (cases t; cases u) simp_all

text \<open>
  A store with a leading time axis is described without it, but read takes no notice of the time step: the array it
  fills has one dimension fewer than the store, and every time step is read in the same way.
\<close>

theorem zarr_timestep_ignored:
  assumes "vi_found (zt_describe_variable lib d name)" and "zt_store d = Some h" and "2 \<le> length (tl_shape lib h)"
    and "case bbox of None \<Rightarrow> True | Some b \<Rightarrow> wf_bbox b \<and> bb_rank b = sh_rank (vi_shape (zt_describe_variable lib d name))"
  shows "length (selected_shape (vi_shape (zt_describe_variable lib d name)) bbox) + 1 = length (tl_shape lib h)"
    and "zt_read lib capacity meta t1 bbox s = zt_read lib capacity meta t2 bbox s"
proof -
  have "length (tl (tl_shape lib h)) \<le> AMIO_MAX_RANK"
    and "vi_shape (zt_describe_variable lib d name) =
      \<lparr>sh_rank = int (length (tl (tl_shape lib h))),
       sh_extents = tl (tl_shape lib h) @ replicate (AMIO_MAX_RANK - length (tl (tl_shape lib h))) 0, sh_strides = zeros\<rparr>"
    using assms(1,2,3) by (auto simp: zt_describe_variable_def VariableInfo_def Let_def split: if_splits option.splits)
  with assms(3,4) show "length (selected_shape (vi_shape (zt_describe_variable lib d name)) bbox) + 1 = length (tl_shape lib h)"
    by (auto simp: selected_shape_def wf_bbox_def split: option.splits)
  show "zt_read lib capacity meta t1 bbox s = zt_read lib capacity meta t2 bbox s" by (simp add: zt_read_def)
qed


section \<open>The lifecycle\<close>

definition zarr_mode :: "'a zarr_state_scheme \<Rightarrow> mode" where
  "zarr_mode d = (if \<not> zd_is_open d then Closed else if zd_is_write_mode d then Writing else Reading)"

definition zt_backend ::
  "('h, 't) tensorstore \<Rightarrow> zarr_env \<Rightarrow>
    ('h ts_driver \<times> 't, manifest, staging_buffer \<times> var_meta, nat \<times> var_meta \<times> int \<times> amio_bbox option, byte list \<times> nat) backend" where
  "zt_backend lib env =
     \<lparr>be_mode = (\<lambda>s. zarr_mode (fst s)), be_open_write = zt_open_write lib env, be_open_read = zt_open_read lib,
      be_write = (\<lambda>(src, meta). zt_write lib src meta), be_read = (\<lambda>(capacity, meta, t, bbox). zt_read lib capacity meta t bbox),
      be_flush = zt_flush, be_close = zt_close\<rparr>"

definition nz_backend ::
  "'n nczarr \<Rightarrow> nczarr_env \<Rightarrow>
    (nczarr_driver \<times> 'n, manifest, staging_buffer \<times> var_meta, nat \<times> var_meta \<times> int \<times> amio_bbox option, byte list \<times> nat) backend" where
  "nz_backend lib env =
     \<lparr>be_mode = (\<lambda>s. zarr_mode (fst s)), be_open_write = nz_open_write lib env, be_open_read = nz_open_read lib,
      be_write = (\<lambda>(src, meta). nz_write lib env src meta), be_read = (\<lambda>(capacity, meta, t, bbox). nz_read lib capacity meta t bbox),
      be_flush = nz_flush lib, be_close = nz_close lib\<rparr>"

lemma zarr_mode_iff: "zarr_mode d \<noteq> Closed \<longleftrightarrow> zd_is_open d" "zarr_mode d = Writing \<longleftrightarrow> zd_is_open d \<and> zd_is_write_mode d"
  "zarr_mode d = Reading \<longleftrightarrow> zd_is_open d \<and> \<not> zd_is_write_mode d"
  by (auto simp: zarr_mode_def)

abbreviation zarr_opened :: "'a zarr_state_scheme \<times> 'n \<Rightarrow> bool" where
  "zarr_opened s \<equiv> zd_is_open (fst s)"

lemma keeps_zarr_checked [mode_intros]: "keeps zarr_opened (checked err g)" "keeps zarr_opened (nczarr_check lib ctx h)"
  unfolding nczarr_check_def by (rule mode_intros)+

lemma keeps_zarr_update [mode_intros]: "(\<And>d. zd_is_open (f d) = zd_is_open d) \<Longrightarrow> keeps zarr_opened (update_driver f)"
  by (rule keeps_update)

subsection \<open>The build with TensorStore\<close>

lemma keeps_zt_steps [mode_intros]: "keeps zarr_opened (zt_configure m)" "keeps zarr_opened (zt_open_store lib spec w what)"
  by (auto simp: zt_configure_def zt_open_store_def intro!: mode_intros)

lemma stays_closed_zt: "stays_off zarr_opened (zt_open_write lib env m)" "stays_off zarr_opened (zt_open_read lib m)"
  unfolding zt_open_write_def zt_open_read_def by (auto intro!: mode_intros)

lemma keeps_fst_zt: "keeps fst (zt_write lib src meta)" "keeps fst (zt_read lib capacity meta t bbox)"
  unfolding zt_write_def zt_read_def Let_def by (intro mode_intros)+

lemma zt_opens: "opens_to (\<lambda>s. zarr_mode (fst s)) Writing (zt_open_write lib env m)"
  "opens_to (\<lambda>s. zarr_mode (fst s)) Reading (zt_open_read lib m)"
proof -
  show "opens_to (\<lambda>s. zarr_mode (fst s)) Writing (zt_open_write lib env m)"
  proof (rule opens_toI [OF _ _ stays_closed_zt(1)])
    show "zarr_opened s \<Longrightarrow> \<exists>x. zt_open_write lib env m s = (Throws x, s)" for s
      by (simp add: zt_open_write_def andThen_def driver_def)
    show "zt_open_write lib env m s = (Done u, s') \<Longrightarrow> zarr_mode (fst s') = Writing" for s u s'
      by (auto simp: zt_open_write_def done_iff zarr_mode_def split: if_splits)
  qed (simp add: zarr_mode_def)
  show "opens_to (\<lambda>s. zarr_mode (fst s)) Reading (zt_open_read lib m)"
  proof (rule opens_toI [OF _ _ stays_closed_zt(2)])
    show "zarr_opened s \<Longrightarrow> \<exists>x. zt_open_read lib m s = (Throws x, s)" for s
      by (simp add: zt_open_read_def andThen_def driver_def)
    show "zt_open_read lib m s = (Done u, s') \<Longrightarrow> zarr_mode (fst s') = Reading" for s u s'
      by (auto simp: zt_open_read_def done_iff zarr_mode_def split: if_splits)
  qed (simp add: zarr_mode_def)
qed

lemma zt_admitted: "admitted_in (\<lambda>s. zarr_mode (fst s)) Writing (zt_write lib src meta)"
  "admitted_in (\<lambda>s. zarr_mode (fst s)) Reading (zt_read lib capacity meta t bbox)"
  by (rule admitted_inI [OF keeps_fst_zt(1)]; auto simp: zarr_mode_iff zt_write_def andThen_def driver_def)
     (rule admitted_inI [OF keeps_fst_zt(2)]; auto simp: zarr_mode_iff zt_read_def andThen_def driver_def)

interpretation zt: lifecycle "zt_backend lib env" for lib :: "('h, 't) tensorstore" and env
proof
  show "opens_to (be_mode (zt_backend lib env)) Writing (be_open_write (zt_backend lib env) m)"
    "opens_to (be_mode (zt_backend lib env)) Reading (be_open_read (zt_backend lib env) m)" for m
    by (simp_all add: zt_backend_def zt_opens)
  show "admitted_in (be_mode (zt_backend lib env)) Writing (be_write (zt_backend lib env) w)" for w
    by (cases w) (simp add: zt_backend_def zt_admitted)
  show "admitted_in (be_mode (zt_backend lib env)) Reading (be_read (zt_backend lib env) q)" for q
    by (cases q) (simp add: zt_backend_def zt_admitted)
  show "keeps (be_mode (zt_backend lib env)) (be_flush (zt_backend lib env))"
    by (simp add: zt_backend_def zt_flush_def keeps_simple)
qed (auto simp: zt_backend_def zarr_mode_def zt_close_def andThen_def driver_def update_driver_def split: if_splits)

subsection \<open>The fallback build\<close>

lemma keeps_fst_nczarr [mode_intros]: "keeps fst (nczarr_check lib ctx g)"
  unfolding nczarr_check_def by (rule mode_intros)

lemma keeps_nz_steps [mode_intros]:
  "keeps zarr_opened (nz_configure m)" "keeps zarr_opened (nz_local_uri cfg)" "keeps zarr_opened (nczarr_write_attributes lib ncid varid attrs t)"
  by (auto simp: nz_configure_def nz_local_uri_def nczarr_write_attributes_def Let_def intro!: mode_intros)

lemma stays_closed_nz: "stays_off zarr_opened (nz_open_write lib env m)" "stays_off zarr_opened (nz_open_read lib m)"
  unfolding nz_open_write_def nz_open_read_def by (auto intro!: mode_intros)

lemma keeps_fst_filter [mode_intros]: "keeps fst (nz_filter lib b ncid varid name i params)"
  by (auto simp: keeps_def nz_filter_def nz_deflate_def nczarr_check_def checked_def split: sum.split prod.split)

lemma keeps_fst_nz_define [mode_intros]: "keeps fst (nz_define_variable lib env d meta)"
proof -
  have "keeps fst (\<lambda>s. case nl_redef lib ncid (snd s) of
      (Inl st, n) \<Rightarrow> if st \<noteq> NC_EINDEFINE then (Throws (nczarr_error lib ''nc_redef'' st), (fst s, n)) else (Done (), (fst s, n))
    | (Inr _, n) \<Rightarrow> (Done (), (fst s, n)))" for ncid
    by (auto simp: keeps_def split: sum.split prod.split)
  then show ?thesis
    unfolding nz_define_variable_def nz_compress_def nz_dim_def nczarr_write_attributes_def Let_def by (auto intro!: mode_intros)
qed

lemma keeps_fst_nz: "keeps fst (nz_write lib env src meta)" "keeps fst (nz_read lib capacity meta t bbox)" "keeps fst (nz_flush lib)"
proof -
  show "keeps fst (nz_write lib env src meta)" unfolding nz_write_def Let_def by (intro mode_intros)
  show "keeps fst (nz_read lib capacity meta t bbox)"
    unfolding nz_read_def Let_def by (auto intro!: mode_intros split: prod.split)
  show "keeps fst (nz_flush lib)" unfolding nz_flush_def by (intro mode_intros)
qed

lemma nz_opens: "opens_to (\<lambda>s. zarr_mode (fst s)) Writing (nz_open_write lib env m)"
  "opens_to (\<lambda>s. zarr_mode (fst s)) Reading (nz_open_read lib m)"
proof -
  show "opens_to (\<lambda>s. zarr_mode (fst s)) Writing (nz_open_write lib env m)"
  proof (rule opens_toI [OF _ _ stays_closed_nz(1)])
    show "zarr_opened s \<Longrightarrow> \<exists>x. nz_open_write lib env m s = (Throws x, s)" for s
      by (simp add: nz_open_write_def andThen_def driver_def)
    show "nz_open_write lib env m s = (Done u, s') \<Longrightarrow> zarr_mode (fst s') = Writing" for s u s'
      by (auto simp: nz_open_write_def done_iff zarr_mode_def split: if_splits)
  qed (simp add: zarr_mode_def)
  show "opens_to (\<lambda>s. zarr_mode (fst s)) Reading (nz_open_read lib m)"
  proof (rule opens_toI [OF _ _ stays_closed_nz(2)])
    show "zarr_opened s \<Longrightarrow> \<exists>x. nz_open_read lib m s = (Throws x, s)" for s
      by (simp add: nz_open_read_def andThen_def driver_def)
    show "nz_open_read lib m s = (Done u, s') \<Longrightarrow> zarr_mode (fst s') = Reading" for s u s'
      by (auto simp: nz_open_read_def done_iff zarr_mode_def split: if_splits)
  qed (simp add: zarr_mode_def)
qed

lemma nz_admitted: "admitted_in (\<lambda>s. zarr_mode (fst s)) Writing (nz_write lib env src meta)"
  "admitted_in (\<lambda>s. zarr_mode (fst s)) Reading (nz_read lib capacity meta t bbox)"
  by (rule admitted_inI [OF keeps_fst_nz(1)]; auto simp: zarr_mode_iff nz_write_def andThen_def driver_def)
     (rule admitted_inI [OF keeps_fst_nz(2)]; auto simp: zarr_mode_iff nz_read_def andThen_def driver_def)

interpretation nz: lifecycle "nz_backend lib env" for lib :: "'n nczarr" and env
proof
  show "opens_to (be_mode (nz_backend lib env)) Writing (be_open_write (nz_backend lib env) m)"
    "opens_to (be_mode (nz_backend lib env)) Reading (be_open_read (nz_backend lib env) m)" for m
    by (simp_all add: nz_backend_def nz_opens)
  show "admitted_in (be_mode (nz_backend lib env)) Writing (be_write (nz_backend lib env) w)" for w
    by (cases w) (simp add: nz_backend_def nz_admitted)
  show "admitted_in (be_mode (nz_backend lib env)) Reading (be_read (nz_backend lib env) q)" for q
    by (cases q) (simp add: nz_backend_def nz_admitted)
  show "keeps (be_mode (nz_backend lib env)) (be_flush (nz_backend lib env))"
    by (simp add: nz_backend_def keeps_fst keeps_fst_nz)
qed (auto simp: nz_backend_def zarr_mode_def nz_close_def andThen_def driver_def nczarr_check_def checked_def update_driver_def
    split: sum.splits prod.splits effect.splits if_splits)

text \<open>
  C39.  The NetCDF driver and both builds of the Zarr driver follow the lifecycle of a backend.  In every sequence of
  calls on a new driver object, whichever of them throw, an open returns only while the driver is closed, a write or
  read only while it is open for writing or reading, a failing open leaves it closed and a failing call leaves its mode
  alone, and close ends the use of it: the calls and their outcomes are a run of the protocol automaton that ends in
  the mode of the driver.
\<close>

theorem driver_lifecycle:
  "modes Closed (fst (backend_run (nc_backend lib env) calls (NetCDF_Driver, n)))
     = Some (nc_mode (fst (snd (backend_run (nc_backend lib env) calls (NetCDF_Driver, n)))))
   \<and> modes Closed (fst (backend_run (zt_backend ts zenv) zcalls (Zarr_Driver, t)))
     = Some (zarr_mode (fst (snd (backend_run (zt_backend ts zenv) zcalls (Zarr_Driver, t)))))
   \<and> modes Closed (fst (backend_run (nz_backend nz nenv) ncalls (Nczarr_Driver, k)))
     = Some (zarr_mode (fst (snd (backend_run (nz_backend nz nenv) ncalls (Nczarr_Driver, k)))))"
  using nc.refines [of lib env "(NetCDF_Driver, n)" calls] zt.refines [of ts zenv "(Zarr_Driver, t)" zcalls]
    nz.refines [of nz nenv "(Nczarr_Driver, k)" ncalls]
  by (simp add: nc_backend_def nc_mode_def NetCDF_Driver_def zt_backend_def nz_backend_def zarr_mode_def Zarr_Driver_def Nczarr_Driver_def)


section \<open>Reading in the fallback build\<close>

lemma nz_slab_eq:
  assumes "sh_rank s = int r" and "case bbox of None \<Rightarrow> True | Some b \<Rightarrow> bb_rank b = int r" and "length (sh_extents s) = AMIO_MAX_RANK" and "r \<le> AMIO_MAX_RANK"
    and "sel = (case bbox of None \<Rightarrow> (zeros, sh_extents s) | Some b \<Rightarrow> (bb_offsets b, bb_extents b))"
  shows "nz_slab s bbox = Some (map to_size_t (take r (fst sel)), map to_size_t (take r (snd sel)))"
proof (cases bbox)
  case None
  have "map to_size_t (take r zeros) = replicate r 0"
    using assms(4) by (simp add: zeros_def min_def to_size_t_def)
  then show ?thesis using assms None by (simp add: nz_slab_def)
qed (use assms in \<open>simp add: nz_slab_def Let_def\<close>)

text \<open>A selection the core accepts for a shape is requested inside it, as by the NetCDF driver.\<close>

theorem nczarr_reads_inside:
  assumes "wf_shape s" and "sh_rank s = int r" and "r \<le> AMIO_MAX_RANK" and "\<forall>d < r. 0 \<le> sh_extents s ! d"
    and "validate_bbox bbox s = AMIO_OK" and "case bbox of None \<Rightarrow> True | Some b \<Rightarrow> wf_bbox b \<and> bbox_no_overflow b"
  shows "\<exists>start cnt. nz_slab s bbox = Some (start, cnt) \<and> length start = r \<and> length cnt = r
    \<and> (\<forall>d < r. \<forall>j < cnt ! d. int (start ! d) + int j * (slab_strides r 0 bbox ! d) < sh_extents s ! d)"
proof -
  define sel where "sel = (case bbox of None \<Rightarrow> (zeros, sh_extents s) | Some b \<Rightarrow> (bb_offsets b, bb_extents b))"
  have rank: "case bbox of None \<Rightarrow> True | Some b \<Rightarrow> bb_rank b = int r"
    using assms(2,5) by (auto simp: validate_bbox_def split: option.splits if_splits)
  have len: "length (fst sel) = AMIO_MAX_RANK" "length (snd sel) = AMIO_MAX_RANK"
    using assms(1,6) by (auto simp: sel_def zeros_def wf_shape_def wf_bbox_def split: option.splits)
  have "length (sh_extents s) = AMIO_MAX_RANK" using assms(1) by (simp add: wf_shape_def)
  note slab = nz_slab_eq [OF assms(2) rank this assms(3) sel_def]
  have "int (map to_size_t (take r (fst sel)) ! d) + int j * (slab_strides r 0 bbox ! d) < sh_extents s ! d"
    if "d < r" "j < map to_size_t (take r (snd sel)) ! d" for d j
    using selection_inside(1) [OF assms(1,5,6) sel_def, of d j 0] that assms(2,3,4) len by simp
  then show ?thesis using slab len assms(3) by simp
qed

end
