(* ===== verification/Fallback_Reads.thy ===== *)
theory Fallback_Reads
  imports Zarr_Properties Amio_Api
begin

text \<open>
  The core over the fallback build of the Zarr driver: since that driver describes no variable, no read of a
  Zarr dataset gets as far as the driver.
\<close>

definition describes_nothing :: "('d, 'c) amio_env \<Rightarrow> ('d \<Rightarrow> nczarr_driver) \<Rightarrow> bool" where
  "describes_nothing env drv \<longleftrightarrow> (\<forall>name d. drv_describe (en_ops env) name d = Inr (nz_describe_variable (drv d) name))"

lemma unresolved:
  assumes "describes_nothing env drv" and "ds_at w a i = Some d" and "ds_variables d = []"
  shows "resolve_variable env a i name w = (Unresolved, w)"
  using assms by (simp add: resolve_variable_def describes_nothing_def nz_describe_variable_def VariableInfo_def)

text \<open>
  With the fallback driver every read and every description of a dataset opened for reading fails with the
  backend error and changes nothing, so no variable is ever resolved: data written by this build cannot be read
  back through the library.
\<close>

theorem fallback_reads_fail:
  assumes "describes_nothing env drv" and "ds_at w a i = Some d" and "ds_variables d = []" and "ds_mode d = AMIO_MODE_READ"
    and "name \<noteq> []" and "0 \<le> t"
  shows "core_read env a i name t bbox ks w = (Rc AMIO_ERR_BACKEND_FAILURE, 0, w)"
    and "describe env a i name w = (Rc AMIO_ERR_BACKEND_FAILURE, None, w)"
  using assms unresolved [OF assms(1-3), of name] by (simp_all add: core_read_def describe_def)

text \<open>A dataset starts without resolved variables.\<close>

lemma opened_without_variables:
  assumes "open_dataset_from_config env a cfg m mode w = (Rc AMIO_OK, tok, w')" and "ds_at w a i = None" and "ds_at w' a i = Some d"
  shows "ds_variables d = []"
  using assms
  by (auto simp: open_dataset_from_config_def Let_def ds_at_def upd_core_def update_conv' split: option.splits sum.splits prod.splits if_splits)

end
