(* ===== verification/Spec2Isabelle.thy ===== *)
theory Spec2Isabelle
  imports Handle_Table Staging_Pool Comm_Split Thread_Pinning Exception_Bridge Backend_Factory
    Worker_Pool Config_Loader Prefetch_Queue Api_Properties Grib2_Properties Netcdf_Properties Zarr_Properties Fallback_Reads
begin

text \<open>
  AMIO, an asynchronous I/O library for model output, and what is proved of it.  Paths are relative
  to \<^verbatim>\<open>src/\<close>.


  \<^bold>\<open>The program.\<close>  A client calls the C interface (\<^verbatim>\<open>src/c_boundary/amio_api.cpp\<close>), which turns opaque
  tokens into pointers with the handle table and enters the core (\<^verbatim>\<open>amio_core.cpp\<close>).  A write copies the
  payload into a buffer of the staging pool and hands a task to the worker pool; worker threads run the
  tasks of one dataset and variable in submission order, call the backend driver, and store failures
  in the outcome registry of the exception bridge and in the dataset.  A read goes through a prefetch
  queue per variable, which fetches the next time steps ahead into staging buffers.  Drivers come from
  the backend factory; contexts and datasets are configured by a manifest the configuration loader
  validates.  At start-up the communicator is split into I/O ranks and the worker threads are pinned.


  \<^bold>\<open>The theories.\<close>

  \<^item> \<open>Amio_Prelude\<close>: fixed-width readings of integers, vector operations, decimal printing.
  \<^item> \<open>Amio_Types\<close> (\<^verbatim>\<open>include/amio/amio_types.h\<close>, \<^verbatim>\<open>amio_errors.h\<close>, \<^verbatim>\<open>amio_strerror.cpp\<close>): data types, shapes, bounding
    boxes, status codes.  Validation of boxes is exact below \<open>2 ^ 63\<close> and wrong beyond.
  \<^item> \<open>Handle_Table\<close> (\<^verbatim>\<open>handle_table.cpp\<close>): slots with kinds and generations.  The locale \<open>handle_store\<close> is what the
    C boundary needs of it; released tokens stay rejected.
  \<^item> \<open>Staging_Pool\<close> (\<^verbatim>\<open>staging_pool.cpp\<close>): the free list sorted by capacity, lazily committed storage, reference
    counts, growth.  The locale \<open>buffer_pool\<close> is its interface; a blocking \<^verbatim>\<open>acquire\<close> is a list of passes,
    one for each wake-up, over the states other threads leave.
  \<^item> \<open>Comm_Split\<close>, \<open>Thread_Pinning\<close>, \<open>Exception_Bridge\<close>, \<open>Backend_Factory\<close>, \<open>Config_Loader\<close>: the files of
    \<^verbatim>\<open>workers/\<close>, \<^verbatim>\<open>factory/\<close> and \<^verbatim>\<open>config/\<close> of the same names; MPI, the operating system and the manifest parser
    are parameters.
  \<^item> \<open>Worker_Pool\<close> (\<^verbatim>\<open>worker_pool.cpp\<close>): a transition system of atomic sections (submit, start, end, leave,
    shut down) in any interleaving.  The shutdown flag of a submission is read before the mutex is taken, so a submission
    that saw it clear may enqueue after the shutdown (\<open>submit_late\<close>, \<open>prefetch_late\<close>); a worker advances the sequence of
    a pair under the pair's mutex (\<open>end_write\<close>) and leaves the counters later (\<open>leave_write\<close>).  \<open>finish_write\<close> is the two
    together, as the core uses it.
  \<^item> \<open>Prefetch_Queue\<close> (\<^verbatim>\<open>prefetch_queue.cpp\<close>): scheduling, fetching and \<^verbatim>\<open>get_buffer\<close>; a waiting reader sees
    an explicit list of states at its wake-ups, with the status of the wait.
  \<^item> \<open>Buffer_Ownership\<close>: which staging buffers a prefetch queue holds, and that its operations neither
    leak nor share them.
  \<^item> \<open>Amio_Core\<close>, \<open>Amio_Api\<close> (\<^verbatim>\<open>amio_core.cpp\<close>, \<^verbatim>\<open>amio_api.cpp\<close>): contexts, datasets, tracking records and views as
    maps from addresses in a \<open>world\<close>, one definition for each entry point.  Use of a freed object is the
    outcome \<open>Undef\<close>, an exception crossing the boundary is \<open>Escapes\<close>.  Worker activity between the
    polls of a waiting call is a list of worker steps.
  \<^item> \<open>Core_Invariant\<close>, \<open>Core_Safety\<close>, \<open>Core_Lifecycle\<close>, \<open>Api_Safety\<close>: the invariant that ties tokens, records,
    tasks and buffers together, and its preservation by every entry point and worker step.
  \<^item> \<open>Api_Invariants\<close>, \<open>Api_Accounts\<close>: the locales \<open>kept_inside\<close> and \<open>kept_by_calls\<close>, which lift a condition kept by
    the primitive steps to all histories, and their interpretations (view counts, tracked writes,
    recorded failures).
  \<^item> \<open>Api_Log\<close>: drivers that log the outcomes of their writes (\<open>logs_writes\<close>).  Every driver can be observed by one
    (\<open>observed\<close>, which adds the log and changes nothing else), so a statement about the log is a statement about what
    the driver did; the locale \<open>logged\<close> ties the log to the records of writes and to the failures of datasets.
  \<^item> \<open>Api_Demo\<close>, \<open>Api_Properties\<close>: a small concrete environment, and the properties of whole histories
    of calls.
  \<^item> \<open>Grib2_Templates\<close> (\<^verbatim>\<open>drivers/grib2/grib2_driver.cpp\<close>): settings, template builders, field names.
  \<^item> \<open>Grib2_Layout\<close>, \<open>Grib2_Driver\<close>, \<open>Grib2_Properties\<close> (same file): the row-major walks of packing and of bounding
    boxes, whose closed form is \<open>unrank\<close>; the driver's operations over a record of g2c functions and a map of
    files, with the buffer of the output stream in the driver's state; round trip of fields of one and two dimensions
    over a close that could write the buffer out, termination of the scan (a \<^theory_text>\<open>partial_function\<close>), writes to a
    stream as a whole or not at all.
  \<^item> \<open>Driver_Base\<close>: outcomes of driver operations (\<open>Done\<close>, \<open>Throws\<close>, \<open>Beyond\<close> for an access outside an object), their
    sequencing, and \<^verbatim>\<open>VariableInfo\<close>.
  \<^item> \<open>Var_Attributes\<close> (\<^verbatim>\<open>drivers/common/var_attributes.cpp\<close>): attribute values and sets, the parser of the
    \<^verbatim>\<open>attributes\<close> blocks of a manifest, the texts \<^verbatim>\<open>strtod\<close> accepts.  Attributes come in the order of the lists of known keys.
  \<^item> \<open>Netcdf_Driver\<close>, \<open>Netcdf_Properties\<close> (\<^verbatim>\<open>drivers/netcdf/netcdf_driver.cpp\<close>): every operation over a record of netCDF
    functions on a library state; hyperslabs stay inside described variables, new variables get dimensions of
    their lengths, failing opens leave the driver closed.
  \<^item> \<open>Zarr_Driver\<close> (\<^verbatim>\<open>drivers/zarr/zarr_driver.cpp\<close>), \<open>Nczarr_Driver\<close> (\<^verbatim>\<open>zarr_nczarr_fallback.cpp\<close>): the two builds of
    the Zarr driver, over records of TensorStore functions and of netCDF functions; the specification handed to
    TensorStore is a JSON tree.  \<open>Zarr_Properties\<close>: which manifests are accepted, routing of URIs, what is read.
  \<^item> \<open>Driver_Lifecycle\<close> (\<^verbatim>\<open>factory/backend_driver.hpp\<close>): the documented lifecycle as an automaton over the modes closed,
    writing, reading; the locale \<open>lifecycle\<close> is the contract of the operations, interpreted on the NetCDF driver and
    on both builds of the Zarr driver, and its conclusion a refinement of the automaton.
  \<^item> \<open>Fallback_Reads\<close>: the core over the fallback build, where no read gets as far as the driver.


  \<^bold>\<open>Conventions.\<close>  Mutexes make the sections between lock and unlock atomic; interleavings are sequences
  of such sections.  In the core the callback of a write (the driver's write, the marks of the record and of the dataset,
  the release of the buffer) is one step of its worker, and so is the submission of a task: the fields are atomics that
  a polling call reads one at a time, and the order of the marks inside a step is not observed by the properties.  A
  callback never meets a freed context or dataset; the branch of \<open>write_callback\<close> for it does nothing, and the first
  property shows that the worker tasks of every history refer to objects that exist.  Values of \<^verbatim>\<open>size_t\<close> are naturals reduced by \<open>size_t\<close> where the code can wrap, signed 64-bit
  values integers with \<open>i64\<close>, handle tokens and generations words.  No definition uses fuel: loops are
  structural, or recursive with a termination proof, and waits consume their list of wake-ups.


  \<^bold>\<open>Not modelled.\<close>  The Fortran bindings, the examples, tests, build files; log
  output; the bodies of third-party libraries (conf, MPI, g2c, netCDF, TensorStore), which are
  parameters where a modelled function calls them.
\<close>

end
